(* ===== verification/Prelude.thy ===== *)
theory Prelude
  imports Main "HOL-Library.Word"
begin

text \<open>
  What the components share: the types that stand for Go's results, Go's string
  functions (package \<open>strings\<close>) on byte strings, finite maps read as sets of
  keys, and the collections of rewrite rules the component proofs use.

  A Go function that returns \<open>(T, error)\<close> is a function into \<open>'e + 'a\<close>: \<open>Inl e\<close> is
  the early return with the error \<open>e\<close>, \<open>Inr v\<close> the return with a nil error.
  A Go string is a byte string, so \<open>char list\<close> (a \<open>char\<close> is one byte).
\<close>

section \<open>Collections of rules\<close>

named_theorems go_string \<open>equations of the string functions\<close>
named_theorems go_model \<open>definitions of operations, unfolded by the component proofs\<close>

section \<open>Results\<close>

type_synonym ('e, 'a) result = "'e + 'a"

text \<open>A call that takes locks or sends on channels returns or waits for ever.\<close>

datatype 'a outcome = Returns 'a | Blocks

definition is_ok :: "('e, 'a) result \<Rightarrow> bool" where
  "is_ok r = (case r of Inl _ \<Rightarrow> False | Inr _ \<Rightarrow> True)"

lemma is_ok_simps [simp]: "is_ok (Inr v)" "\<not> is_ok (Inl e)"
  by (simp_all add: is_ok_def)

lemma is_ok_conv: "is_ok r \<longleftrightarrow> (\<exists>v. r = Inr v)"
  by (cases r) auto

definition bind_ok :: "('e, 'a) result \<Rightarrow> ('a \<Rightarrow> ('e, 'b) result) \<Rightarrow> ('e, 'b) result" where
  "bind_ok r f = (case r of Inl e \<Rightarrow> Inl e | Inr v \<Rightarrow> f v)"

lemma bind_ok_simps [simp]:
  "bind_ok (Inl e) f = Inl e"
  "bind_ok (Inr v) f = f v"
  by (simp_all add: bind_ok_def)

lemma bind_ok_Inr: "bind_ok r f = Inr w \<longleftrightarrow> (\<exists>v. r = Inr v \<and> f v = Inr w)"
  by (cases r) auto

section \<open>Strings\<close>

text \<open>The classes of bytes that Go programs test by comparing with the ends of a range.\<close>

definition byte_in :: "char \<Rightarrow> char \<Rightarrow> char \<Rightarrow> bool" where
  "byte_in lo hi c \<longleftrightarrow> (of_char c :: nat) \<in> {of_char lo .. of_char hi}"

definition is_digit :: "char \<Rightarrow> bool" where
  "is_digit = byte_in (CHR ''0'') (CHR ''9'')"

definition is_letter :: "char \<Rightarrow> bool" where
  "is_letter c \<longleftrightarrow> byte_in (CHR ''A'') (CHR ''Z'') c \<or> byte_in (CHR ''a'') (CHR ''z'') c"

definition has_prefix :: "string \<Rightarrow> string \<Rightarrow> bool" where
  "has_prefix s p = (take (length p) s = p)"

definition has_suffix :: "string \<Rightarrow> string \<Rightarrow> bool" where
  "has_suffix s p = (length p \<le> length s \<and> drop (length s - length p) s = p)"

definition trim_prefix :: "string \<Rightarrow> string \<Rightarrow> string" where
  "trim_prefix s p = (if has_prefix s p then drop (length p) s else s)"

definition trim_suffix :: "string \<Rightarrow> string \<Rightarrow> string" where
  "trim_suffix s p = (if has_suffix s p then take (length s - length p) s else s)"

text \<open>\<open>strings.TrimRight(s, cutset)\<close> for a cutset of one character.\<close>

definition trim_right :: "string \<Rightarrow> char \<Rightarrow> string" where
  "trim_right s c = rev (dropWhile (\<lambda>x. x = c) (rev s))"

text \<open>\<open>strings.SplitN(s, sep, n)\<close> and \<open>strings.Split(s, sep)\<close> for a separator of one character.\<close>

fun split_n :: "nat \<Rightarrow> char \<Rightarrow> string \<Rightarrow> string list" where
  "split_n 0 c s = []"
| "split_n (Suc n) c s =
     (if n = 0 \<or> c \<notin> set s then [s]
      else takeWhile (\<lambda>x. x \<noteq> c) s # split_n n c (tl (dropWhile (\<lambda>x. x \<noteq> c) s)))"

definition split_all :: "char \<Rightarrow> string \<Rightarrow> string list" where
  "split_all c s = split_n (Suc (length s)) c s"

fun join :: "string \<Rightarrow> string list \<Rightarrow> string" where
  "join sep [] = []"
| "join sep [s] = s"
| "join sep (s # t # ts) = s @ sep @ join sep (t # ts)"

text \<open>
  \<open>strings.ToLower\<close> and \<open>strings.ToUpper\<close> on ASCII strings. On a string with a byte above
  127 Go maps the decoded runes through the Unicode tables: that part of \<open>to_upper\<close> is
  its first argument.
\<close>

definition is_ascii :: "string \<Rightarrow> bool" where
  "is_ascii s = list_all (\<lambda>c. of_char c < (128::nat)) s"

definition ascii_lower :: "char \<Rightarrow> char" where
  "ascii_lower c =
     (let n = of_char c :: nat in if 65 \<le> n \<and> n \<le> 90 then char_of (n + 32) else c)"

definition ascii_upper :: "char \<Rightarrow> char" where
  "ascii_upper c =
     (let n = of_char c :: nat in if 97 \<le> n \<and> n \<le> 122 then char_of (n - 32) else c)"

definition to_lower :: "string \<Rightarrow> string" where
  "to_lower s = map ascii_lower s"

definition to_upper :: "(string \<Rightarrow> string) \<Rightarrow> string \<Rightarrow> string" where
  "to_upper unicode_upper s = (if is_ascii s then map ascii_upper s else unicode_upper s)"

text \<open>\<open>strconv.FormatInt\<close> for a number that is not negative.\<close>

fun itoa :: "nat \<Rightarrow> string" where
  "itoa n = (if n < 10 then [char_of (48 + n)] else itoa (n div 10) @ [char_of (48 + n mod 10)])"

declare itoa.simps [simp del]

lemma has_prefix_append [simp, go_string]: "has_prefix (p @ s) p"
  by (simp add: has_prefix_def)

lemma has_prefix_conv: "has_prefix s p \<longleftrightarrow> (\<exists>t. s = p @ t)"
  by (metis append_take_drop_id has_prefix_append has_prefix_def)

lemma has_prefix_Nil [simp]: "has_prefix s []"
  by (simp add: has_prefix_def)

lemma has_suffix_append [simp, go_string]: "has_suffix (s @ p) p"
  by (simp add: has_suffix_def)

lemma has_suffix_conv: "has_suffix s p \<longleftrightarrow> (\<exists>t. s = t @ p)"
  by (metis append_take_drop_id has_suffix_append has_suffix_def)

lemma trim_prefix_append [simp, go_string]: "trim_prefix (p @ s) p = s"
  by (simp add: trim_prefix_def)

lemma trim_suffix_append [simp, go_string]: "trim_suffix (s @ p) p = s"
  by (simp add: trim_suffix_def)

lemma length_trim_prefix: "length (trim_prefix s p) \<le> length s"
  by (simp add: trim_prefix_def)

lemma dropWhile_tl_split:
  assumes "c \<in> set s"
  shows "s = takeWhile (\<lambda>x. x \<noteq> c) s @ c # tl (dropWhile (\<lambda>x. x \<noteq> c) s)"
  using assms by (induction s) auto

lemma split_n_not_Nil: "split_n (Suc n) c s \<noteq> []"
  by simp

text \<open>Splitting loses nothing: joining the parts with the separator gives the string back.\<close>

lemma join_split_n: "join [c] (split_n (Suc n) c s) = s"
proof (induction n arbitrary: s)
  case 0
  then show ?case by simp
next
  case (Suc n)
  show ?case
  proof (cases "c \<in> set s")
    case True
    let ?t = "tl (dropWhile (\<lambda>x. x \<noteq> c) s)"
    obtain y ys where y: "split_n (Suc n) c ?t = y # ys"
      using split_n_not_Nil by (cases "split_n (Suc n) c ?t") blast+
    then have "join [c] (split_n (Suc (Suc n)) c s) = takeWhile (\<lambda>x. x \<noteq> c) s @ [c] @ join [c] (y # ys)"
      using True by simp
    also have "join [c] (y # ys) = ?t"
      using Suc [of ?t] y by simp
    also have "takeWhile (\<lambda>x. x \<noteq> c) s @ [c] @ ?t = s"
      using dropWhile_tl_split [OF True] by simp
    finally show ?thesis .
  next
    case False
    then show ?thesis by simp
  qed
qed

lemma join_split_all: "join [c] (split_all c s) = s"
  by (simp only: split_all_def join_split_n)

lemma length_split_n: "length (split_n n c s) \<le> n"
  by (induction n c s rule: split_n.induct) auto

text \<open>The parts of a full split do not contain the separator.\<close>

lemma split_n_no_sep:
  "length s < n \<Longrightarrow> p \<in> set (split_n n c s) \<Longrightarrow> c \<notin> set p"
proof (induction n c s rule: split_n.induct)
  case (1 c s)
  then show ?case by simp
next
  case (2 n c s)
  show ?case
  proof (cases "n = 0 \<or> c \<notin> set s")
    case True
    with "2.prems" show ?thesis by (cases s) auto
  next
    case False
    then have "length (tl (dropWhile (\<lambda>x. x \<noteq> c) s)) < length s"
      using dropWhile_tl_split [of c s] by (metis add_Suc_right le_add2 length_Cons length_append less_Suc_eq_le)
    with "2.prems" False "2.IH" show ?thesis
      by (auto dest: set_takeWhileD)
  qed
qed

lemma split_all_no_sep: "p \<in> set (split_all c s) \<Longrightarrow> c \<notin> set p"
  unfolding split_all_def by (rule split_n_no_sep [of s "Suc (length s)"]) simp_all

lemma join_append: "xs \<noteq> [] \<Longrightarrow> ys \<noteq> [] \<Longrightarrow> join [c] (xs @ ys) = join [c] xs @ c # join [c] ys"
proof (induction "[c]" xs rule: join.induct)
  case (2 s)
  then show ?case
    by (cases ys) simp_all
qed simp_all

lemma length_join: "length xs \<le> Suc (length (join [c] xs))"
  by (induction "[c]" xs rule: join.induct) auto

lemma split_n_join:
  "xs \<noteq> [] \<Longrightarrow> \<forall>p \<in> set xs. c \<notin> set p \<Longrightarrow> length xs \<le> n \<Longrightarrow> split_n n c (join [c] xs) = xs"
proof (induction n arbitrary: xs)
  case (Suc n)
  then obtain x ys where xs: "xs = x # ys"
    by (cases xs) auto
  show ?case
  proof (cases ys)
    case Nil
    then show ?thesis
      using Suc.prems xs by simp
  next
    case (Cons y zs)
    have "c \<notin> set x"
      using Suc.prems xs by simp
    then have "takeWhile (\<lambda>z. z \<noteq> c) (x @ c # w) = x" "dropWhile (\<lambda>z. z \<noteq> c) (x @ c # w) = c # w" for w
      by (induction x) auto
    moreover have "split_n n c (join [c] ys) = ys"
      using Suc.prems xs Cons by (intro Suc.IH) auto
    ultimately show ?thesis
      using Suc.prems(3) xs Cons by simp
  qed
qed simp

text \<open>Splitting is the inverse of joining parts without the separator, so it distributes over it.\<close>

lemma split_all_join: "xs \<noteq> [] \<Longrightarrow> \<forall>p \<in> set xs. c \<notin> set p \<Longrightarrow> split_all c (join [c] xs) = xs"
  unfolding split_all_def by (rule split_n_join) (simp_all add: length_join)

lemma split_all_not_Nil [simp]: "split_all c s \<noteq> []"
  by (simp add: split_all_def)

lemma split_all_append: "split_all c (a @ c # b) = split_all c a @ split_all c b"
proof -
  have "a @ c # b = join [c] (split_all c a @ split_all c b)"
    by (simp add: join_append join_split_all)
  then show ?thesis
    using split_all_join [of "split_all c a @ split_all c b" c] split_all_no_sep [of _ c] by auto
qed

lemma split_all_single: "c \<notin> set s \<Longrightarrow> split_all c s = [s]"
  by (simp add: split_all_def)

section \<open>Maps\<close>

lemma dom_minus_upd [simp]: "dom (m(k := None)) = dom m - {k}"
  by auto

lemma map_of_Some_fst: "map_of xs x = Some y \<Longrightarrow> x \<in> fst ` set xs"
  by (force dest: map_of_SomeD)

lemma map_of_None_fst: "map_of xs x = None \<Longrightarrow> x \<notin> fst ` set xs"
  by (simp add: map_of_eq_None_iff)

lemma map_of_not_fst: "x \<notin> fst ` set xs \<Longrightarrow> map_of xs x = None"
  by (simp add: map_of_eq_None_iff)

lemma find_SomeD: "find P xs = Some x \<Longrightarrow> x \<in> set xs \<and> P x"
  by (induction xs) (auto split: if_splits)

end
