(* ===== verification/Base32.thy ===== *)
theory Base32
  imports Prelude
begin

text \<open>
  Go's \<open>encoding/base32\<close> with the standard alphabet and no padding, as \<open>keystore\<close> uses it
  (\<open>base32.StdEncoding.WithPadding(base32.NoPadding)\<close>). Bytes and 5-bit digits are natural
  numbers; a left shift is a multiplication cut to the width, a right shift a division, and
  the disjunction of two values with no common bit is their sum. The lemmas show that
  decoding an encoding gives the bytes back and which characters an encoding has.
\<close>

section \<open>Digits\<close>

definition b32_alphabet :: string where
  "b32_alphabet = ''ABCDEFGHIJKLMNOPQRSTUVWXYZ234567''"

definition b32_char :: "nat \<Rightarrow> char" where
  "b32_char d = b32_alphabet ! d"

text \<open>The decoding table: \<open>0xFF\<close> in Go, \<open>None\<close> here, for a byte outside the alphabet.\<close>

fun index_of :: "'a \<Rightarrow> 'a list \<Rightarrow> nat option" where
  "index_of x [] = None"
| "index_of x (y # ys) = (if x = y then Some 0 else map_option Suc (index_of x ys))"

definition b32_digit :: "char \<Rightarrow> nat option" where
  "b32_digit c = index_of c b32_alphabet"

section \<open>Encoding\<close>

fun b32_encode_digits :: "nat list \<Rightarrow> nat list" where
  "b32_encode_digits [] = []"
| "b32_encode_digits [a] = [a div 8, (a * 4) mod 32]"
| "b32_encode_digits [a, b] =
     [a div 8, (a * 4) mod 32 + b div 64, (b div 2) mod 32, (b * 16) mod 32]"
| "b32_encode_digits [a, b, c] =
     [a div 8, (a * 4) mod 32 + b div 64, (b div 2) mod 32, (b * 16) mod 32 + c div 16,
      (c * 2) mod 32]"
| "b32_encode_digits [a, b, c, d] =
     [a div 8, (a * 4) mod 32 + b div 64, (b div 2) mod 32, (b * 16) mod 32 + c div 16,
      (c * 2) mod 32 + d div 128, (d div 4) mod 32, (d * 8) mod 32]"
| "b32_encode_digits (a # b # c # d # e # rest) =
     [a div 8, (a * 4) mod 32 + b div 64, (b div 2) mod 32, (b * 16) mod 32 + c div 16,
      (c * 2) mod 32 + d div 128, (d div 4) mod 32, (d * 8) mod 32 + e div 32, e mod 32]
     @ b32_encode_digits rest"

definition b32_encode :: "string \<Rightarrow> string" where
  "b32_encode s = map b32_char (b32_encode_digits (map of_char s))"

section \<open>Decoding\<close>

text \<open>
  One quantum of up to eight digits. The switch of the Go code has the cases 8, 7, 5, 4 and 2
  only: a last quantum of 1, 3 or 6 digits adds no byte and is no error.
\<close>

fun b32_decode_digits :: "nat list \<Rightarrow> nat list" where
  "b32_decode_digits [a, b] = [(a * 8) mod 256 + b div 4]"
| "b32_decode_digits [a, b, c, d] =
     [(a * 8) mod 256 + b div 4, (b * 64) mod 256 + c * 2 + d div 16]"
| "b32_decode_digits [a, b, c, d, e] =
     [(a * 8) mod 256 + b div 4, (b * 64) mod 256 + c * 2 + d div 16,
      (d * 16) mod 256 + e div 2]"
| "b32_decode_digits [a, b, c, d, e, f, g] =
     [(a * 8) mod 256 + b div 4, (b * 64) mod 256 + c * 2 + d div 16,
      (d * 16) mod 256 + e div 2, (e * 128) mod 256 + f * 4 + g div 8]"
| "b32_decode_digits (a # b # c # d # e # f # g # h # rest) =
     [(a * 8) mod 256 + b div 4, (b * 64) mod 256 + c * 2 + d div 16,
      (d * 16) mod 256 + e div 2, (e * 128) mod 256 + f * 4 + g div 8, (g * 32) mod 256 + h]
     @ b32_decode_digits rest"
| "b32_decode_digits _ = []"

text \<open>\<open>DecodeString\<close> first drops the newlines, then maps every byte through the table.\<close>

definition b32_decode :: "string \<Rightarrow> string option" where
  "b32_decode s =
     map_option (\<lambda>ds. map char_of (b32_decode_digits ds))
       (those (map b32_digit (filter (\<lambda>c. c \<noteq> CHR 0x0A \<and> c \<noteq> CHR 0x0D) s)))"

section \<open>Lemmas\<close>

lemma length_b32_alphabet [simp]: "length b32_alphabet = 32"
  by (simp add: b32_alphabet_def)

lemma b32_table:
  "list_all (\<lambda>d. b32_digit (b32_char d) = Some d
     \<and> b32_char d \<noteq> CHR 0x0A \<and> b32_char d \<noteq> CHR 0x0D) [0..<32]"
  by code_simp

lemma b32_table_at:
  assumes "d < 32"
  shows "b32_digit (b32_char d) = Some d"
    and "b32_char d \<noteq> CHR 0x0A" and "b32_char d \<noteq> CHR 0x0D"
  using assms b32_table by (simp_all add: list_all_iff)

subsection \<open>Arithmetic of one quantum\<close>

lemma shl_cut: "(y::nat) < n \<Longrightarrow> 0 < k \<Longrightarrow> ((x * n + y) * k) mod (n * k) = y * k"
  by (simp add: mult_mod_left [symmetric])

lemma shl_mod32:
  fixes x :: nat
  shows "(x * 4) mod 32 = x mod 8 * 4" "(x * 16) mod 32 = x mod 2 * 16"
    "(x * 2) mod 32 = x mod 16 * 2" "(x * 8) mod 32 = x mod 4 * 8"
  using mult_mod_left [of x 8 4] mult_mod_left [of x 2 16] mult_mod_left [of x 16 2]
    mult_mod_left [of x 4 8] by simp_all

lemma three_fields:
  fixes b k :: nat
  shows "b div (k * m) * (m * k) + b div k mod m * k + b mod k = b"
proof -
  have "b div (k * m) = b div k div m"
    by (rule div_mult2_eq)
  then have "b div (k * m) * (m * k) + b div k mod m * k + b mod k
      = (b div k div m * m + b div k mod m) * k + b mod k"
    by (simp only: distrib_right mult.assoc)
  also have "\<dots> = b"
    by (simp only: div_mult_mod_eq)
  finally show ?thesis .
qed

lemma quantum_0: "(a::nat) < 256 \<Longrightarrow> b < 256 \<Longrightarrow>
    (a div 8 * 8) mod 256 + ((a * 4) mod 32 + b div 64) div 4 = a"
  by (simp add: shl_mod32 less_mult_imp_div_less)

lemma quantum_1: "(b::nat) < 256 \<Longrightarrow> c < 256 \<Longrightarrow>
    (((a * 4) mod 32 + b div 64) * 64) mod 256 + (b div 2) mod 32 * 2
      + ((b * 16) mod 32 + c div 16) div 16 = b"
  using shl_cut [of "b div 64" 4 64 "a mod 8"] three_fields [of b 2 32]
  by (simp add: shl_mod32 less_mult_imp_div_less)

lemma quantum_2: "(c::nat) < 256 \<Longrightarrow> d < 256 \<Longrightarrow>
    (((b * 16) mod 32 + c div 16) * 16) mod 256 + ((c * 2) mod 32 + d div 128) div 2 = c"
  using shl_cut [of "c div 16" 16 16 "b mod 2"]
  by (simp add: shl_mod32 less_mult_imp_div_less)

lemma quantum_3: "(d::nat) < 256 \<Longrightarrow> e < 256 \<Longrightarrow>
    (((c * 2) mod 32 + d div 128) * 128) mod 256 + (d div 4) mod 32 * 4
      + ((d * 8) mod 32 + e div 32) div 8 = d"
  using shl_cut [of "d div 128" 2 128 "c mod 16"] three_fields [of d 4 32]
  by (simp add: shl_mod32 less_mult_imp_div_less)

lemma quantum_4: "(e::nat) < 256 \<Longrightarrow>
    (((d * 8) mod 32 + e div 32) * 32) mod 256 + e mod 32 = e"
  using shl_cut [of "e div 32" 8 32 "d mod 4"]
  by (simp add: shl_mod32 less_mult_imp_div_less)

lemmas quantum = quantum_0 quantum_1 quantum_2 quantum_3 quantum_4
lemmas quantum_last =
  quantum_0 [where b = 0, unfolded div_0 add_0_right]
  quantum_1 [where c = 0, unfolded div_0 add_0_right]
  quantum_2 [where d = 0, unfolded div_0 add_0_right]
  quantum_3 [where e = 0, unfolded div_0 add_0_right]
lemmas quantum_eqs = b32_encode_digits.simps b32_decode_digits.simps append_Cons append_Nil

subsection \<open>Decoding inverts encoding\<close>

lemma b32_decode_encode_digits:
  "\<forall>x \<in> set bs. x < 256 \<Longrightarrow> b32_decode_digits (b32_encode_digits bs) = bs"
proof (induction bs rule: b32_encode_digits.induct)
  case 1
  show ?case by simp
next
  case (2 a)
  then have "a < 256" by simp
  then show ?case by (simp only: quantum_eqs quantum_last zero_less_numeral)
next
  case (3 a b)
  then have "a < 256" "b < 256" by simp_all
  then show ?case by (simp only: quantum_eqs quantum quantum_last zero_less_numeral)
next
  case (4 a b c)
  then have "a < 256" "b < 256" "c < 256" by simp_all
  then show ?case by (simp only: quantum_eqs quantum quantum_last zero_less_numeral)
next
  case (5 a b c d)
  then have "a < 256" "b < 256" "c < 256" "d < 256" by simp_all
  then show ?case by (simp only: quantum_eqs quantum quantum_last zero_less_numeral)
next
  case (6 a b c d e rest)
  then have "a < 256" "b < 256" "c < 256" "d < 256" "e < 256"
    "b32_decode_digits (b32_encode_digits rest) = rest" by simp_all
  then show ?case by (simp only: quantum_eqs quantum)
qed

lemma digit_bounds:
  fixes x y :: nat
  shows "y < 4 \<Longrightarrow> x mod 8 * 4 + y < 32" "y < 16 \<Longrightarrow> x mod 2 * 16 + y < 32"
    "y < 2 \<Longrightarrow> x mod 16 * 2 + y < 32" "y < 8 \<Longrightarrow> x mod 4 * 8 + y < 32"
  using mod_less_divisor [of 8 x] mod_less_divisor [of 2 x] mod_less_divisor [of 16 x]
    mod_less_divisor [of 4 x] by linarith+

lemma b32_encode_digits_range:
  "\<forall>x \<in> set bs. x < 256 \<Longrightarrow> d \<in> set (b32_encode_digits bs) \<Longrightarrow> d < 32"
  by (induction bs rule: b32_encode_digits.induct)
    (auto simp: shl_mod32 less_mult_imp_div_less intro: digit_bounds
      digit_bounds [where y = 0, simplified])

lemma those_map_Some: "those (map Some xs) = Some xs"
  by (induction xs) auto

lemma b32_decode_encode: "b32_decode (b32_encode s) = Some s"
proof -
  let ?bs = "map of_char s :: nat list"
  let ?ds = "b32_encode_digits ?bs"
  have bs: "\<forall>x \<in> set ?bs. x < 256"
    by auto
  have ds: "\<And>d. d \<in> set ?ds \<Longrightarrow> d < 32"
    using b32_encode_digits_range [OF bs] .
  have "filter (\<lambda>c. c \<noteq> CHR 0x0A \<and> c \<noteq> CHR 0x0D) (map b32_char ?ds) = map b32_char ?ds"
    by (rule filter_True) (auto dest!: ds dest: b32_table_at(2,3))
  moreover have "map b32_digit (map b32_char ?ds) = map Some ?ds"
    using ds b32_table_at(1) by auto
  ultimately have "b32_decode (b32_encode s) = Some (map char_of (b32_decode_digits ?ds))"
    by (simp add: b32_decode_def b32_encode_def those_map_Some del: map_map)
  then show ?thesis
    by (simp add: b32_decode_encode_digits [OF bs] o_def)
qed

end
