(* ===== verification/Keystore.thy ===== *)
theory Keystore
  imports Base32
begin

text \<open>
  The package \<open>keystore\<close>: the interface \<open>Keystore\<close> as a locale, the store in a directory
  (\<open>FSKeystore\<close>, src/keystore/keystore.go) and the store in memory (\<open>MemKeystore\<close>,
  src/keystore/memkeystore.go) as its two interpretations.

  A key is a value of a type \<open>'k\<close>; libp2p's \<open>MarshalPrivateKey\<close> and \<open>UnmarshalPrivateKey\<close>
  are the parameters \<open>marshal\<close> and \<open>unmarshal\<close>. The directory of the store is a record:
  its entries in directory order, and the failures the operating system would report for
  a path, for the directory, and in the middle of a write.
\<close>

section \<open>Errors and the operating system\<close>

datatype os_error = OsExist | OsNotExist | OsOther string

datatype ks_error =
    ErrNoSuchKey
  | ErrKeyExists
  | ErrEmptyName
  | ErrUnexpectedFormat
  | ErrCorruptInput
  | ErrKeyCodec string
  | ErrOS os_error

record fs_dir =
  entries :: "(string \<times> string) list"
  fault :: "string \<Rightarrow> string option"
  write_fault :: "string \<Rightarrow> (nat \<times> string) option"
  dir_fault :: "string option"

definition os_stat :: "fs_dir \<Rightarrow> string \<Rightarrow> (os_error, string) result" where
  "os_stat d p =
     (case fault d p of
        Some e \<Rightarrow> Inl (OsOther e)
      | None \<Rightarrow> (case map_of (entries d) p of None \<Rightarrow> Inl OsNotExist | Some b \<Rightarrow> Inr b))"

text \<open>\<open>OpenFile\<close> with \<open>O_CREATE|O_EXCL|O_WRONLY\<close> followed by one \<open>Write\<close>.\<close>

definition os_create_excl :: "fs_dir \<Rightarrow> string \<Rightarrow> fs_dir \<times> (os_error, unit) result" where
  "os_create_excl d p =
     (case os_stat d p of
        Inl OsNotExist \<Rightarrow> (d\<lparr>entries := entries d @ [(p, [])]\<rparr>, Inr ())
      | Inl e \<Rightarrow> (d, Inl e)
      | Inr _ \<Rightarrow> (d, Inl OsExist))"

definition set_content :: "string \<Rightarrow> string \<Rightarrow> (string \<times> string) list \<Rightarrow> (string \<times> string) list" where
  "set_content p b es = map (\<lambda>(q, c). if q = p then (q, b) else (q, c)) es"

definition os_write :: "fs_dir \<Rightarrow> string \<Rightarrow> string \<Rightarrow> fs_dir \<times> (os_error, unit) result" where
  "os_write d p b =
     (case write_fault d p of
        Some (n, e) \<Rightarrow> (d\<lparr>entries := set_content p (take n b) (entries d)\<rparr>, Inl (OsOther e))
      | None \<Rightarrow> (d\<lparr>entries := set_content p b (entries d)\<rparr>, Inr ()))"

definition os_remove :: "fs_dir \<Rightarrow> string \<Rightarrow> fs_dir \<times> (os_error, unit) result" where
  "os_remove d p =
     (case os_stat d p of
        Inl e \<Rightarrow> (d, Inl e)
      | Inr _ \<Rightarrow> (d\<lparr>entries := filter (\<lambda>(q, _). q \<noteq> p) (entries d)\<rparr>, Inr ()))"

text \<open>\<open>os.Mkdir\<close>: \<open>None\<close> is a directory that does not exist.\<close>

definition empty_dir :: fs_dir where
  "empty_dir = \<lparr>entries = [], fault = (\<lambda>_. None), write_fault = (\<lambda>_. None), dir_fault = None\<rparr>"

definition os_mkdir :: "fs_dir option \<Rightarrow> string option \<Rightarrow> (os_error, fs_dir) result" where
  "os_mkdir d mkfault =
     (case d of
        Some _ \<Rightarrow> Inl OsExist
      | None \<Rightarrow> (case mkfault of Some e \<Rightarrow> Inl (OsOther e) | None \<Rightarrow> Inr empty_dir))"

section \<open>File names of keys\<close>

definition keyFilenamePrefix :: string where
  "keyFilenamePrefix = ''key_''"

definition encode :: "string \<Rightarrow> (ks_error, string) result" where
  "encode name =
     (if name = [] then Inl ErrEmptyName
      else Inr (keyFilenamePrefix @ to_lower (b32_encode name)))"

definition decode :: "(string \<Rightarrow> string) \<Rightarrow> string \<Rightarrow> (ks_error, string) result" where
  "decode unicode_upper name =
     (if \<not> has_prefix name keyFilenamePrefix then Inl ErrUnexpectedFormat
      else (case b32_decode (to_upper unicode_upper (drop (length keyFilenamePrefix) name)) of
              None \<Rightarrow> Inl ErrCorruptInput
            | Some d \<Rightarrow> Inr d))"

section \<open>The store in a directory\<close>

definition NewFSKeystore :: "fs_dir option \<Rightarrow> string option \<Rightarrow> (ks_error, fs_dir) result" where
  "NewFSKeystore d mkfault =
     (case os_mkdir d mkfault of
        Inl OsExist \<Rightarrow> (case d of None \<Rightarrow> Inl (ErrOS OsExist) | Some old \<Rightarrow> Inr old)
      | Inr new \<Rightarrow> Inr new
      | Inl e \<Rightarrow> Inl (ErrOS e))"

definition fs_Has :: "fs_dir \<Rightarrow> string \<Rightarrow> (ks_error, bool) result" where
  "fs_Has ks name =
     (case encode name of
        Inl e \<Rightarrow> Inl e
      | Inr kp \<Rightarrow>
          (case os_stat ks kp of
             Inl OsNotExist \<Rightarrow> Inr False
           | Inl e \<Rightarrow> Inl (ErrOS e)
           | Inr _ \<Rightarrow> Inr True))"

definition fs_Put ::
  "('k \<Rightarrow> (string, string) result) \<Rightarrow> fs_dir \<Rightarrow> string \<Rightarrow> 'k \<Rightarrow> fs_dir \<times> (ks_error, unit) result" where
  "fs_Put marshal ks name k =
     (case encode name of
        Inl e \<Rightarrow> (ks, Inl e)
      | Inr kp \<Rightarrow>
          (case marshal k of
             Inl e \<Rightarrow> (ks, Inl (ErrKeyCodec e))
           | Inr b \<Rightarrow>
               (case os_create_excl ks kp of
                  (ks1, Inl OsExist) \<Rightarrow> (ks1, Inl ErrKeyExists)
                | (ks1, Inl e) \<Rightarrow> (ks1, Inl (ErrOS e))
                | (ks1, Inr _) \<Rightarrow>
                    (case os_write ks1 kp b of
                       (ks2, Inl e) \<Rightarrow> (ks2, Inl (ErrOS e))
                     | (ks2, Inr _) \<Rightarrow> (ks2, Inr ())))))"

definition fs_Get ::
  "(string \<Rightarrow> (string, 'k) result) \<Rightarrow> fs_dir \<Rightarrow> string \<Rightarrow> (ks_error, 'k) result" where
  "fs_Get unmarshal ks name =
     (case encode name of
        Inl e \<Rightarrow> Inl e
      | Inr kp \<Rightarrow>
          (case os_stat ks kp of
             Inl OsNotExist \<Rightarrow> Inl ErrNoSuchKey
           | Inl e \<Rightarrow> Inl (ErrOS e)
           | Inr data \<Rightarrow>
               (case unmarshal data of Inl e \<Rightarrow> Inl (ErrKeyCodec e) | Inr k \<Rightarrow> Inr k)))"

definition fs_Delete :: "fs_dir \<Rightarrow> string \<Rightarrow> fs_dir \<times> (ks_error, unit) result" where
  "fs_Delete ks name =
     (case encode name of
        Inl e \<Rightarrow> (ks, Inl e)
      | Inr kp \<Rightarrow>
          (case os_remove ks kp of
             (ks1, Inl e) \<Rightarrow> (ks1, Inl (ErrOS e))
           | (ks1, Inr _) \<Rightarrow> (ks1, Inr ())))"

definition fs_List :: "(string \<Rightarrow> string) \<Rightarrow> fs_dir \<Rightarrow> (ks_error, string list) result" where
  "fs_List unicode_upper ks =
     (case dir_fault ks of
        Some e \<Rightarrow> Inl (ErrOS (OsOther e))
      | None \<Rightarrow>
          Inr (List.map_filter
            (\<lambda>name. case decode unicode_upper name of Inl _ \<Rightarrow> None | Inr n \<Rightarrow> Some n)
            (map fst (entries ks))))"

section \<open>The store in memory\<close>

text \<open>
  Go iterates over a map in no fixed order; the association list fixes one order, and the
  properties of \<open>List\<close> are about the set of names.
\<close>

record 'k mem_keystore =
  keys :: "(string \<times> 'k) list"

definition NewMemKeystore :: "'k mem_keystore" where
  "NewMemKeystore = \<lparr>keys = []\<rparr>"

definition mem_Has :: "'k mem_keystore \<Rightarrow> string \<Rightarrow> (ks_error, bool) result" where
  "mem_Has mk name = Inr (map_of (keys mk) name \<noteq> None)"

definition mem_Put ::
  "'k mem_keystore \<Rightarrow> string \<Rightarrow> 'k \<Rightarrow> 'k mem_keystore \<times> (ks_error, unit) result" where
  "mem_Put mk name k =
     (if name = [] then (mk, Inl ErrEmptyName)
      else if map_of (keys mk) name \<noteq> None then (mk, Inl ErrKeyExists)
      else (mk\<lparr>keys := (name, k) # keys mk\<rparr>, Inr ()))"

definition mem_Get :: "'k mem_keystore \<Rightarrow> string \<Rightarrow> (ks_error, 'k) result" where
  "mem_Get mk name =
     (case map_of (keys mk) name of None \<Rightarrow> Inl ErrNoSuchKey | Some k \<Rightarrow> Inr k)"

definition mem_Delete :: "'k mem_keystore \<Rightarrow> string \<Rightarrow> 'k mem_keystore \<times> (ks_error, unit) result" where
  "mem_Delete mk name = (mk\<lparr>keys := filter (\<lambda>(n, _). n \<noteq> name) (keys mk)\<rparr>, Inr ())"

definition mem_List :: "'k mem_keystore \<Rightarrow> (ks_error, string list) result" where
  "mem_List mk = Inr (map fst (keys mk))"

section \<open>The interface\<close>

text \<open>
  The contract of the Go interface \<open>Keystore\<close>. \<open>names\<close> is the abstract state, \<open>reread\<close>
  what a key becomes when it is stored and read back (the key itself in memory, the
  decoding of its encoding on disk).
\<close>

locale keystore =
  fixes invar :: "'s \<Rightarrow> bool"
    and names :: "'s \<Rightarrow> string set"
    and reread :: "'k \<Rightarrow> (ks_error, 'k) result"
    and Has :: "'s \<Rightarrow> string \<Rightarrow> (ks_error, bool) result"
    and Put :: "'s \<Rightarrow> string \<Rightarrow> 'k \<Rightarrow> 's \<times> (ks_error, unit) result"
    and Get :: "'s \<Rightarrow> string \<Rightarrow> (ks_error, 'k) result"
    and Delete :: "'s \<Rightarrow> string \<Rightarrow> 's \<times> (ks_error, unit) result"
    and List :: "'s \<Rightarrow> (ks_error, string list) result"
  assumes invar_Put: "invar s \<Longrightarrow> invar (fst (Put s n k))"
    and invar_Delete: "invar s \<Longrightarrow> invar (fst (Delete s n))"
    and names_nonempty: "invar s \<Longrightarrow> [] \<notin> names s"
    and Has_names: "invar s \<Longrightarrow> n \<noteq> [] \<Longrightarrow> Has s n = Inr (n \<in> names s)"
    and List_names: "invar s \<Longrightarrow> \<exists>xs. List s = Inr xs \<and> set xs = names s \<and> distinct xs"
    and Put_error: "invar s \<Longrightarrow> snd (Put s n k) = Inl e \<Longrightarrow> fst (Put s n k) = s"
    and Put_taken: "invar s \<Longrightarrow> snd (Put s n k) = Inr () \<Longrightarrow> n \<notin> names s \<and> n \<noteq> []"
    and Put_free: "invar s \<Longrightarrow> n \<notin> names s \<Longrightarrow> n \<noteq> [] \<Longrightarrow> reread k = Inr k'
      \<Longrightarrow> snd (Put s n k) = Inr ()"
    and Put_names: "invar s \<Longrightarrow> snd (Put s n k) = Inr ()
      \<Longrightarrow> names (fst (Put s n k)) = insert n (names s)"
    and Put_Get: "invar s \<Longrightarrow> snd (Put s n k) = Inr () \<Longrightarrow> Get (fst (Put s n k)) n = reread k"
    and Put_frame: "invar s \<Longrightarrow> m \<noteq> n \<Longrightarrow> Get (fst (Put s n k)) m = Get s m"
    and Get_missing: "invar s \<Longrightarrow> n \<notin> names s \<Longrightarrow> n \<noteq> [] \<Longrightarrow> Get s n = Inl ErrNoSuchKey"
    and Delete_names: "invar s \<Longrightarrow> names (fst (Delete s n)) = names s - {n}"
    and Delete_ok: "invar s \<Longrightarrow> n \<in> names s \<Longrightarrow> snd (Delete s n) = Inr ()"
    and Delete_frame: "invar s \<Longrightarrow> m \<noteq> n \<Longrightarrow> Get (fst (Delete s n)) m = Get s m"
begin

lemmas invar_ops = invar_Put invar_Delete

lemma Put_twice:
  assumes "invar s" and "snd (Put s n k) = Inr ()"
  shows "\<exists>e. snd (Put (fst (Put s n k)) n k') = Inl e
    \<and> fst (Put (fst (Put s n k)) n k') = fst (Put s n k)"
proof -
  let ?t = "fst (Put s n k)"
  have "invar ?t" and "n \<in> names ?t"
    using assms by (auto simp: invar_Put Put_names)
  then have "snd (Put ?t n k') \<noteq> Inr ()"
    using Put_taken by blast
  then obtain e where "snd (Put ?t n k') = Inl e"
    by (cases "snd (Put ?t n k')") auto
  then show ?thesis
    using Put_error [OF \<open>invar ?t\<close>] by blast
qed

lemma Delete_Get: "invar s \<Longrightarrow> n \<noteq> [] \<Longrightarrow> Get (fst (Delete s n)) n = Inl ErrNoSuchKey"
  by (simp add: Get_missing invar_Delete Delete_names)

text \<open>\<open>Put\<close> as a function on the abstract state, for a key that can be stored and read back.\<close>

lemma Put_abstract:
  assumes "invar s" and "reread k = Inr k'"
  shows "(if n = [] \<or> n \<in> names s then fst (Put s n k) = s
    else names (fst (Put s n k)) = insert n (names s) \<and> Get (fst (Put s n k)) n = Inr k')"
proof (cases "n = [] \<or> n \<in> names s")
  case True
  then obtain e where "snd (Put s n k) = Inl e"
    using Put_taken [OF assms(1)] by (cases "snd (Put s n k)") auto
  with True show ?thesis
    using Put_error [OF assms(1)] by simp
next
  case False
  then have "snd (Put s n k) = Inr ()"
    using Put_free [OF assms(1) _ _ assms(2)] by blast
  with False show ?thesis
    using assms by (simp add: Put_names Put_Get)
qed

text \<open>Putting a key under a name and deleting the name is invisible at every other name.\<close>

lemma Put_Delete_other:
  "invar s \<Longrightarrow> m \<noteq> n \<Longrightarrow> Get (fst (Delete (fst (Put s n k)) n)) m = Get s m"
  by (simp add: invar_Put Put_frame Delete_frame)

lemma Put_Delete_names:
  "invar s \<Longrightarrow> snd (Put s n k) = Inr () \<Longrightarrow> names (fst (Delete (fst (Put s n k)) n)) = names s"
  using Put_taken [of s n k] by (simp add: invar_Put Delete_names Put_names)

end

section \<open>Lemmas on file names\<close>

lemma b32_encode_chars: "c \<in> set (b32_encode s) \<Longrightarrow> c \<in> set b32_alphabet"
proof -
  assume "c \<in> set (b32_encode s)"
  then obtain d where "c = b32_char d" "d \<in> set (b32_encode_digits (map of_char s))"
    by (auto simp: b32_encode_def)
  moreover from this(2) have "d < 32"
    by (rule b32_encode_digits_range [rotated]) auto
  ultimately show ?thesis
    by (simp add: b32_char_def)
qed

lemma alphabet_case:
  "list_all (\<lambda>c. ascii_upper (ascii_lower c) = c \<and> of_char (ascii_lower c) < (128::nat)) b32_alphabet"
  by (simp add: b32_alphabet_def ascii_upper_def ascii_lower_def char_of_def bit_0)

lemma to_upper_to_lower: "to_upper u (to_lower (b32_encode s)) = b32_encode s"
proof -
  have "\<And>c. c \<in> set (b32_encode s) \<Longrightarrow>
      ascii_upper (ascii_lower c) = c \<and> of_char (ascii_lower c) < (128::nat)"
    using alphabet_case b32_encode_chars by (auto simp: list_all_iff)
  then show ?thesis
    by (auto simp: to_upper_def to_lower_def is_ascii_def list_all_iff intro!: map_idI)
qed

lemma encode_ok: "n \<noteq> [] \<Longrightarrow> encode n = Inr (keyFilenamePrefix @ to_lower (b32_encode n))"
  by (simp add: encode_def)

lemma decode_encode: "encode n = Inr f \<Longrightarrow> decode u f = Inr n"
  by (auto simp: encode_def decode_def to_upper_to_lower b32_decode_encode split: if_splits)

lemma encode_inj: "encode n = Inr f \<Longrightarrow> encode m = Inr f \<Longrightarrow> n = m"
  using decode_encode [of n f id] decode_encode [of m f id] by simp

lemma encode_Inr_nonempty: "encode n = Inr f \<Longrightarrow> n \<noteq> []"
  by (auto simp: encode_def)

section \<open>The store in memory keeps the contract\<close>

definition mem_invar :: "'k mem_keystore \<Rightarrow> bool" where
  "mem_invar mk \<longleftrightarrow> distinct (map fst (keys mk)) \<and> [] \<notin> fst ` set (keys mk)"

definition mem_names :: "'k mem_keystore \<Rightarrow> string set" where
  "mem_names mk = fst ` set (keys mk)"

lemmas mem_defs = mem_Has_def mem_Put_def mem_Get_def mem_Delete_def mem_List_def
  mem_invar_def mem_names_def

lemma map_of_filter_other: "m \<noteq> n \<Longrightarrow> map_of (filter (\<lambda>(q, _). q \<noteq> n) xs) m = map_of xs m"
  by (induction xs) auto

lemma distinct_map_fst_filter: "distinct (map fst xs) \<Longrightarrow> distinct (map fst (filter P xs))"
  by (induction xs) auto

lemma fst_filter_other [simp]: "fst ` {x \<in> A. case x of (q, _) \<Rightarrow> q \<noteq> n} = fst ` A - {n}"
  by force

interpretation mem: keystore mem_invar mem_names Inr mem_Has mem_Put mem_Get mem_Delete mem_List
proof unfold_locales
  fix s :: "'a mem_keystore" and n m k k'
  show "mem_invar s \<Longrightarrow> mem_invar (fst (mem_Put s n k))"
    by (auto simp: mem_defs map_of_eq_None_iff)
  show "mem_invar s \<Longrightarrow> mem_invar (fst (mem_Delete s n))"
    by (auto simp: mem_defs distinct_map_fst_filter)
  show "mem_invar s \<Longrightarrow> \<exists>xs. mem_List s = Inr xs \<and> set xs = mem_names s \<and> distinct xs"
    by (simp add: mem_defs)
  show "mem_names (fst (mem_Delete s n)) = mem_names s - {n}"
    by (simp add: mem_defs fst_filter_other)
  show "n \<notin> mem_names s \<Longrightarrow> mem_Get s n = Inl ErrNoSuchKey"
    using map_of_eq_None_iff [of "keys s" n] by (auto simp: mem_defs)
  show "m \<noteq> n \<Longrightarrow> mem_Get (fst (mem_Delete s n)) m = mem_Get s m"
    by (simp add: mem_defs map_of_filter_other)
qed (auto simp: mem_defs map_of_eq_None_iff dest: weak_map_of_SomeI split: if_splits option.splits)

section \<open>The store in a directory keeps the contract\<close>

text \<open>
  The invariant of the directory: no operation on it fails, its entries have distinct
  names, and each is the file of a key (the store owns the directory).
\<close>

definition key_files :: "string set" where
  "key_files = {f. \<exists>n. encode n = Inr f}"

definition fs_invar :: "fs_dir \<Rightarrow> bool" where
  "fs_invar d \<longleftrightarrow> (\<forall>p. fault d p = None) \<and> (\<forall>p. write_fault d p = None) \<and> dir_fault d = None
     \<and> distinct (map fst (entries d)) \<and> fst ` set (entries d) \<subseteq> key_files"

definition fs_names :: "fs_dir \<Rightarrow> string set" where
  "fs_names d = {n. \<exists>f. encode n = Inr f \<and> f \<in> fst ` set (entries d)}"

lemma fs_names_iff: "encode n = Inr f \<Longrightarrow> n \<in> fs_names d \<longleftrightarrow> f \<in> fst ` set (entries d)"
  by (auto simp: fs_names_def)

lemma map_of_set_content [simp]:
  "map_of (set_content p b es) q = (if q = p then map_option (\<lambda>_. b) (map_of es q) else map_of es q)"
  by (induction es) (auto simp: set_content_def)

lemma fst_set_content [simp]: "map fst (set_content p b es) = map fst es"
  by (induction es) (auto simp: set_content_def)

lemma fst_image_set_content [simp]: "fst ` set (set_content p b es) = fst ` set es"
  by (metis fst_set_content list.set_map)

lemma key_filesI [intro]: "encode n = Inr f \<Longrightarrow> f \<in> key_files"
  by (auto simp: key_files_def)

lemma os_stat_invar: "fs_invar d \<Longrightarrow>
    os_stat d p = (case map_of (entries d) p of None \<Rightarrow> Inl OsNotExist | Some b \<Rightarrow> Inr b)"
  by (simp add: os_stat_def fs_invar_def)

text \<open>What \<open>Put\<close> does on each branch when the operating system reports no failure.\<close>

lemma fs_Put_cases:
  assumes "fs_invar d"
  shows "fs_Put marshal d n k =
    (case encode n of
       Inl e \<Rightarrow> (d, Inl e)
     | Inr f \<Rightarrow> (case marshal k of
         Inl e \<Rightarrow> (d, Inl (ErrKeyCodec e))
       | Inr b \<Rightarrow> if f \<in> fst ` set (entries d) then (d, Inl ErrKeyExists)
                  else (d\<lparr>entries := set_content f b (entries d @ [(f, [])])\<rparr>, Inr ())))"
proof (cases "encode n")
  case (Inr f)
  have nf: "write_fault d f = None"
    using assms by (simp add: fs_invar_def)
  show ?thesis
  proof (cases "map_of (entries d) f")
    case None
    then have "f \<notin> fst ` set (entries d)"
      by (simp add: map_of_eq_None_iff)
    then show ?thesis
      using Inr nf None by (simp add: fs_Put_def os_create_excl_def os_write_def
          os_stat_invar [OF assms] split: sum.split)
  next
    case (Some b)
    then have "f \<in> fst ` set (entries d)"
      by (force dest: map_of_SomeD)
    then show ?thesis
      using Inr Some by (auto simp: fs_Put_def os_create_excl_def os_stat_invar [OF assms]
          split: sum.splits)
  qed
qed (simp add: fs_Put_def)

lemma fs_Delete_cases:
  assumes "fs_invar d"
  shows "fs_Delete d n =
    (case encode n of
       Inl e \<Rightarrow> (d, Inl e)
     | Inr f \<Rightarrow> if f \<in> fst ` set (entries d)
                then (d\<lparr>entries := filter (\<lambda>(q, _). q \<noteq> f) (entries d)\<rparr>, Inr ())
                else (d, Inl (ErrOS OsNotExist)))"
proof (cases "encode n")
  case (Inr f)
  show ?thesis
  proof (cases "map_of (entries d) f")
    case None
    then have "f \<notin> fst ` set (entries d)"
      by (simp add: map_of_eq_None_iff)
    then show ?thesis
      using Inr None by (simp add: fs_Delete_def os_remove_def os_stat_invar [OF assms])
  next
    case (Some b)
    then have "f \<in> fst ` set (entries d)"
      by (force dest: map_of_SomeD)
    then show ?thesis
      using Inr Some by (simp add: fs_Delete_def os_remove_def os_stat_invar [OF assms])
  qed
qed (simp add: fs_Delete_def)

lemma fs_invar_Put:
  assumes "fs_invar d"
  shows "fs_invar (fst (fs_Put marshal d n k))"
proof -
  have "encode n = Inr f \<Longrightarrow> f \<notin> fst ` set (entries d) \<Longrightarrow>
      fs_invar (d\<lparr>entries := set_content f b (entries d @ [(f, [])])\<rparr>)" for f b
    using assms unfolding fs_invar_def by (simp add: key_filesI)
  then show ?thesis
    using assms by (simp add: fs_Put_cases split: sum.split)
qed

lemma fs_invar_Delete: "fs_invar d \<Longrightarrow> fs_invar (fst (fs_Delete d n))"
  by (auto simp: fs_Delete_cases fs_invar_def distinct_map_fst_filter split: sum.splits)

lemma fs_Get_invar:
  "fs_invar d \<Longrightarrow> encode n = Inr f \<Longrightarrow> fs_Get unmarshal d n =
    (case map_of (entries d) f of
       None \<Rightarrow> Inl ErrNoSuchKey
     | Some b \<Rightarrow> (case unmarshal b of Inl e \<Rightarrow> Inl (ErrKeyCodec e) | Inr k \<Rightarrow> Inr k))"
  by (simp add: fs_Get_def os_stat_invar split: option.splits)

lemma map_filter_all:
  "(\<And>x. x \<in> set xs \<Longrightarrow> f x = Some (g x)) \<Longrightarrow> List.map_filter f xs = map g xs"
  by (induction xs) (auto simp: List.map_filter_def)

lemma image_of_names:
  assumes "\<And>f. f \<in> F \<Longrightarrow> encode (name f) = Inr f"
  shows "name ` F = {n. \<exists>f. encode n = Inr f \<and> f \<in> F}"
  using assms encode_inj by blast

lemma fs_List_invar:
  assumes "fs_invar d"
  shows "\<exists>xs. fs_List u d = Inr xs \<and> set xs = fs_names d \<and> distinct xs"
proof -
  let ?fs = "map fst (entries d)"
  have "\<forall>f \<in> set ?fs. \<exists>n. encode n = Inr f"
    using assms by (auto simp: fs_invar_def key_files_def subset_iff)
  then obtain name where name: "\<And>f. f \<in> set ?fs \<Longrightarrow> encode (name f) = Inr f"
    by (metis bchoice)
  then have "List.map_filter (\<lambda>f. case decode u f of Inl _ \<Rightarrow> None | Inr n \<Rightarrow> Some n) ?fs = map name ?fs"
    by (intro map_filter_all) (simp add: decode_encode [OF name])
  moreover have "inj_on name (set ?fs)"
    by (rule inj_onI) (metis name sum.inject(2))
  moreover have "name ` set ?fs = fs_names d"
    using image_of_names [of "set ?fs" name, OF name] by (simp add: fs_names_def)
  ultimately show ?thesis
    using assms by (simp add: fs_List_def fs_invar_def distinct_map del: map_map)
qed

lemma fs_names_Inl: "encode n = Inl e \<Longrightarrow> n \<notin> fs_names d"
  by (simp add: fs_names_def)

lemma fs_names_added:
  "encode n = Inr f \<Longrightarrow> fst ` set es = insert f (fst ` set (entries d)) \<Longrightarrow>
    fs_names (d\<lparr>entries := es\<rparr>) = insert n (fs_names d)"
  by (auto simp add: fs_names_def dest: encode_inj)

lemma fs_names_removed:
  "encode n = Inr f \<Longrightarrow> fst ` set es = fst ` set (entries d) - {f} \<Longrightarrow>
    fs_names (d\<lparr>entries := es\<rparr>) = fs_names d - {n}"
  by (auto simp add: fs_names_def dest: encode_inj)

lemma fs_Get_cong:
  assumes "fs_invar d" "fs_invar d'"
    and "\<And>f. encode n = Inr f \<Longrightarrow> map_of (entries d) f = map_of (entries d') f"
  shows "fs_Get unmarshal d n = fs_Get unmarshal d' n"
  using assms by (cases "encode n") (simp_all add: fs_Get_def os_stat_invar)

interpretation fs: keystore fs_invar fs_names
  "\<lambda>k. case marshal k of Inl e \<Rightarrow> Inl (ErrKeyCodec e)
       | Inr b \<Rightarrow> (case unmarshal b of Inl e \<Rightarrow> Inl (ErrKeyCodec e) | Inr k \<Rightarrow> Inr k)"
  fs_Has "fs_Put marshal" "fs_Get unmarshal" fs_Delete "fs_List u"
  for marshal :: "'k \<Rightarrow> (string, string) result"
    and unmarshal :: "string \<Rightarrow> (string, 'k) result" and u
proof unfold_locales
  fix s n m and k k' :: 'k and e
  assume inv: "fs_invar s"
  show "fs_invar (fst (fs_Put marshal s n k))"
    by (rule fs_invar_Put [OF inv])
  show "fs_invar (fst (fs_Delete s n))"
    by (rule fs_invar_Delete [OF inv])
  show "[] \<notin> fs_names s"
    by (auto simp: fs_names_def encode_def)
  show "\<exists>xs. fs_List u s = Inr xs \<and> set xs = fs_names s \<and> distinct xs"
    by (rule fs_List_invar [OF inv])
  show "snd (fs_Put marshal s n k) = Inl e \<Longrightarrow> fst (fs_Put marshal s n k) = s"
    by (auto simp: fs_Put_cases [OF inv] split: sum.splits if_splits)
  show "snd (fs_Put marshal s n k) = Inr () \<Longrightarrow> n \<notin> fs_names s \<and> n \<noteq> []"
    by (auto simp: fs_Put_cases [OF inv] fs_names_iff encode_Inr_nonempty split: sum.splits if_splits)
  show "n \<noteq> [] \<Longrightarrow> fs_Has s n = Inr (n \<in> fs_names s)"
    by (auto simp: fs_Has_def os_stat_invar [OF inv] fs_names_iff [OF encode_ok] encode_ok
        split: option.splits dest: map_of_Some_fst map_of_None_fst)
  show "n \<notin> fs_names s \<Longrightarrow> n \<noteq> [] \<Longrightarrow> fs_Get unmarshal s n = Inl ErrNoSuchKey"
    by (simp add: fs_Get_invar [OF inv encode_ok] fs_names_iff [OF encode_ok] map_of_not_fst)
  show "n \<in> fs_names s \<Longrightarrow> snd (fs_Delete s n) = Inr ()"
    by (cases "encode n") (simp_all add: fs_Delete_cases [OF inv] fs_names_iff fs_names_Inl)
  show "snd (fs_Put marshal s n k) = Inr () \<Longrightarrow> fs_names (fst (fs_Put marshal s n k)) = insert n (fs_names s)"
    by (cases "encode n"; cases "marshal k")
      (simp_all add: fs_Put_cases [OF inv] fs_names_added split: if_splits)
  show "fs_names (fst (fs_Delete s n)) = fs_names s - {n}"
    by (cases "encode n")
      (simp_all add: fs_Delete_cases [OF inv] fs_names_iff fs_names_Inl fs_names_removed)
  show "n \<notin> fs_names s \<Longrightarrow> n \<noteq> [] \<Longrightarrow>
      (case marshal k of Inl e \<Rightarrow> Inl (ErrKeyCodec e)
       | Inr b \<Rightarrow> (case unmarshal b of Inl e \<Rightarrow> Inl (ErrKeyCodec e) | Inr k \<Rightarrow> Inr k)) = Inr k' \<Longrightarrow>
      snd (fs_Put marshal s n k) = Inr ()"
    by (simp add: fs_Put_cases [OF inv] encode_ok fs_names_iff [OF encode_ok] split: sum.splits)
  have inv': "fs_invar (fst (fs_Put marshal s n k))" "fs_invar (fst (fs_Delete s n))"
    using inv by (simp_all add: fs_invar_Put fs_invar_Delete)
  show "snd (fs_Put marshal s n k) = Inr () \<Longrightarrow> fs_Get unmarshal (fst (fs_Put marshal s n k)) n =
      (case marshal k of Inl e \<Rightarrow> Inl (ErrKeyCodec e)
       | Inr b \<Rightarrow> (case unmarshal b of Inl e \<Rightarrow> Inl (ErrKeyCodec e) | Inr k \<Rightarrow> Inr k))"
    using inv'(1) by (cases "encode n")
      (auto simp: fs_Put_cases [OF inv] fs_Get_invar map_of_not_fst map_add_def
        split: sum.splits if_splits)
  show "m \<noteq> n \<Longrightarrow> fs_Get unmarshal (fst (fs_Put marshal s n k)) m = fs_Get unmarshal s m"
    by (rule fs_Get_cong [OF inv'(1) inv])
      (auto simp: fs_Put_cases [OF inv] map_add_def dest: encode_inj split: sum.splits option.splits)
  show "m \<noteq> n \<Longrightarrow> fs_Get unmarshal (fst (fs_Delete s n)) m = fs_Get unmarshal s m"
    by (rule fs_Get_cong [OF inv'(2) inv])
      (auto simp: fs_Delete_cases [OF inv] intro!: map_of_filter_other dest: encode_inj split: sum.splits)
qed

section \<open>Sequences of operations\<close>

datatype 'k ks_op = OpPut string 'k | OpDelete string

fun fs_run :: "('k \<Rightarrow> (string, string) result) \<Rightarrow> fs_dir \<Rightarrow> 'k ks_op list \<Rightarrow> fs_dir" where
  "fs_run marshal d [] = d"
| "fs_run marshal d (OpPut n k # ops) = fs_run marshal (fst (fs_Put marshal d n k)) ops"
| "fs_run marshal d (OpDelete n # ops) = fs_run marshal (fst (fs_Delete d n)) ops"

fun mem_run :: "'k mem_keystore \<Rightarrow> 'k ks_op list \<Rightarrow> 'k mem_keystore" where
  "mem_run mk [] = mk"
| "mem_run mk (OpPut n k # ops) = mem_run (fst (mem_Put mk n k)) ops"
| "mem_run mk (OpDelete n # ops) = mem_run (fst (mem_Delete mk n)) ops"

definition same_store ::
  "(string \<Rightarrow> (string, 'k) result) \<Rightarrow> fs_dir \<Rightarrow> 'k mem_keystore \<Rightarrow> bool" where
  "same_store unmarshal d mk \<longleftrightarrow> fs_invar d \<and> mem_invar mk \<and> fs_names d = mem_names mk
     \<and> (\<forall>n. n \<noteq> [] \<longrightarrow> fs_Get unmarshal d n = mem_Get mk n)"

lemma same_store_Put:
  assumes codec: "\<forall>k. \<exists>b. marshal k = Inr b \<and> unmarshal b = Inr k"
    and same: "same_store unmarshal d mk"
  shows "same_store unmarshal (fst (fs_Put marshal d n k)) (fst (mem_Put mk n k))"
proof -
  from same have inv: "fs_invar d" "mem_invar mk" and nms: "fs_names d = mem_names mk"
    and eq: "\<And>n. n \<noteq> [] \<Longrightarrow> fs_Get unmarshal d n = mem_Get mk n"
    by (auto simp: same_store_def)
  obtain b where b: "marshal k = Inr b" "unmarshal b = Inr k"
    using codec by blast
  have fsP: "if n = [] \<or> n \<in> fs_names d then fst (fs_Put marshal d n k) = d
      else fs_names (fst (fs_Put marshal d n k)) = insert n (fs_names d)
        \<and> fs_Get unmarshal (fst (fs_Put marshal d n k)) n = Inr k"
    by (rule fs.Put_abstract [OF inv(1)]) (simp add: b)
  have memP: "if n = [] \<or> n \<in> mem_names mk then fst (mem_Put mk n k) = mk
      else mem_names (fst (mem_Put mk n k)) = insert n (mem_names mk)
        \<and> mem_Get (fst (mem_Put mk n k)) n = Inr k"
    by (rule mem.Put_abstract [OF inv(2)]) simp
  show ?thesis
    unfolding same_store_def
  proof (intro conjI allI impI)
    show "fs_invar (fst (fs_Put marshal d n k))" "mem_invar (fst (mem_Put mk n k))"
      using inv by (simp_all add: fs.invar_Put mem.invar_Put)
    show "fs_names (fst (fs_Put marshal d n k)) = mem_names (fst (mem_Put mk n k))"
      using fsP memP nms by (auto split: if_splits)
    fix m :: string
    assume "m \<noteq> []"
    then show "fs_Get unmarshal (fst (fs_Put marshal d n k)) m = mem_Get (fst (mem_Put mk n k)) m"
      using fsP memP nms eq [of m] fs.Put_frame [OF inv(1), of m n unmarshal marshal k]
        mem.Put_frame [OF inv(2), of m n k]
      by (cases "m = n") (auto split: if_splits)
  qed
qed

lemma same_store_Delete:
  assumes "same_store unmarshal d mk"
  shows "same_store unmarshal (fst (fs_Delete d n)) (fst (mem_Delete mk n))"
proof -
  from assms have inv: "fs_invar d" "mem_invar mk"
    by (auto simp: same_store_def)
  have "m \<noteq> [] \<Longrightarrow> fs_Get unmarshal (fst (fs_Delete d n)) m = mem_Get (fst (mem_Delete mk n)) m" for m
    using assms fs.Delete_frame [OF inv(1), of m n unmarshal] mem.Delete_frame [OF inv(2), of m n]
      fs.Delete_Get [OF inv(1), of m unmarshal] mem.Delete_Get [OF inv(2), of m]
    by (cases "m = n") (auto simp: same_store_def)
  then show ?thesis
    using assms by (simp add: same_store_def fs_invar_Delete mem.invar_Delete fs.Delete_names mem.Delete_names)
qed

lemma same_store_run:
  assumes "\<forall>k. \<exists>b. marshal k = Inr b \<and> unmarshal b = Inr k" and "same_store unmarshal d mk"
  shows "same_store unmarshal (fs_run marshal d ops) (mem_run mk ops)"
  using assms(2)
proof (induction ops arbitrary: d mk)
  case (Cons op ops)
  then show ?case
    by (cases op) (simp_all add: same_store_Put [OF assms(1)] same_store_Delete)
qed simp

text \<open>What the calls return: \<open>Put\<close> the same, \<open>Delete\<close> of a name that is not there an error on disk only.\<close>

lemma same_store_results:
  assumes "\<forall>k. \<exists>b. marshal k = Inr b \<and> unmarshal b = Inr k" and "same_store unmarshal d mk"
  shows "snd (fs_Put marshal d n k) = snd (mem_Put mk n k)"
    and "snd (fs_Delete d n) = (if n = [] then Inl ErrEmptyName else if n \<in> mem_names mk then Inr () else Inl (ErrOS OsNotExist))"
proof -
  from assms(2) have inv: "fs_invar d" and nms: "fs_names d = mem_names mk"
    by (auto simp: same_store_def)
  obtain b where b: "marshal k = Inr b"
    using assms(1) by blast
  show "snd (fs_Put marshal d n k) = snd (mem_Put mk n k)"
  proof (cases "n = []")
    case False
    then obtain f where f: "encode n = Inr f"
      by (simp add: encode_def)
    have "f \<in> fst ` set (entries d) \<longleftrightarrow> map_of (keys mk) n \<noteq> None"
      using nms by (simp add: fs_names_iff [OF f, symmetric] mem_names_def map_of_eq_None_iff)
    then show ?thesis
      using False b f by (simp add: fs_Put_cases [OF inv] mem_Put_def)
  qed (simp add: fs_Put_cases [OF inv] mem_Put_def encode_def)
  show "snd (fs_Delete d n) = (if n = [] then Inl ErrEmptyName else if n \<in> mem_names mk then Inr () else Inl (ErrOS OsNotExist))"
    unfolding nms [symmetric] by (cases "n = []") (simp_all add: fs_Delete_cases [OF inv] fs_names_iff encode_def)
qed

lemma same_store_empty: "same_store unmarshal empty_dir NewMemKeystore"
  by (auto simp: same_store_def fs_invar_def mem_invar_def fs_names_def mem_names_def empty_dir_def
      NewMemKeystore_def mem_Get_def fs_Get_def os_stat_def encode_def)

section \<open>Properties\<close>

text \<open>The file name of a key determines the key's name. \<open>decode\<close> inverts \<open>encode\<close>
  whatever the Unicode tables are, so two key names never share a file; and \<open>encode\<close>
  refuses exactly the empty name.\<close>

theorem keyfile_roundtrip:
  "(encode n = Inl ErrEmptyName \<longleftrightarrow> n = []) \<and>
   (encode n = Inr f \<longrightarrow> decode u f = Inr n \<and> (\<forall>m. encode m = Inr f \<longrightarrow> m = n))"
proof (intro conjI impI allI)
  show "encode n = Inl ErrEmptyName \<longleftrightarrow> n = []"
    by (simp add: encode_def)
next
  assume "encode n = Inr f"
  then show "decode u f = Inr n"
    by (rule decode_encode)
  fix m
  assume "encode m = Inr f"
  then show "m = n"
    using \<open>encode n = Inr f\<close> by (rule encode_inj)
qed

theorem keyfile_roundtrip_witness:
  "encode ''self'' = Inr ''key_onswyzq'' \<and> decode id ''key_onswyzq'' = Inr ''self''"
proof -
  have e: "encode ''self'' = Inr ''key_onswyzq''"
    by (simp add: encode_def keyFilenamePrefix_def b32_encode_def b32_char_def b32_alphabet_def
        to_lower_def ascii_lower_def char_of_def bit_0)
  then show ?thesis
    using keyfile_roundtrip [of "''self''" "''key_onswyzq''" id] by blast
qed

text \<open>Storing a key on disk. In a directory the store owns, \<open>Put\<close> of a new name with a
  key that survives its encoding succeeds and keeps the directory well formed; \<open>Get\<close> then
  returns the key and \<open>Has\<close> is true, no other name is affected, a second \<open>Put\<close> of the name
  is refused with \<open>ErrKeyExists\<close> and changes nothing, and \<open>Delete\<close> restores the names.\<close>

theorem fs_Put_contract:
  assumes "fs_invar d" and "n \<noteq> []" and "n \<notin> fs_names d"
    and "marshal k = Inr b" and "unmarshal b = Inr k" and "marshal k2 = Inr b2"
  shows "\<exists>d'. fs_Put marshal d n k = (d', Inr ()) \<and> fs_invar d'
    \<and> fs_Get unmarshal d' n = Inr k \<and> fs_Has d' n = Inr True
    \<and> (\<forall>m. m \<noteq> n \<longrightarrow> fs_Get unmarshal d' m = fs_Get unmarshal d m)
    \<and> fs_Put marshal d' n k2 = (d', Inl ErrKeyExists)
    \<and> fs_names (fst (fs_Delete d' n)) = fs_names d"
proof -
  let ?d' = "fst (fs_Put marshal d n k)"
  have ok: "snd (fs_Put marshal d n k) = Inr ()"
    using assms by (intro fs.Put_free [where unmarshal = unmarshal and k' = k]) simp_all
  have inv: "fs_invar ?d'" and mem: "n \<in> fs_names ?d'"
    using assms(1) ok by (simp_all add: fs_invar_Put fs.Put_names)
  obtain f where f: "encode n = Inr f" "f \<in> fst ` set (entries ?d')"
    using mem by (auto simp only: fs_names_def mem_Collect_eq)
  have "fs_Put marshal ?d' n k2 = (?d', Inl ErrKeyExists)"
    using f assms(6) by (simp add: fs_Put_cases [OF inv])
  moreover have "fs_Get unmarshal ?d' n = Inr k"
    using fs.Put_Get [OF assms(1) ok, of unmarshal] assms(4,5) by simp
  ultimately show ?thesis
    using assms ok inv mem
    by (intro exI [of _ ?d']) (simp add: prod_eq_iff fs.Has_names fs.Put_frame fs.Put_Delete_names)
qed

theorem fs_Put_contract_witness:
  "\<exists>d'. fs_Put Inr empty_dir ''a'' ''K'' = (d', Inr ()) \<and> fs_Get Inr d' ''a'' = Inr ''K''
    \<and> fs_Put Inr d' ''a'' ''L'' = (d', Inl ErrKeyExists)"
proof -
  have "fs_invar empty_dir" "''a'' \<notin> fs_names empty_dir"
    by (simp_all add: fs_invar_def fs_names_def empty_dir_def)
  then show ?thesis
    using fs_Put_contract [of empty_dir "''a''" Inr "''K''" "''K''" Inr "''L''" "''L''"] by auto
qed

text \<open>C6: the store on disk implements the store in memory. Started empty and given the same sequence of \<open>Put\<close> and \<open>Delete\<close> calls
  (failing ones included), they hold the same names and \<open>Get\<close> agrees on every name, \<open>ErrNoSuchKey\<close> included, provided keys
  survive their encoding and the file system has no faults; the directory stays well formed. After any such sequence the next \<open>Put\<close>
  returns the same from both stores. \<open>Delete\<close> always succeeds in memory; on disk it succeeds exactly for a stored
  name, and fails otherwise, without changing anything.\<close>

theorem fs_refines_mem:
  assumes "\<forall>k. \<exists>b. marshal k = Inr b \<and> unmarshal b = Inr k"
  shows "fs_invar (fs_run marshal empty_dir ops)
    \<and> fs_names (fs_run marshal empty_dir ops) = mem_names (mem_run NewMemKeystore ops)
    \<and> (\<forall>n. n \<noteq> [] \<longrightarrow>
         fs_Get unmarshal (fs_run marshal empty_dir ops) n = mem_Get (mem_run NewMemKeystore ops) n)
    \<and> (\<forall>n k. snd (fs_Put marshal (fs_run marshal empty_dir ops) n k) = snd (mem_Put (mem_run NewMemKeystore ops) n k))
    \<and> (\<forall>n. snd (mem_Delete (mem_run NewMemKeystore ops) n) = Inr ()
         \<and> snd (fs_Delete (fs_run marshal empty_dir ops) n)
           = (if n = [] then Inl ErrEmptyName
              else if n \<in> mem_names (mem_run NewMemKeystore ops) then Inr () else Inl (ErrOS OsNotExist)))"
proof -
  note same = same_store_run [OF assms same_store_empty, of ops]
  show ?thesis
    using same same_store_results [OF assms same] by (auto simp: same_store_def mem_Delete_def)
qed

theorem fs_refines_mem_witness:
  "fs_Get Inr (fs_run Inr empty_dir [OpPut ''a'' ''K'', OpPut ''a'' ''L'', OpDelete ''b'']) ''a'' = Inr ''K''
   \<and> mem_Get (mem_run NewMemKeystore [OpPut ''a'' ''K'', OpPut ''a'' ''L'', OpDelete ''b'']) ''a''
     = Inr ''K''"
proof -
  have "mem_Get (mem_run NewMemKeystore [OpPut ''a'' ''K'', OpPut ''a'' ''L'', OpDelete ''b'']) ''a''
      = Inr ''K''"
    by (simp add: NewMemKeystore_def mem_Put_def mem_Delete_def mem_Get_def)
  then show ?thesis
    using fs_refines_mem [of Inr Inr "[OpPut ''a'' ''K'', OpPut ''a'' ''L'', OpDelete ''b'']"] by simp
qed

text \<open>A write that fails half way is not undone. When the file could be created and
  \<open>Write\<close> then fails, \<open>Put\<close> returns the error but the name stays taken by a file with a
  prefix of the key: \<open>Has\<close> is true and the next \<open>Put\<close> is refused with \<open>ErrKeyExists\<close>.\<close>

theorem fs_Put_write_error:
  assumes "encode n = Inr f" and "marshal k = Inr b"
    and "fault d f = None" and "f \<notin> fst ` set (entries d)" and "write_fault d f = Some (j, e)"
  shows "\<exists>d'. fs_Put marshal d n k = (d', Inl (ErrOS (OsOther e)))
    \<and> map_of (entries d') f = Some (take j b)
    \<and> fs_Has d' n = Inr True \<and> fs_Put marshal d' n k = (d', Inl ErrKeyExists)"
  using assms
  by (simp add: fs_Put_def fs_Has_def os_create_excl_def os_write_def os_stat_def map_of_not_fst map_add_def)

theorem fs_Put_write_error_witness:
  "\<exists>d'. fs_Put Inr (empty_dir\<lparr>write_fault := \<lambda>_. Some (1, ''ENOSPC'')\<rparr>) ''self'' ''KEY''
      = (d', Inl (ErrOS (OsOther ''ENOSPC''))) \<and> fs_Has d' ''self'' = Inr True"
proof -
  obtain f where "encode ''self'' = Inr f"
    by (simp add: encode_def)
  then show ?thesis
    using fs_Put_write_error [of "''self''" f Inr "''KEY''" "''KEY''"
        "empty_dir\<lparr>write_fault := \<lambda>_. Some (1, ''ENOSPC'')\<rparr>" 1 "''ENOSPC''"]
    by (auto simp: empty_dir_def)
qed

end
