(* ===== verification/OnlyOne.thy ===== *)
theory OnlyOne
  imports Prelude
begin

text \<open>
  \<open>repo.OnlyOne\<close> (src/repo/onlyone.go): open repositories shared by key and counted by
  reference. A \<open>ref\<close> outlives its entry in the map (its holders keep the pointer), so the
  refs are kept in a store and addressed by their position. \<open>open_res\<close> is what the
  caller's open function returns, \<open>repo_closes\<close> records the calls of \<open>Repo.Close\<close>.
  The clients are modelled as a step relation with the number of handles each ref has given
  out; the invariant says that the 32-bit counter is that number and that a repository is
  closed exactly once, by the last holder.
\<close>

section \<open>Model\<close>

record ('k, 'r) ref =
  ref_key :: 'k
  refs :: "32 word"
  ref_repo :: 'r

record ('k, 'r) only_one =
  active :: "'k \<rightharpoonup> nat"
  store :: "('k, 'r) ref list"
  repo_closes :: "nat list"

definition NewOnlyOne :: "('k, 'r) only_one" where
  "NewOnlyOne = \<lparr>active = Map.empty, store = [], repo_closes = []\<rparr>"

definition Open ::
  "('k, 'r) only_one \<Rightarrow> 'k \<Rightarrow> (string, 'r) result \<Rightarrow> ('k, 'r) only_one \<times> (string, nat) result" where
  "Open o1 key open_res =
     (case active o1 key of
        Some a \<Rightarrow>
          (o1\<lparr>store := (store o1)[a := (store o1 ! a)\<lparr>refs := refs (store o1 ! a) + 1\<rparr>]\<rparr>, Inr a)
      | None \<Rightarrow>
          (case open_res of
             Inl e \<Rightarrow> (o1, Inl e)
           | Inr r \<Rightarrow>
               let a = length (store o1)
               in (o1\<lparr>active := (active o1)(key \<mapsto> a),
                      store := store o1 @ [\<lparr>ref_key = key, refs = 0 + 1, ref_repo = r\<rparr>]\<rparr>, Inr a)))"

definition Close ::
  "('k, 'r) only_one \<Rightarrow> nat \<Rightarrow> (string, unit) result \<Rightarrow> ('k, 'r) only_one \<times> (string, unit) result" where
  "Close o1 a close_res =
     (let r = (store o1 ! a)\<lparr>refs := refs (store o1 ! a) - 1\<rparr>;
          o2 = o1\<lparr>store := (store o1)[a := r]\<rparr>
      in if refs r > 0 then (o2, Inr ())
         else (o2\<lparr>active := (active o2)(ref_key r := None), repo_closes := a # repo_closes o2\<rparr>, close_res))"

section \<open>Clients\<close>

text \<open>
  A client that holds a handle may close it once. An \<open>Open\<close> is possible while fewer than
  \<open>2 ^ 32 - 1\<close> handles to the same ref are out: beyond that the 32-bit counter would wrap.
\<close>

type_synonym ('k, 'r) clients = "('k, 'r) only_one \<times> (nat \<Rightarrow> nat)"

inductive oo_step :: "('k, 'r) clients \<Rightarrow> ('k, 'r) clients \<Rightarrow> bool" where
  open_ok: "Open o1 key open_res = (o2, Inr a) \<Longrightarrow> Suc (held a) < 2 ^ 32
    \<Longrightarrow> oo_step (o1, held) (o2, held(a := Suc (held a)))"
| open_error: "Open o1 key open_res = (o2, Inl e) \<Longrightarrow> oo_step (o1, held) (o2, held)"
| close: "0 < held a \<Longrightarrow> Close o1 a close_res = (o2, res)
    \<Longrightarrow> oo_step (o1, held) (o2, held(a := held a - 1))"

inductive oo_reachable :: "('k, 'r) clients \<Rightarrow> bool" where
  start: "oo_reachable (NewOnlyOne, \<lambda>_. 0)"
| step: "oo_reachable s \<Longrightarrow> oo_step s t \<Longrightarrow> oo_reachable t"

inductive_cases oo_stepE: "oo_step (o1, held) t"

section \<open>Invariant\<close>

definition oo_inv :: "('k, 'r) clients \<Rightarrow> bool" where
  "oo_inv s \<longleftrightarrow> (case s of (o1, held) \<Rightarrow>
     (\<forall>a < length (store o1).
        unat (refs (store o1 ! a)) = held a
        \<and> (active o1 (ref_key (store o1 ! a)) = Some a \<longleftrightarrow> 0 < held a)
        \<and> count_list (repo_closes o1) a = (if held a = 0 then 1 else 0))
     \<and> (\<forall>a \<ge> length (store o1). held a = 0 \<and> count_list (repo_closes o1) a = 0)
     \<and> (\<forall>k a. active o1 k = Some a \<longrightarrow> a < length (store o1) \<and> ref_key (store o1 ! a) = k))"

lemma oo_invD:
  assumes "oo_inv (o1, held)"
  shows "a < length (store o1) \<Longrightarrow> unat (refs (store o1 ! a)) = held a"
    and "a < length (store o1) \<Longrightarrow> active o1 (ref_key (store o1 ! a)) = Some a \<longleftrightarrow> 0 < held a"
    and "a < length (store o1) \<Longrightarrow> count_list (repo_closes o1) a = (if held a = 0 then 1 else 0)"
    and "length (store o1) \<le> a \<Longrightarrow> held a = 0 \<and> count_list (repo_closes o1) a = 0"
    and "active o1 k = Some a \<Longrightarrow> a < length (store o1) \<and> ref_key (store o1 ! a) = k"
  using assms unfolding oo_inv_def by auto

lemma oo_invI:
  assumes "\<And>a. a < length (store o1) \<Longrightarrow> unat (refs (store o1 ! a)) = held a"
    and "\<And>a. a < length (store o1) \<Longrightarrow> active o1 (ref_key (store o1 ! a)) = Some a \<longleftrightarrow> 0 < held a"
    and "\<And>a. a < length (store o1) \<Longrightarrow> count_list (repo_closes o1) a = (if held a = 0 then 1 else 0)"
    and "\<And>a. length (store o1) \<le> a \<Longrightarrow> held a = 0 \<and> count_list (repo_closes o1) a = 0"
    and "\<And>k a. active o1 k = Some a \<Longrightarrow> a < length (store o1) \<and> ref_key (store o1 ! a) = k"
  shows "oo_inv (o1, held)"
  using assms unfolding oo_inv_def by blast

lemma oo_inv_start: "oo_inv (NewOnlyOne, \<lambda>_. 0)"
  by (simp add: oo_inv_def NewOnlyOne_def)

lemma unat_add_one:
  fixes w :: "32 word"
  shows "Suc (unat w) < 2 ^ 32 \<Longrightarrow> unat (w + 1) = Suc (unat w)"
  by (simp add: unat_word_ariths)

lemma unat_minus_one':
  fixes w :: "32 word"
  shows "0 < unat w \<Longrightarrow> unat (w - 1) = unat w - 1"
  by (rule unat_minus_one) (auto simp: unat_eq_0)

lemma oo_inv_open_new:
  assumes inv: "oo_inv (o1, held)" and new: "active o1 key = None"
    and "Open o1 key open_res = (o2, Inr a)"
  shows "oo_inv (o2, held(a := Suc (held a)))"
proof -
  from assms obtain r where a: "a = length (store o1)" and o2:
    "o2 = o1\<lparr>active := (active o1)(key \<mapsto> a),
             store := store o1 @ [\<lparr>ref_key = key, refs = 0 + 1, ref_repo = r\<rparr>]\<rparr>"
    by (auto simp: Open_def Let_def split: sum.splits)
  have other: "b < length (store o1) \<Longrightarrow> ref_key (store o1 ! b) = key \<Longrightarrow> held b = 0" for b
    using oo_invD(2) [OF inv, of b] new by auto
  show ?thesis
    using oo_invD [OF inv] other
    by (auto simp: oo_inv_def o2 a nth_append less_Suc_eq)
qed

lemma oo_inv_open_again:
  assumes inv: "oo_inv (o1, held)" and old: "active o1 key = Some a"
    and "Open o1 key open_res = (o2, Inr b)" and bound: "Suc (held b) < 2 ^ 32"
  shows "oo_inv (o2, held(b := Suc (held b)))"
proof -
  from assms have b: "b = a" and o2:
    "o2 = o1\<lparr>store := (store o1)[a := (store o1 ! a)\<lparr>refs := refs (store o1 ! a) + 1\<rparr>]\<rparr>"
    by (auto simp: Open_def)
  have a: "a < length (store o1)" "0 < held a"
    using oo_invD(5) [OF inv old] oo_invD(2) [OF inv, of a] old by auto
  have "unat (refs (store o1 ! a) + 1) = Suc (held a)"
    using oo_invD(1) [OF inv a(1)] bound b by (simp add: unat_add_one)
  then show ?thesis
    using oo_invD [OF inv] a b
    by (auto simp: oo_inv_def o2 nth_list_update)
qed

lemma oo_held_facts:
  assumes inv: "oo_inv (o1, held)" and held: "0 < held a"
  shows "a < length (store o1)" and "active o1 (ref_key (store o1 ! a)) = Some a"
    and "unat (refs (store o1 ! a) - 1) = held a - 1"
    and "\<And>b. b < length (store o1) \<Longrightarrow> b \<noteq> a \<Longrightarrow> 0 < held b
      \<Longrightarrow> ref_key (store o1 ! b) \<noteq> ref_key (store o1 ! a)"
proof -
  show a: "a < length (store o1)"
    using oo_invD(4) [OF inv, of a] held by (cases "a < length (store o1)") auto
  show act: "active o1 (ref_key (store o1 ! a)) = Some a"
    using oo_invD(2) [OF inv a] held by blast
  show "unat (refs (store o1 ! a) - 1) = held a - 1"
    using oo_invD(1) [OF inv a] held by (simp add: unat_minus_one')
  show "ref_key (store o1 ! b) \<noteq> ref_key (store o1 ! a)"
    if "b < length (store o1)" "b \<noteq> a" "0 < held b" for b
    using oo_invD(2) [OF inv that(1)] that act by auto
qed

text \<open>A close that leaves other holders, and the close of the last holder.\<close>

lemma oo_inv_close_shared:
  assumes inv: "oo_inv (o1, held)" and held: "Suc 0 < held a"
    and o2: "o2 = o1\<lparr>store := (store o1)[a := (store o1 ! a)\<lparr>refs := refs (store o1 ! a) - 1\<rparr>]\<rparr>"
  shows "oo_inv (o2, held(a := held a - 1))"
proof (rule oo_invI)
  have pos: "0 < held a"
    using held by simp
  note a = oo_held_facts [OF inv pos]
  fix b
  show "b < length (store o2) \<Longrightarrow> unat (refs (store o2 ! b)) = (held(a := held a - 1)) b"
    using a oo_invD(1) [OF inv, of b] by (simp add: o2 nth_list_update)
  show "b < length (store o2) \<Longrightarrow>
      active o2 (ref_key (store o2 ! b)) = Some b \<longleftrightarrow> 0 < (held(a := held a - 1)) b"
    using a held oo_invD(2) [OF inv, of b] by (auto simp: o2 nth_list_update)
  show "b < length (store o2) \<Longrightarrow>
      count_list (repo_closes o2) b = (if (held(a := held a - 1)) b = 0 then 1 else 0)"
    using held oo_invD(3) [OF inv, of b] by (simp add: o2)
  show "length (store o2) \<le> b \<Longrightarrow>
      (held(a := held a - 1)) b = 0 \<and> count_list (repo_closes o2) b = 0"
    using a oo_invD(4) [OF inv, of b] by (auto simp: o2)
  show "active o2 k = Some b \<Longrightarrow> b < length (store o2) \<and> ref_key (store o2 ! b) = k" for k
    using a(1) oo_invD(5) [OF inv, of k b] by (auto simp: o2 nth_list_update)
qed

lemma oo_inv_close_last:
  assumes inv: "oo_inv (o1, held)" and held: "held a = Suc 0"
    and o2: "o2 = o1\<lparr>store := (store o1)[a := (store o1 ! a)\<lparr>refs := refs (store o1 ! a) - 1\<rparr>],
        active := (active o1)(ref_key (store o1 ! a) := None), repo_closes := a # repo_closes o1\<rparr>"
  shows "oo_inv (o2, held(a := held a - 1))"
proof (rule oo_invI)
  have pos: "0 < held a"
    using held by simp
  note a = oo_held_facts [OF inv pos]
  fix b
  show "b < length (store o2) \<Longrightarrow> unat (refs (store o2 ! b)) = (held(a := held a - 1)) b"
    using a(1,3) oo_invD(1) [OF inv, of b] by (simp add: o2 nth_list_update)
  show "b < length (store o2) \<Longrightarrow>
      active o2 (ref_key (store o2 ! b)) = Some b \<longleftrightarrow> 0 < (held(a := held a - 1)) b"
    using held a(1,2) a(4) [of b] oo_invD(2) [OF inv, of b]
    by (cases "b = a") (auto simp: o2 nth_list_update)
  show "b < length (store o2) \<Longrightarrow>
      count_list (repo_closes o2) b = (if (held(a := held a - 1)) b = 0 then 1 else 0)"
    using held oo_invD(3) [OF inv, of b] by (cases "b = a") (auto simp: o2)
  show "length (store o2) \<le> b \<Longrightarrow>
      (held(a := held a - 1)) b = 0 \<and> count_list (repo_closes o2) b = 0"
    using a(1) oo_invD(4) [OF inv, of b] by (auto simp: o2)
  show "active o2 k = Some b \<Longrightarrow> b < length (store o2) \<and> ref_key (store o2 ! b) = k" for k
    using a(1) oo_invD(5) [OF inv, of k b] by (auto simp: o2 nth_list_update split: if_splits)
qed

lemma oo_inv_close:
  assumes inv: "oo_inv (o1, held)" and held: "0 < held a"
    and close: "Close o1 a close_res = (o2, res)"
  shows "oo_inv (o2, held(a := held a - 1))"
proof -
  have "refs (store o1 ! a) - 1 > 0 \<longleftrightarrow> Suc 0 < held a"
    using oo_held_facts(3) [OF inv held] by (metis Suc_lessD unat_gt_0 word_gt_0 zero_less_diff One_nat_def)
  then show ?thesis
    using oo_inv_close_shared [OF inv, of a o2] oo_inv_close_last [OF inv, of a o2] held close
    by (cases "Suc 0 < held a") (simp_all add: Close_def Let_def)
qed

lemma oo_inv_step: "oo_step s t \<Longrightarrow> oo_inv s \<Longrightarrow> oo_inv t"
proof (induction rule: oo_step.induct)
  case (open_ok o1 key open_res o2 a held)
  then show ?case
    by (cases "active o1 key")
      (rule oo_inv_open_new [OF _ _ open_ok(1)] oo_inv_open_again [OF _ _ open_ok(1)]; assumption)+
next
  case (open_error o1 key open_res o2 e held)
  then show ?case
    by (auto simp: Open_def Let_def split: option.splits sum.splits)
next
  case (close held a o1 close_res o2 res)
  show ?case
    by (rule oo_inv_close [OF close(3,1,2)])
qed

lemma oo_inv_reachable: "oo_reachable s \<Longrightarrow> oo_inv s"
  by (induction rule: oo_reachable.induct) (auto intro: oo_inv_start oo_inv_step)

section \<open>Properties\<close>

text \<open>C21: one repository per key. However clients open and close, two handles that are
  both still held and were opened with the same key are the same ref (so the same
  repository), and the 32-bit counter of a ref is the number of its handles.\<close>

theorem onlyone_shared:
  assumes "oo_reachable (o1, held)" and "0 < held a" and "0 < held b"
    and "ref_key (store o1 ! a) = ref_key (store o1 ! b)"
  shows "a = b \<and> unat (refs (store o1 ! a)) = held a"
proof -
  have inv: "oo_inv (o1, held)"
    using assms(1) by (rule oo_inv_reachable)
  have "a = b"
    using oo_held_facts(2) [OF inv assms(2)] oo_held_facts(2) [OF inv assms(3)] assms(4)
    by (metis option.inject)
  then show ?thesis
    using oo_invD(1) [OF inv oo_held_facts(1) [OF inv assms(2)]] by blast
qed

theorem onlyone_shared_witness:
  "\<exists>o1 held. oo_reachable (o1 :: (string, nat) only_one, held) \<and> held 0 = 2
     \<and> unat (refs (store o1 ! 0)) = 2"
proof -
  let ?k = "''repo''"
  let ?o1 = "fst (Open NewOnlyOne ?k (Inr 7)) :: (string, nat) only_one"
  let ?o2 = "fst (Open ?o1 ?k (Inr 8))"
  let ?h = "((\<lambda>_. 0)(0 := Suc 0))(0 := Suc (Suc 0)) :: nat \<Rightarrow> nat"
  have "oo_step (NewOnlyOne, \<lambda>_. 0) (?o1, (\<lambda>_. 0)(0 := Suc 0))"
    by (rule oo_step.open_ok [where key = ?k and open_res = "Inr 7"])
      (simp_all add: Open_def NewOnlyOne_def)
  moreover have "oo_step (?o1, (\<lambda>_. 0)(0 := Suc 0)) (?o2, ?h)"
    using oo_step.open_ok [of ?o1 ?k "Inr 8" ?o2 0 "(\<lambda>_. 0)(0 := Suc 0)"]
    by (simp add: Open_def NewOnlyOne_def)
  ultimately have r: "oo_reachable (?o2, ?h)"
    by (rule oo_reachable.step [OF oo_reachable.step [OF oo_reachable.start]])
  then have "unat (refs (store ?o2 ! 0)) = ?h 0"
    using onlyone_shared [of ?o2 ?h 0 0] by simp
  with r show ?thesis
    by (intro exI [of _ ?o2] exI [of _ ?h]) simp
qed

text \<open>C16: a repository is closed exactly once, and only when nobody holds it. In every
  reachable state \<open>Repo.Close\<close> has been called on a ref never while it has a handle out,
  and exactly once when it has none left; an entry of the map is never a closed repository.\<close>

theorem onlyone_closed_once:
  assumes "oo_reachable (o1, held)" and "a < length (store o1)"
  shows "count_list (repo_closes o1) a = (if held a = 0 then 1 else 0)
    \<and> (active o1 (ref_key (store o1 ! a)) = Some a \<longleftrightarrow> 0 < held a)"
  using oo_invD [OF oo_inv_reachable [OF assms(1)]] assms(2) by simp

theorem onlyone_closed_once_witness:
  "\<exists>o1 held. oo_reachable (o1 :: (string, nat) only_one, held) \<and> held 0 = 0
     \<and> count_list (repo_closes o1) 0 = 1"
proof -
  let ?k = "''repo''"
  let ?o1 = "fst (Open NewOnlyOne ?k (Inr 7)) :: (string, nat) only_one"
  let ?h1 = "(\<lambda>_. 0)(0 := Suc 0) :: nat \<Rightarrow> nat"
  let ?o2 = "fst (Close ?o1 0 (Inr ()))"
  let ?h2 = "?h1(0 := ?h1 0 - 1)"
  have "oo_step (NewOnlyOne, \<lambda>_. 0) (?o1, ?h1)"
    by (rule oo_step.open_ok [where key = ?k and open_res = "Inr 7"])
      (simp_all add: Open_def NewOnlyOne_def)
  moreover have "oo_step (?o1, ?h1) (?o2, ?h2)"
    by (rule oo_step.close [where res = "snd (Close ?o1 0 (Inr ()))" and close_res = "Inr ()"]) simp_all
  ultimately have r: "oo_reachable (?o2, ?h2)"
    by (rule oo_reachable.step [OF oo_reachable.step [OF oo_reachable.start]])
  moreover have "0 < length (store ?o2)"
    by (simp add: Close_def Open_def NewOnlyOne_def Let_def)
  ultimately have "count_list (repo_closes ?o2) 0 = 1"
    using onlyone_closed_once [of ?o2 ?h2 0] by simp
  with r show ?thesis
    by (intro exI [of _ ?o2] exI [of _ ?h2]) simp
qed

end
