(* ===== verification/GC.thy ===== *)
theory GC
  imports Prelude
begin

text \<open>
  The garbage collector (src/gc/gc.go): \<open>Descendants\<close> and \<open>ColoredSet\<close> mark, the loop of
  \<open>GC\<close> sweeps. Cids are values of a type \<open>'c\<close>. The record \<open>gc_env\<close> holds what the code
  calls and does not define: the pinner, the blockstore, \<open>ipld.GetLinks\<close>,
  \<open>verifcid.ValidateCid\<close>, \<open>dag.Walk\<close>, and the context.

  The context is an oracle: every \<open>select\<close> with a \<open>ctx.Done()\<close> branch and every test of
  \<open>ctx.Err()\<close> consults it once, in order, so that any point of cancellation is a value of
  the oracle. The output channel is the list of the results sent.
\<close>

section \<open>Data\<close>

datatype cid_error = ErrPossiblyInsecureHashFunction | ErrBelowMinimumHashLength

datatype link_error = ErrLinkNotFound | LinkError string

datatype 'c gc_error =
    CannotFetchLinksError 'c link_error
  | CannotDeleteBlockError 'c string
  | ErrCannotFetchAllLinks
  | ErrCannotDeleteSomeBlocks
  | CidInvalid cid_error
  | VerboseCidError "'c gc_error"
  | CtxError
  | PinnerError string
  | BlockstoreError string
  | DatastoreError string

datatype 'c gc_result = KeyRemoved 'c | GcError "'c gc_error"

text \<open>The state of a run: the results sent so far, the consultations of the context so
  far, and the flag \<open>errors\<close> of \<open>ColoredSet\<close>.\<close>

record 'c gc_state =
  gc_output :: "'c gc_result list"
  ticks :: nat
  fetch_errors :: bool

type_synonym 'c links_fun = "'c \<Rightarrow> 'c gc_state \<Rightarrow> 'c gc_state \<times> ('c gc_error, 'c list) result"

type_synonym 'c walk_fun =
  "'c links_fun \<Rightarrow> 'c \<Rightarrow> 'c set \<Rightarrow> 'c gc_state \<Rightarrow> 'c gc_state \<times> 'c set \<times> 'c gc_error option"

record 'c gc_env =
  ctx_done :: "nat \<Rightarrow> bool"
  validate_cid :: "'c \<Rightarrow> cid_error option"
  ipld_get_links :: "'c \<Rightarrow> (link_error, 'c list) result"
  dag_walk :: "'c walk_fun"
  recursive_keys :: "(string, 'c list) result"
  direct_keys :: "(string, 'c list) result"
  internal_pins :: "(string, 'c list) result"
  all_keys :: "(string, 'c list) result"
  delete_block :: "'c \<Rightarrow> string option"
  collect_garbage :: "string option option"

section \<open>Marking\<close>

definition ctx_check :: "'c gc_env \<Rightarrow> 'c gc_state \<Rightarrow> 'c gc_state \<times> bool" where
  "ctx_check env st = (st\<lparr>ticks := Suc (ticks st)\<rparr>, ctx_done env (ticks st))"

text \<open>\<open>select { case output <- r: case <-ctx.Done(): }\<close>; the flag says whether it was sent.\<close>

definition send :: "'c gc_env \<Rightarrow> 'c gc_result \<Rightarrow> 'c gc_state \<Rightarrow> 'c gc_state \<times> bool" where
  "send env r st =
     (let (st1, cancelled) = ctx_check env st
      in if cancelled then (st1, False) else (st1\<lparr>gc_output := gc_output st1 @ [r]\<rparr>, True))"

definition verifyGetLinks :: "'c gc_env \<Rightarrow> 'c links_fun \<Rightarrow> 'c links_fun" where
  "verifyGetLinks env getLinks c st =
     (case validate_cid env c of
        Some e \<Rightarrow> (st, Inl (CidInvalid e))
      | None \<Rightarrow> getLinks c st)"

fun verboseCidError :: "'c gc_error \<Rightarrow> 'c gc_error" where
  "verboseCidError (CidInvalid e) = VerboseCidError (CidInvalid e)"
| "verboseCidError e = e"

fun Descendants ::
  "'c gc_env \<Rightarrow> 'c links_fun \<Rightarrow> 'c list \<Rightarrow> 'c set \<Rightarrow> 'c gc_state
    \<Rightarrow> 'c gc_state \<times> 'c set \<times> 'c gc_error option" where
  "Descendants env getLinks [] s st = (st, s, None)"
| "Descendants env getLinks (c # roots) s st =
     (case dag_walk env (verifyGetLinks env getLinks) c s st of
        (st1, s1, Some e) \<Rightarrow> (st1, s1, Some (verboseCidError e))
      | (st1, s1, None) \<Rightarrow> Descendants env getLinks roots s1 st1)"

definition report_fetch_error ::
  "'c gc_env \<Rightarrow> 'c \<Rightarrow> link_error \<Rightarrow> 'c gc_state \<Rightarrow> 'c gc_state \<times> ('c gc_error, 'c list) result" where
  "report_fetch_error env c e st =
     (case send env (GcError (CannotFetchLinksError c e)) (st\<lparr>fetch_errors := True\<rparr>) of
        (st1, True) \<Rightarrow> (st1, Inr [])
      | (st1, False) \<Rightarrow> (st1, Inl CtxError))"

definition pinGetLinks :: "'c gc_env \<Rightarrow> 'c links_fun" where
  "pinGetLinks env c st =
     (case ipld_get_links env c of
        Inl e \<Rightarrow> report_fetch_error env c e st
      | Inr links \<Rightarrow> (st, Inr links))"

definition bestEffortGetLinks :: "'c gc_env \<Rightarrow> 'c links_fun" where
  "bestEffortGetLinks env c st =
     (case ipld_get_links env c of
        Inl ErrLinkNotFound \<Rightarrow> (st, Inr [])
      | Inl e \<Rightarrow> report_fetch_error env c e st
      | Inr links \<Rightarrow> (st, Inr links))"

text \<open>One call of \<open>Descendants\<close> in \<open>ColoredSet\<close> with the handling of its error; \<open>None\<close>
  is the early return with \<open>ctx.Err()\<close>.\<close>

definition mark ::
  "'c gc_env \<Rightarrow> 'c links_fun \<Rightarrow> 'c list \<Rightarrow> 'c set \<times> 'c gc_state \<Rightarrow> 'c gc_state \<times> 'c set option" where
  "mark env getLinks roots sst =
     (case Descendants env getLinks roots (fst sst) (snd sst) of
        (st1, s1, None) \<Rightarrow> (st1, Some s1)
      | (st1, s1, Some e) \<Rightarrow>
          (case send env (GcError e) (st1\<lparr>fetch_errors := True\<rparr>) of
             (st2, True) \<Rightarrow> (st2, Some s1)
           | (st2, False) \<Rightarrow> (st2, None)))"

definition ColoredSet ::
  "'c gc_env \<Rightarrow> 'c list \<Rightarrow> 'c gc_state \<Rightarrow> 'c gc_state \<times> ('c gc_error, 'c set) result" where
  "ColoredSet env bestEffortRoots st =
     (case recursive_keys env of
        Inl e \<Rightarrow> (st\<lparr>fetch_errors := False\<rparr>, Inl (PinnerError e))
      | Inr rkeys \<Rightarrow>
     (case mark env (pinGetLinks env) rkeys ({}, st\<lparr>fetch_errors := False\<rparr>) of
        (st1, None) \<Rightarrow> (st1, Inl CtxError)
      | (st1, Some s1) \<Rightarrow>
     (case mark env (bestEffortGetLinks env) bestEffortRoots (s1, st1) of
        (st2, None) \<Rightarrow> (st2, Inl CtxError)
      | (st2, Some s2) \<Rightarrow>
     (case direct_keys env of
        Inl e \<Rightarrow> (st2, Inl (PinnerError e))
      | Inr dkeys \<Rightarrow>
     (case internal_pins env of
        Inl e \<Rightarrow> (st2, Inl (PinnerError e))
      | Inr ikeys \<Rightarrow>
     (case mark env (pinGetLinks env) ikeys (s2 \<union> set dkeys, st2) of
        (st3, None) \<Rightarrow> (st3, Inl CtxError)
      | (st3, Some s3) \<Rightarrow>
          if fetch_errors st3 then (st3, Inl ErrCannotFetchAllLinks) else (st3, Inr s3)))))))"

section \<open>Sweeping\<close>

text \<open>
  The loop over the channel of keys. Its result is the state, the calls of \<open>DeleteBlock\<close>
  in order, and the flag \<open>errors\<close>. The two consultations of the context are the loop
  condition and the \<open>select\<close> that receives a key.
\<close>

fun sweep ::
  "'c gc_env \<Rightarrow> 'c set \<Rightarrow> 'c list \<Rightarrow> bool \<Rightarrow> 'c gc_state \<Rightarrow> 'c gc_state \<times> 'c list \<times> bool" where
  "sweep env gcs keys errors st =
     (let (st1, stop1) = ctx_check env st in
      if stop1 then (st1, [], errors)
      else let (st2, stop2) = ctx_check env st1 in
      if stop2 then (st2, [], errors)
      else (case keys of
          [] \<Rightarrow> (st2, [], errors)
        | k # ks \<Rightarrow>
            if k \<in> gcs then sweep env gcs ks errors st2
            else (case delete_block env k of
                Some e \<Rightarrow>
                  (case send env (GcError (CannotDeleteBlockError k e)) st2 of
                     (st3, False) \<Rightarrow> (st3, [k], True)
                   | (st3, True) \<Rightarrow>
                       (case sweep env gcs ks True st3 of (st4, ds, er) \<Rightarrow> (st4, k # ds, er)))
              | None \<Rightarrow>
                  (case send env (KeyRemoved k) st2 of
                     (st3, False) \<Rightarrow> (st3, [k], errors)
                   | (st3, True) \<Rightarrow>
                       (case sweep env gcs ks errors st3 of (st4, ds, er) \<Rightarrow> (st4, k # ds, er))))))"

text \<open>The goroutine of \<open>GC\<close>: the final state and the calls of \<open>DeleteBlock\<close>.\<close>

definition GC :: "'c gc_env \<Rightarrow> 'c list \<Rightarrow> 'c gc_state \<times> 'c list" where
  "GC env bestEffortRoots =
     (case ColoredSet env bestEffortRoots \<lparr>gc_output = [], ticks = 0, fetch_errors = False\<rparr> of
        (st1, Inl e) \<Rightarrow> (fst (send env (GcError e) st1), [])
      | (st1, Inr gcs) \<Rightarrow>
     (case all_keys env of
        Inl e \<Rightarrow> (fst (send env (GcError (BlockstoreError e)) st1), [])
      | Inr keys \<Rightarrow>
     (case sweep env gcs keys False st1 of
        (st2, deleted, errors) \<Rightarrow>
          (let (st3, sent) = (if errors then send env (GcError ErrCannotDeleteSomeBlocks) st2 else (st2, True))
           in if \<not> sent then (st3, deleted)
              else (case collect_garbage env of
                      None \<Rightarrow> (st3, deleted)
                    | Some None \<Rightarrow> (st3, deleted)
                    | Some (Some e) \<Rightarrow> (fst (send env (GcError (DatastoreError e)) st3), deleted))))))"

declare sweep.simps [simp del]

section \<open>What is relied on of \<open>dag.Walk\<close>\<close>

text \<open>
  \<open>dag.Walk(ctx, getLinks, root, set.Visit, dag.Concurrent())\<close> of go-merkledag, as its
  documentation describes it: it visits the root and the links of every node it visits
  for the first time; nodes already in the set are not expanded; the order, and how the
  concurrent fetches interleave, is not fixed. The configuration is the set of cids still
  to visit, the set of visited cids and the state. A walk that returns no error has made
  such steps until nothing was left to visit; one that returns an error has made some
  such steps, failed fetches included.
\<close>

inductive walk_step ::
  "bool \<Rightarrow> 'c links_fun \<Rightarrow> 'c set \<times> 'c set \<times> 'c gc_state \<Rightarrow> 'c set \<times> 'c set \<times> 'c gc_state \<Rightarrow> bool"
  for fails getLinks where
  visit: "c \<notin> V \<Longrightarrow> getLinks c st = (st', Inr links)
    \<Longrightarrow> walk_step fails getLinks (insert c todo, V, st) (todo \<union> set links, insert c V, st')"
| seen: "c \<in> V \<Longrightarrow> walk_step fails getLinks (insert c todo, V, st) (todo, V, st)"
| failed: "fails \<Longrightarrow> c \<notin> V \<Longrightarrow> getLinks c st = (st', Inl e)
    \<Longrightarrow> walk_step fails getLinks (insert c todo, V, st) (todo, insert c V, st')"

definition walk_ok :: "'c walk_fun \<Rightarrow> bool" where
  "walk_ok walk \<longleftrightarrow> (\<forall>getLinks root V st.
     (case walk getLinks root V st of
        (st', V', None) \<Rightarrow> (walk_step False getLinks)\<^sup>*\<^sup>* ({root}, V, st) ({}, V', st')
      | (st', V', Some e) \<Rightarrow>
          \<exists>todo'. (walk_step True getLinks)\<^sup>*\<^sup>* ({root}, V, st) (todo', V', st')))"

lemma walk_okD:
  assumes "walk_ok walk"
  shows "walk g r V st = (st', V', None) \<Longrightarrow> (walk_step False g)\<^sup>*\<^sup>* ({r}, V, st) ({}, V', st')"
    and "walk g r V st = (st', V', Some e) \<Longrightarrow> \<exists>t'. (walk_step True g)\<^sup>*\<^sup>* ({r}, V, st) (t', V', st')"
  using assms [unfolded walk_ok_def, rule_format, of g r V st] by simp_all

text \<open>A sequential walk with a bound on its steps has this behaviour: the description can be met.\<close>

fun bounded_walk :: "nat \<Rightarrow> 'c links_fun \<Rightarrow> 'c list \<Rightarrow> 'c set \<Rightarrow> 'c gc_state
    \<Rightarrow> 'c gc_state \<times> 'c set \<times> 'c gc_error option" where
  "bounded_walk n g [] V st = (st, V, None)"
| "bounded_walk 0 g (c # cs) V st = (st, V, Some CtxError)"
| "bounded_walk (Suc n) g (c # cs) V st =
     (if c \<in> V then bounded_walk n g cs V st
      else (case g c st of
              (st1, Inl e) \<Rightarrow> (st1, insert c V, Some e)
            | (st1, Inr links) \<Rightarrow> bounded_walk n g (links @ cs) (insert c V) st1))"

lemma walk_step_mono: "walk_step False g x y \<Longrightarrow> walk_step True g x y"
  by (induction rule: walk_step.induct) (auto intro: walk_step.intros)

lemma walk_steps_mono: "(walk_step False g)\<^sup>*\<^sup>* x y \<Longrightarrow> (walk_step True g)\<^sup>*\<^sup>* x y"
  by (induction rule: rtranclp_induct) (auto intro: walk_step_mono rtranclp.rtrancl_into_rtrancl)

lemma walk_prepend:
  assumes "\<And>b. walk_step b g x y"
    and "case res of None \<Rightarrow> (walk_step False g)\<^sup>*\<^sup>* y ({}, V', st')
      | Some e \<Rightarrow> \<exists>t'. (walk_step True g)\<^sup>*\<^sup>* y (t', V', st')"
  shows "case res of None \<Rightarrow> (walk_step False g)\<^sup>*\<^sup>* x ({}, V', st')
      | Some e \<Rightarrow> \<exists>t'. (walk_step True g)\<^sup>*\<^sup>* x (t', V', st')"
proof (cases res)
  case None
  then show ?thesis
    using assms(2) converse_rtranclp_into_rtranclp [of "walk_step False g", OF assms(1)] by simp
next
  case (Some e)
  then obtain t' where "(walk_step True g)\<^sup>*\<^sup>* y (t', V', st')"
    using assms(2) by auto
  then show ?thesis
    using Some converse_rtranclp_into_rtranclp [of "walk_step True g", OF assms(1)] by auto
qed

lemma bounded_walk_steps:
  "bounded_walk n g cs V st = (st', V', res) \<Longrightarrow>
    (case res of
       None \<Rightarrow> (walk_step False g)\<^sup>*\<^sup>* (set cs, V, st) ({}, V', st')
     | Some e \<Rightarrow> \<exists>t'. (walk_step True g)\<^sup>*\<^sup>* (set cs, V, st) (t', V', st'))"
proof (induction n g cs V st rule: bounded_walk.induct)
  case (3 n g c cs V st)
  consider (seen) "c \<in> V"
    | (err) e st1 where "c \<notin> V" "g c st = (st1, Inl e)"
    | (new) links st1 where "c \<notin> V" "g c st = (st1, Inr links)"
    by (metis sumE surj_pair)
  then show ?case
  proof cases
    case seen
    then have "\<And>b. walk_step b g (set (c # cs), V, st) (set cs, V, st)"
      using walk_step.seen by fastforce
    then show ?thesis
      by (rule walk_prepend) (use seen 3 in simp)
  next
    case err
    then have "walk_step True g (set (c # cs), V, st) (set cs, insert c V, st1)"
      using walk_step.failed by fastforce
    then have "\<exists>t'. (walk_step True g)\<^sup>*\<^sup>* (set (c # cs), V, st) (t', insert c V, st1)"
      by (blast intro: r_into_rtranclp)
    with err 3(3) show ?thesis
      by auto
  next
    case new
    then have "\<And>b. walk_step b g (set (c # cs), V, st) (set (links @ cs), insert c V, st1)"
      using walk_step.visit [of c V g st st1 links _ "set cs"] by (simp add: Un_commute)
    moreover have "case res of
        None \<Rightarrow> (walk_step False g)\<^sup>*\<^sup>* (set (links @ cs), insert c V, st1) ({}, V', st')
      | Some e \<Rightarrow> \<exists>t'. (walk_step True g)\<^sup>*\<^sup>* (set (links @ cs), insert c V, st1) (t', V', st')"
      using 3(2) [OF new(1) new(2) [symmetric] refl] 3(3) new by simp
    ultimately show ?thesis
      by (rule walk_prepend)
  qed
qed auto

lemma walk_ok_bounded: "walk_ok (\<lambda>g r. bounded_walk n g [r])"
  unfolding walk_ok_def using bounded_walk_steps [of n _ "[_]"]
  by (fastforce split: prod.split option.split)

section \<open>Reachability\<close>

inductive_set reach :: "('c \<Rightarrow> 'c set) \<Rightarrow> 'c set \<Rightarrow> 'c set" for lk R where
  root: "c \<in> R \<Longrightarrow> c \<in> reach lk R"
| link: "c \<in> reach lk R \<Longrightarrow> d \<in> lk c \<Longrightarrow> d \<in> reach lk R"

text \<open>The links of a node as far as they can be fetched, and the links a walk follows when
  the nodes of \<open>V\<close> were visited before.\<close>

definition links_of :: "'c gc_env \<Rightarrow> 'c \<Rightarrow> 'c set" where
  "links_of env c = (case ipld_get_links env c of Inl _ \<Rightarrow> {} | Inr ls \<Rightarrow> set ls)"

definition cut :: "'c set \<Rightarrow> ('c \<Rightarrow> 'c set) \<Rightarrow> 'c \<Rightarrow> 'c set" where
  "cut V lk c = (if c \<in> V then {} else lk c)"

lemma reach_mono: "R \<subseteq> R' \<Longrightarrow> (\<And>c. lk c \<subseteq> lk' c) \<Longrightarrow> reach lk R \<subseteq> reach lk' R'"
proof
  fix c
  assume "c \<in> reach lk R" and R: "R \<subseteq> R'" and lk: "\<And>c. lk c \<subseteq> lk' c"
  then show "c \<in> reach lk' R'"
    by (induction) (auto intro: reach.intros)
qed

lemma reach_closed: "R \<subseteq> S \<Longrightarrow> (\<And>c. c \<in> S \<Longrightarrow> lk c \<subseteq> S) \<Longrightarrow> reach lk R \<subseteq> S"
proof
  fix c
  assume "c \<in> reach lk R" and "R \<subseteq> S" and "\<And>c. c \<in> S \<Longrightarrow> lk c \<subseteq> S"
  then show "c \<in> S"
    by (induction) auto
qed

lemma reach_empty [simp]: "reach lk {} = {}"
  using reach_closed [of "{}" "{}" lk] by simp

lemma reach_cut_closed:
  assumes "\<And>c. c \<in> V \<Longrightarrow> lk c \<subseteq> V"
  shows "V \<union> reach (cut V lk) R = V \<union> reach lk R"
proof
  show "V \<union> reach (cut V lk) R \<subseteq> V \<union> reach lk R"
    using reach_mono [of R R "cut V lk" lk, OF subset_refl] by (simp add: cut_def le_supI2)
  have "lk c \<subseteq> V \<union> reach (cut V lk) R" if "c \<in> V \<union> reach (cut V lk) R" for c
  proof (cases "c \<in> V")
    case False
    then have "lk c \<subseteq> reach (cut V lk) R"
      using that reach.link [of c "cut V lk" R] by (auto simp: cut_def)
    then show ?thesis by blast
  qed (use assms in blast)
  then have "reach lk R \<subseteq> V \<union> reach (cut V lk) R"
    by (intro reach_closed) (auto intro: reach.root)
  then show "V \<union> reach lk R \<subseteq> V \<union> reach (cut V lk) R"
    by blast
qed

section \<open>Walks mark what is reachable\<close>

text \<open>
  What the proofs use of a \<open>getLinks\<close> function: its links are those of \<open>lk\<close>, it never clears
  the error flag, and a fetch that leaves the flag clear is \<open>good\<close>.
\<close>

locale link_fetcher =
  fixes getLinks :: "'c links_fun" and lk :: "'c \<Rightarrow> 'c set" and good :: "'c \<Rightarrow> bool"
  assumes fetch_links: "getLinks c st = (st', Inr ls) \<Longrightarrow> set ls = lk c"
    and fetch_flag: "getLinks c st = (st', r) \<Longrightarrow> fetch_errors st \<Longrightarrow> fetch_errors st'"
    and fetch_good: "getLinks c st = (st', Inr ls) \<Longrightarrow> \<not> fetch_errors st' \<Longrightarrow> good c"
begin

lemma step_flag: "walk_step b getLinks x y \<Longrightarrow> fetch_errors (snd (snd x)) \<Longrightarrow> fetch_errors (snd (snd y))"
  by (induction rule: walk_step.induct) (auto dest: fetch_flag)

lemma steps_flag: "(walk_step b getLinks)\<^sup>*\<^sup>* x y \<Longrightarrow> fetch_errors (snd (snd x)) \<Longrightarrow> fetch_errors (snd (snd y))"
  by (induction rule: rtranclp_induct) (auto dest: step_flag)

text \<open>The invariant of a walk from the configuration \<open>(R, V0, _)\<close>.\<close>

definition walk_inv :: "'c set \<Rightarrow> 'c set \<Rightarrow> 'c set \<times> 'c set \<times> 'c gc_state \<Rightarrow> bool" where
  "walk_inv R V0 x \<longleftrightarrow> (case x of (todo, V, st) \<Rightarrow>
     V0 \<subseteq> V \<and> R \<subseteq> V \<union> todo \<and> (\<forall>c \<in> V - V0. lk c \<subseteq> V \<union> todo)
     \<and> V \<union> todo \<subseteq> V0 \<union> reach (cut V0 lk) R
     \<and> (\<not> fetch_errors st \<longrightarrow> (\<forall>c \<in> V - V0. good c)))"

lemma walk_inv_start: "walk_inv R V0 (R, V0, st)"
  by (auto simp: walk_inv_def intro: reach.root)

lemma walk_inv_step: "walk_step False getLinks x y \<Longrightarrow> walk_inv R V0 x \<Longrightarrow> walk_inv R V0 y"
proof (induction rule: walk_step.induct)
  case (visit c V st st' links todo)
  then have ls: "set links = lk c"
    by (simp add: fetch_links)
  have c: "c \<in> reach (cut V0 lk) R" and "c \<notin> V0"
    using visit by (auto simp: walk_inv_def)
  then have "set links \<subseteq> reach (cut V0 lk) R"
    using ls by (auto simp: cut_def intro: reach.link)
  moreover have "\<not> fetch_errors st' \<Longrightarrow> good c \<and> \<not> fetch_errors st"
    using visit(2) fetch_good fetch_flag by blast
  ultimately show ?case
    using visit ls c by (auto simp: walk_inv_def)
next
  case (seen c V todo st)
  then show ?case
    by (auto simp: walk_inv_def)
qed simp

lemma walk_inv_steps: "(walk_step False getLinks)\<^sup>*\<^sup>* x y \<Longrightarrow> walk_inv R V0 x \<Longrightarrow> walk_inv R V0 y"
  by (induction rule: rtranclp_induct) (auto intro: walk_inv_step)

lemma walk_marks:
  assumes "(walk_step False getLinks)\<^sup>*\<^sup>* ({r}, V0, st) ({}, V, st')"
  shows "V0 \<subseteq> V" and "r \<in> V" and "\<And>c. c \<in> V - V0 \<Longrightarrow> lk c \<subseteq> V"
    and "V \<subseteq> V0 \<union> reach (cut V0 lk) {r}"
    and "\<not> fetch_errors st' \<Longrightarrow> c \<in> V - V0 \<Longrightarrow> good c"
  using walk_inv_steps [OF assms walk_inv_start] by (auto simp: walk_inv_def)

text \<open>\<open>Descendants\<close> over several roots: the same, with the roots already walked in the
  set of visited nodes.\<close>

lemma descendants_marks:
  assumes walk: "walk_ok (dag_walk env)" and v: "verifyGetLinks env g = getLinks"
    and "Descendants env g roots V0 st = (st', V, None)"
  shows "V0 \<subseteq> V \<and> set roots \<subseteq> V \<and> (\<forall>c \<in> V - V0. lk c \<subseteq> V)
    \<and> V \<subseteq> V0 \<union> reach (cut V0 lk) (set roots)
    \<and> (fetch_errors st \<longrightarrow> fetch_errors st')
    \<and> (\<not> fetch_errors st' \<longrightarrow> (\<forall>c \<in> V - V0. good c))"
  using assms(3)
proof (induction roots arbitrary: V0 st)
  case (Cons r roots)
  then obtain st1 V1 where w: "dag_walk env getLinks r V0 st = (st1, V1, None)"
    and d: "Descendants env g roots V1 st1 = (st', V, None)"
    using v by (auto split: prod.splits option.splits)
  note steps = walk_okD(1) [OF walk w]
  note m = walk_marks [OF steps] and IH = Cons.IH [OF d]
  have fl: "fetch_errors st \<Longrightarrow> fetch_errors st1"
    using steps_flag [OF steps] by simp
  have "reach (cut V1 lk) (set roots) \<subseteq> reach (cut V0 lk) (set (r # roots))"
    using m(1) by (intro reach_mono) (auto simp: cut_def)
  moreover have "reach (cut V0 lk) {r} \<subseteq> reach (cut V0 lk) (set (r # roots))"
    by (intro reach_mono) auto
  ultimately have "V \<subseteq> V0 \<union> reach (cut V0 lk) (set (r # roots))"
    using m(4) IH by blast
  moreover have "lk c \<subseteq> V" if "c \<in> V - V0" for c
    using that m(3) [of c] IH by blast
  moreover have "good c" if "c \<in> V - V0" "\<not> fetch_errors st'" for c
    using that m(5) [of c] IH by blast
  ultimately show ?case
    using m(1,2) IH fl by auto
qed simp

lemma walk_flag:
  assumes walk: "walk_ok walk" and w: "walk getLinks r V st = (st', V', e)" and "fetch_errors st"
  shows "fetch_errors st'"
proof (cases e)
  case None
  then show ?thesis
    using steps_flag [OF walk_okD(1) [OF walk]] assms by fastforce
next
  case (Some a)
  then obtain t' where "(walk_step True getLinks)\<^sup>*\<^sup>* ({r}, V, st) (t', V', st')"
    using walk_okD(2) [OF walk] w by blast
  then show ?thesis
    using steps_flag assms(3) by fastforce
qed

lemma descendants_flag:
  assumes walk: "walk_ok (dag_walk env)" and v: "verifyGetLinks env g = getLinks"
  shows "Descendants env g roots V0 st = (st', V, e) \<Longrightarrow> fetch_errors st \<Longrightarrow> fetch_errors st'"
proof (induction roots arbitrary: V0 st)
  case (Cons r roots)
  obtain st1 V1 e1 where w: "dag_walk env getLinks r V0 st = (st1, V1, e1)"
    by (metis surj_pair)
  then have "fetch_errors st1"
    using walk_flag [OF walk] Cons.prems(2) by blast
  with Cons w show ?case
    using v by (auto split: option.splits)
qed simp

text \<open>\<open>mark\<close> either keeps the flag clear and has walked everything, or sets it.\<close>

lemma mark_marks:
  assumes walk: "walk_ok (dag_walk env)" and v: "verifyGetLinks env g = getLinks"
    and m: "mark env g roots (V0, st) = (st', Some V)" and ok: "\<not> fetch_errors st'"
  shows "\<not> fetch_errors st" and "V0 \<subseteq> V" and "\<And>c. c \<in> V - V0 \<Longrightarrow> lk c \<subseteq> V"
    and "V = V0 \<union> reach (cut V0 lk) (set roots)"
    and "\<And>c. c \<in> V - V0 \<Longrightarrow> good c"
proof -
  have d: "Descendants env g roots V0 st = (st', V, None)"
    using m ok by (auto simp: mark_def send_def ctx_check_def Let_def split: prod.splits option.splits if_splits bool.splits)
  note dm = descendants_marks [OF walk v d]
  show "\<not> fetch_errors st" "V0 \<subseteq> V" and cl: "\<And>c. c \<in> V - V0 \<Longrightarrow> lk c \<subseteq> V"
    and "\<And>c. c \<in> V - V0 \<Longrightarrow> good c"
    using dm ok by blast+
  have "reach (cut V0 lk) (set roots) \<subseteq> V"
    using dm by (intro reach_closed) (auto simp: cut_def)
  then show "V = V0 \<union> reach (cut V0 lk) (set roots)"
    using dm by blast
qed

text \<open>Fetches that succeed leave the state alone, and so does a walk made of them.\<close>

lemma walk_quiet:
  assumes "(walk_step False getLinks)\<^sup>*\<^sup>* ({r}, V0, st) (todo, V, st')"
    and quiet: "\<And>c st. c \<in> reach lk {r} \<Longrightarrow> fst (getLinks c st) = st"
  shows "st' = st"
proof -
  have "(walk_step False getLinks)\<^sup>*\<^sup>* x y \<Longrightarrow> walk_inv {r} V0 x \<Longrightarrow> snd (snd y) = snd (snd x)" for x y
  proof (induction rule: rtranclp_induct)
    case (step y z)
    then have inv: "walk_inv {r} V0 y"
      by (blast intro: walk_inv_steps)
    have sub: "reach (cut V0 lk) {r} \<subseteq> reach lk {r}"
      by (rule reach_mono) (auto simp: cut_def)
    from step(2) inv have "snd (snd z) = snd (snd y)"
    proof (induction rule: walk_step.induct)
      case (visit c V s s' links todo)
      then have "c \<in> reach lk {r}"
        using sub by (auto simp: walk_inv_def)
      then show ?case
        using quiet [of c s] visit(2) by simp
    qed simp_all
    with step show ?case by simp
  qed simp
  from this [OF assms(1) walk_inv_start] show ?thesis by simp
qed

lemma mark_quiet:
  assumes walk: "walk_ok (dag_walk env)" and v: "verifyGetLinks env g = getLinks"
    and total: "\<And>r V st. r \<in> set roots \<Longrightarrow> snd (snd (dag_walk env getLinks r V st)) = None"
    and quiet: "\<And>c st. c \<in> reach lk (set roots) \<Longrightarrow> fst (getLinks c st) = st"
  shows "\<exists>V. mark env g roots (V0, st) = (st, Some V)"
proof -
  have "\<exists>V. Descendants env g roots V0 st = (st, V, None)"
    using quiet total
  proof (induction roots arbitrary: V0)
    case (Cons r roots)
    have sub: "reach lk {r} \<subseteq> reach lk (set (r # roots))" "reach lk (set roots) \<subseteq> reach lk (set (r # roots))"
      by (rule reach_mono; auto)+
    obtain st1 V1 where w: "dag_walk env getLinks r V0 st = (st1, V1, None)"
      using Cons.prems(2) [of r V0 st] by (metis list.set_intros(1) prod.collapse)
    then have "st1 = st"
      using walk_quiet [OF walk_okD(1) [OF walk w]] Cons.prems(1) sub(1) by blast
    moreover have "\<exists>V. Descendants env g roots V1 st = (st, V, None)"
      using Cons.prems sub(2) by (intro Cons.IH) auto
    ultimately show ?case
      using w v by auto
  qed simp
  then show ?thesis
    by (auto simp: mark_def)
qed

end

section \<open>The two fetchers of \<open>ColoredSet\<close>\<close>

definition fetched :: "'c gc_env \<Rightarrow> 'c \<Rightarrow> bool" where
  "fetched env c \<longleftrightarrow> validate_cid env c = None \<and> (\<exists>ls. ipld_get_links env c = Inr ls)"

definition fetched_or_absent :: "'c gc_env \<Rightarrow> 'c \<Rightarrow> bool" where
  "fetched_or_absent env c \<longleftrightarrow> validate_cid env c = None
     \<and> (ipld_get_links env c = Inl ErrLinkNotFound \<or> (\<exists>ls. ipld_get_links env c = Inr ls))"

lemmas fetch_defs = verifyGetLinks_def pinGetLinks_def bestEffortGetLinks_def report_fetch_error_def
  send_def ctx_check_def links_of_def fetched_def fetched_or_absent_def Let_def

interpretation pinf: link_fetcher "verifyGetLinks env (pinGetLinks env)" "links_of env" "fetched env" for env
  by unfold_locales (auto simp: fetch_defs split: option.splits sum.splits if_splits)

interpretation bef: link_fetcher "verifyGetLinks env (bestEffortGetLinks env)" "links_of env"
    "fetched_or_absent env" for env
  by unfold_locales (auto simp: fetch_defs split: option.splits sum.splits if_splits link_error.splits)

section \<open>The marked set\<close>

text \<open>
  What \<open>ColoredSet\<close> marks: everything reachable from the recursive pins and the best-effort
  roots, the direct pins themselves, and what is reachable from the internal pins through
  nodes not marked before. \<open>documented_set\<close> is the set the comment of \<open>GC\<close> describes.
\<close>

definition colored :: "('c \<Rightarrow> 'c set) \<Rightarrow> 'c set \<Rightarrow> 'c set \<Rightarrow> 'c set \<Rightarrow> 'c set" where
  "colored lk roots direct internal =
     (let B = reach lk roots \<union> direct in B \<union> reach (cut B lk) internal)"

definition documented_set :: "('c \<Rightarrow> 'c set) \<Rightarrow> 'c set \<Rightarrow> 'c set \<Rightarrow> 'c set \<Rightarrow> 'c set" where
  "documented_set lk roots direct internal = reach lk (roots \<union> internal) \<union> direct"

lemma reach_Un: "reach lk (R \<union> S) = reach lk R \<union> reach lk S"
proof
  show "reach lk (R \<union> S) \<subseteq> reach lk R \<union> reach lk S"
    by (intro reach_closed) (auto intro: reach.intros)
  show "reach lk R \<union> reach lk S \<subseteq> reach lk (R \<union> S)"
    by (simp add: reach_mono)
qed

lemma colored_subset: "colored lk R D I \<subseteq> documented_set lk R D I"
proof -
  have "reach (cut (reach lk R \<union> D) lk) I \<subseteq> reach lk I"
    by (rule reach_mono) (auto simp: cut_def)
  then show ?thesis
    by (auto simp: colored_def documented_set_def reach_Un Let_def)
qed

lemma colored_closed:
  assumes "D \<inter> reach lk I \<subseteq> reach lk R"
  shows "colored lk R D I = documented_set lk R D I"
proof -
  let ?B = "reach lk R \<union> D"
  let ?C = "reach (cut ?B lk) I"
  have "lk c \<subseteq> reach lk R \<union> ?C" if "c \<in> reach lk R \<union> ?C" for c
  proof (cases "c \<in> ?B")
    case True
    have "?C \<subseteq> reach lk I"
      by (rule reach_mono) (auto simp: cut_def)
    then have "c \<in> reach lk R"
      using that True assms by blast
    then show ?thesis
      by (auto intro: reach.link)
  next
    case False
    then show ?thesis
      using that reach.link [of c "cut ?B lk" I] by (auto simp: cut_def)
  qed
  then have "reach lk I \<subseteq> reach lk R \<union> ?C"
    by (intro reach_closed) (auto intro: reach.root)
  then have "documented_set lk R D I \<subseteq> colored lk R D I"
    by (auto simp: colored_def documented_set_def reach_Un Let_def)
  with colored_subset show ?thesis
    by (rule subset_antisym)
qed

lemma ColoredSet_exact:
  assumes walk: "walk_ok (dag_walk env)" and cs: "ColoredSet env best st = (st', Inr gcs)"
  obtains rkeys dkeys ikeys where
    "recursive_keys env = Inr rkeys" "direct_keys env = Inr dkeys" "internal_pins env = Inr ikeys"
    "gcs = colored (links_of env) (set rkeys \<union> set best) (set dkeys) (set ikeys)"
    "\<And>c. c \<in> reach (links_of env) (set rkeys) \<Longrightarrow> fetched env c"
proof -
  let ?lk = "links_of env"
  let ?st = "st\<lparr>fetch_errors := False\<rparr>"
  obtain rkeys dkeys ikeys st1 s1 st2 s2 where k: "recursive_keys env = Inr rkeys"
      "direct_keys env = Inr dkeys" "internal_pins env = Inr ikeys"
    and m1: "mark env (pinGetLinks env) rkeys ({}, ?st) = (st1, Some s1)"
    and m2: "mark env (bestEffortGetLinks env) best (s1, st1) = (st2, Some s2)"
    and m3: "mark env (pinGetLinks env) ikeys (s2 \<union> set dkeys, st2) = (st', Some gcs)"
    and ok: "\<not> fetch_errors st'"
    using cs by (auto simp: ColoredSet_def split: sum.splits prod.splits option.splits if_splits)
  note M3 = pinf.mark_marks [OF walk refl m3 ok]
  note M2 = bef.mark_marks [OF walk refl m2 M3(1)]
  note M1 = pinf.mark_marks [OF walk refl m1 M2(1)]
  have s1: "s1 = reach ?lk (set rkeys)"
    using M1(4) by (simp add: cut_def [abs_def])
  have "s2 = reach ?lk (set rkeys) \<union> reach (cut s1 ?lk) (set best)"
    using M2(4) s1 by simp
  also have "\<dots> = reach ?lk (set rkeys \<union> set best)"
    using reach_cut_closed [of s1 ?lk "set best"] s1 by (auto simp: reach_Un intro: reach.link)
  finally have "gcs = colored ?lk (set rkeys \<union> set best) (set dkeys) (set ikeys)"
    using M3(4) by (simp add: colored_def Let_def)
  then show ?thesis
    using that k M1(5) s1 by simp
qed

section \<open>The sweep\<close>

lemmas sweep_unfold = sweep.simps [of _ _ "[]"] sweep.simps [of _ _ "_ # _"]
  ctx_check_def send_def Let_def

lemma sweep_deletes:
  "sweep env gcs keys er st = (st', ds, er') \<Longrightarrow> set ds \<subseteq> set keys - gcs \<and> (distinct keys \<longrightarrow> distinct ds)"
proof (induction keys arbitrary: er st st' ds er')
  case Nil
  then show ?case
    by (auto simp: sweep_unfold split: if_splits)
next
  case (Cons k ks)
  from Cons.prems consider (stop) "ds = []" | (one) "ds = [k]" "k \<notin> gcs"
    | (keep) er1 st1 where "sweep env gcs ks er1 st1 = (st', ds, er')"
    | (del) er1 st1 ds1 where "sweep env gcs ks er1 st1 = (st', ds1, er')" "ds = k # ds1" "k \<notin> gcs"
    by (auto simp: sweep_unfold split: if_splits prod.splits option.splits)
  then show ?case
    using Cons.IH by cases fastforce+
qed



section \<open>Correctness of a run\<close>

lemma GC_deletes:
  assumes "GC env best = (st, deleted)" and "deleted \<noteq> []"
  obtains st0 st1 gcs keys where
    "ColoredSet env best st0 = (st1, Inr gcs)" "all_keys env = Inr keys" "set deleted \<subseteq> set keys - gcs"
  using assms that
  by (auto simp: GC_def Let_def split: prod.splits sum.splits option.splits if_splits
      dest!: sweep_deletes)

lemma GC_safe:
  assumes "walk_ok (dag_walk env)"
    and "recursive_keys env = Inr rkeys" "direct_keys env = Inr dkeys" "internal_pins env = Inr ikeys"
  shows "set (snd (GC env best)) \<inter>
      (reach (links_of env) (set rkeys \<union> set best) \<union> set dkeys \<union> set ikeys) = {}
    \<and> (set dkeys \<inter> reach (links_of env) (set ikeys) \<subseteq> reach (links_of env) (set rkeys \<union> set best)
       \<longrightarrow> set (snd (GC env best)) \<inter>
         documented_set (links_of env) (set rkeys \<union> set best) (set dkeys) (set ikeys) = {})"
proof (cases "snd (GC env best) = []")
  case False
  then obtain st0 st1 gcs keys where cs: "ColoredSet env best st0 = (st1, Inr gcs)"
    and d: "set (snd (GC env best)) \<subseteq> set keys - gcs"
    by (metis GC_deletes prod.collapse)
  have gcs: "gcs = colored (links_of env) (set rkeys \<union> set best) (set dkeys) (set ikeys)"
    using ColoredSet_exact [OF assms(1) cs] assms(2-4) by (metis sum.inject(2))
  have "reach (links_of env) (set rkeys \<union> set best) \<union> set dkeys \<union> set ikeys \<subseteq> gcs"
    by (auto simp: gcs colored_def Let_def intro: reach.root)
  moreover have "documented_set (links_of env) (set rkeys \<union> set best) (set dkeys) (set ikeys) = gcs"
    if "set dkeys \<inter> reach (links_of env) (set ikeys) \<subseteq> reach (links_of env) (set rkeys \<union> set best)"
    using colored_closed [OF that] gcs by simp
  ultimately show ?thesis
    using d by blast
qed simp

text \<open>C1: a garbage collection never deletes a live block. Whatever the point of cancellation,
  the failures of fetches and deletions and the order of the concurrent walks, no block
  is deleted that is reachable from a recursive pin or a best-effort root, that is pinned
  directly, or that is an internal pin of the pinner; and if no direct pin lies below an
  internal pin, outside what the recursive pins reach, then nothing below the internal pins is deleted
  either, so the whole documented live set survives.\<close>

theorem gc_never_deletes_live:
  assumes "walk_ok (dag_walk env)"
    and "recursive_keys env = Inr rkeys" "direct_keys env = Inr dkeys" "internal_pins env = Inr ikeys"
  shows "set (snd (GC env best)) \<inter>
      (reach (links_of env) (set rkeys \<union> set best) \<union> set dkeys \<union> set ikeys) = {}
    \<and> (set dkeys \<inter> reach (links_of env) (set ikeys) \<subseteq> reach (links_of env) (set rkeys \<union> set best)
       \<longrightarrow> set (snd (GC env best)) \<inter>
         documented_set (links_of env) (set rkeys \<union> set best) (set dkeys) (set ikeys) = {})"
  using assms by (rule GC_safe)

text \<open>C18: one recursively pinned block whose links cannot be fetched, or whose cid is invalid,
  aborts the collection: nothing at all is deleted, and if the context is not cancelled
  the last result sent reports an error.\<close>

theorem gc_aborts_on_fetch_error:
  assumes "walk_ok (dag_walk env)" and "recursive_keys env = Inr rkeys"
    and "c \<in> reach (links_of env) (set rkeys)" and "\<not> fetched env c"
  shows "snd (GC env best) = []
    \<and> (ctx_done env = (\<lambda>_. False) \<longrightarrow> (\<exists>out e. gc_output (fst (GC env best)) = out @ [GcError e]))"
proof -
  let ?st = "\<lparr>gc_output = [], ticks = 0, fetch_errors = False\<rparr>"
  have no: "\<nexists>gcs. snd (ColoredSet env best st) = Inr gcs" for st
  proof
    assume "\<exists>gcs. snd (ColoredSet env best st) = Inr gcs"
    then obtain gcs where "ColoredSet env best st = (fst (ColoredSet env best st), Inr gcs)"
      by (metis prod.collapse)
    from ColoredSet_exact [OF assms(1) this] show False
      using assms(2-4) by (metis sum.inject(2))
  qed
  then obtain st1 e where "ColoredSet env best ?st = (st1, Inl e)"
    by (metis prod.collapse old.sum.exhaust)
  then show ?thesis
    by (auto simp: GC_def send_def ctx_check_def Let_def)
qed





section \<open>Concrete runs\<close>

text \<open>Five blocks: 0 links to 1, 3 links to 4; the cid 9 is not valid. \<open>gc_ex\<close> pins 0 recursively, 2 directly; the
  internal pins and the blocks whose links are missing vary.\<close>

definition gc_ex :: "nat list \<Rightarrow> nat list \<Rightarrow> nat list \<Rightarrow> nat gc_env" where
  "gc_ex direct internal broken = \<lparr>
     ctx_done = (\<lambda>_. False), validate_cid = (\<lambda>c. if c = 9 then Some ErrBelowMinimumHashLength else None),
     ipld_get_links = (\<lambda>c. if c \<in> set broken then Inl ErrLinkNotFound
       else if c = 0 then Inr [1] else if c = 3 then Inr [4] else Inr []),
     dag_walk = (\<lambda>g r. bounded_walk 8 g [r]),
     recursive_keys = Inr [0], direct_keys = Inr direct, internal_pins = Inr internal,
     all_keys = Inr [0, 1, 2, 3, 4], delete_block = (\<lambda>k. if k = 4 then Some ''busy'' else None),
     collect_garbage = None\<rparr>"

lemmas gc_run = GC_def ColoredSet_def mark_def verifyGetLinks_def pinGetLinks_def bestEffortGetLinks_def
  report_fetch_error_def sweep_unfold

lemma gc_ex_sel [simp]:
  "ctx_done (gc_ex d i b) = (\<lambda>_. False)" "validate_cid (gc_ex d i b) c = (if c = 9 then Some ErrBelowMinimumHashLength else None)"
  "dag_walk (gc_ex d i b) = (\<lambda>g r. bounded_walk 8 g [r])"
  "recursive_keys (gc_ex d i b) = Inr [0]" "direct_keys (gc_ex d i b) = Inr d"
  "internal_pins (gc_ex d i b) = Inr i" "all_keys (gc_ex d i b) = Inr [0, 1, 2, 3, 4]"
  "delete_block (gc_ex d i b) k = (if k = 4 then Some ''busy'' else None)"
  "collect_garbage (gc_ex d i b) = None"
  "ipld_get_links (gc_ex d i b) c = (if c \<in> set b then Inl ErrLinkNotFound
       else if c = 0 then Inr [1] else if c = 3 then Inr [4] else Inr [])"
  by (simp_all add: gc_ex_def)

lemma bounded_walk_numeral:
  "bounded_walk (numeral n) g (c # cs) V st =
     (if c \<in> V then bounded_walk (pred_numeral n) g cs V st
      else (case g c st of
              (st1, Inl e) \<Rightarrow> (st1, insert c V, Some e)
            | (st1, Inr links) \<Rightarrow> bounded_walk (pred_numeral n) g (links @ cs) (insert c V) st1))"
  by (simp add: numeral_eq_Suc)

lemma gc_ex_run: "snd (GC (gc_ex [2] [] []) []) = [3, 4]"
  by (simp add: gc_run bounded_walk_numeral)

theorem gc_never_deletes_live_witness:
  "snd (GC (gc_ex [2] [] []) []) = [3, 4] \<and>
   set (snd (GC (gc_ex [2] [] []) [])) \<inter>
     documented_set (links_of (gc_ex [2] [] [])) (set [0] \<union> set []) (set [2]) (set []) = {}"
  using gc_never_deletes_live [of "gc_ex [2] [] []" "[0]" "[2]" "[]" "[]"] gc_ex_run
  by (simp add: walk_ok_bounded)

theorem gc_aborts_on_fetch_error_witness:
  "\<not> fetched (gc_ex [2] [] [1]) 1 \<and> snd (GC (gc_ex [2] [] [1]) []) = []
   \<and> (\<exists>out e. gc_output (fst (GC (gc_ex [2] [] [1]) [])) = out @ [GcError e])"
proof -
  have "1 \<in> reach (links_of (gc_ex [2] [] [1])) (set [0])"
    by (rule reach.link [of 0]) (auto simp: links_of_def intro: reach.root)
  moreover have "\<not> fetched (gc_ex [2] [] [1]) 1"
    by (simp add: fetched_def)
  ultimately show ?thesis
    using gc_aborts_on_fetch_error [of "gc_ex [2] [] [1]" "[0]" 1 "[]"] by (simp add: walk_ok_bounded)
qed



text \<open>The marking of internal pins stops at nodes that were already marked, and direct pins
  are marked, without their descendants, before the internal pins are walked. So a block
  that the comment of \<open>GC\<close> counts as live, because an internal pin reaches it, is deleted
  when a direct pin lies on the way.\<close>

theorem gc_direct_pin_hides_internal:
  "walk_ok (dag_walk (gc_ex [3] [3] []))
   \<and> 4 \<in> documented_set (links_of (gc_ex [3] [3] [])) (set [0]) (set [3]) (set [3])
   \<and> snd (GC (gc_ex [3] [3] []) []) = [2, 4]
   \<and> 4 \<notin> set (snd (GC (gc_ex [2] [3] []) []))"
proof -
  have "4 \<in> reach (links_of (gc_ex [3] [3] [])) (set [0] \<union> set [3])"
    by (rule reach.link [of 3]) (auto simp: links_of_def intro: reach.root)
  moreover have "snd (GC (gc_ex [3] [3] []) []) = [2, 4]"
    by (simp add: gc_run bounded_walk_numeral)
  moreover have "4 \<notin> set (snd (GC (gc_ex [2] [3] []) []))"
    by (simp add: gc_run bounded_walk_numeral)
  ultimately show ?thesis
    by (simp add: walk_ok_bounded documented_set_def)
qed

end
