(* ===== verification/CoreRepo.thy ===== *)
theory CoreRepo
  imports GC
begin

text \<open>
  Storage limits and the scheduling of garbage collections (src/core/corerepo/gc.go), and the
  repository statistics (src/core/corerepo/stat.go). Sizes are \<open>64 word\<close>s, as in the code: the
  arithmetic of the watermark wraps around.

  The record \<open>cr_env\<close> holds what the code calls: the repository (its configuration, its storage
  usage), \<open>humanize.ParseBytes\<close>, \<open>time.ParseDuration\<close>, the root of the mutable file system,
  and, for each run of the collector, the \<open>gc_env\<close> the run sees. The usage and the
  environment of a run depend on how often they were asked for before.
\<close>

section \<open>Data\<close>

datatype 'c cr_error =
    ConfigError string
  | SetKeyError string
  | ParseError string
  | UsageError string
  | RootError string
  | RunError "'c gc_error"
  | CtxDone
  | MultiError "'c cr_error list" "'c cr_error"
  | KeysError string
  | PathError string

record ds_config =
  StorageMax :: string
  StorageGCWatermark :: "64 word"
  GCPeriod :: string

text \<open>The state of the node: the configuration in memory, the keys written through
  \<open>SetConfigKey\<close>, and how many usages were read and collections run.\<close>

record cr_state =
  config :: ds_config
  written :: "(string \<times> string) list"
  usages_read :: nat
  runs :: nat

record 'c cr_env =
  ipfs_config :: "string option"
  set_config_key :: "string \<Rightarrow> string option"
  parse_bytes :: "string \<Rightarrow> (string, 64 word) result"
  parse_duration :: "string \<Rightarrow> (string, int) result"
  storage_usage :: "nat \<Rightarrow> (string, 64 word) result"
  mfs_root :: "nat \<Rightarrow> (string, 'c) result"
  gc_run_env :: "nat \<Rightarrow> 'c gc_env"
  collect_done :: "nat \<Rightarrow> nat \<Rightarrow> bool"
  cid_defined :: "'c \<Rightarrow> bool"
  repo_keys :: "(string, 'c list) result"
  best_known_path :: "(string, string) result"

record gc_limits =
  lim_StorageMax :: "64 word"
  lim_StorageGC :: "64 word"
  lim_SlackGB :: "64 word"
  lim_Storage :: "64 word"

section \<open>Limits\<close>

definition IPFSConfig :: "'c cr_env \<Rightarrow> cr_state \<Rightarrow> ('c cr_error, ds_config) result" where
  "IPFSConfig env st = (case ipfs_config env of Some e \<Rightarrow> Inl (ConfigError e) | None \<Rightarrow> Inr (config st))"

definition SetConfigKey :: "'c cr_env \<Rightarrow> string \<Rightarrow> string \<Rightarrow> cr_state \<Rightarrow> cr_state \<times> 'c cr_error option" where
  "SetConfigKey env k v st =
     (case set_config_key env k of
        Some e \<Rightarrow> (st, Some (SetKeyError e))
      | None \<Rightarrow> (st\<lparr>written := written st @ [(k, v)]\<rparr>, None))"

text \<open>The two defaulting steps of \<open>NewGC\<close>.\<close>

definition default_max :: "'c cr_env \<Rightarrow> cr_state \<Rightarrow> cr_state \<times> 'c cr_error option" where
  "default_max env st =
     (if StorageMax (config st) = '''' then
        (case SetConfigKey env ''Datastore.StorageMax'' ''10GB'' st of
           (st1, Some e) \<Rightarrow> (st1, Some e)
         | (st1, None) \<Rightarrow> (st1\<lparr>config := (config st1)\<lparr>StorageMax := ''10GB''\<rparr>\<rparr>, None))
      else (st, None))"

definition default_watermark :: "'c cr_env \<Rightarrow> cr_state \<Rightarrow> cr_state \<times> 'c cr_error option" where
  "default_watermark env st =
     (if StorageGCWatermark (config st) = 0 then
        (case SetConfigKey env ''Datastore.StorageGCWatermark'' ''90'' st of
           (st1, Some e) \<Rightarrow> (st1, Some e)
         | (st1, None) \<Rightarrow> (st1\<lparr>config := (config st1)\<lparr>StorageGCWatermark := 90\<rparr>\<rparr>, None))
      else (st, None))"

definition limits :: "64 word \<Rightarrow> 64 word \<Rightarrow> gc_limits" where
  "limits storageMax watermark =
     (let storageGC = storageMax * watermark div 100;
          slackGB = (storageMax - storageGC) div 10000000000
      in \<lparr>lim_StorageMax = storageMax, lim_StorageGC = storageGC,
          lim_SlackGB = (if slackGB < 1 then 1 else slackGB), lim_Storage = 0\<rparr>)"

definition NewGC :: "'c cr_env \<Rightarrow> cr_state \<Rightarrow> cr_state \<times> ('c cr_error, gc_limits) result" where
  "NewGC env st =
     (case IPFSConfig env st of
        Inl e \<Rightarrow> (st, Inl e)
      | Inr _ \<Rightarrow>
     (case default_max env st of
        (st1, Some e) \<Rightarrow> (st1, Inl e)
      | (st1, None) \<Rightarrow>
     (case default_watermark env st1 of
        (st2, Some e) \<Rightarrow> (st2, Inl e)
      | (st2, None) \<Rightarrow>
     (case parse_bytes env (StorageMax (config st2)) of
        Inl e \<Rightarrow> (st2, Inl (ParseError e))
      | Inr storageMax \<Rightarrow> (st2, Inr (limits storageMax (StorageGCWatermark (config st2))))))))"

section \<open>Collecting the results of a run\<close>

definition NewMultiError :: "'c cr_error list \<Rightarrow> 'c cr_error" where
  "NewMultiError errs = MultiError (butlast errs) (last errs)"

text \<open>\<open>MultiError.Error\<close>; \<open>show_err\<close> gives the text of the other errors.\<close>

fun error_text :: "('c cr_error \<Rightarrow> string) \<Rightarrow> 'c cr_error \<Rightarrow> string" where
  "error_text show_err (MultiError errs summary) =
     concat (map (\<lambda>e. error_text show_err e @ ''; '') errs) @ error_text show_err summary"
| "error_text show_err e = show_err e"

text \<open>The receive loop: at each turn either the context is done or the next result, or the
  end of the channel, is received. The callback acts on a state of the caller.\<close>

fun collect_loop ::
  "(nat \<Rightarrow> bool) \<Rightarrow> ('c \<Rightarrow> bool) \<Rightarrow> ('c \<Rightarrow> 's \<Rightarrow> 's) option \<Rightarrow> nat \<Rightarrow> 'c gc_result list
    \<Rightarrow> 'c cr_error list \<Rightarrow> 's \<Rightarrow> 'c cr_error list \<times> 's" where
  "collect_loop ctx defined cb n [] errs s = (if ctx n then (errs @ [CtxDone], s) else (errs, s))"
| "collect_loop ctx defined cb n (res # out) errs s =
     (if ctx n then (errs @ [CtxDone], s)
      else (case res of
          GcError e \<Rightarrow> collect_loop ctx defined cb (Suc n) out (errs @ [RunError e]) s
        | KeyRemoved k \<Rightarrow>
            (case cb of
               Some f \<Rightarrow> collect_loop ctx defined cb (Suc n) out errs (if defined k then f k s else s)
             | None \<Rightarrow> collect_loop ctx defined cb (Suc n) out errs s)))"

fun summarize :: "'c cr_error list \<Rightarrow> 'c cr_error option" where
  "summarize [] = None"
| "summarize [e] = Some e"
| "summarize es = Some (NewMultiError es)"

definition CollectResult ::
  "(nat \<Rightarrow> bool) \<Rightarrow> ('c \<Rightarrow> bool) \<Rightarrow> 'c gc_result list \<Rightarrow> ('c \<Rightarrow> 's \<Rightarrow> 's) option \<Rightarrow> 's
    \<Rightarrow> 'c cr_error option \<times> 's" where
  "CollectResult ctx defined out cb s =
     (case collect_loop ctx defined cb 0 out [] s of (errs, s') \<Rightarrow> (summarize errs, s'))"

section \<open>Running collections\<close>

definition BestEffortRoots :: "'c cr_env \<Rightarrow> cr_state \<Rightarrow> ('c cr_error, 'c list) result" where
  "BestEffortRoots env st =
     (case mfs_root env (runs st) of Inl e \<Rightarrow> Inl (RootError e) | Inr c \<Rightarrow> Inr [c])"

text \<open>The blocks deleted by the run are part of the result.\<close>

definition GarbageCollect :: "'c cr_env \<Rightarrow> cr_state \<Rightarrow> cr_state \<times> 'c cr_error option \<times> 'c list" where
  "GarbageCollect env st =
     (case BestEffortRoots env st of
        Inl e \<Rightarrow> (st, Some e, [])
      | Inr roots \<Rightarrow>
          (case GC (gc_run_env env (runs st)) roots of
             (gst, deleted) \<Rightarrow>
               (st\<lparr>runs := Suc (runs st)\<rparr>,
                fst (CollectResult (collect_done env (runs st)) (cid_defined env) (gc_output gst) None ()),
                deleted)))"

definition GarbageCollectAsync :: "'c cr_env \<Rightarrow> cr_state \<Rightarrow> (cr_state \<times> 'c gc_result list) outcome" where
  "GarbageCollectAsync env st =
     (case BestEffortRoots env st of
        Inl e \<Rightarrow> Blocks
      | Inr roots \<Rightarrow>
          Returns (st\<lparr>runs := Suc (runs st)\<rparr>, gc_output (fst (GC (gc_run_env env (runs st)) roots))))"

definition maybeGC ::
  "'c cr_env \<Rightarrow> gc_limits \<Rightarrow> 64 word \<Rightarrow> cr_state \<Rightarrow> cr_state \<times> 'c cr_error option \<times> 'c list" where
  "maybeGC env gc offset st =
     (let st1 = st\<lparr>usages_read := Suc (usages_read st)\<rparr> in
      case storage_usage env (usages_read st) of
        Inl e \<Rightarrow> (st1, Some (UsageError e), [])
      | Inr storage \<Rightarrow>
          if lim_StorageGC gc < storage + offset then GarbageCollect env st1
          else (st1, None, []))"

definition ConditionalGC ::
  "'c cr_env \<Rightarrow> 64 word \<Rightarrow> cr_state \<Rightarrow> cr_state \<times> 'c cr_error option \<times> 'c list" where
  "ConditionalGC env offset st =
     (case NewGC env st of
        (st1, Inl e) \<Rightarrow> (st1, Some e, [])
      | (st1, Inr gc) \<Rightarrow> maybeGC env gc offset st1)"



section \<open>Statistics\<close>

record size_stat =
  RepoSize_of :: "64 word"
  StorageMax_of :: "64 word"

record repo_stat = size_stat +
  NumObjects :: "64 word"
  RepoPath :: string
  Version :: string

definition NoLimit :: "64 word" where
  "NoLimit = -1"

definition RepoSize :: "'c cr_env \<Rightarrow> cr_state \<Rightarrow> cr_state \<times> ('c cr_error, size_stat) result" where
  "RepoSize env st =
     (case IPFSConfig env st of
        Inl e \<Rightarrow> (st, Inl e)
      | Inr cfg \<Rightarrow>
     (let st1 = st\<lparr>usages_read := Suc (usages_read st)\<rparr> in
      case storage_usage env (usages_read st) of
        Inl e \<Rightarrow> (st1, Inl (UsageError e))
      | Inr usage \<Rightarrow>
          if StorageMax cfg \<noteq> '''' then
            (case parse_bytes env (StorageMax cfg) of
               Inl e \<Rightarrow> (st1, Inl (ParseError e))
             | Inr m \<Rightarrow> (st1, Inr \<lparr>RepoSize_of = usage, StorageMax_of = m\<rparr>))
          else (st1, Inr \<lparr>RepoSize_of = usage, StorageMax_of = NoLimit\<rparr>)))"

fun count_keys :: "'c list \<Rightarrow> 64 word \<Rightarrow> 64 word" where
  "count_keys [] n = n"
| "count_keys (_ # ks) n = count_keys ks (n + 1)"

definition RepoStat :: "'c cr_env \<Rightarrow> cr_state \<Rightarrow> cr_state \<times> ('c cr_error, repo_stat) result" where
  "RepoStat env st =
     (case RepoSize env st of
        (st1, Inl e) \<Rightarrow> (st1, Inl e)
      | (st1, Inr sz) \<Rightarrow>
     (case repo_keys env of
        Inl e \<Rightarrow> (st1, Inl (KeysError e))
      | Inr ks \<Rightarrow>
     (let count = count_keys ks 0 in
      case best_known_path env of
        Inl e \<Rightarrow> (st1, Inl (PathError e))
      | Inr path \<Rightarrow>
          (st1, Inr \<lparr>RepoSize_of = RepoSize_of sz, StorageMax_of = StorageMax_of sz, NumObjects = count,
                    RepoPath = path, Version = ''fs-repo@10''\<rparr>))))"

section \<open>Correctness of the limits\<close>

lemma word64_less_sum: "unat (a::64 word) + unat b < 2 ^ 64 \<Longrightarrow> unat (a + b) = unat a + unat b"
  by (simp add: unat_word_ariths)

lemma limits_GC:
  assumes "unat m * unat w < 2 ^ 64"
  shows "unat (lim_StorageGC (limits m w)) = unat m * unat w div 100"
  using assms by (simp add: limits_def Let_def unat_div unat_word_ariths)

lemma unat_max1: "unat (if (x::64 word) < 1 then 1 else x) = max 1 (unat x)"
  by (auto simp: word_less_nat_alt)

lemma watermark_le:
  assumes "w \<le> (100::nat)"
  shows "m * w div 100 \<le> m"
proof -
  have "m * w div 100 \<le> m * 100 div 100"
    using assms by (intro div_le_mono mult_le_mono2)
  then show ?thesis by simp
qed

text \<open>The watermark. For a watermark of at most 100 percent and a limit whose product with
  it fits 64 bits, the collection threshold is the percentage of the limit, rounded down
  and never above the limit, and the slack is the difference in units of \<open>10 ^ 10\<close> bytes,
  but at least one.\<close>

theorem gc_limits_exact:
  assumes "unat w \<le> 100" and "unat m * unat w < 2 ^ 64"
  shows "unat (lim_StorageGC (limits m w)) = unat m * unat w div 100
    \<and> lim_StorageGC (limits m w) \<le> lim_StorageMax (limits m w)
    \<and> unat (lim_SlackGB (limits m w)) = max 1 ((unat m - unat m * unat w div 100) div 10 ^ 10)"
proof -
  note gc = limits_GC [OF assms(2)]
  have le: "unat (lim_StorageGC (limits m w)) \<le> unat m"
    using gc watermark_le [OF assms(1)] by simp
  then have sub: "unat (m - lim_StorageGC (limits m w)) = unat m - unat m * unat w div 100"
    using gc by (simp add: unat_sub word_le_nat_alt)
  let ?s = "(m - lim_StorageGC (limits m w)) div 10000000000"
  have "lim_SlackGB (limits m w) = (if ?s < 1 then 1 else ?s)"
    by (simp add: limits_def Let_def)
  then have "unat (lim_SlackGB (limits m w)) = max 1 (unat ?s)"
    using unat_max1 [of ?s] by (simp only:)
  then show ?thesis
    using gc le sub by (simp add: word_le_nat_alt limits_def Let_def unat_div)
qed

theorem gc_limits_exact_witness:
  "unat (90 :: 64 word) \<le> 100 \<and> unat (lim_StorageGC (limits 10000000000 90)) = 9000000000"
  using gc_limits_exact [of 90 10000000000] by simp

text \<open>Without the bound on the product the threshold wraps around: with a limit of \<open>2 ^ 60\<close>
  bytes and the default watermark it is a tenth of the limit.\<close>

lemma limits_wrap: "unat (lim_StorageGC (limits (2 ^ 60) 90)) = 10 * 2 ^ 60 div 100"
  by (simp add: limits_def Let_def unat_div unat_word_ariths)

section \<open>When a collection runs\<close>

definition effective_max :: "cr_state \<Rightarrow> string" where
  "effective_max st = (if StorageMax (config st) = '''' then ''10GB'' else StorageMax (config st))"

definition effective_watermark :: "cr_state \<Rightarrow> 64 word" where
  "effective_watermark st = (if StorageGCWatermark (config st) = 0 then 90 else StorageGCWatermark (config st))"

lemma NewGC_cases:
  assumes "ipfs_config env = None" and "\<And>k. set_config_key env k = None"
    and "parse_bytes env (effective_max st) = Inr m"
  shows "\<exists>st1. NewGC env st = (st1, Inr (limits m (effective_watermark st)))
    \<and> runs st1 = runs st \<and> usages_read st1 = usages_read st"
  using assms
  by (cases "StorageMax (config st) = []"; cases "StorageGCWatermark (config st) = 0")
    (simp_all add: NewGC_def IPFSConfig_def default_max_def default_watermark_def SetConfigKey_def
      effective_max_def effective_watermark_def)

lemma above_watermark:
  assumes "unat m * unat w < 2 ^ 64" and "unat s + unat off < 2 ^ 64"
  shows "lim_StorageGC (limits m w) < s + off \<longleftrightarrow> unat m * unat w < 100 * (unat s + unat off)"
proof -
  have "a div 100 < b \<longleftrightarrow> a < 100 * b" for a b :: nat
    by (simp add: div_less_iff_less_mult mult.commute)
  then show ?thesis
    using limits_GC [OF assms(1)] word64_less_sum [OF assms(2)] by (simp add: word_less_nat_alt)
qed

lemma GarbageCollect_runs:
  "BestEffortRoots env st = Inr roots \<Longrightarrow> runs (fst (GarbageCollect env st)) = Suc (runs st)"
  by (simp add: GarbageCollect_def split: prod.splits)

text \<open>The decision to collect. When the configuration can be read and its limit parsed,
  with the defaults \<open>10GB\<close> and 90 percent put in for absent values, and nothing
  overflows, \<open>ConditionalGC\<close> runs exactly one collection when usage plus offset exceed
  the watermark and none otherwise; without a collection nothing is deleted and no
  error returned.\<close>

theorem conditionalGC_runs_iff:
  assumes "ipfs_config env = None" and "\<And>k. set_config_key env k = None"
    and "parse_bytes env (effective_max st) = Inr m"
    and "storage_usage env (usages_read st) = Inr s"
    and "mfs_root env (runs st) = Inr root"
    and "unat m * unat (effective_watermark st) < 2 ^ 64" and "unat s + unat off < 2 ^ 64"
  shows "if unat m * unat (effective_watermark st) < 100 * (unat s + unat off)
    then runs (fst (ConditionalGC env off st)) = Suc (runs st)
    else runs (fst (ConditionalGC env off st)) = runs st \<and> snd (ConditionalGC env off st) = (None, [])"
proof -
  obtain st1 where n: "NewGC env st = (st1, Inr (limits m (effective_watermark st)))"
    "runs st1 = runs st" "usages_read st1 = usages_read st"
    using NewGC_cases [OF assms(1-3)] by blast
  have r: "BestEffortRoots env (st1\<lparr>usages_read := u\<rparr>) = Inr [root]" for u
    using assms(5) n(2) by (simp add: BestEffortRoots_def)
  show ?thesis
    using assms(4) n r GarbageCollect_runs [OF r] above_watermark [OF assms(6,7)]
    by (simp add: ConditionalGC_def maybeGC_def Let_def)
qed








section \<open>The collected results\<close>

lemma collect_loop_all:
  assumes "ctx = (\<lambda>_. False)"
  shows "collect_loop ctx defined cb n out errs s =
    (errs @ [RunError e. GcError e \<leftarrow> out],
     (case cb of None \<Rightarrow> s | Some f \<Rightarrow> fold f [k. KeyRemoved k \<leftarrow> out, defined k] s))"
  using assms
  by (induction out arbitrary: n errs s) (auto split: gc_result.splits option.splits)

lemma summarize_conv:
  "summarize es = (if es = [] then None else if tl es = [] then Some (hd es)
     else Some (MultiError (butlast es) (last es)))"
  by (cases es rule: summarize.cases) (auto simp: NewMultiError_def)

text \<open>\<open>CollectResult\<close> that is not cancelled drains the channel: the callback has seen every
  defined removed key in order, and the result is no error, the only error, or all of
  them in order with the last as the summary. Cancelled at once, it reports just that.\<close>

theorem collectResult_all:
  "CollectResult (\<lambda>_. False) defined out (Some f) s =
     (let es = [RunError e. GcError e \<leftarrow> out] in
        (if es = [] then None else if tl es = [] then Some (hd es)
         else Some (MultiError (butlast es) (last es))),
      fold f [k. KeyRemoved k \<leftarrow> out, defined k] s)
   \<and> CollectResult (\<lambda>_. True) defined out (Some f) s = (Some CtxDone, s)"
proof
  show "CollectResult (\<lambda>_. True) defined out (Some f) s = (Some CtxDone, s)"
    by (cases out) (simp_all add: CollectResult_def)
qed (simp only: CollectResult_def collect_loop_all summarize_conv prod.case option.case append_Nil Let_def)

text \<open>\<open>GarbageCollectAsync\<close> returns exactly when the root of the mutable file system can be
  read; otherwise it sends the error on an unbuffered channel before anyone can
  receive from it, and never returns.\<close>

theorem garbageCollectAsync_blocks:
  "(\<exists>r. GarbageCollectAsync env st = Returns r) \<longleftrightarrow> (\<exists>root. mfs_root env (runs st) = Inr root)"
  by (auto simp: GarbageCollectAsync_def BestEffortRoots_def split: sum.splits)

section \<open>Concrete runs\<close>

text \<open>A node with the blocks of \<open>gc_ex\<close>, no limits configured, and a usage of nine and a half
  gigabytes; its files root is block 3.\<close>

definition cr_ex :: "nat cr_env" where
  "cr_ex = \<lparr>ipfs_config = None, set_config_key = (\<lambda>_. None),
     parse_bytes = (\<lambda>s. if s = ''10GB'' then Inr 10000000000 else Inl ''bad size''),
     parse_duration = (\<lambda>s. if s = ''1h'' then Inr 3600000000000 else Inl ''bad duration''),
     storage_usage = (\<lambda>_. Inr 9500000000), mfs_root = (\<lambda>_. Inr 3),
     gc_run_env = (\<lambda>_. gc_ex [2] [] []), collect_done = (\<lambda>_ _. False), cid_defined = (\<lambda>_. True),
     repo_keys = Inr [0, 1, 2, 3, 4], best_known_path = Inr ''/repo''\<rparr>"

definition cr_st0 :: cr_state where
  "cr_st0 = \<lparr>config = \<lparr>StorageMax = '''', StorageGCWatermark = 0, GCPeriod = ''''\<rparr>,
     written = [], usages_read = 0, runs = 0\<rparr>"

theorem conditionalGC_runs_iff_witness:
  "runs (fst (ConditionalGC cr_ex 0 cr_st0)) = 1"
  using conditionalGC_runs_iff [of cr_ex cr_st0 10000000000 9500000000 3 0]
  by (simp add: cr_ex_def cr_st0_def effective_max_def effective_watermark_def)


end
