(* ===== verification/Blockstores.thy ===== *)
theory Blockstores
  imports Prelude
begin

text \<open>
  The two blockstore wrappers of the repository: \<open>cidv0v1\<close> (src/thirdparty/cidv0v1/blockstore.go),
  which finds a block under the other version of its cid, and \<open>verifbs\<close>
  (src/thirdparty/verifbs/verifbs.go), which refuses cids with insecure hashes; and the removal of
  blocks by cid (src/blocks/blockstoreutil/remove.go).

  The wrapped blockstore is a record of operations on a state \<open>'s\<close>. What the wrappers rely
  on is \<open>bs_laws\<close>: relative to a view of the state as a map from cids to data, a lookup
  that does not fail answers by the map and a put that does not fail updates it.
\<close>

section \<open>Cids and blockstores\<close>

text \<open>A cid as its prefix and digest. \<open>cid.Undef\<close> is \<open>None\<close> where it can occur.\<close>

record cid =
  cid_version :: nat
  cid_codec :: nat
  mh_type :: nat
  mh_length :: nat
  mh_digest :: string

definition DagProtobuf :: nat where "DagProtobuf = 112"
definition SHA2_256 :: nat where "SHA2_256 = 18"

datatype bs_error = BsNotFound | BsInvalid string | BsHash string | BsOther string

record block =
  block_cid :: cid
  block_data :: string

record 's bs_ops =
  bs_Has :: "cid \<Rightarrow> 's \<Rightarrow> 's \<times> (bs_error, bool) result"
  bs_Get :: "cid \<Rightarrow> 's \<Rightarrow> 's \<times> (bs_error, block) result"
  bs_GetSize :: "cid \<Rightarrow> 's \<Rightarrow> 's \<times> (bs_error, int) result"
  bs_Put :: "block \<Rightarrow> 's \<Rightarrow> 's \<times> bs_error option"
  bs_PutMany :: "block list \<Rightarrow> 's \<Rightarrow> 's \<times> bs_error option"
  bs_DeleteBlock :: "cid \<Rightarrow> 's \<Rightarrow> 's \<times> bs_error option"

section \<open>cidv0v1\<close>

definition NewCidV1 :: "nat \<Rightarrow> cid \<Rightarrow> cid" where
  "NewCidV1 codec c = c\<lparr>cid_version := 1, cid_codec := codec\<rparr>"

definition NewCidV0 :: "cid \<Rightarrow> cid" where
  "NewCidV0 c = c\<lparr>cid_version := 0, cid_codec := DagProtobuf\<rparr>"

definition tryOtherCidVersion :: "cid \<Rightarrow> cid option" where
  "tryOtherCidVersion c =
     (if cid_codec c \<noteq> DagProtobuf \<or> mh_type c \<noteq> SHA2_256 \<or> mh_length c \<noteq> 32 then None
      else if cid_version c = 0 then Some (NewCidV1 DagProtobuf c)
      else Some (NewCidV0 c))"

definition v0v1_Has :: "'s bs_ops \<Rightarrow> cid \<Rightarrow> 's \<Rightarrow> 's \<times> (bs_error, bool) result" where
  "v0v1_Has b c s =
     (case bs_Has b c s of
        (s1, Inl e) \<Rightarrow> (s1, Inl e)
      | (s1, Inr True) \<Rightarrow> (s1, Inr True)
      | (s1, Inr False) \<Rightarrow>
          (case tryOtherCidVersion c of
             None \<Rightarrow> (s1, Inr False)
           | Some c1 \<Rightarrow> bs_Has b c1 s1))"

text \<open>\<open>new_block\<close> is \<open>blocks.NewBlockWithCid\<close>, which may verify the data against the cid.\<close>

definition v0v1_Get ::
  "(string \<Rightarrow> cid \<Rightarrow> (bs_error, block) result) \<Rightarrow> 's bs_ops \<Rightarrow> cid \<Rightarrow> 's \<Rightarrow> 's \<times> (bs_error, block) result" where
  "v0v1_Get new_block b c s =
     (case bs_Get b c s of
        (s1, Inr blk) \<Rightarrow> (s1, Inr blk)
      | (s1, Inl e) \<Rightarrow>
          if e \<noteq> BsNotFound then (s1, Inl e)
          else (case tryOtherCidVersion c of
              None \<Rightarrow> (s1, Inl BsNotFound)
            | Some c1 \<Rightarrow>
                (case bs_Get b c1 s1 of
                   (s2, Inl e2) \<Rightarrow> (s2, Inl e2)
                 | (s2, Inr blk) \<Rightarrow>
                     (case new_block (block_data blk) c of
                        Inl e3 \<Rightarrow> (s2, Inl e3)
                      | Inr blk2 \<Rightarrow>
                          (case bs_Put b blk2 s2 of
                             (s3, Some e4) \<Rightarrow> (s3, Inl e4)
                           | (s3, None) \<Rightarrow> (s3, Inr blk2))))))"

definition v0v1_GetSize :: "'s bs_ops \<Rightarrow> cid \<Rightarrow> 's \<Rightarrow> 's \<times> (bs_error, int) result" where
  "v0v1_GetSize b c s =
     (case bs_GetSize b c s of
        (s1, Inr n) \<Rightarrow> (s1, Inr n)
      | (s1, Inl e) \<Rightarrow>
          if e \<noteq> BsNotFound then (s1, Inl e)
          else (case tryOtherCidVersion c of
              None \<Rightarrow> (s1, Inl BsNotFound)
            | Some c1 \<Rightarrow> bs_GetSize b c1 s1))"

section \<open>verifbs\<close>

text \<open>\<open>VerifBS\<close> and \<open>VerifBSGC\<close> have the same three methods; \<open>validate\<close> is
  \<open>verifcid.ValidateCid\<close>.\<close>

definition verif_Put :: "(cid \<Rightarrow> bs_error option) \<Rightarrow> 's bs_ops \<Rightarrow> block \<Rightarrow> 's \<Rightarrow> 's \<times> bs_error option" where
  "verif_Put validate b blk s =
     (case validate (block_cid blk) of Some e \<Rightarrow> (s, Some e) | None \<Rightarrow> bs_Put b blk s)"

fun first_invalid :: "(cid \<Rightarrow> bs_error option) \<Rightarrow> block list \<Rightarrow> bs_error option" where
  "first_invalid validate [] = None"
| "first_invalid validate (blk # blks) =
     (case validate (block_cid blk) of Some e \<Rightarrow> Some e | None \<Rightarrow> first_invalid validate blks)"

definition verif_PutMany ::
  "(cid \<Rightarrow> bs_error option) \<Rightarrow> 's bs_ops \<Rightarrow> block list \<Rightarrow> 's \<Rightarrow> 's \<times> bs_error option" where
  "verif_PutMany validate b blks s =
     (case first_invalid validate blks of Some e \<Rightarrow> (s, Some e) | None \<Rightarrow> bs_PutMany b blks s)"

definition verif_Get ::
  "(cid \<Rightarrow> bs_error option) \<Rightarrow> 's bs_ops \<Rightarrow> cid \<Rightarrow> 's \<Rightarrow> 's \<times> (bs_error, block) result" where
  "verif_Get validate b c s =
     (case validate c of Some e \<Rightarrow> (s, Inl e) | None \<Rightarrow> bs_Get b c s)"

section \<open>Removing blocks\<close>

record removed_block =
  rb_Hash :: string
  rb_Error :: string

record rm_opts =
  rm_Prefix :: string
  rm_Quiet :: bool
  rm_Force :: bool

text \<open>\<open>check_pinned\<close> is the pinner's \<open>CheckIfPinned\<close>: for each cid whether it is pinned, with
  the text that says how.\<close>

type_synonym check_pinned = "cid list \<Rightarrow> (string, (cid \<times> string option) list) result"

fun split_pinned :: "(cid \<Rightarrow> string) \<Rightarrow> (cid \<times> string option) list \<Rightarrow> cid list \<times> removed_block list" where
  "split_pinned cstr [] = ([], [])"
| "split_pinned cstr ((c, p) # res) =
     (case split_pinned cstr res of
        (ok, out) \<Rightarrow>
          (case p of
             None \<Rightarrow> (c # ok, out)
           | Some how \<Rightarrow> (ok, \<lparr>rb_Hash = cstr c, rb_Error = how\<rparr> # out)))"

definition FilterPinned :: "(cid \<Rightarrow> string) \<Rightarrow> check_pinned \<Rightarrow> cid list \<Rightarrow> cid list \<times> removed_block list" where
  "FilterPinned cstr check cids =
     (case check cids of
        Inl e \<Rightarrow> ([], [\<lparr>rb_Hash = [], rb_Error = ''pin check failed: '' @ e\<rparr>])
      | Inr res \<Rightarrow> split_pinned cstr res)"

fun rm_loop ::
  "(cid \<Rightarrow> string) \<Rightarrow> (bs_error \<Rightarrow> string) \<Rightarrow> 's bs_ops \<Rightarrow> rm_opts \<Rightarrow> cid list \<Rightarrow> 's
    \<Rightarrow> 's \<times> cid list \<times> removed_block list" where
  "rm_loop cstr estr b opts [] s = (s, [], [])"
| "rm_loop cstr estr b opts (c # cs) s =
     (case bs_Has b c s of
        (s1, Inl e) \<Rightarrow>
          (case rm_loop cstr estr b opts cs s1 of
             (s', ds, out) \<Rightarrow> (s', ds, \<lparr>rb_Hash = cstr c, rb_Error = estr e\<rparr> # out))
      | (s1, Inr has) \<Rightarrow>
          if \<not> has \<and> \<not> rm_Force opts then
            (case rm_loop cstr estr b opts cs s1 of
               (s', ds, out) \<Rightarrow> (s', ds, \<lparr>rb_Hash = cstr c, rb_Error = estr BsNotFound\<rparr> # out))
          else
            (case bs_DeleteBlock b c s1 of
               (s2, r) \<Rightarrow>
                 (case rm_loop cstr estr b opts cs s2 of
                    (s', ds, out) \<Rightarrow>
                      (s', c # ds,
                       (case r of
                          Some e \<Rightarrow> \<lparr>rb_Hash = cstr c, rb_Error = estr e\<rparr> # out
                        | None \<Rightarrow> if \<not> rm_Quiet opts then \<lparr>rb_Hash = cstr c, rb_Error = []\<rparr> # out else out)))))"

text \<open>\<open>RmBlocks\<close> makes a channel and starts a goroutine: the final state, the calls of \<open>DeleteBlock\<close>, the capacity of the channel, and the values
  sent on it.\<close>

definition RmBlocks ::
  "(cid \<Rightarrow> string) \<Rightarrow> (bs_error \<Rightarrow> string) \<Rightarrow> 's bs_ops \<Rightarrow> check_pinned \<Rightarrow> cid list \<Rightarrow> rm_opts \<Rightarrow> 's
    \<Rightarrow> 's \<times> cid list \<times> nat \<times> removed_block list" where
  "RmBlocks cstr estr b check cids opts s =
     (case FilterPinned cstr check cids of
        (ok, out1) \<Rightarrow>
          (case rm_loop cstr estr b opts ok s of (s', ds, out2) \<Rightarrow> (s', ds, length cids, out1 @ out2)))"

text \<open>\<open>ProcRmOutput\<close>: \<open>next\<close> yields the values in order and then \<open>io.EOF\<close> (\<open>None\<close>) or another
  error; the result is what was written to the two writers and the error returned.\<close>

fun proc_loop ::
  "removed_block list \<Rightarrow> string option \<Rightarrow> bool \<Rightarrow> string \<Rightarrow> string \<Rightarrow> string \<times> string \<times> string option" where
  "proc_loop [] None someFailed sout serr =
     (sout, serr, if someFailed then Some ''some blocks not removed'' else None)"
| "proc_loop [] (Some e) someFailed sout serr = (sout, serr, Some e)"
| "proc_loop (r # rs) end_err someFailed sout serr =
     (if rb_Hash r = [] \<and> rb_Error r \<noteq> [] then (sout, serr, Some (''aborted: '' @ rb_Error r))
      else if rb_Error r \<noteq> [] then
        proc_loop rs end_err True sout
          (serr @ ''cannot remove '' @ rb_Hash r @ '': '' @ rb_Error r @ [CHR 0x0A])
      else proc_loop rs end_err someFailed (sout @ ''removed '' @ rb_Hash r @ [CHR 0x0A]) serr)"

definition ProcRmOutput :: "removed_block list \<Rightarrow> string option \<Rightarrow> string \<times> string \<times> string option" where
  "ProcRmOutput rs end_err = proc_loop rs end_err False [] []"

section \<open>What is relied on of a blockstore\<close>

text \<open>The documented behaviour of a blockstore that has no faults, as a map.\<close>

definition bs_laws :: "'s bs_ops \<Rightarrow> ('s \<Rightarrow> cid \<Rightarrow> string option) \<Rightarrow> bool" where
  "bs_laws b view \<longleftrightarrow>
     (\<forall>c s. snd (bs_Has b c s) = Inr (view s c \<noteq> None) \<and> view (fst (bs_Has b c s)) = view s)
   \<and> (\<forall>c s. snd (bs_Get b c s) = (case view s c of None \<Rightarrow> Inl BsNotFound
              | Some d \<Rightarrow> Inr \<lparr>block_cid = c, block_data = d\<rparr>) \<and> view (fst (bs_Get b c s)) = view s)
   \<and> (\<forall>c s. snd (bs_GetSize b c s) = (case view s c of None \<Rightarrow> Inl BsNotFound
              | Some d \<Rightarrow> Inr (int (length d))) \<and> view (fst (bs_GetSize b c s)) = view s)
   \<and> (\<forall>blk s. snd (bs_Put b blk s) = None
        \<and> view (fst (bs_Put b blk s)) = (view s)(block_cid blk \<mapsto> block_data blk))
   \<and> (\<forall>blks s. snd (bs_PutMany b blks s) = None
        \<and> view (fst (bs_PutMany b blks s)) = view s ++ map_of (rev (map (\<lambda>k. (block_cid k, block_data k)) blks)))
   \<and> (\<forall>c s. snd (bs_DeleteBlock b c s) = None \<and> view (fst (bs_DeleteBlock b c s)) = (view s)(c := None))"

lemma bs_lawsD:
  assumes "bs_laws b view"
  shows "snd (bs_Has b c s) = Inr (view s c \<noteq> None)" "view (fst (bs_Has b c s)) = view s"
    and "snd (bs_Get b c s) = (case view s c of None \<Rightarrow> Inl BsNotFound
              | Some d \<Rightarrow> Inr \<lparr>block_cid = c, block_data = d\<rparr>)" "view (fst (bs_Get b c s)) = view s"
    and "snd (bs_GetSize b c s) = (case view s c of None \<Rightarrow> Inl BsNotFound
              | Some d \<Rightarrow> Inr (int (length d)))" "view (fst (bs_GetSize b c s)) = view s"
    and "snd (bs_Put b blk s) = None" "view (fst (bs_Put b blk s)) = (view s)(block_cid blk \<mapsto> block_data blk)"
    and "snd (bs_PutMany b blks s) = None"
      "view (fst (bs_PutMany b blks s)) = view s ++ map_of (rev (map (\<lambda>k. (block_cid k, block_data k)) blks))"
    and "snd (bs_DeleteBlock b c s) = None" "view (fst (bs_DeleteBlock b c s)) = (view s)(c := None)"
  using assms unfolding bs_laws_def by blast+

text \<open>A map in memory is such a blockstore.\<close>

definition map_ops :: "(cid \<Rightarrow> string option) bs_ops" where
  "map_ops = \<lparr>
     bs_Has = (\<lambda>c m. (m, Inr (m c \<noteq> None))),
     bs_Get = (\<lambda>c m. (m, case m c of None \<Rightarrow> Inl BsNotFound | Some d \<Rightarrow> Inr \<lparr>block_cid = c, block_data = d\<rparr>)),
     bs_GetSize = (\<lambda>c m. (m, case m c of None \<Rightarrow> Inl BsNotFound | Some d \<Rightarrow> Inr (int (length d)))),
     bs_Put = (\<lambda>k m. (m(block_cid k \<mapsto> block_data k), None)),
     bs_PutMany = (\<lambda>ks m. (m ++ map_of (rev (map (\<lambda>k. (block_cid k, block_data k)) ks)), None)),
     bs_DeleteBlock = (\<lambda>c m. (m(c := None), None))\<rparr>"

lemma map_ops_laws: "bs_laws map_ops (\<lambda>m. m)"
  by (simp add: bs_laws_def map_ops_def)

section \<open>The two versions of a cid are one block\<close>

text \<open>Cids the library produces: a version 0 cid is always dag-pb with a sha2-256 hash.\<close>

definition wf_cid :: "cid \<Rightarrow> bool" where
  "wf_cid c \<longleftrightarrow> cid_version c \<le> 1 \<and>
     (cid_version c = 0 \<longrightarrow> cid_codec c = DagProtobuf \<and> mh_type c = SHA2_256 \<and> mh_length c = 32)"

lemma tryOther_wf: "tryOtherCidVersion c = Some c1 \<Longrightarrow> wf_cid c1"
  by (auto simp: tryOtherCidVersion_def wf_cid_def NewCidV0_def NewCidV1_def split: if_splits)

lemma tryOther_involution:
  assumes "wf_cid c" and "tryOtherCidVersion c = Some c1"
  shows "tryOtherCidVersion c1 = Some c" and "c1 \<noteq> c"
  using assms
  by (auto simp: tryOtherCidVersion_def wf_cid_def NewCidV0_def NewCidV1_def split: if_splits
      intro!: cid.equality dest: arg_cong [of _ _ cid_version])

definition either_version :: "(cid \<Rightarrow> string option) \<Rightarrow> cid \<Rightarrow> string option" where
  "either_version m c =
     (case m c of Some d \<Rightarrow> Some d
      | None \<Rightarrow> (case tryOtherCidVersion c of None \<Rightarrow> None | Some c1 \<Rightarrow> m c1))"

text \<open>A block stored under one version of its cid is found under the other. Over a blockstore
  without faults, \<open>Has\<close>, \<open>Get\<close> and \<open>GetSize\<close> of the wrapper answer by the block stored
  under either version; a \<open>Get\<close> that finds the block returns it under the cid asked for and
  afterwards the store holds it under that cid, and nothing else has changed; the other
  version of a well-formed cid is unique and its other version is the cid itself.\<close>

theorem v0v1_lookup:
  assumes "bs_laws b view" and "\<And>d c. new_block d c = Inr \<lparr>block_cid = c, block_data = d\<rparr>"
  shows "snd (v0v1_Has b c s) = Inr (either_version (view s) c \<noteq> None)
    \<and> snd (v0v1_Get new_block b c s) = (case either_version (view s) c of
        None \<Rightarrow> Inl BsNotFound | Some d \<Rightarrow> Inr \<lparr>block_cid = c, block_data = d\<rparr>)
    \<and> view (fst (v0v1_Get new_block b c s)) = (view s)(c := either_version (view s) c)
    \<and> snd (v0v1_GetSize b c s) = (case either_version (view s) c of
        None \<Rightarrow> Inl BsNotFound | Some d \<Rightarrow> Inr (int (length d)))
    \<and> (wf_cid c \<longrightarrow> (\<forall>c1. tryOtherCidVersion c = Some c1 \<longrightarrow> tryOtherCidVersion c1 = Some c \<and> c1 \<noteq> c))"
proof (intro conjI)
  note D = bs_lawsD [OF assms(1)]
  show "snd (v0v1_Has b c s) = Inr (either_version (view s) c \<noteq> None)"
    by (simp add: v0v1_Has_def either_version_def D case_prod_unfold split: option.split bool.split)
  show "snd (v0v1_GetSize b c s) = (case either_version (view s) c of
        None \<Rightarrow> Inl BsNotFound | Some d \<Rightarrow> Inr (int (length d)))"
    by (simp add: v0v1_GetSize_def either_version_def D case_prod_unfold split: option.split)
  show "snd (v0v1_Get new_block b c s) = (case either_version (view s) c of
        None \<Rightarrow> Inl BsNotFound | Some d \<Rightarrow> Inr \<lparr>block_cid = c, block_data = d\<rparr>)"
    by (simp add: v0v1_Get_def either_version_def assms(2) D case_prod_unfold split: option.split)
  show "view (fst (v0v1_Get new_block b c s)) = (view s)(c := either_version (view s) c)"
    by (simp add: v0v1_Get_def either_version_def assms(2) D case_prod_unfold fun_upd_idem split: option.split)
qed (use tryOther_involution in blast)

definition ex_cid :: "nat \<Rightarrow> cid" where
  "ex_cid v = \<lparr>cid_version = v, cid_codec = DagProtobuf, mh_type = SHA2_256, mh_length = 32, mh_digest = ''h''\<rparr>"

theorem v0v1_lookup_witness:
  "snd (v0v1_Get (\<lambda>d c. Inr \<lparr>block_cid = c, block_data = d\<rparr>) map_ops (ex_cid 1) [ex_cid 0 \<mapsto> ''data''])
    = Inr \<lparr>block_cid = ex_cid 1, block_data = ''data''\<rparr>"
  using v0v1_lookup [OF map_ops_laws, of "\<lambda>d c. Inr \<lparr>block_cid = c, block_data = d\<rparr>"
      "ex_cid 1" "[ex_cid 0 \<mapsto> ''data'']"]
  by (simp add: either_version_def tryOtherCidVersion_def ex_cid_def NewCidV0_def)

section \<open>Only valid cids are stored\<close>

definition all_valid :: "(cid \<Rightarrow> bs_error option) \<Rightarrow> (cid \<Rightarrow> string option) \<Rightarrow> bool" where
  "all_valid validate m \<longleftrightarrow> (\<forall>c \<in> dom m. validate c = None)"

lemma first_invalid_None: "first_invalid validate blks = None \<longleftrightarrow> (\<forall>k \<in> set blks. validate (block_cid k) = None)"
  by (induction blks) (auto split: option.splits)

text \<open>The verifying blockstore never stores a block with an invalid cid. Both ways to put
  blocks keep every stored cid valid; \<open>PutMany\<close> with an invalid block among its blocks returns
  the error of the first one and stores none of them, and otherwise stores them all; a block
  with an invalid cid is not returned even when the underlying store has it.\<close>

theorem verifbs_only_valid:
  assumes "bs_laws b view" and "all_valid validate (view s)"
  shows "all_valid validate (view (fst (verif_Put validate b blk s)))
    \<and> all_valid validate (view (fst (verif_PutMany validate b blks s)))
    \<and> (verif_PutMany validate b blks s =
        (case first_invalid validate blks of Some e \<Rightarrow> (s, Some e) | None \<Rightarrow> bs_PutMany b blks s))
    \<and> (first_invalid validate blks = None \<longleftrightarrow> (\<forall>k \<in> set blks. validate (block_cid k) = None))
    \<and> (validate c = Some e \<longrightarrow> verif_Get validate b c s = (s, Inl e))
    \<and> (validate c = None \<longrightarrow> snd (verif_Get validate b c s) = snd (bs_Get b c s))"
proof (intro conjI)
  show "all_valid validate (view (fst (verif_Put validate b blk s)))"
    using assms(2) by (auto simp: verif_Put_def all_valid_def bs_lawsD [OF assms(1)] split: option.split)
  show "all_valid validate (view (fst (verif_PutMany validate b blks s)))"
  proof (cases "first_invalid validate blks")
    case None
    then have "\<forall>k \<in> set blks. validate (block_cid k) = None"
      by (simp add: first_invalid_None)
    then have "all_valid validate (view s ++ map_of (rev (map (\<lambda>k. (block_cid k, block_data k)) blks)))"
      using assms(2) unfolding all_valid_def dom_map_add dom_map_of_conv_image_fst by auto
    with None show ?thesis
      by (simp add: verif_PutMany_def bs_lawsD [OF assms(1)])
  qed (simp add: verif_PutMany_def assms(2))
  show "first_invalid validate blks = None \<longleftrightarrow> (\<forall>k \<in> set blks. validate (block_cid k) = None)"
    by (rule first_invalid_None)
qed (simp_all add: verif_PutMany_def verif_Get_def)

definition ex_validate :: "cid \<Rightarrow> bs_error option" where
  "ex_validate c = (if cid_version c = 1 then Some (BsInvalid ''insecure'') else None)"

definition ex_block :: "nat \<Rightarrow> block" where
  "ex_block v = \<lparr>block_cid = ex_cid v, block_data = ''data''\<rparr>"

theorem verifbs_only_valid_witness:
  "verif_PutMany ex_validate map_ops [ex_block 0, ex_block 1] Map.empty
    = (Map.empty, Some (BsInvalid ''insecure''))
   \<and> all_valid ex_validate (fst (verif_Put ex_validate map_ops (ex_block 0) Map.empty))"
proof -
  have "all_valid ex_validate Map.empty"
    by (simp add: all_valid_def)
  note v = verifbs_only_valid [of map_ops "\<lambda>m. m" ex_validate Map.empty "ex_block 0"
      "[ex_block 0, ex_block 1]" "ex_cid 1", OF map_ops_laws this]
  have "first_invalid ex_validate [ex_block 0, ex_block 1] = Some (BsInvalid ''insecure'')"
    by (simp add: ex_validate_def ex_block_def ex_cid_def)
  then show ?thesis
    using v [THEN conjunct1] v [THEN conjunct2, THEN conjunct2, THEN conjunct1] by simp
qed

section \<open>Removal spares pinned blocks\<close>

lemma split_pinned_conv:
  "split_pinned cstr res =
    ([c. (c, None) \<leftarrow> res], [\<lparr>rb_Hash = cstr c, rb_Error = how\<rparr>. (c, Some how) \<leftarrow> res])"
  by (induction cstr res rule: split_pinned.induct) (auto split: option.splits)

lemma rm_loop_bounds:
  "rm_loop cstr estr b opts cs s = (s', ds, out) \<Longrightarrow>
    set ds \<subseteq> set cs \<and> length out \<le> length cs \<and> (\<not> rm_Quiet opts \<longrightarrow> map rb_Hash out = map cstr cs)"
  by (induction cs arbitrary: s s' ds out) (fastforce split: prod.splits sum.splits if_splits option.splits)+

lemma rm_loop_view:
  assumes "bs_laws b view"
  shows "view (fst (rm_loop cstr estr b opts cs s)) = (\<lambda>c. if c \<in> set cs then None else view s c)
    \<and> (\<forall>r \<in> set (snd (snd (rm_loop cstr estr b opts cs s))).
        rb_Error r = [] \<or> (\<exists>c \<in> set cs. rb_Hash r = cstr c \<and> rb_Error r = estr BsNotFound \<and> \<not> rm_Force opts))"
proof (induction cs arbitrary: s)
  case (Cons c cs)
  let ?s1 = "fst (bs_Has b c s)"
  show ?case
    using Cons [of ?s1] Cons [of "fst (bs_DeleteBlock b c ?s1)"]
    by (auto simp: case_prod_unfold bs_lawsD [OF assms] fun_eq_iff)
qed simp

text \<open>
  What is relied on of \<open>CheckIfPinned\<close>: its results are about the cids asked for, all of them, at most one for each time a cid was
  asked for, in any order, and they say what is pinned.
\<close>

definition pin_check_law :: "cid set \<Rightarrow> check_pinned \<Rightarrow> bool" where
  "pin_check_law pinned check \<longleftrightarrow> (\<forall>cids res. check cids = Inr res \<longrightarrow>
     fst ` set res = set cids \<and> length res \<le> length cids \<and> (\<forall>(c, how) \<in> set res. how \<noteq> None \<longleftrightarrow> c \<in> pinned))"

text \<open>A send finds the channel full, if nobody receives.\<close>

definition send_waits :: "nat \<Rightarrow> 'a list \<Rightarrow> bool" where
  "send_waits cap out \<longleftrightarrow> cap < length out"

lemma unpinned_set:
  assumes "pin_check_law pinned check" and "check cids = Inr res"
  shows "set [c. (c, None) \<leftarrow> res] = set cids - pinned"
proof -
  have law: "fst ` set res = set cids \<and> (\<forall>(c, how) \<in> set res. how \<noteq> None \<longleftrightarrow> c \<in> pinned)"
    using assms unfolding pin_check_law_def by blast
  then have l: "fst ` set res = set cids" "\<And>c how. (c, how) \<in> set res \<Longrightarrow> how \<noteq> None \<longleftrightarrow> c \<in> pinned"
    by blast+
  have "set [c. (c, None) \<leftarrow> res] = {c. (c, None) \<in> set res}"
    by (auto split: option.splits prod.splits)
  also have "\<dots> = set cids - pinned"
  proof (intro set_eqI iffI)
    fix c
    assume "c \<in> set cids - pinned"
    then obtain how where "(c, how) \<in> set res" "c \<notin> pinned"
      using l(1) by (metis Diff_iff image_iff prod.collapse)
    then show "c \<in> {c. (c, None) \<in> set res}"
      using l(2) by (metis mem_Collect_eq)
  qed (use l in force)
  finally show ?thesis .
qed

lemma split_count: "length [\<lparr>rb_Hash = cstr c, rb_Error = how\<rparr>. (c, Some how) \<leftarrow> res] + length [c. (c, None) \<leftarrow> res] = length res"
  by (induction res) (auto split: option.splits)

lemma split_hashes:
  "rb_Hash ` set (snd (split_pinned cstr res)) \<union> cstr ` set (fst (split_pinned cstr res)) = cstr ` fst ` set res"
  by (induction cstr res rule: split_pinned.induct) (simp_all add: case_prod_unfold split: option.split)

text \<open>C38: removing blocks. If the pinner answers for the cids asked for, in any order and even if it answers a repeated
  cid once, only unpinned ones of them are passed to \<open>DeleteBlock\<close>, whatever the blockstore does; no send waits for a receiver, so
  the goroutine does not block while it holds the lock; without the option for silence every cid is reported on. On a blockstore without faults exactly the
  unpinned cids asked for are gone afterwards. If the pin check fails nothing is deleted and only that error is
  sent; that send waits if no cids were given.\<close>

theorem rmBlocks_spares_pinned:
  assumes "pin_check_law pinned check" and "RmBlocks cstr estr b check cids opts s = (s', ds, cap, out)"
  shows "set ds \<subseteq> set cids - pinned \<and> (send_waits cap out \<longleftrightarrow> cids = [] \<and> (\<exists>e. check [] = Inl e))
    \<and> (case check cids of
         Inl e \<Rightarrow> s' = s \<and> ds = [] \<and> out = [\<lparr>rb_Hash = [], rb_Error = ''pin check failed: '' @ e\<rparr>]
       | Inr res \<Rightarrow> (\<not> rm_Quiet opts \<longrightarrow> length out = length res \<and> rb_Hash ` set out = cstr ` set cids)
           \<and> (bs_laws b view \<longrightarrow> view s' = (\<lambda>c. if c \<in> set cids - pinned then None else view s c)))"
proof (cases "check cids")
  case (Inl e)
  then show ?thesis
    using assms(2) by (auto simp: RmBlocks_def FilterPinned_def send_waits_def)
next
  case (Inr res)
  let ?ok = "[c. (c, None) \<leftarrow> res]" and ?out = "[\<lparr>rb_Hash = cstr c, rb_Error = how\<rparr>. (c, Some how) \<leftarrow> res]"
  obtain out2 where l: "rm_loop cstr estr b opts ?ok s = (s', ds, out2)" and out: "out = ?out @ out2" "cap = length cids"
    using assms(2) Inr by (auto simp: RmBlocks_def FilterPinned_def split_pinned_conv split: prod.splits)
  note u = unpinned_set [OF assms(1) Inr] and bd = rm_loop_bounds [OF l]
  have law: "length res \<le> length cids" "fst ` set res = set cids"
    using assms(1) Inr by (auto simp: pin_check_law_def)
  have "length out \<le> length res"
    using bd split_count [of cstr res] out(1) by simp
  then have "\<not> send_waits cap out"
    using law(1) out(2) by (simp add: send_waits_def)
  moreover have "length out = length res \<and> rb_Hash ` set out = cstr ` set cids" if "\<not> rm_Quiet opts"
  proof -
    have h: "map rb_Hash out2 = map cstr ?ok"
      using bd that by blast
    then have "rb_Hash ` set out2 = cstr ` set ?ok" "length out2 = length ?ok"
      by (metis list.set_map, metis length_map)
    then show ?thesis
      using split_hashes [of cstr res] split_count [of cstr res] out(1) law(2) by (simp add: split_pinned_conv image_Un)
  qed
  moreover have "view s' = (\<lambda>c. if c \<in> set cids - pinned then None else view s c)" if "bs_laws b view"
    using rm_loop_view [OF that, of cstr estr opts ?ok s] unfolding l u by (simp only: fst_conv)
  ultimately show ?thesis
    using bd u Inr by auto
qed

text \<open>A pinner that answers unpinned cids last and each of them once.\<close>

definition ex_check :: check_pinned where
  "ex_check cids = Inr (map (\<lambda>c. (c, Some ''pinned: recursive'')) (filter (\<lambda>c. cid_version c = 1) cids)
     @ map (\<lambda>c. (c, None)) (filter (\<lambda>c. cid_version c \<noteq> 1) (remdups cids)))"

lemma ex_check_law: "pin_check_law {c. cid_version c = 1} ex_check"
proof -
  have "length (filter P xs) + length (filter (\<lambda>x. \<not> P x) (remdups xs)) \<le> length xs" for P and xs :: "cid list"
    by (induction xs) auto
  then show ?thesis
    by (auto simp: pin_check_law_def ex_check_def image_Un image_image)
qed

theorem rmBlocks_spares_pinned_witness:
  "RmBlocks mh_digest (\<lambda>_. ''e'') map_ops ex_check [ex_cid 0, ex_cid 1, ex_cid 0] \<lparr>rm_Prefix = [], rm_Quiet = False, rm_Force = False\<rparr>
     [ex_cid 0 \<mapsto> ''a'', ex_cid 1 \<mapsto> ''b''] = ([ex_cid 1 \<mapsto> ''b''], [ex_cid 0], 3,
       [\<lparr>rb_Hash = ''h'', rb_Error = ''pinned: recursive''\<rparr>, \<lparr>rb_Hash = ''h'', rb_Error = []\<rparr>])
   \<and> set [ex_cid 0] \<subseteq> set [ex_cid 0, ex_cid 1, ex_cid 0] - {c. cid_version c = 1}
   \<and> \<not> send_waits 3 [\<lparr>rb_Hash = ''h'', rb_Error = ''pinned: recursive''\<rparr>, \<lparr>rb_Hash = ''h'', rb_Error = []\<rparr>]"
proof -
  have r: "RmBlocks mh_digest (\<lambda>_. ''e'') map_ops ex_check [ex_cid 0, ex_cid 1, ex_cid 0]
      \<lparr>rm_Prefix = [], rm_Quiet = False, rm_Force = False\<rparr> [ex_cid 0 \<mapsto> ''a'', ex_cid 1 \<mapsto> ''b''] =
    ([ex_cid 1 \<mapsto> ''b''], [ex_cid 0], 3, [\<lparr>rb_Hash = ''h'', rb_Error = ''pinned: recursive''\<rparr>, \<lparr>rb_Hash = ''h'', rb_Error = []\<rparr>])"
    by (simp add: RmBlocks_def FilterPinned_def ex_check_def map_ops_def ex_cid_def fun_eq_iff)
  show ?thesis
    using rmBlocks_spares_pinned [OF ex_check_law r] r by blast
qed

section \<open>Reporting removals\<close>

lemma proc_loop_conv:
  assumes "\<And>r. r \<in> set rs \<Longrightarrow> rb_Hash r \<noteq> []"
  shows "proc_loop rs e failed sout serr =
    (sout @ concat [''removed '' @ rb_Hash r @ [CHR 0x0A]. r \<leftarrow> rs, rb_Error r = []],
     serr @ concat [''cannot remove '' @ rb_Hash r @ '': '' @ rb_Error r @ [CHR 0x0A]. r \<leftarrow> rs, rb_Error r \<noteq> []],
     (case e of Some x \<Rightarrow> Some x
      | None \<Rightarrow> if failed \<or> (\<exists>r \<in> set rs. rb_Error r \<noteq> []) then Some ''some blocks not removed'' else None))"
  using assms
proof (induction rs e failed sout serr rule: proc_loop.induct)
  case (3 r rs e failed sout serr)
  then show ?case
    by (cases "rb_Error r = []") (simp_all split: option.split)
qed simp_all

text \<open>The report of a removal. When every result carries the hash of its block, each removed
  block is named on the output and each failure on the error output, in order, and the call fails
  exactly when the source of results does or some block was not removed; a result without
  a hash but with an error stops the report at once.\<close>

theorem procRmOutput_report:
  assumes "\<And>r. r \<in> set rs \<Longrightarrow> rb_Hash r \<noteq> []"
  shows "ProcRmOutput rs e =
    (concat [''removed '' @ rb_Hash r @ [CHR 0x0A]. r \<leftarrow> rs, rb_Error r = []],
     concat [''cannot remove '' @ rb_Hash r @ '': '' @ rb_Error r @ [CHR 0x0A]. r \<leftarrow> rs, rb_Error r \<noteq> []],
     (case e of Some x \<Rightarrow> Some x
      | None \<Rightarrow> if \<exists>r \<in> set rs. rb_Error r \<noteq> [] then Some ''some blocks not removed'' else None))
    \<and> ProcRmOutput (\<lparr>rb_Hash = [], rb_Error = CHR ''x'' # x\<rparr> # rs) e = ([], [], Some (''aborted: x'' @ x))"
  by (auto simp: ProcRmOutput_def proc_loop_conv [OF assms])

theorem procRmOutput_report_witness:
  "snd (snd (ProcRmOutput [\<lparr>rb_Hash = ''h'', rb_Error = ''busy''\<rparr>] None)) = Some ''some blocks not removed''"
  using procRmOutput_report [of "[\<lparr>rb_Hash = ''h'', rb_Error = ''busy''\<rparr>]" None] by simp

end
