(* ===== verification/ReqLog.thy ===== *)
theory ReqLog
  imports Prelude
begin

text \<open>
  The log of requests (src/commands/reqlog.go). The log holds pointers to entries that the callers
  keep and change through \<open>Finish\<close>, so entries live in an explicit heap; the nil pointer is
  \<open>None\<close>. An operation that dereferences nil panics, which is \<open>None\<close> as a result. Times are
  nanoseconds, and \<open>now\<close> is what \<open>time.Now()\<close> returns during the call.
\<close>

record rl_entry =
  StartTime :: int
  EndTime :: int
  Active :: bool
  Command :: string
  Options :: "(string \<times> string) list"
  Args :: "string list"
  ID :: int
  has_log :: bool

record req_log =
  rl_heap :: "nat \<Rightarrow> rl_entry"
  rl_fresh :: nat
  Requests :: "nat option list"
  nextID :: int
  keep :: int

definition Copy :: "rl_entry \<Rightarrow> rl_entry" where
  "Copy r = r\<lparr>has_log := False\<rparr>"

definition keeps :: "(nat \<Rightarrow> rl_entry) \<Rightarrow> int \<Rightarrow> int \<Rightarrow> nat \<Rightarrow> bool" where
  "keeps h keep_time now a \<longleftrightarrow> Active (h a) \<or> now < EndTime (h a) + keep_time"

text \<open>The loop of \<open>cleanup\<close>, which moves the entries to keep to the front of the slice.\<close>

function cleanup_loop ::
  "(nat \<Rightarrow> rl_entry) \<Rightarrow> int \<Rightarrow> int \<Rightarrow> nat option list \<Rightarrow> nat \<Rightarrow> nat \<Rightarrow> nat option list option" where
  "cleanup_loop h k now reqs i j =
     (if j < length reqs then
        (case reqs ! j of
           None \<Rightarrow> None
         | Some a \<Rightarrow>
             if keeps h k now a then cleanup_loop h k now (reqs[i := reqs ! j]) (Suc i) (Suc j)
             else cleanup_loop h k now reqs i (Suc j))
      else Some (take i reqs))"
  by pat_completeness auto
termination
  by (relation "measure (\<lambda>(_, _, _, reqs, _, j). length reqs - j)") auto

declare cleanup_loop.simps [simp del]

definition cleanup :: "int \<Rightarrow> req_log \<Rightarrow> req_log option" where
  "cleanup now rl =
     map_option (\<lambda>rs. rl\<lparr>Requests := rs\<rparr>) (cleanup_loop (rl_heap rl) (keep rl) now (Requests rl) 0 0)"

definition maybeCleanup :: "int \<Rightarrow> req_log \<Rightarrow> req_log option" where
  "maybeCleanup now rl = (if length (Requests rl) mod 10 = 0 then cleanup now rl else Some rl)"

definition AddEntry :: "int \<Rightarrow> nat option \<Rightarrow> req_log \<Rightarrow> req_log option" where
  "AddEntry now rle rl =
     (let rl1 = rl\<lparr>nextID := nextID rl + 1, Requests := Requests rl @ [rle]\<rparr> in
      if (case rle of None \<Rightarrow> True | Some a \<Rightarrow> \<not> Active (rl_heap rl1 a))
      then maybeCleanup now rl1 else Some rl1)"

definition ClearInactive :: "int \<Rightarrow> req_log \<Rightarrow> req_log option" where
  "ClearInactive now rl =
     map_option (\<lambda>rl1. rl1\<lparr>keep := keep rl\<rparr>) (cleanup now (rl\<lparr>keep := 0\<rparr>))"

definition SetKeepTime :: "int \<Rightarrow> req_log \<Rightarrow> req_log" where
  "SetKeepTime t rl = rl\<lparr>keep := t\<rparr>"

fun report_entries :: "(nat \<Rightarrow> rl_entry) \<Rightarrow> nat option list \<Rightarrow> rl_entry list option" where
  "report_entries h [] = Some []"
| "report_entries h (None # rs) = None"
| "report_entries h (Some a # rs) = map_option (\<lambda>es. Copy (h a) # es) (report_entries h rs)"

definition Report :: "req_log \<Rightarrow> rl_entry list option" where
  "Report rl = report_entries (rl_heap rl) (Requests rl)"

definition Finish :: "int \<Rightarrow> nat option \<Rightarrow> req_log \<Rightarrow> req_log option" where
  "Finish now rle rl =
     (case rle of
        None \<Rightarrow> None
      | Some a \<Rightarrow>
          maybeCleanup now (rl\<lparr>rl_heap := (rl_heap rl)(a := (rl_heap rl a)\<lparr>Active := False, EndTime := now\<rparr>)\<rparr>))"

text \<open>\<open>Context.LogRequest\<close> (src/commands/context.go) allocates an entry, with the identifier it reads without the lock, and
  then calls \<open>AddEntry\<close> with it. These are two steps, because other calls may come between them. The closure
  it returns is \<open>Finish\<close> of that entry.\<close>

definition LogRequest :: "int \<Rightarrow> string list \<Rightarrow> (string \<times> string) list \<Rightarrow> string list \<Rightarrow> req_log \<Rightarrow> req_log \<times> nat" where
  "LogRequest now path options arguments rl =
     (let a = rl_fresh rl;
          rle = \<lparr>StartTime = now, EndTime = 0, Active = True, Command = join ''/'' path, Options = options,
                 Args = arguments, ID = nextID rl, has_log = True\<rparr>
      in (rl\<lparr>rl_heap := (rl_heap rl)(a := rle), rl_fresh := Suc a\<rparr>, a))"

section \<open>The clean-up in place is a filter\<close>

lemma cleanup_loop_filter:
  assumes "i \<le> j" and "j \<le> length reqs" and "None \<notin> set (drop j reqs)"
  shows "cleanup_loop h k now reqs i j =
    Some (take i reqs @ [r\<leftarrow>drop j reqs. keeps h k now (the r)])"
  using assms
proof (induction h k now reqs i j rule: cleanup_loop.induct)
  case (1 h k now reqs i j)
  show ?case
  proof (cases "j < length reqs")
    case True
    then have d: "drop j reqs = reqs ! j # drop (Suc j) reqs"
      by (simp add: Cons_nth_drop_Suc)
    then obtain a where a: "reqs ! j = Some a"
      using 1(5) by (cases "reqs ! j") auto
    show ?thesis
    proof (cases "keeps h k now a")
      case keep: True
      have "take (Suc i) (reqs[i := reqs ! j]) = take i reqs @ [reqs ! j]"
        using True 1(3) by (simp add: take_Suc_conv_app_nth)
      moreover have "drop (Suc j) (reqs[i := reqs ! j]) = drop (Suc j) reqs"
        using 1(3) by simp
      ultimately show ?thesis
        using 1(1) [OF True a keep] True keep 1(3-5) a d
        by (subst cleanup_loop.simps) simp
    next
      case False
      then show ?thesis
        using 1(2) [OF True a False] True 1(3-5) a d
        by (subst cleanup_loop.simps) simp
    qed
  next
    case False
    with 1(4) show ?thesis
      by (subst cleanup_loop.simps) simp
  qed
qed

lemma cleanup_filter:
  "None \<notin> set (Requests rl) \<Longrightarrow>
    cleanup now rl = Some (rl\<lparr>Requests := [r\<leftarrow>Requests rl. keeps (rl_heap rl) (keep rl) now (the r)]\<rparr>)"
  by (simp add: cleanup_def cleanup_loop_filter)

section \<open>Runs of the log\<close>

definition rl_empty :: "rl_entry \<Rightarrow> int \<Rightarrow> req_log" where
  "rl_empty e k = \<lparr>rl_heap = (\<lambda>_. e), rl_fresh = 0, Requests = [], nextID = 0, keep = k\<rparr>"

text \<open>
  The calls that commands make, in any interleaving: a request makes its entry, adds it, and some time after that finishes it,
  maybe more than once; stale entries are cleared; the keep time is set. \<open>P\<close> has the entries that are made but not yet
  added. The state is \<open>None\<close> after a panic. The flag \<open>serial\<close> restricts the runs to those in which no request makes its entry while
  another one is between making and adding its own.
\<close>

inductive rl_reach :: "bool \<Rightarrow> req_log option \<Rightarrow> nat set \<Rightarrow> bool" for serial where
  rl_new: "rl_reach serial (Some (rl_empty e k)) {}"
| rl_make: "rl_reach serial (Some rl) P \<Longrightarrow> (serial \<longrightarrow> P = {}) \<Longrightarrow> LogRequest now path options arguments rl = (rl', a)
    \<Longrightarrow> rl_reach serial (Some rl') (insert a P)"
| rl_add: "rl_reach serial (Some rl) P \<Longrightarrow> a \<in> P \<Longrightarrow> rl_reach serial (AddEntry now (Some a) rl) (P - {a})"
| rl_finish: "rl_reach serial (Some rl) P \<Longrightarrow> a < rl_fresh rl \<Longrightarrow> a \<notin> P \<Longrightarrow> rl_reach serial (Finish now (Some a) rl) P"
| rl_clear: "rl_reach serial (Some rl) P \<Longrightarrow> rl_reach serial (ClearInactive now rl) P"
| rl_keep: "rl_reach serial (Some rl) P \<Longrightarrow> rl_reach serial (Some (SetKeepTime t rl)) P"

text \<open>The invariant: no nil entries, every entry in the log was made and added, once, and an entry that was added and is still
  active is in the log.\<close>

definition rl_inv :: "nat set \<Rightarrow> req_log \<Rightarrow> bool" where
  "rl_inv P rl \<longleftrightarrow> None \<notin> set (Requests rl) \<and> distinct (Requests rl) \<and> P \<subseteq> {..<rl_fresh rl}
     \<and> (\<forall>r \<in> set (Requests rl). the r < rl_fresh rl \<and> the r \<notin> P)
     \<and> (\<forall>a < rl_fresh rl. a \<notin> P \<longrightarrow> Active (rl_heap rl a) \<longrightarrow> Some a \<in> set (Requests rl))"

text \<open>If requests do not overlap, the entry at the address \<open>a\<close> has the identifier \<open>a\<close>, and addresses increase along the log.\<close>

definition rl_serial :: "nat set \<Rightarrow> req_log \<Rightarrow> bool" where
  "rl_serial P rl \<longleftrightarrow> (P = {} \<and> nextID rl = int (rl_fresh rl) \<or> (\<exists>f. rl_fresh rl = Suc f \<and> P = {f} \<and> nextID rl = int f))
     \<and> (\<forall>a < rl_fresh rl. ID (rl_heap rl a) = int a) \<and> sorted_wrt (<) (map the (Requests rl))"

definition rl_ok :: "bool \<Rightarrow> nat set \<Rightarrow> req_log \<Rightarrow> bool" where
  "rl_ok serial P rl \<longleftrightarrow> rl_inv P rl \<and> (serial \<longrightarrow> rl_serial P rl)"

lemma sorted_wrt_map_filter: "sorted_wrt (<) (map f xs) \<Longrightarrow> sorted_wrt (<) (map (f :: 'a \<Rightarrow> nat) (filter P xs))"
  by (induction xs) auto

lemma cleanup_ok:
  assumes "rl_ok s P rl"
  shows "\<exists>rl'. cleanup now rl = Some rl' \<and> rl_ok s P rl'"
proof -
  let ?rl = "rl\<lparr>Requests := [r\<leftarrow>Requests rl. keeps (rl_heap rl) (keep rl) now (the r)]\<rparr>"
  have "cleanup now rl = Some ?rl"
    using assms by (intro cleanup_filter) (simp add: rl_ok_def rl_inv_def)
  moreover have "rl_ok s P ?rl"
    using assms by (simp add: rl_ok_def rl_inv_def rl_serial_def sorted_wrt_map_filter keeps_def)
  ultimately show ?thesis by blast
qed

lemma maybeCleanup_ok: "rl_ok s P rl \<Longrightarrow> \<exists>rl'. maybeCleanup now rl = Some rl' \<and> rl_ok s P rl'"
  by (simp add: maybeCleanup_def cleanup_ok)

lemma rl_ok_keep [simp]: "rl_ok s P (rl\<lparr>keep := k\<rparr>) = rl_ok s P rl"
  by (simp add: rl_ok_def rl_inv_def rl_serial_def)

lemma LogRequest_ok:
  assumes "rl_ok s P rl" and "s \<longrightarrow> P = {}" and "LogRequest now path options arguments rl = (rl', a)"
  shows "rl_ok s (insert a P) rl'"
proof -
  have a: "a = rl_fresh rl"
    using assms(3) by (auto simp: LogRequest_def Let_def)
  have old: "the r \<noteq> a" if "r \<in> set (Requests rl)" for r
    using assms(1) that by (auto simp: a rl_ok_def rl_inv_def)
  have "rl_inv (insert a P) rl'"
    using assms(1,3) old by (auto simp: rl_ok_def LogRequest_def Let_def rl_inv_def less_Suc_eq)
  moreover have "rl_serial (insert a P) rl'" if s
    using assms that by (auto simp: rl_ok_def LogRequest_def Let_def rl_serial_def less_Suc_eq)
  ultimately show ?thesis
    by (simp add: rl_ok_def)
qed

lemma sorted_below: "sorted_wrt (<) xs \<Longrightarrow> \<forall>x \<in> set xs. x < y \<Longrightarrow> sorted_wrt (<) (xs @ [y])"
  by (simp add: sorted_wrt_append)

lemma AddEntry_ok:
  assumes "rl_ok s P rl" and "a \<in> P"
  shows "\<exists>rl'. AddEntry now (Some a) rl = Some rl' \<and> rl_ok s (P - {a}) rl'"
proof -
  let ?rl = "rl\<lparr>nextID := nextID rl + 1, Requests := Requests rl @ [Some a]\<rparr>"
  have new: "Some a \<notin> set (Requests rl)"
    using assms by (auto simp: rl_ok_def rl_inv_def)
  have "rl_inv (P - {a}) ?rl"
    using assms new by (auto simp: rl_ok_def rl_inv_def)
  moreover have "rl_serial (P - {a}) ?rl" if ser: s
  proof -
    obtain f where f: "rl_fresh rl = Suc f" "P = {f}" "nextID rl = int f" "a = f"
      using assms ser by (auto simp: rl_ok_def rl_serial_def)
    have "\<forall>x \<in> set (map the (Requests rl)). x < a"
      using assms(1) f by (auto simp: rl_ok_def rl_inv_def less_Suc_eq)
    then show ?thesis
      using assms(1) ser f sorted_below [of "map the (Requests rl)" a] by (simp add: rl_ok_def rl_serial_def)
  qed
  ultimately have "rl_ok s (P - {a}) ?rl"
    by (simp add: rl_ok_def)
  then show ?thesis
    using maybeCleanup_ok [of s "P - {a}" ?rl now] by (simp add: AddEntry_def Let_def)
qed

lemma Finish_ok:
  assumes "rl_ok s P rl"
  shows "\<exists>rl'. Finish now (Some a) rl = Some rl' \<and> rl_ok s P rl'"
proof -
  let ?rl = "rl\<lparr>rl_heap := (rl_heap rl)(a := (rl_heap rl a)\<lparr>Active := False, EndTime := now\<rparr>)\<rparr>"
  have "rl_ok s P ?rl"
    using assms by (simp add: rl_ok_def rl_inv_def rl_serial_def)
  from maybeCleanup_ok [OF this, of now] show ?thesis
    by (auto simp: Finish_def)
qed

lemma ClearInactive_ok:
  assumes "rl_ok s P rl"
  shows "\<exists>rl'. ClearInactive now rl = Some rl' \<and> rl_ok s P rl'"
  using cleanup_ok [of s P "rl\<lparr>keep := 0\<rparr>" now] assms by (auto simp: ClearInactive_def)

lemma rl_reach_ok: "rl_reach s r P \<Longrightarrow> \<exists>rl. r = Some rl \<and> rl_ok s P rl"
proof (induction rule: rl_reach.induct)
  case (rl_new e k)
  then show ?case
    by (simp add: rl_ok_def rl_inv_def rl_serial_def rl_empty_def)
next
  case (rl_make rl P now path options arguments rl' a)
  then show ?case
    using LogRequest_ok by auto
next
  case (rl_keep rl P t)
  then show ?case
    by (simp add: SetKeepTime_def)
qed (auto intro: AddEntry_ok Finish_ok ClearInactive_ok)

lemma report_entries_conv:
  "None \<notin> set rs \<Longrightarrow> report_entries h rs = Some (map (\<lambda>r. Copy (h (the r))) rs)"
  by (induction h rs rule: report_entries.induct) auto

lemma rl_ids:
  assumes "rl_ok True P rl"
  shows "sorted_wrt (<) (map (\<lambda>r. ID (rl_heap rl (the r))) (Requests rl))"
proof -
  have "map (\<lambda>r. ID (rl_heap rl (the r))) (Requests rl) = map int (map the (Requests rl))"
    using assms by (simp add: rl_ok_def rl_inv_def rl_serial_def)
  moreover have "sorted_wrt (<) (map int (map the (Requests rl)))"
    using assms by (simp add: rl_ok_def rl_serial_def sorted_wrt_map)
  ultimately show ?thesis
    by (simp only:)
qed

text \<open>C39: the request log under any interleaving of requests that make, add and finish their entries, even twice, with clean-ups and changes of
  the keep time: no call panics; an entry is in the log at most once; and a request that was added and not finished
  is reported, as active. If no request makes its entry while another one is about to add its own, the report lists the entries with
  strictly increasing identifiers.\<close>

theorem reqlog_keeps_active:
  assumes "rl_reach serial r P"
  shows "\<exists>rl es. r = Some rl \<and> Report rl = Some es \<and> distinct (Requests rl)
     \<and> (\<forall>a < rl_fresh rl. a \<notin> P \<longrightarrow> Active (rl_heap rl a) \<longrightarrow> Some a \<in> set (Requests rl) \<and> Copy (rl_heap rl a) \<in> set es)
     \<and> (serial \<longrightarrow> sorted_wrt (<) (map ID es))"
proof -
  obtain rl where rl: "r = Some rl" "rl_ok serial P rl"
    using rl_reach_ok [OF assms] by blast
  let ?es = "map (\<lambda>r. Copy (rl_heap rl (the r))) (Requests rl)"
  have inv: "rl_inv P rl"
    using rl(2) by (simp add: rl_ok_def)
  then have rep: "Report rl = Some ?es"
    by (simp add: rl_inv_def Report_def report_entries_conv)
  have "Some a \<in> set (Requests rl) \<and> Copy (rl_heap rl a) \<in> set ?es" if "a < rl_fresh rl" "a \<notin> P" "Active (rl_heap rl a)" for a
    using inv that imageI [of "Some a" "set (Requests rl)" "\<lambda>r. Copy (rl_heap rl (the r))"] by (simp add: rl_inv_def)
  moreover have "sorted_wrt (<) (map ID ?es)" if serial
  proof -
    have "map ID ?es = map (\<lambda>r. ID (rl_heap rl (the r))) (Requests rl)"
      by (simp add: Copy_def)
    then show ?thesis
      using rl_ids rl(2) that by (simp only:)
  qed
  ultimately show ?thesis
    using rl(1) rep inv by (intro exI [of _ rl] exI [of _ ?es]) (auto simp: rl_inv_def)
qed

definition rl_e0 :: rl_entry where
  "rl_e0 = \<lparr>StartTime = 0, EndTime = 0, Active = False, Command = [], Options = [], Args = [], ID = 0, has_log = False\<rparr>"

lemma ex_log_one: "rl_reach True (AddEntry 2 (Some 0) (fst (LogRequest 1 [''add''] [] [] (rl_empty rl_e0 10)))) {}"
  using rl_add [OF rl_make [OF rl_new [of True rl_e0 10], of 1 "[''add'']" "[]" "[]" "fst (LogRequest 1 [''add''] [] [] (rl_empty rl_e0 10))" 0], of 0 2]
  by (simp add: LogRequest_def rl_empty_def Let_def)

theorem reqlog_keeps_active_witness:
  "\<exists>rl es. AddEntry 2 (Some 0) (fst (LogRequest 1 [''add''] [] [] (rl_empty rl_e0 10))) = Some rl \<and> Report rl = Some es
     \<and> rl_fresh rl = 1 \<and> Active (rl_heap rl 0) \<and> Copy (rl_heap rl 0) \<in> set es \<and> sorted_wrt (<) (map ID es)"
proof -
  obtain rl es where r: "AddEntry 2 (Some 0) (fst (LogRequest 1 [''add''] [] [] (rl_empty rl_e0 10))) = Some rl" "Report rl = Some es"
      "\<forall>a < rl_fresh rl. a \<notin> {} \<longrightarrow> Active (rl_heap rl a) \<longrightarrow> Copy (rl_heap rl a) \<in> set es" "sorted_wrt (<) (map ID es)"
    using reqlog_keeps_active [OF ex_log_one] by blast
  have "rl_fresh rl = 1 \<and> Active (rl_heap rl 0)"
    using r(1) by (auto simp: LogRequest_def AddEntry_def rl_empty_def Let_def)
  with r show ?thesis
    by auto
qed

text \<open>Requests that overlap can get the same identifier: both read it before either of them adds its entry.\<close>

theorem reqlog_duplicate_identifiers:
  "\<exists>rl es. rl_reach False (Some rl) {} \<and> Report rl = Some es \<and> map ID es = [0, 0]"
proof -
  define l0 where "l0 = rl_empty rl_e0 10"
  define l2 where "l2 = fst (LogRequest 1 [''cat''] [] [] (fst (LogRequest 1 [''add''] [] [] l0)))"
  define l3 where "l3 = l2\<lparr>nextID := 1, Requests := [Some 0]\<rparr>"
  define l4 where "l4 = l2\<lparr>nextID := 2, Requests := [Some 0, Some 1]\<rparr>"
  have new: "rl_reach False (Some l0) {}"
    unfolding l0_def by (rule rl_new)
  have one: "rl_reach False (Some (fst (LogRequest 1 [''add''] [] [] l0))) {0}"
    by (rule rl_make [OF new, of 1 "[''add'']" "[]" "[]"]) (simp_all add: l0_def LogRequest_def rl_empty_def Let_def)
  have "rl_reach False (Some l2) {1, 0}"
    unfolding l2_def by (rule rl_make [OF one, of 1 "[''cat'']" "[]" "[]"]) (simp_all add: l0_def LogRequest_def rl_empty_def Let_def)
  moreover have "{1, 0} - {0} = {1 :: nat}"
    by auto
  ultimately have "rl_reach False (Some l3) {1}"
    using rl_add [of False l2 "{1, 0}" 0 2] by (simp add: l3_def l2_def l0_def LogRequest_def rl_empty_def Let_def AddEntry_def)
  from rl_add [OF this, of 1 2] have "rl_reach False (Some l4) {}"
    by (simp add: l4_def l3_def l2_def l0_def LogRequest_def rl_empty_def Let_def AddEntry_def)
  moreover have "map_option (map ID) (Report l4) = Some [0, 0]"
    by (simp add: l4_def l2_def l0_def LogRequest_def rl_empty_def Let_def Report_def Copy_def)
  ultimately show ?thesis
    by (cases "Report l4") auto
qed

text \<open>The clean-up, which compacts the slice in place, keeps exactly the entries that are
  active or ended less than the keep time ago, in order, when there is no nil entry; a nil entry,
  which \<open>AddEntry\<close> accepts, makes the clean-up panic.\<close>

theorem reqlog_cleanup_filter:
  "cleanup now rl =
     (if None \<in> set (Requests rl) then None
      else Some (rl\<lparr>Requests := [r\<leftarrow>Requests rl. keeps (rl_heap rl) (keep rl) now (the r)]\<rparr>))"
proof (cases "None \<in> set (Requests rl)")
  case True
  have "cleanup_loop h k now reqs i j = None" if "None \<in> set (drop j reqs)" "i \<le> j" for h k reqs i j
    using that
  proof (induction h k now reqs i j rule: cleanup_loop.induct)
    case (1 h k now reqs i j)
    then have j: "j < length reqs"
      by (metis drop_eq_Nil2 empty_iff empty_set not_le)
    then have d: "drop j reqs = reqs ! j # drop (Suc j) reqs"
      by (simp add: Cons_nth_drop_Suc)
    show ?case
      using 1 j d by (subst cleanup_loop.simps) (auto split: option.split)
  qed
  with True show ?thesis
    by (simp add: cleanup_def)
qed (simp add: cleanup_filter)

end
