(* ===== verification/CmdContext.thy ===== *)
theory CmdContext
  imports Prelude
begin

text \<open>
  The context of a command (src/commands/context.go): the lazily loaded configuration, node and
  API. The functions given to the context and the constructor of the API are the fields of
  \<open>ctx_env\<close>; a function that was not given is \<open>None\<close>, as is a nil pointer. Loads of the
  configuration are counted.
\<close>

record ('cfg, 'node, 'api) cmd_ctx =
  ctx_config :: "'cfg option"
  ctx_node :: "'node option"
  ctx_api :: "'api option"
  ctx_gateway :: bool
  ctx_loads :: nat
  ctx_closed :: "'node list"

record ('cfg, 'node, 'api) ctx_env =
  LoadConfig :: "(string, 'cfg) result option"
  ConstructNode :: "(string, 'node) result option"
  node_config :: "'node \<Rightarrow> (string, 'cfg) result"
  NoFetch :: "'cfg \<Rightarrow> bool"
  NewCoreAPI :: "'node \<Rightarrow> bool \<Rightarrow> (string, 'api) result"

definition GetConfig ::
  "('cfg, 'node, 'api) ctx_env \<Rightarrow> ('cfg, 'node, 'api) cmd_ctx \<Rightarrow> ('cfg, 'node, 'api) cmd_ctx \<times> (string, 'cfg) result" where
  "GetConfig env c =
     (case ctx_config c of
        Some cfg \<Rightarrow> (c, Inr cfg)
      | None \<Rightarrow>
          (case LoadConfig env of
             None \<Rightarrow> (c, Inl ''nil LoadConfig function'')
           | Some (Inl e) \<Rightarrow> (c\<lparr>ctx_loads := Suc (ctx_loads c)\<rparr>, Inl e)
           | Some (Inr cfg) \<Rightarrow> (c\<lparr>ctx_config := Some cfg, ctx_loads := Suc (ctx_loads c)\<rparr>, Inr cfg)))"

text \<open>The configuration of the node is stored when reading it fails, that is, nil is stored.\<close>

definition GetNode ::
  "('cfg, 'node, 'api) ctx_env \<Rightarrow> ('cfg, 'node, 'api) cmd_ctx \<Rightarrow> ('cfg, 'node, 'api) cmd_ctx \<times> (string, 'node) result" where
  "GetNode env c =
     (case ctx_node c of
        Some n \<Rightarrow> (c, Inr n)
      | None \<Rightarrow>
          (case ConstructNode env of
             None \<Rightarrow> (c, Inl ''nil ConstructNode function'')
           | Some (Inl e) \<Rightarrow> (c, Inl e)
           | Some (Inr n) \<Rightarrow>
               (case node_config env n of
                  Inl _ \<Rightarrow> (c\<lparr>ctx_node := Some n, ctx_config := None\<rparr>, Inr n)
                | Inr _ \<Rightarrow> (c\<lparr>ctx_node := Some n\<rparr>, Inr n))))"

definition GetAPI ::
  "('cfg, 'node, 'api) ctx_env \<Rightarrow> ('cfg, 'node, 'api) cmd_ctx \<Rightarrow> ('cfg, 'node, 'api) cmd_ctx \<times> (string, 'api) result" where
  "GetAPI env c =
     (case ctx_api c of
        Some a \<Rightarrow> (c, Inr a)
      | None \<Rightarrow>
          (case GetNode env c of
             (c1, Inl e) \<Rightarrow> (c1, Inl e)
           | (c1, Inr n) \<Rightarrow>
               (case (if ctx_gateway c1 then
                        (case GetConfig env c1 of
                           (c2, Inl e) \<Rightarrow> (c2, Inl e)
                         | (c2, Inr cfg) \<Rightarrow> (c2, Inr (\<not> NoFetch env cfg)))
                      else (c1, Inr True)) of
                  (c2, Inl e) \<Rightarrow> (c2, Inl e)
                | (c2, Inr fetchBlocks) \<Rightarrow>
                    (case NewCoreAPI env n fetchBlocks of
                       Inl e \<Rightarrow> (c2, Inl e)
                     | Inr a \<Rightarrow> (c2\<lparr>ctx_api := Some a\<rparr>, Inr a)))))"

definition ctx_Close :: "('cfg, 'node, 'api) cmd_ctx \<Rightarrow> ('cfg, 'node, 'api) cmd_ctx" where
  "ctx_Close c = (case ctx_node c of None \<Rightarrow> c | Some n \<Rightarrow> c\<lparr>ctx_closed := ctx_closed c @ [n]\<rparr>)"

lemma GetConfig_cached: "GetConfig env c = (c1, Inr cfg) \<Longrightarrow> ctx_config c1 = Some cfg"
  by (auto simp: GetConfig_def split: option.splits sum.splits)

lemma GetConfig_frame: "GetConfig env c = (c1, r) \<Longrightarrow> ctx_node c1 = ctx_node c \<and> ctx_gateway c1 = ctx_gateway c"
  by (auto simp: GetConfig_def split: option.splits sum.splits)

lemma GetNode_cached: "GetNode env c = (c1, Inr n) \<Longrightarrow> ctx_node c1 = Some n \<and> ctx_gateway c1 = ctx_gateway c"
  by (auto simp: GetNode_def split: option.splits sum.splits)

text \<open>A call of \<open>GetAPI\<close> that succeeds and had no API before.\<close>

lemma GetAPI_cases:
  assumes "GetAPI env c = (c3, Inr a)" and "ctx_api c = None"
  shows "ctx_api c3 = Some a \<and> (\<exists>n fetch. ctx_node c3 = Some n \<and> NewCoreAPI env n fetch = Inr a
    \<and> (if ctx_gateway c then \<exists>cfg. ctx_config c3 = Some cfg \<and> fetch = (\<not> NoFetch env cfg) else fetch))"
proof -
  obtain c1 n where n: "GetNode env c = (c1, Inr n)"
    using assms by (auto simp: GetAPI_def split: sum.splits prod.splits)
  show ?thesis
  proof (cases "ctx_gateway c")
    case True
    then obtain c2 cfg where "GetConfig env c1 = (c2, Inr cfg)" "NewCoreAPI env n (\<not> NoFetch env cfg) = Inr a"
      "c3 = c2\<lparr>ctx_api := Some a\<rparr>"
      using assms n GetNode_cached [OF n] by (auto simp: GetAPI_def split: sum.splits prod.splits)
    then show ?thesis
      using True GetConfig_cached GetConfig_frame GetNode_cached [OF n] by fastforce
  next
    case False
    then show ?thesis
      using assms n GetNode_cached [OF n] by (auto simp: GetAPI_def split: sum.splits)
  qed
qed

text \<open>Loaded parts are loaded once. A configuration, node or API that was obtained is
  returned again by every later call, without loading or constructing anything: the second call
  leaves the context as it is. The API of a gateway context fetches blocks exactly when the
  configuration does not forbid it, that of any other context always.\<close>

theorem context_caches:
  "(GetConfig env c = (c1, Inr cfg) \<longrightarrow> GetConfig env c1 = (c1, Inr cfg))
   \<and> (GetNode env c = (c2, Inr n) \<longrightarrow> GetNode env c2 = (c2, Inr n))
   \<and> (GetAPI env c = (c3, Inr a) \<longrightarrow> GetAPI env c3 = (c3, Inr a))
   \<and> (GetAPI env c = (c3, Inr a) \<and> ctx_api c = None \<longrightarrow>
       (\<exists>n fetch. ctx_node c3 = Some n \<and> NewCoreAPI env n fetch = Inr a
          \<and> (if ctx_gateway c then \<exists>cfg. ctx_config c3 = Some cfg \<and> fetch = (\<not> NoFetch env cfg) else fetch)))"
proof (intro conjI impI)
  show "GetConfig env c1 = (c1, Inr cfg)" if "GetConfig env c = (c1, Inr cfg)"
    using GetConfig_cached [OF that] by (simp add: GetConfig_def)
  show "GetNode env c2 = (c2, Inr n)" if "GetNode env c = (c2, Inr n)"
    using GetNode_cached [OF that] by (simp add: GetNode_def)
  show "GetAPI env c3 = (c3, Inr a)" if "GetAPI env c = (c3, Inr a)"
  proof (cases "ctx_api c")
    case None
    then show ?thesis
      using GetAPI_cases [OF that] by (simp add: GetAPI_def)
  qed (use that in \<open>simp add: GetAPI_def\<close>)
  assume "GetAPI env c = (c3, Inr a) \<and> ctx_api c = None"
  note g = GetAPI_cases [OF this [THEN conjunct1] this [THEN conjunct2], THEN conjunct2]
  show "\<exists>n fetch. ctx_node c3 = Some n \<and> NewCoreAPI env n fetch = Inr a
      \<and> (if ctx_gateway c then \<exists>cfg. ctx_config c3 = Some cfg \<and> fetch = (\<not> NoFetch env cfg) else fetch)"
    by (rule g)
qed

definition ctx_ex :: "(nat, nat, nat) ctx_env" where
  "ctx_ex = \<lparr>LoadConfig = Some (Inr 7), ConstructNode = Some (Inr 1), node_config = (\<lambda>n. Inr 7),
     NoFetch = (\<lambda>c. True), NewCoreAPI = (\<lambda>n f. Inr (if f then 1 else 0))\<rparr>"

definition ctx0 :: "(nat, nat, nat) cmd_ctx" where
  "ctx0 = \<lparr>ctx_config = None, ctx_node = None, ctx_api = None, ctx_gateway = True, ctx_loads = 0, ctx_closed = []\<rparr>"

theorem context_caches_witness:
  "snd (GetAPI ctx_ex ctx0) = Inr 0
   \<and> GetAPI ctx_ex (fst (GetAPI ctx_ex ctx0)) = (fst (GetAPI ctx_ex ctx0), Inr 0)"
proof -
  have a: "snd (GetAPI ctx_ex ctx0) = Inr 0"
    by (simp add: GetAPI_def GetNode_def GetConfig_def ctx_ex_def ctx0_def)
  then have "GetAPI ctx_ex ctx0 = (fst (GetAPI ctx_ex ctx0), Inr 0)"
    by (metis prod.collapse)
  then show ?thesis
    using context_caches [of ctx_ex ctx0 ctx0 0 ctx0 0 "fst (GetAPI ctx_ex ctx0)" 0] a by blast
qed

text \<open>The node's configuration is never preloaded. The comment in \<open>GetNode\<close> says that the
  configuration is taken from the repository of the new node to avoid parsing it again; the
  condition is inverted, so after a successful construction the context has no configuration it did
  not have before, the next \<open>GetConfig\<close> loads it once more, and when the node's
  configuration cannot be read a configuration loaded before is dropped.\<close>

theorem getNode_never_preloads:
  assumes "ctx_node c = None" and "ConstructNode env = Some (Inr n)"
  shows "ctx_config (fst (GetNode env c)) =
      (case node_config env n of Inl _ \<Rightarrow> None | Inr _ \<Rightarrow> ctx_config c)
    \<and> (ctx_config c = None \<and> LoadConfig env \<noteq> None \<longrightarrow>
      ctx_loads (fst (GetConfig env (fst (GetNode env c)))) = Suc (ctx_loads c))"
  using assms by (auto simp: GetNode_def GetConfig_def split: option.split sum.split)

theorem getNode_never_preloads_witness:
  "ctx_config (fst (GetNode ctx_ex ctx0)) = None
   \<and> ctx_loads (fst (GetConfig ctx_ex (fst (GetNode ctx_ex ctx0)))) = 1"
  using getNode_never_preloads [of ctx0 ctx_ex 1] by (simp add: ctx_ex_def ctx0_def)

end
