(* ===== verification/Peering.thy ===== *)
theory Peering
  imports Prelude
begin

text \<open>
  The peering service (src/peering/peering.go), which keeps the node connected to a set of
  peers. Handlers are heap objects, shared by the map of the service and by the goroutines that were
  started for them, so the state has a list of handlers and goroutines name handlers by their index.
  The operations are functions on the state; goroutines, timers and the network are the steps of
  \<open>ps_step\<close>. A reconnection is three steps, because other goroutines run between the
  dial, the handling of its error and the final check. Stopping is two steps, because the service
  unsubscribes from the network before it takes its lock.

  Durations are in nanoseconds. A timer is \<open>None\<close> when the field is nil, \<open>Some True\<close> when it is
  armed and \<open>Some False\<close> when it has fired. Random numbers are arguments.
\<close>

section \<open>Data\<close>

definition maxBackoff :: int where "maxBackoff = 600000000000"
definition maxBackoffJitter :: int where "maxBackoffJitter = 10"
definition initialDelay :: int where "initialDelay = 5000000000"

datatype svc_state = stateInit | stateRunning | stateStopped

record ('p, 'a) peer_handler =
  ph_peer :: 'p
  ph_addrs :: "'a list"
  ph_cancelled :: bool
  reconnectTimer :: "bool option"
  nextDelay :: int

datatype 'p go =
    GoStart nat
  | GoStopIf nat
  | GoReconnect nat
  | GoFailed nat
  | GoDone nat bool
  | NConnected 'p
  | NDisconnected 'p
  | GoStop

record ('p, 'a) peering =
  handlers :: "('p, 'a) peer_handler list"
  peers :: "('p \<times> nat) list"
  ps_state :: svc_state
  notified :: bool
  pending :: "'p go list"
  connected :: "'p set"
  protected_peers :: "'p set"

section \<open>The handler\<close>

definition setAddrs :: "'a list \<Rightarrow> ('p, 'a) peer_handler \<Rightarrow> ('p, 'a) peer_handler" where
  "setAddrs as ph = ph\<lparr>ph_addrs := as\<rparr>"

definition ph_stop :: "('p, 'a) peer_handler \<Rightarrow> ('p, 'a) peer_handler" where
  "ph_stop ph = ph\<lparr>ph_cancelled := True, reconnectTimer := None\<rparr>"

text \<open>\<open>r1\<close> and \<open>r2\<close> are the results of the two calls of \<open>rand.Int63n\<close>.\<close>

definition nextBackoff :: "int \<Rightarrow> int \<Rightarrow> ('p, 'a) peer_handler \<Rightarrow> ('p, 'a) peer_handler" where
  "nextBackoff r1 r2 ph =
     (let d1 = (if nextDelay ph < maxBackoff then nextDelay ph + (nextDelay ph div 2 + r1) else nextDelay ph);
          d2 = (if d1 > maxBackoff then maxBackoff - r2 else d1)
      in ph\<lparr>nextDelay := d2\<rparr>)"

definition rand_ok :: "int \<Rightarrow> int \<Rightarrow> ('p, 'a) peer_handler \<Rightarrow> bool" where
  "rand_ok r1 r2 ph \<longleftrightarrow> 0 \<le> r1 \<and> r1 < nextDelay ph \<and> 0 \<le> r2 \<and> r2 < maxBackoff * maxBackoffJitter div 100"

text \<open>The error branch of \<open>reconnect\<close>.\<close>

definition reconnect_failed :: "int \<Rightarrow> int \<Rightarrow> ('p, 'a) peer_handler \<Rightarrow> ('p, 'a) peer_handler" where
  "reconnect_failed r1 r2 ph =
     (if reconnectTimer ph \<noteq> None then (nextBackoff r1 r2 ph)\<lparr>reconnectTimer := Some True\<rparr> else ph)"

definition stopIfConnected :: "'p set \<Rightarrow> ('p, 'a) peer_handler \<Rightarrow> ('p, 'a) peer_handler" where
  "stopIfConnected conns ph =
     (if reconnectTimer ph \<noteq> None \<and> ph_peer ph \<in> conns
      then ph\<lparr>reconnectTimer := None, nextDelay := initialDelay\<rparr> else ph)"

definition startIfDisconnected :: "int \<Rightarrow> int \<Rightarrow> 'p set \<Rightarrow> ('p, 'a) peer_handler \<Rightarrow> ('p, 'a) peer_handler" where
  "startIfDisconnected r1 r2 conns ph =
     (if reconnectTimer ph = None \<and> ph_peer ph \<notin> conns
      then (nextBackoff r1 r2 ph)\<lparr>reconnectTimer := Some True\<rparr> else ph)"

section \<open>The service\<close>

definition on_handler ::
  "nat \<Rightarrow> (('p, 'a) peer_handler \<Rightarrow> ('p, 'a) peer_handler) \<Rightarrow> ('p, 'a) peering \<Rightarrow> ('p, 'a) peering" where
  "on_handler h f ps = ps\<lparr>handlers := (handlers ps)[h := f (handlers ps ! h)]\<rparr>"

definition NewPeeringService :: "'p set \<Rightarrow> ('p, 'a) peering" where
  "NewPeeringService conns = \<lparr>handlers = [], peers = [], ps_state = stateInit, notified = False, pending = [],
     connected = conns, protected_peers = {}\<rparr>"

definition ps_Start :: "('p, 'a) peering \<Rightarrow> ('p, 'a) peering \<times> string option" where
  "ps_Start ps =
     (case ps_state ps of
        stateRunning \<Rightarrow> (ps, None)
      | stateStopped \<Rightarrow> (ps, Some ''already stopped'')
      | stateInit \<Rightarrow>
          (ps\<lparr>notified := True, ps_state := stateRunning,
             pending := pending ps @ map (\<lambda>(p, h). GoStart h) (peers ps)\<rparr>, None))"

fun stop_all :: "('p \<times> nat) list \<Rightarrow> ('p, 'a) peering \<Rightarrow> ('p, 'a) peering" where
  "stop_all [] ps = ps"
| "stop_all ((p, h) # hs) ps = stop_all hs (on_handler h ph_stop ps)"

text \<open>A call of \<open>Stop\<close>: up to its lock, and from there.\<close>

definition ps_StopNotify :: "('p, 'a) peering \<Rightarrow> ('p, 'a) peering" where
  "ps_StopNotify ps = ps\<lparr>notified := False, pending := pending ps @ [GoStop]\<rparr>"

definition ps_Stop :: "('p, 'a) peering \<Rightarrow> ('p, 'a) peering" where
  "ps_Stop ps =
     (case ps_state ps of
        stateStopped \<Rightarrow> ps
      | _ \<Rightarrow> (stop_all (peers ps) ps)\<lparr>ps_state := stateStopped\<rparr>)"

definition AddPeer :: "'p \<Rightarrow> 'a list \<Rightarrow> ('p, 'a) peering \<Rightarrow> ('p, 'a) peering" where
  "AddPeer p as ps =
     (case map_of (peers ps) p of
        Some h \<Rightarrow> on_handler h (setAddrs as) ps
      | None \<Rightarrow>
          (let h = length (handlers ps);
               ph = \<lparr>ph_peer = p, ph_addrs = as, ph_cancelled = (ps_state ps = stateStopped),
                     reconnectTimer = None, nextDelay = initialDelay\<rparr>
           in ps\<lparr>protected_peers := insert p (protected_peers ps),
                 handlers := handlers ps @ [ph], peers := peers ps @ [(p, h)],
                 pending := pending ps @ (if ps_state ps = stateRunning then [GoStart h] else [])\<rparr>))"

definition RemovePeer :: "'p \<Rightarrow> ('p, 'a) peering \<Rightarrow> ('p, 'a) peering" where
  "RemovePeer p ps =
     (case map_of (peers ps) p of
        None \<Rightarrow> ps
      | Some h \<Rightarrow>
          (on_handler h ph_stop ps)\<lparr>protected_peers := protected_peers ps - {p},
             peers := filter (\<lambda>(q, _). q \<noteq> p) (peers ps)\<rparr>)"

definition nn_Connected :: "'p \<Rightarrow> ('p, 'a) peering \<Rightarrow> ('p, 'a) peering" where
  "nn_Connected p ps =
     (case map_of (peers ps) p of None \<Rightarrow> ps | Some h \<Rightarrow> ps\<lparr>pending := pending ps @ [GoStopIf h]\<rparr>)"

definition nn_Disconnected :: "'p \<Rightarrow> ('p, 'a) peering \<Rightarrow> ('p, 'a) peering" where
  "nn_Disconnected p ps =
     (case map_of (peers ps) p of None \<Rightarrow> ps | Some h \<Rightarrow> ps\<lparr>pending := pending ps @ [GoStart h]\<rparr>)"

section \<open>Steps\<close>

definition finish_go :: "'p go \<Rightarrow> ('p, 'a) peering \<Rightarrow> ('p, 'a) peering" where
  "finish_go g ps = ps\<lparr>pending := remove1 g (pending ps)\<rparr>"

definition spawn :: "'p go \<Rightarrow> ('p, 'a) peering \<Rightarrow> ('p, 'a) peering" where
  "spawn g ps = ps\<lparr>pending := pending ps @ [g]\<rparr>"

text \<open>
  The steps. The flag \<open>steady\<close> restricts the network: a connection that a dial reported is still
  there when \<open>reconnect\<close> makes its final check.
\<close>

inductive ps_step :: "bool \<Rightarrow> ('p, 'a) peering \<Rightarrow> ('p, 'a) peering \<Rightarrow> bool" for steady where
  start: "ps_step steady ps (fst (ps_Start ps))"
| stop_notify: "ps_step steady ps (ps_StopNotify ps)"
| stop: "GoStop \<in> set (pending ps) \<Longrightarrow> ps_step steady ps (ps_Stop (finish_go GoStop ps))"
| add: "ps_step steady ps (AddPeer p as ps)"
| remove: "ps_step steady ps (RemovePeer p ps)"
| net_up: "ps_step steady ps ((if notified ps then spawn (NConnected p) ps else ps)\<lparr>connected := insert p (connected ps)\<rparr>)"
| net_down: "ps_step steady ps ((if notified ps then spawn (NDisconnected p) ps else ps)\<lparr>connected := connected ps - {p}\<rparr>)"
| notify_c: "NConnected p \<in> set (pending ps) \<Longrightarrow> ps_step steady ps (nn_Connected p (finish_go (NConnected p) ps))"
| notify_d: "NDisconnected p \<in> set (pending ps) \<Longrightarrow> ps_step steady ps (nn_Disconnected p (finish_go (NDisconnected p) ps))"
| go_start: "GoStart h \<in> set (pending ps) \<Longrightarrow> rand_ok r1 r2 (handlers ps ! h) \<Longrightarrow>
    ps_step steady ps (on_handler h (startIfDisconnected r1 r2 (connected ps)) (finish_go (GoStart h) ps))"
| go_stop_if: "GoStopIf h \<in> set (pending ps) \<Longrightarrow>
    ps_step steady ps (on_handler h (stopIfConnected (connected ps)) (finish_go (GoStopIf h) ps))"
| fire: "h < length (handlers ps) \<Longrightarrow> reconnectTimer (handlers ps ! h) = Some True \<Longrightarrow>
    ps_step steady ps (spawn (GoReconnect h) (on_handler h (\<lambda>ph. ph\<lparr>reconnectTimer := Some False\<rparr>) ps))"
| dial_ok: "GoReconnect h \<in> set (pending ps) \<Longrightarrow> ph_peer (handlers ps ! h) \<in> connected ps \<Longrightarrow>
    ps_step steady ps (spawn (GoDone h True) (finish_go (GoReconnect h) ps))"
| dial_err: "GoReconnect h \<in> set (pending ps) \<Longrightarrow>
    ps_step steady ps (spawn (GoFailed h) (finish_go (GoReconnect h) ps))"
| failed: "GoFailed h \<in> set (pending ps) \<Longrightarrow> rand_ok r1 r2 (handlers ps ! h) \<Longrightarrow>
    ps_step steady ps (spawn (GoDone h False) (on_handler h (reconnect_failed r1 r2) (finish_go (GoFailed h) ps)))"
| final_check: "GoDone h ok \<in> set (pending ps) \<Longrightarrow> (steady \<and> ok \<Longrightarrow> ph_peer (handlers ps ! h) \<in> connected ps) \<Longrightarrow>
    ps_step steady ps (on_handler h (stopIfConnected (connected ps)) (finish_go (GoDone h ok) ps))"

inductive ps_reachable :: "bool \<Rightarrow> ('p, 'a) peering \<Rightarrow> bool" for steady where
  new: "ps_reachable steady (NewPeeringService conns)"
| step: "ps_reachable steady ps \<Longrightarrow> ps_step steady ps ps' \<Longrightarrow> ps_reachable steady ps'"

section \<open>Back-off\<close>

lemmas backoff_consts = maxBackoff_def maxBackoffJitter_def initialDelay_def

definition delay_ok :: "('p, 'a) peer_handler \<Rightarrow> bool" where
  "delay_ok ph \<longleftrightarrow> initialDelay \<le> nextDelay ph \<and> nextDelay ph \<le> maxBackoff"

lemma nextBackoff_ok: "delay_ok ph \<Longrightarrow> rand_ok r1 r2 ph \<Longrightarrow> delay_ok (nextBackoff r1 r2 ph)"
  by (auto simp: delay_ok_def rand_ok_def nextBackoff_def backoff_consts Let_def)

lemma handler_ops_delay:
  assumes "delay_ok ph"
  shows "delay_ok (setAddrs as ph)" "delay_ok (ph_stop ph)" "delay_ok (stopIfConnected C ph)"
    and "rand_ok r1 r2 ph \<Longrightarrow> delay_ok (reconnect_failed r1 r2 ph)"
    and "rand_ok r1 r2 ph \<Longrightarrow> delay_ok (startIfDisconnected r1 r2 C ph)"
    and "delay_ok (ph\<lparr>reconnectTimer := t\<rparr>)"
  using assms nextBackoff_ok [OF assms]
  by (auto simp: setAddrs_def ph_stop_def stopIfConnected_def reconnect_failed_def startIfDisconnected_def
      delay_ok_def backoff_consts)

lemma handler_ops_peer [simp]:
  "ph_peer (setAddrs as ph) = ph_peer ph" "ph_peer (ph_stop ph) = ph_peer ph"
  "ph_peer (stopIfConnected C ph) = ph_peer ph" "ph_peer (reconnect_failed r1 r2 ph) = ph_peer ph"
  "ph_peer (startIfDisconnected r1 r2 C ph) = ph_peer ph" "ph_peer (nextBackoff r1 r2 ph) = ph_peer ph"
  by (auto simp: setAddrs_def ph_stop_def stopIfConnected_def reconnect_failed_def startIfDisconnected_def
      nextBackoff_def Let_def)

section \<open>The structure of the state\<close>

fun go_handler :: "'p go \<Rightarrow> nat option" where
  "go_handler (GoStart h) = Some h"
| "go_handler (GoStopIf h) = Some h"
| "go_handler (GoReconnect h) = Some h"
| "go_handler (GoFailed h) = Some h"
| "go_handler (GoDone h ok) = Some h"
| "go_handler (NConnected p) = None"
| "go_handler (NDisconnected p) = None"
| "go_handler GoStop = None"

text \<open>Handlers named by the map and by goroutines exist, the map has one entry per peer and
  names that peer's handler, and the delays are within their bounds.\<close>

definition ps_wf :: "('p, 'a) peering \<Rightarrow> bool" where
  "ps_wf ps \<longleftrightarrow>
     (\<forall>(p, h) \<in> set (peers ps). h < length (handlers ps) \<and> ph_peer (handlers ps ! h) = p)
   \<and> distinct (map fst (peers ps))
   \<and> (\<forall>g \<in> set (pending ps). \<forall>h. go_handler g = Some h \<longrightarrow> h < length (handlers ps))
   \<and> (\<forall>ph \<in> set (handlers ps). delay_ok ph)
   \<and> protected_peers ps = fst ` set (peers ps)"

lemma ps_wfD:
  assumes "ps_wf ps"
  shows "(p, h) \<in> set (peers ps) \<Longrightarrow> h < length (handlers ps)"
    and "(p, h) \<in> set (peers ps) \<Longrightarrow> ph_peer (handlers ps ! h) = p"
    and "distinct (map fst (peers ps))"
    and "g \<in> set (pending ps) \<Longrightarrow> go_handler g = Some h \<Longrightarrow> h < length (handlers ps)"
    and "h < length (handlers ps) \<Longrightarrow> delay_ok (handlers ps ! h)"
    and "protected_peers ps = fst ` set (peers ps)"
  using assms unfolding ps_wf_def by (auto simp: split_beta)

lemma ps_wfI:
  assumes "\<And>p h. (p, h) \<in> set (peers ps) \<Longrightarrow> h < length (handlers ps) \<and> ph_peer (handlers ps ! h) = p"
    and "distinct (map fst (peers ps))"
    and "\<And>g h. g \<in> set (pending ps) \<Longrightarrow> go_handler g = Some h \<Longrightarrow> h < length (handlers ps)"
    and "\<And>ph. ph \<in> set (handlers ps) \<Longrightarrow> delay_ok ph"
    and "protected_peers ps = fst ` set (peers ps)"
  shows "ps_wf ps"
  using assms unfolding ps_wf_def by (auto simp: split_beta)

lemma on_handler_sel [simp]:
  "length (handlers (on_handler h f ps)) = length (handlers ps)"
  "peers (on_handler h f ps) = peers ps" "ps_state (on_handler h f ps) = ps_state ps"
  "notified (on_handler h f ps) = notified ps" "pending (on_handler h f ps) = pending ps"
  "connected (on_handler h f ps) = connected ps" "protected_peers (on_handler h f ps) = protected_peers ps"
  by (simp_all add: on_handler_def)

lemma on_handler_nth:
  "k < length (handlers ps) \<Longrightarrow>
    handlers (on_handler h f ps) ! k = (if k = h then f (handlers ps ! h) else handlers ps ! k)"
  by (simp add: on_handler_def nth_list_update)

lemma finish_go_sel [simp]:
  "handlers (finish_go g ps) = handlers ps" "peers (finish_go g ps) = peers ps"
  "ps_state (finish_go g ps) = ps_state ps" "notified (finish_go g ps) = notified ps"
  "pending (finish_go g ps) = remove1 g (pending ps)" "connected (finish_go g ps) = connected ps"
  "protected_peers (finish_go g ps) = protected_peers ps"
  by (simp_all add: finish_go_def)

lemma spawn_sel [simp]:
  "handlers (spawn g ps) = handlers ps" "peers (spawn g ps) = peers ps"
  "ps_state (spawn g ps) = ps_state ps" "notified (spawn g ps) = notified ps"
  "pending (spawn g ps) = pending ps @ [g]" "connected (spawn g ps) = connected ps"
  "protected_peers (spawn g ps) = protected_peers ps"
  by (simp_all add: spawn_def)

lemma wf_on_handler:
  assumes "ps_wf ps" and "\<And>ph. ph_peer (f ph) = ph_peer ph"
    and "h < length (handlers ps) \<Longrightarrow> delay_ok (f (handlers ps ! h))"
  shows "ps_wf (on_handler h f ps)"
proof -
  have "delay_ok ph" if "ph \<in> set (handlers (on_handler h f ps))" for ph
    using that assms(1,3) by (auto simp: on_handler_nth in_set_conv_nth dest: ps_wfD(5))
  moreover have "ph_peer (handlers (on_handler h f ps) ! k) = ph_peer (handlers ps ! k)"
    if "k < length (handlers ps)" for k
    using that assms(2) by (simp add: on_handler_nth)
  ultimately show ?thesis
    using assms(1) by (fastforce simp: ps_wf_def)
qed

lemma wf_finish_go: "ps_wf ps \<Longrightarrow> ps_wf (finish_go g ps)"
  by (auto simp: ps_wf_def dest: notin_set_remove1)

lemma wf_spawn:
  "ps_wf ps \<Longrightarrow> (\<And>h. go_handler g = Some h \<Longrightarrow> h < length (handlers ps)) \<Longrightarrow> ps_wf (spawn g ps)"
  by (auto simp: ps_wf_def)

lemma stop_all_sel [simp]:
  "length (handlers (stop_all hs ps)) = length (handlers ps)" "peers (stop_all hs ps) = peers ps"
  "ps_state (stop_all hs ps) = ps_state ps" "notified (stop_all hs ps) = notified ps"
  "pending (stop_all hs ps) = pending ps" "connected (stop_all hs ps) = connected ps"
  "protected_peers (stop_all hs ps) = protected_peers ps"
  by (induction hs ps rule: stop_all.induct) simp_all

lemma wf_on_stop: "ps_wf ps \<Longrightarrow> ps_wf (on_handler h ph_stop ps)"
  by (auto intro!: wf_on_handler handler_ops_delay dest: ps_wfD(5))

lemma wf_stop_all: "ps_wf ps \<Longrightarrow> ps_wf (stop_all hs ps)"
  by (induction hs ps rule: stop_all.induct) (simp_all add: wf_on_stop)

lemma wf_update:
  "ps_wf (ps\<lparr>notified := n\<rparr>) = ps_wf ps" "ps_wf (ps\<lparr>ps_state := s\<rparr>) = ps_wf ps"
  "ps_wf (ps\<lparr>connected := C\<rparr>) = ps_wf ps"
  by (simp_all add: ps_wf_def)

lemma wf_start: "ps_wf ps \<Longrightarrow> ps_wf (fst (ps_Start ps))"
  by (cases "ps_state ps") (auto simp: ps_Start_def ps_wf_def)

lemma wf_stop: "ps_wf ps \<Longrightarrow> ps_wf (ps_Stop ps)"
  by (simp add: ps_Stop_def wf_update wf_stop_all split: svc_state.split)

lemma wf_stop_notify: "ps_wf ps \<Longrightarrow> ps_wf (ps_StopNotify ps)"
  by (auto simp: ps_StopNotify_def ps_wf_def)

lemma wf_add: "ps_wf ps \<Longrightarrow> ps_wf (AddPeer p as ps)"
proof (cases "map_of (peers ps) p")
  case None
  assume wf: "ps_wf ps"
  let ?h = "length (handlers ps)"
  let ?ph = "\<lparr>ph_peer = p, ph_addrs = as, ph_cancelled = (ps_state ps = stateStopped),
     reconnectTimer = None, nextDelay = initialDelay\<rparr>"
  have sel: "handlers (AddPeer p as ps) = handlers ps @ [?ph]" "peers (AddPeer p as ps) = peers ps @ [(p, ?h)]"
    "set (pending (AddPeer p as ps)) \<subseteq> insert (GoStart ?h) (set (pending ps))"
    "protected_peers (AddPeer p as ps) = insert p (protected_peers ps)"
    using None by (auto simp: AddPeer_def Let_def)
  show ?thesis
  proof (rule ps_wfI)
    show "k < length (handlers (AddPeer p as ps)) \<and> ph_peer (handlers (AddPeer p as ps) ! k) = q"
      if "(q, k) \<in> set (peers (AddPeer p as ps))" for q k
      using that ps_wfD(1,2) [OF wf] by (fastforce simp: sel nth_append)
    show "distinct (map fst (peers (AddPeer p as ps)))"
      using ps_wfD(3) [OF wf] None by (simp add: sel map_of_eq_None_iff)
    show "k < length (handlers (AddPeer p as ps))"
      if "g \<in> set (pending (AddPeer p as ps))" "go_handler g = Some k" for g k
      using that(2) subsetD [OF sel(3) that(1)] ps_wfD(4) [OF wf, of g k] by (auto simp: sel(1))
    show "delay_ok x" if "x \<in> set (handlers (AddPeer p as ps))" for x
      using that ps_wfD(5) [OF wf] by (auto simp: sel in_set_conv_nth delay_ok_def backoff_consts)
    show "protected_peers (AddPeer p as ps) = fst ` set (peers (AddPeer p as ps))"
      using ps_wfD(6) [OF wf] by (simp add: sel)
  qed
next
  case (Some h)
  assume wf: "ps_wf ps"
  then show ?thesis
    using Some by (auto simp: AddPeer_def intro!: wf_on_handler handler_ops_delay dest: ps_wfD(5))
qed

lemma wf_remove: "ps_wf ps \<Longrightarrow> ps_wf (RemovePeer p ps)"
proof (cases "map_of (peers ps) p")
  case (Some h)
  assume wf: "ps_wf ps"
  then have "ps_wf (on_handler h ph_stop ps)"
    by (rule wf_on_stop)
  then show ?thesis
    using Some unfolding RemovePeer_def ps_wf_def
    by (auto simp: distinct_map_filter)
qed (simp add: RemovePeer_def)

lemma wf_notify: "ps_wf ps \<Longrightarrow> ps_wf (nn_Connected p ps)" "ps_wf ps \<Longrightarrow> ps_wf (nn_Disconnected p ps)"
  by (auto simp: nn_Connected_def nn_Disconnected_def spawn_def [symmetric] split: option.split
      intro!: wf_spawn dest: map_of_SomeD ps_wfD(1))

lemma wf_step: "ps_step steady ps ps' \<Longrightarrow> ps_wf ps \<Longrightarrow> ps_wf ps'"
proof (induction rule: ps_step.induct)
  case (go_start h ps r1 r2)
  then show ?case
    by (auto intro!: wf_on_handler wf_finish_go handler_ops_delay dest: ps_wfD(5))
next
  case (go_stop_if h ps)
  then show ?case
    by (auto intro!: wf_on_handler wf_finish_go handler_ops_delay dest: ps_wfD(5))
next
  case (fire h ps)
  then show ?case
    by (auto intro!: wf_spawn wf_on_handler handler_ops_delay dest: ps_wfD(5))
next
  case (dial_ok h ps)
  then show ?case
    by (auto intro!: wf_spawn wf_finish_go dest: ps_wfD(4))
next
  case (dial_err h ps)
  then show ?case
    by (auto intro!: wf_spawn wf_finish_go dest: ps_wfD(4))
next
  case (failed h ps r1 r2)
  then show ?case
    by (auto intro!: wf_spawn wf_on_handler wf_finish_go handler_ops_delay dest: ps_wfD(4,5))
next
  case (final_check h ok ps)
  then show ?case
    by (auto intro!: wf_on_handler wf_finish_go handler_ops_delay dest: ps_wfD(5))
qed (auto simp: wf_update intro: wf_start wf_stop wf_stop_notify wf_add wf_remove wf_notify wf_finish_go wf_spawn)

lemma wf_new: "ps_wf (NewPeeringService conns)"
  by (simp add: NewPeeringService_def ps_wf_def)

lemma ps_reachable_wf: "ps_reachable steady ps \<Longrightarrow> ps_wf ps"
  by (induction rule: ps_reachable.induct) (blast intro: wf_step wf_new)+

section \<open>Reconnection is never forgotten\<close>

text \<open>A goroutine that is in the middle of a reconnection and will set or clear the timer.\<close>

definition busy :: "nat \<Rightarrow> ('p, 'a) peering \<Rightarrow> bool" where
  "busy h ps \<longleftrightarrow> GoReconnect h \<in> set (pending ps) \<or> GoFailed h \<in> set (pending ps) \<or> GoDone h True \<in> set (pending ps)"

definition woken :: "'p \<Rightarrow> nat \<Rightarrow> ('p, 'a) peering \<Rightarrow> bool" where
  "woken p h ps \<longleftrightarrow> reconnectTimer (handlers ps ! h) \<noteq> None \<or> GoStart h \<in> set (pending ps)
     \<or> NDisconnected p \<in> set (pending ps)"

definition fired_inv :: "('p, 'a) peering \<Rightarrow> bool" where
  "fired_inv ps \<longleftrightarrow> (\<forall>h < length (handlers ps). reconnectTimer (handlers ps ! h) = Some False \<longrightarrow> busy h ps)"

definition awake_inv :: "('p, 'a) peering \<Rightarrow> bool" where
  "awake_inv ps \<longleftrightarrow> (ps_state ps = stateRunning \<and> GoStop \<notin> set (pending ps) \<longrightarrow> notified ps
     \<and> (\<forall>p h. (p, h) \<in> set (peers ps) \<longrightarrow> p \<notin> connected ps \<longrightarrow> woken p h ps))"

lemma timer_ops [simp]:
  "reconnectTimer (setAddrs as ph) = reconnectTimer ph" "reconnectTimer (ph_stop ph) = None"
  "reconnectTimer (stopIfConnected C ph) = (if ph_peer ph \<in> C then None else reconnectTimer ph)"
  "reconnectTimer (startIfDisconnected r1 r2 C ph) =
     (if reconnectTimer ph = None \<and> ph_peer ph \<notin> C then Some True else reconnectTimer ph)"
  "reconnectTimer (reconnect_failed r1 r2 ph) = (if reconnectTimer ph = None then None else Some True)"
  by (auto simp: setAddrs_def ph_stop_def stopIfConnected_def startIfDisconnected_def reconnect_failed_def)

lemma timer_stop_all:
  "k < length (handlers ps) \<Longrightarrow> reconnectTimer (handlers (stop_all hs ps) ! k) = None
    \<or> reconnectTimer (handlers (stop_all hs ps) ! k) = reconnectTimer (handlers ps ! k)"
  by (induction hs ps rule: stop_all.induct) (auto simp: on_handler_nth split: if_splits)

lemmas inv_simps = busy_def woken_def on_handler_nth in_set_remove1

lemma fired_step: "ps_step True ps ps' \<Longrightarrow> ps_wf ps \<Longrightarrow> fired_inv ps \<Longrightarrow> fired_inv ps'"
proof (induction rule: ps_step.induct)
  case (start ps)
  then show ?case
    by (cases "ps_state ps") (auto simp: fired_inv_def busy_def ps_Start_def)
next
  case (stop ps)
  have "reconnectTimer (handlers (stop_all (peers ps) (finish_go GoStop ps)) ! k) = None
      \<or> reconnectTimer (handlers (stop_all (peers ps) (finish_go GoStop ps)) ! k) = reconnectTimer (handlers ps ! k)"
    if "k < length (handlers ps)" for k
    using timer_stop_all [of k "finish_go GoStop ps" "peers ps"] that by simp
  with stop show ?case
    by (cases "ps_state ps") (fastforce simp: fired_inv_def busy_def ps_Stop_def in_set_remove1)+
next
  case (stop_notify ps)
  then show ?case
    by (auto simp: fired_inv_def busy_def ps_StopNotify_def)
next
  case (add ps p as)
  then show ?case
    by (cases "map_of (peers ps) p")
      (auto simp: AddPeer_def Let_def fired_inv_def inv_simps nth_append less_Suc_eq split: if_splits)
next
  case (remove ps p)
  then show ?case
    by (cases "map_of (peers ps) p")
      (auto simp: RemovePeer_def fired_inv_def inv_simps split: if_splits)
next
  case (failed h ps r1 r2)
  then show ?case
    by (auto simp: fired_inv_def inv_simps split: if_splits)
next
  case (final_check h ok ps)
  then show ?case
    by (cases ok) (auto simp: fired_inv_def inv_simps split: if_splits)
next
  case (notify_c p ps)
  then show ?case
    by (auto simp: nn_Connected_def fired_inv_def inv_simps split: option.split)
next
  case (notify_d p ps)
  then show ?case
    by (auto simp: nn_Disconnected_def fired_inv_def inv_simps split: option.split)
next
  case (dial_ok h ps)
  then show ?case
    by (auto simp: fired_inv_def inv_simps) (metis in_set_remove1 go.inject(3))+
next
  case (dial_err h ps)
  then show ?case
    by (auto simp: fired_inv_def inv_simps)
qed (auto simp: fired_inv_def inv_simps split: if_splits)

text \<open>A handler may lose its timer only when its peer is connected.\<close>

lemma awake_on:
  assumes wf: "ps_wf ps" and inv: "awake_inv ps"
    and f: "h < length (handlers ps) \<Longrightarrow> reconnectTimer (f (handlers ps ! h)) = None \<Longrightarrow>
      reconnectTimer (handlers ps ! h) = None \<or> ph_peer (handlers ps ! h) \<in> connected ps"
  shows "awake_inv (on_handler h f ps)"
proof -
  have "woken p k (on_handler h f ps)"
    if "(p, k) \<in> set (peers ps)" "p \<notin> connected ps" "woken p k ps" for p k
    using that f ps_wfD(1,2) [OF wf that(1)] by (auto simp: woken_def on_handler_nth)
  with inv show ?thesis
    by (simp add: awake_inv_def)
qed

lemma awake_finish:
  assumes "awake_inv ps" and "\<And>h p. g \<noteq> GoStart h \<and> g \<noteq> NDisconnected p" and "g \<noteq> GoStop"
  shows "awake_inv (finish_go g ps)"
proof -
  have "woken p k (finish_go g ps)" if "woken p k ps" for p k
    using that assms(2) by (metis woken_def finish_go_sel(1,5) in_set_remove1)
  moreover have "GoStop \<in> set (pending (finish_go g ps)) \<longleftrightarrow> GoStop \<in> set (pending ps)"
    using assms(3) by (simp add: in_set_remove1)
  ultimately show ?thesis
    using assms(1) by (auto simp: awake_inv_def)
qed

lemma awake_spawn: "awake_inv ps \<Longrightarrow> awake_inv (spawn g ps)"
  by (auto simp: awake_inv_def woken_def)

lemma awake_step: "ps_step b ps ps' \<Longrightarrow> ps_wf ps \<Longrightarrow> awake_inv ps \<Longrightarrow> awake_inv ps'"
proof (induction rule: ps_step.induct)
  case (start ps)
  then show ?case
    by (cases "ps_state ps") (auto simp: awake_inv_def woken_def ps_Start_def)
next
  case (stop ps)
  then show ?case
    by (cases "ps_state ps") (auto simp: awake_inv_def ps_Stop_def)
next
  case (stop_notify ps)
  then show ?case
    by (simp add: awake_inv_def ps_StopNotify_def)
next
  case (add ps p as)
  show ?case
  proof (cases "map_of (peers ps) p")
    case None
    with add show ?thesis
      using ps_wfD(1) [OF add(1)]
      by (fastforce simp: AddPeer_def Let_def awake_inv_def woken_def nth_append)
  next
    case (Some h)
    with add show ?thesis
      using ps_wfD(1) [OF add(1)]
      by (fastforce simp: AddPeer_def awake_inv_def woken_def on_handler_nth)
  qed
next
  case (remove ps p)
  show ?case
  proof (cases "map_of (peers ps) p")
    case (Some h)
    have "k \<noteq> h" if "(q, k) \<in> set (peers ps)" "q \<noteq> p" for q k
      using that ps_wfD(2) [OF remove(1)] map_of_SomeD [OF Some] by blast
    with Some remove show ?thesis
      using ps_wfD(1) [OF remove(1)]
      by (auto simp: RemovePeer_def awake_inv_def woken_def on_handler_nth) (metis option.distinct(1))+
  qed (use remove in \<open>simp add: RemovePeer_def\<close>)
next
  case (notify_c p ps)
  then show ?case
    by (auto simp: nn_Connected_def awake_inv_def inv_simps split: option.split)
next
  case (notify_d p ps)
  have "map_of (peers ps) p = Some h" if "(p, h) \<in> set (peers ps)" for h
    using that ps_wfD(3) [OF notify_d(2)] by simp
  with notify_d show ?case
    by (auto simp: nn_Disconnected_def awake_inv_def woken_def split: option.split) (metis in_set_remove1 go.inject(7) option.distinct(1))+
next
  case (go_start h ps r1 r2)
  let ?ps = "on_handler h (startIfDisconnected r1 r2 (connected ps)) ps"
  have "awake_inv ?ps"
    using go_start(3,4) by (intro awake_on) (auto split: if_splits)
  moreover have "reconnectTimer (handlers ?ps ! h) \<noteq> None"
    if "(p, h) \<in> set (peers ps)" "p \<notin> connected ps" for p
    using that ps_wfD(1,2) [OF go_start(3) that(1)] by (auto simp: on_handler_nth)
  ultimately have "awake_inv (finish_go (GoStart h) ?ps)"
    by (auto simp: awake_inv_def woken_def) (metis in_set_remove1 go.inject(1) go.distinct option.distinct(1))+
  moreover have "finish_go (GoStart h) ?ps = on_handler h (startIfDisconnected r1 r2 (connected ps)) (finish_go (GoStart h) ps)"
    by (simp add: finish_go_def on_handler_def)
  ultimately show ?case by simp
next
  case (go_stop_if h ps)
  then show ?case
    by (intro awake_on wf_finish_go awake_finish) (auto split: if_splits)
next
  case (fire h ps)
  then show ?case
    by (intro awake_spawn awake_on) auto
next
  case (dial_ok h ps)
  then show ?case
    by (intro awake_spawn awake_finish) auto
next
  case (dial_err h ps)
  then show ?case
    by (intro awake_spawn awake_finish) auto
next
  case (failed h ps r1 r2)
  then show ?case
    by (intro awake_spawn awake_on wf_finish_go awake_finish) (auto split: if_splits)
next
  case (final_check h ok ps)
  then show ?case
    by (intro awake_on wf_finish_go awake_finish) (auto split: if_splits)
qed (auto simp: awake_inv_def inv_simps)

lemma ps_reachable_inv: "ps_reachable b ps \<Longrightarrow> (b \<longrightarrow> fired_inv ps) \<and> awake_inv ps"
proof (induction rule: ps_reachable.induct)
  case (new conns)
  then show ?case
    by (simp add: NewPeeringService_def fired_inv_def awake_inv_def)
next
  case (step ps ps')
  have "b \<longrightarrow> fired_inv ps'"
    using step fired_step ps_reachable_wf [OF step(1)] by (cases b) auto
  then show ?case
    using step awake_step ps_reachable_wf [OF step(1)] by blast
qed

section \<open>Properties\<close>

text \<open>C17: a lost peer is retried. While the service runs and no call of \<open>Stop\<close> is under way, in every state reachable by
  any interleaving of calls, goroutines, timers and network changes, a peer of the service that is not connected
  has a timer, or a goroutine or notification pending that sets one. If moreover every connection that a dial reported lasts until the
  check at the end of \<open>reconnect\<close>, then that timer is armed or a reconnection is in progress, so the
  peer will be dialled again. Without that assumption the timer may be one that has fired, which nothing sets
  again, see \<open>peering_can_stall\<close>.\<close>

theorem peering_always_retries:
  assumes "ps_reachable steady ps" and "ps_state ps = stateRunning" and "GoStop \<notin> set (pending ps)"
    and "(p, h) \<in> set (peers ps)" and "p \<notin> connected ps"
  shows "(reconnectTimer (handlers ps ! h) \<noteq> None \<or> GoStart h \<in> set (pending ps) \<or> NDisconnected p \<in> set (pending ps))
    \<and> (steady \<longrightarrow> reconnectTimer (handlers ps ! h) = Some True \<or> GoReconnect h \<in> set (pending ps)
        \<or> GoFailed h \<in> set (pending ps) \<or> GoDone h True \<in> set (pending ps)
        \<or> GoStart h \<in> set (pending ps) \<or> NDisconnected p \<in> set (pending ps))"
proof -
  have "h < length (handlers ps)"
    using ps_wfD(1) [OF ps_reachable_wf [OF assms(1)] assms(4)] .
  then have "steady \<Longrightarrow> reconnectTimer (handlers ps ! h) = Some False \<Longrightarrow> busy h ps"
    using ps_reachable_inv [OF assms(1)] by (simp add: fired_inv_def)
  moreover have "woken p h ps"
    using ps_reachable_inv [OF assms(1)] assms(2-5) by (simp add: awake_inv_def)
  ultimately show ?thesis
    by (auto simp: woken_def busy_def)
qed

definition ps_ex :: "(nat, nat) peering" where
  "ps_ex = fst (ps_Start (AddPeer 7 [] (NewPeeringService {})))"

lemma ps_ex_reachable: "ps_reachable b ps_ex"
  unfolding ps_ex_def by (intro ps_reachable.step [OF _ ps_step.start] ps_reachable.step [OF _ ps_step.add] ps_reachable.new)

lemmas ps_run = ps_ex_def ps_Start_def AddPeer_def NewPeeringService_def RemovePeer_def on_handler_def
  spawn_def finish_go_def nn_Connected_def nn_Disconnected_def startIfDisconnected_def stopIfConnected_def
  nextBackoff_def ph_stop_def rand_ok_def backoff_consts Let_def

theorem peering_always_retries_witness:
  "ps_state ps_ex = stateRunning \<and> (7, 0) \<in> set (peers ps_ex) \<and> 7 \<notin> connected ps_ex
   \<and> (reconnectTimer (handlers ps_ex ! 0) = Some True \<or> GoReconnect 0 \<in> set (pending ps_ex)
    \<or> GoFailed 0 \<in> set (pending ps_ex) \<or> GoDone 0 True \<in> set (pending ps_ex)
    \<or> GoStart 0 \<in> set (pending ps_ex) \<or> NDisconnected 7 \<in> set (pending ps_ex))"
proof -
  have "ps_state ps_ex = stateRunning" "(7, 0) \<in> set (peers ps_ex)" "7 \<notin> connected ps_ex"
    by (simp_all add: ps_run)
  then show ?thesis
    using peering_always_retries [OF ps_ex_reachable [of True]] by (simp add: ps_run)
qed

text \<open>The back-off. In every reachable state the delay of every handler lies between the initial
  delay of five seconds and the maximum of ten minutes, so the arguments of both calls of
  \<open>rand.Int63n\<close> are positive; and \<open>nextBackoff\<close> makes the delay at least half as long
  again or puts it in the last tenth below the maximum.\<close>

theorem peering_backoff_bounds:
  assumes "ps_reachable b ps" and "ph \<in> set (handlers ps)"
  shows "initialDelay \<le> nextDelay ph \<and> nextDelay ph \<le> maxBackoff
    \<and> 0 < nextDelay ph \<and> 0 < maxBackoff * maxBackoffJitter div 100
    \<and> (\<forall>r1 r2. rand_ok r1 r2 ph \<longrightarrow>
        (nextDelay (nextBackoff r1 r2 ph) \<ge> nextDelay ph + nextDelay ph div 2
          \<or> nextDelay (nextBackoff r1 r2 ph) > maxBackoff - maxBackoff * maxBackoffJitter div 100)
        \<and> nextDelay (nextBackoff r1 r2 ph) \<le> maxBackoff)"
proof -
  obtain h where "h < length (handlers ps)" "handlers ps ! h = ph"
    using assms(2) by (auto simp: in_set_conv_nth)
  then have "delay_ok ph"
    using ps_wfD(5) [OF ps_reachable_wf [OF assms(1)]] by blast
  then show ?thesis
    by (auto simp: delay_ok_def rand_ok_def nextBackoff_def backoff_consts Let_def)
qed

theorem peering_backoff_bounds_witness:
  "ps_reachable True ps_ex \<and> initialDelay \<le> nextDelay (handlers ps_ex ! 0)
   \<and> nextDelay (handlers ps_ex ! 0) \<le> maxBackoff"
proof -
  have "handlers ps_ex ! 0 \<in> set (handlers ps_ex)"
    by (simp add: ps_run)
  then show ?thesis
    using peering_backoff_bounds [OF ps_ex_reachable [of True]] ps_ex_reachable by blast
qed

text \<open>The map of the service and the connection manager agree: the protected peers are exactly
  the peers of the service, each has one handler, and that handler is the peer's own.\<close>

theorem peering_protects:
  assumes "ps_reachable b ps"
  shows "protected_peers ps = dom (map_of (peers ps)) \<and> distinct (map fst (peers ps))
    \<and> (\<forall>p h. map_of (peers ps) p = Some h \<longrightarrow> h < length (handlers ps) \<and> ph_peer (handlers ps ! h) = p)"
  using ps_wfD [OF ps_reachable_wf [OF assms]] by (auto simp: dom_map_of_conv_image_fst dest: map_of_SomeD)

theorem peering_protects_witness:
  "protected_peers ps_ex = dom (map_of (peers ps_ex)) \<and> map_of (peers ps_ex) 7 = Some 0"
  using peering_protects [OF ps_ex_reachable] by (simp add: ps_run)

text \<open>Without the assumption on the network a peer can be lost. When a dial succeeds and the
  connection goes down before the check at the end of \<open>reconnect\<close>, the timer has fired but is not
  nil, so neither that check nor the notification of the disconnection starts a new one: a
  reachable state of the running service has a peer that is not connected, nothing
  pending, and no armed timer.\<close>

theorem peering_can_stall:
  "\<exists>ps :: (nat, nat) peering. ps_reachable False ps \<and> ps_state ps = stateRunning
    \<and> (7, 0) \<in> set (peers ps) \<and> 7 \<notin> connected ps \<and> pending ps = []
    \<and> map reconnectTimer (handlers ps) = [Some False]"
proof -
  note go = ps_reachable.step
  have 1: "ps_reachable False (on_handler 0 (startIfDisconnected 0 0 (connected ps_ex)) (finish_go (GoStart 0) ps_ex))"
    (is "ps_reachable False ?s1")
    by (rule go [OF ps_ex_reachable ps_step.go_start]) (simp_all add: ps_run)
  have 2: "ps_reachable False (spawn (GoReconnect 0) (on_handler 0 (\<lambda>ph. ph\<lparr>reconnectTimer := Some False\<rparr>) ?s1))"
    (is "ps_reachable False ?s2")
    by (rule go [OF 1 ps_step.fire]) (simp_all add: ps_run)
  define s3 where "s3 = (spawn (NConnected 7) ?s2)\<lparr>connected := {7}\<rparr>"
  have 3: "ps_reachable False s3"
    using go [OF 2 ps_step.net_up [of False _ 7]] by (simp add: s3_def ps_run)
  define s4 where "s4 = spawn (GoDone 0 True) (finish_go (GoReconnect 0) s3)"
  have 4: "ps_reachable False s4"
    unfolding s4_def by (rule go [OF 3 ps_step.dial_ok]) (simp_all add: s3_def ps_run)
  define s5 where "s5 = (spawn (NDisconnected 7) s4)\<lparr>connected := {}\<rparr>"
  have 5: "ps_reachable False s5"
    using go [OF 4 ps_step.net_down [of False _ 7]] by (simp add: s5_def s4_def s3_def ps_run)
  define s6 where "s6 = on_handler 0 (stopIfConnected (connected s5)) (finish_go (GoDone 0 True) s5)"
  have 6: "ps_reachable False s6"
    unfolding s6_def by (rule go [OF 5 ps_step.final_check]) (simp_all add: s5_def s4_def s3_def ps_run)
  define s7 where "s7 = nn_Connected 7 (finish_go (NConnected 7) s6)"
  have 7: "ps_reachable False s7"
    unfolding s7_def by (rule go [OF 6 ps_step.notify_c]) (simp add: s6_def s5_def s4_def s3_def ps_run)
  define s8 where "s8 = nn_Disconnected 7 (finish_go (NDisconnected 7) s7)"
  have 8: "ps_reachable False s8"
    unfolding s8_def by (rule go [OF 7 ps_step.notify_d]) (simp add: s7_def s6_def s5_def s4_def s3_def ps_run)
  define s9 where "s9 = on_handler 0 (stopIfConnected (connected s8)) (finish_go (GoStopIf 0) s8)"
  have 9: "ps_reachable False s9"
    unfolding s9_def
    by (rule go [OF 8 ps_step.go_stop_if]) (simp add: s8_def s7_def s6_def s5_def s4_def s3_def ps_run)
  define s10 where "s10 = on_handler 0 (startIfDisconnected 0 0 (connected s9)) (finish_go (GoStart 0) s9)"
  have "ps_reachable False s10"
    unfolding s10_def by (rule go [OF 9 ps_step.go_start])
      (simp_all add: s9_def s8_def s7_def s6_def s5_def s4_def s3_def ps_run)
  moreover have "ps_state s10 = stateRunning \<and> (7, 0) \<in> set (peers s10) \<and> 7 \<notin> connected s10 \<and> pending s10 = []
    \<and> map reconnectTimer (handlers s10) = [Some False]"
    by (simp add: s10_def s9_def s8_def s7_def s6_def s5_def s4_def s3_def ps_run)
  ultimately show ?thesis
    by (intro exI [of _ s10] conjI) simp_all
qed

text \<open>A removed peer can come back to life. \<open>stop\<close> is meant to stop a handler permanently, but
  a goroutine started before it, for \<open>startIfDisconnected\<close>, arms a new timer after it, on
  a handler whose context is cancelled and which is no longer in the map.\<close>

theorem peering_stop_not_permanent:
  "\<exists>ps :: (nat, nat) peering. ps_reachable True ps \<and> peers ps = []
    \<and> ph_cancelled (handlers ps ! 0) \<and> reconnectTimer (handlers ps ! 0) = Some True"
proof -
  have 1: "ps_reachable True (RemovePeer 7 ps_ex)" (is "ps_reachable True ?s1")
    by (rule ps_reachable.step [OF ps_ex_reachable ps_step.remove])
  define s2 where "s2 = on_handler 0 (startIfDisconnected 0 0 (connected ?s1)) (finish_go (GoStart 0) ?s1)"
  have "ps_reachable True s2"
    unfolding s2_def by (rule ps_reachable.step [OF 1 ps_step.go_start]) (simp_all add: ps_run)
  moreover have "peers s2 = [] \<and> ph_cancelled (handlers s2 ! 0) \<and> reconnectTimer (handlers s2 ! 0) = Some True"
    by (simp add: s2_def ps_run)
  ultimately show ?thesis by blast
qed

text \<open>A service can stay subscribed after it was stopped: when \<open>Start\<close> runs between the two steps of
  \<open>Stop\<close>, it subscribes after \<open>Stop\<close> has unsubscribed.\<close>

theorem peering_stop_keeps_notifee:
  "\<exists>ps :: (nat, nat) peering. ps_reachable True ps \<and> ps_state ps = stateStopped \<and> notified ps \<and> pending ps = []"
proof -
  define s1 where "s1 = ps_StopNotify (NewPeeringService {} :: (nat, nat) peering)"
  have "ps_reachable True (fst (ps_Start s1))"
    unfolding s1_def by (intro ps_reachable.step [OF _ ps_step.start] ps_reachable.step [OF _ ps_step.stop_notify] ps_reachable.new)
  then have "ps_reachable True (ps_Stop (finish_go GoStop (fst (ps_Start s1))))"
    by (rule ps_reachable.step [OF _ ps_step.stop]) (simp add: s1_def ps_StopNotify_def ps_run)
  moreover have "ps_state (ps_Stop (finish_go GoStop (fst (ps_Start s1)))) = stateStopped"
      "notified (ps_Stop (finish_go GoStop (fst (ps_Start s1))))" "pending (ps_Stop (finish_go GoStop (fst (ps_Start s1)))) = []"
    by (simp_all add: s1_def ps_StopNotify_def ps_Stop_def ps_run)
  ultimately show ?thesis
    by blast
qed

end
