(* ===== verification/P2P.thy ===== *)
theory P2P
  imports Prelude
begin

text \<open>
  Forwarding of connections over libp2p (src/p2p): the registry of listeners (listener.go), the
  listeners for local connections (local.go) and for streams from peers (remote.go), and
  the registry of active streams (stream.go). Peers, addresses and protocols are types; what a
  call of the network or the operating system returns is an argument of the operation that
  makes the call. Connections and streams are numbered by the order in which the outside hands
  them out; those that are open are part of the state.
\<close>

section \<open>Data\<close>

record ('p, 'a) p2p_stream =
  st_id :: "64 word"
  st_Protocol :: string
  OriginAddr :: 'a
  TargetAddr :: 'a
  st_peer :: 'p
  st_Local :: nat
  st_Remote :: nat

record ('p, 'a) stream_registry =
  Streams :: "64 word \<rightharpoonup> ('p, 'a) p2p_stream"
  conns :: "'p \<rightharpoonup> int"
  nextID :: "64 word"
  tagged :: "'p set"
  open_local :: "nat set"
  open_remote :: "nat set"
  copying :: "64 word list"

datatype ('p, 'a) listener =
    LocalListener (ll_proto: string) (ll_laddr: 'a) (ll_peer: 'p) (ll_socket: nat)
  | RemoteListener (rl_proto: string) (rl_addr: 'a) (rl_reportRemote: bool)

type_synonym ('p, 'a) listeners = "(string \<times> ('p, 'a) listener) list"

record ('p, 'a) p2p =
  ListenersLocal :: "('p, 'a) listeners"
  ListenersP2P :: "('p, 'a) listeners"
  registry :: "('p, 'a) stream_registry"
  identity :: 'p
  sockets :: "nat set"

text \<open>Multiaddresses and peer ids: their texts, and the parser of multiaddresses.\<close>

record ('p, 'a) ma_env =
  ma_String :: "'a \<Rightarrow> string"
  NewMultiaddr :: "string \<Rightarrow> (string, 'a) result"
  Pretty :: "'p \<Rightarrow> string"
  maPrefix :: string

section \<open>Streams\<close>

text \<open>\<open>startStreaming\<close> starts two copying goroutines.\<close>

definition Register_stream ::
  "('p, 'a) p2p_stream \<Rightarrow> ('p, 'a) stream_registry \<Rightarrow> ('p, 'a) stream_registry" where
  "Register_stream s r =
     (let s1 = s\<lparr>st_id := nextID r\<rparr> in
      r\<lparr>tagged := insert (st_peer s) (tagged r),
        conns := (conns r)(st_peer s \<mapsto> (case conns r (st_peer s) of None \<Rightarrow> 0 | Some n \<Rightarrow> n) + 1),
        Streams := (Streams r)(nextID r \<mapsto> s1),
        nextID := nextID r + 1,
        copying := copying r @ [nextID r, nextID r]\<rparr>)"

definition Deregister :: "64 word \<Rightarrow> ('p, 'a) stream_registry \<Rightarrow> ('p, 'a) stream_registry" where
  "Deregister i r =
     (case Streams r i of
        None \<Rightarrow> r
      | Some s \<Rightarrow>
          (let p = st_peer s;
               n = (case conns r p of None \<Rightarrow> 0 | Some n \<Rightarrow> n) - 1;
               r1 = (if n < 1 then r\<lparr>conns := (conns r)(p := None), tagged := tagged r - {p}\<rparr>
                     else r\<lparr>conns := (conns r)(p \<mapsto> n)\<rparr>)
           in r1\<lparr>Streams := (Streams r1)(i := None)\<rparr>))"

definition Close_stream ::
  "('p, 'a) p2p_stream \<Rightarrow> ('p, 'a) stream_registry \<Rightarrow> ('p, 'a) stream_registry" where
  "Close_stream s r =
     Deregister (st_id s) (r\<lparr>open_local := open_local r - {st_Local s}, open_remote := open_remote r - {st_Remote s}\<rparr>)"

text \<open>\<open>Reset\<close> differs in how the remote stream is ended; it is not open afterwards either.\<close>

definition Reset_stream ::
  "('p, 'a) p2p_stream \<Rightarrow> ('p, 'a) stream_registry \<Rightarrow> ('p, 'a) stream_registry" where
  "Reset_stream s r =
     Deregister (st_id s) (r\<lparr>open_local := open_local r - {st_Local s}, open_remote := open_remote r - {st_Remote s}\<rparr>)"

text \<open>A copying goroutine ends, with or without an error.\<close>

definition copy_ends ::
  "('p, 'a) p2p_stream \<Rightarrow> bool \<Rightarrow> ('p, 'a) stream_registry \<Rightarrow> ('p, 'a) stream_registry" where
  "copy_ends s err r =
     (let r1 = r\<lparr>copying := remove1 (st_id s) (copying r)\<rparr> in
      if err then Reset_stream s r1 else Close_stream s r1)"

section \<open>Listeners\<close>

fun listener_key :: "('p, 'a) ma_env \<Rightarrow> ('p, 'a) listener \<Rightarrow> string" where
  "listener_key ma (LocalListener proto laddr peer sock) = ma_String ma laddr"
| "listener_key ma (RemoteListener proto addr report) = proto"

definition Register_listener ::
  "('p, 'a) ma_env \<Rightarrow> ('p, 'a) listener \<Rightarrow> ('p, 'a) listeners \<Rightarrow> ('p, 'a) listeners \<times> string option" where
  "Register_listener ma l ls =
     (if map_of ls (listener_key ma l) \<noteq> None then (ls, Some ''listener already registered'')
      else (ls @ [(listener_key ma l, l)], None))"

text \<open>The first loop of \<open>Close\<close>, over the entries present when it starts.\<close>

fun close_loop ::
  "('p, 'a) ma_env \<Rightarrow> (('p, 'a) listener \<Rightarrow> bool) \<Rightarrow> ('p, 'a) listeners \<Rightarrow> ('p, 'a) listeners
    \<Rightarrow> ('p, 'a) listeners \<times> ('p, 'a) listener list" where
  "close_loop ma f [] ls = (ls, [])"
| "close_loop ma f ((k, l) # todo) ls =
     (if \<not> f l then close_loop ma f todo ls
      else if map_of ls (listener_key ma l) \<noteq> None then
        (case close_loop ma f todo (filter (\<lambda>(k', _). k' \<noteq> listener_key ma l) ls) of
           (ls', closed) \<Rightarrow> (ls', l # closed))
      else close_loop ma f todo ls)"

text \<open>\<open>close\<close> of a listener: a local listener closes its socket.\<close>

fun listener_close :: "('p, 'a) listener \<Rightarrow> nat set \<Rightarrow> nat set" where
  "listener_close (LocalListener proto laddr peer sock) socks = socks - {sock}"
| "listener_close (RemoteListener proto addr report) socks = socks"

definition Close_listeners ::
  "('p, 'a) ma_env \<Rightarrow> (('p, 'a) listener \<Rightarrow> bool) \<Rightarrow> ('p, 'a) listeners \<Rightarrow> nat set
    \<Rightarrow> ('p, 'a) listeners \<times> nat set \<times> nat" where
  "Close_listeners ma f ls socks =
     (case close_loop ma f ls ls of
        (ls', todo) \<Rightarrow> (ls', fold listener_close todo socks, length todo))"

section \<open>Local listeners\<close>

definition ForwardLocal ::
  "('p, 'a) ma_env \<Rightarrow> 'p \<Rightarrow> string \<Rightarrow> (string, nat \<times> 'a) result \<Rightarrow> ('p, 'a) p2p
    \<Rightarrow> ('p, 'a) p2p \<times> (string, ('p, 'a) listener) result" where
  "ForwardLocal ma peer proto listen n =
     (case listen of
        Inl e \<Rightarrow> (n, Inl e)
      | Inr (sock, laddr) \<Rightarrow>
          (let l = LocalListener proto laddr peer sock;
               n1 = n\<lparr>sockets := insert sock (sockets n)\<rparr>
           in case Register_listener ma l (ListenersLocal n1) of
                (ls, Some e) \<Rightarrow> (n1, Inl e)
              | (ls, None) \<Rightarrow> (n1\<lparr>ListenersLocal := ls\<rparr>, Inr l)))"

text \<open>\<open>TargetAddress\<close>; \<open>None\<close> is the panic.\<close>

definition local_TargetAddress :: "('p, 'a) ma_env \<Rightarrow> 'p \<Rightarrow> 'a option" where
  "local_TargetAddress ma peer =
     (case NewMultiaddr ma (maPrefix ma @ Pretty ma peer) of Inl _ \<Rightarrow> None | Inr a \<Rightarrow> Some a)"

text \<open>\<open>setupStream\<close> of an accepted connection \<open>local\<close>; \<open>dial\<close> is what \<open>NewStream\<close> returned.\<close>

definition setupStream ::
  "('p, 'a) ma_env \<Rightarrow> string \<Rightarrow> 'p \<Rightarrow> nat \<Rightarrow> 'a \<Rightarrow> (string, nat) result \<Rightarrow> ('p, 'a) stream_registry
    \<Rightarrow> ('p, 'a) stream_registry option" where
  "setupStream ma proto peer local origin dial r =
     (let r0 = r\<lparr>open_local := insert local (open_local r)\<rparr> in
      case dial of
        Inl e \<Rightarrow> Some (r0\<lparr>open_local := open_local r0 - {local}\<rparr>)
      | Inr remote \<Rightarrow>
          (case local_TargetAddress ma peer of
             None \<Rightarrow> None
           | Some target \<Rightarrow>
               Some (Register_stream
                 \<lparr>st_id = 0, st_Protocol = proto, OriginAddr = origin, TargetAddr = target, st_peer = peer,
                  st_Local = local, st_Remote = remote\<rparr>
                 (r0\<lparr>open_remote := insert remote (open_remote r0)\<rparr>))))"

datatype accept_result = Accepted nat | TemporaryError | PermanentError

text \<open>\<open>acceptConns\<close>: the connections it hands to \<open>setupStream\<close>.\<close>

fun acceptConns :: "accept_result list \<Rightarrow> nat list" where
  "acceptConns [] = []"
| "acceptConns (Accepted c # rs) = c # acceptConns rs"
| "acceptConns (TemporaryError # rs) = acceptConns rs"
| "acceptConns (PermanentError # rs) = []"

section \<open>Remote listeners\<close>

definition ForwardRemote ::
  "('p, 'a) ma_env \<Rightarrow> string \<Rightarrow> 'a \<Rightarrow> bool \<Rightarrow> ('p, 'a) p2p \<Rightarrow> ('p, 'a) p2p \<times> (string, ('p, 'a) listener) result" where
  "ForwardRemote ma proto addr reportRemote n =
     (let l = RemoteListener proto addr reportRemote in
      case Register_listener ma l (ListenersP2P n) of
        (ls, Some e) \<Rightarrow> (n, Inl e)
      | (ls, None) \<Rightarrow> (n\<lparr>ListenersP2P := ls\<rparr>, Inr l))"

text \<open>\<open>handleStream\<close>: \<open>dial\<close> is the result of \<open>manet.Dial\<close>, \<open>write\<close> that of \<open>Fprintf\<close>.\<close>

definition handleStream ::
  "('p, 'a) ma_env \<Rightarrow> string \<Rightarrow> 'a \<Rightarrow> bool \<Rightarrow> nat \<Rightarrow> 'p \<Rightarrow> (string, nat) result \<Rightarrow> string option
    \<Rightarrow> ('p, 'a) stream_registry \<Rightarrow> ('p, 'a) stream_registry" where
  "handleStream ma proto addr reportRemote remote peer dial write r =
     (let r0 = r\<lparr>open_remote := insert remote (open_remote r)\<rparr>;
          reset = (\<lambda>r. r\<lparr>open_remote := open_remote r - {remote}\<rparr>) in
      case dial of
        Inl e \<Rightarrow> reset r0
      | Inr local \<Rightarrow>
          (let r1 = r0\<lparr>open_local := insert local (open_local r0)\<rparr> in
           if reportRemote \<and> write \<noteq> None then reset r1
           else (case NewMultiaddr ma (maPrefix ma @ Pretty ma peer) of
               Inl e \<Rightarrow> reset r1
             | Inr peerMa \<Rightarrow>
                 Register_stream
                   \<lparr>st_id = 0, st_Protocol = proto, OriginAddr = peerMa, TargetAddr = addr, st_peer = peer,
                    st_Local = local, st_Remote = remote\<rparr> r1)))"

text \<open>The two functions that \<open>newListenersP2P\<close> gives to the host.\<close>

definition match_protocol :: "('p, 'a) listeners \<Rightarrow> string \<Rightarrow> bool" where
  "match_protocol ls p = (map_of ls p \<noteq> None)"

definition dispatch_stream ::
  "('p, 'a) ma_env \<Rightarrow> ('p, 'a) listeners \<Rightarrow> string \<Rightarrow> nat \<Rightarrow> 'p \<Rightarrow> (string, nat) result \<Rightarrow> string option
    \<Rightarrow> ('p, 'a) stream_registry \<Rightarrow> ('p, 'a) stream_registry" where
  "dispatch_stream ma ls p remote peer dial write r =
     (case map_of ls p of
        Some (RemoteListener proto addr report) \<Rightarrow> handleStream ma proto addr report remote peer dial write r
      | _ \<Rightarrow> r)"

definition p2p_New :: "'p \<Rightarrow> ('p, 'a) p2p" where
  "p2p_New i = \<lparr>ListenersLocal = [], ListenersP2P = [],
     registry = \<lparr>Streams = Map.empty, conns = Map.empty, nextID = 0, tagged = {}, open_local = {}, open_remote = {},
       copying = []\<rparr>,
     identity = i, sockets = {}\<rparr>"

fun CheckProtoExists :: "string list \<Rightarrow> string \<Rightarrow> bool" where
  "CheckProtoExists [] proto = False"
| "CheckProtoExists (p # ps) proto = (if p \<noteq> proto then CheckProtoExists ps proto else True)"

section \<open>The stream registry counts its streams\<close>

text \<open>A history of the registry: the streams registered so far, in order, with the registry. A
  stream is ended by its two copying goroutines and by explicit calls, in any order and
  any number of times.\<close>

inductive reg_run :: "('p, 'a) p2p_stream list \<Rightarrow> ('p, 'a) stream_registry \<Rightarrow> bool" where
  new: "reg_run [] (registry (p2p_New i))"
| register: "reg_run H r \<Longrightarrow> reg_run (H @ [s\<lparr>st_id := nextID r\<rparr>]) (Register_stream s r)"
| copied: "reg_run H r \<Longrightarrow> s \<in> set H \<Longrightarrow> st_id s \<in> set (copying r) \<Longrightarrow> reg_run H (copy_ends s err r)"
| close: "reg_run H r \<Longrightarrow> s \<in> set H \<Longrightarrow> reg_run H (Close_stream s r)"
| reset: "reg_run H r \<Longrightarrow> s \<in> set H \<Longrightarrow> reg_run H (Reset_stream s r)"
| opened: "reg_run H r \<Longrightarrow> reg_run H (r\<lparr>open_local := L, open_remote := R\<rparr>)"

definition streams_of :: "'p \<Rightarrow> ('p, 'a) stream_registry \<Rightarrow> 64 word set" where
  "streams_of p r = {w. \<exists>s. Streams r w = Some s \<and> st_peer s = p}"

definition counts_ok :: "('p, 'a) stream_registry \<Rightarrow> bool" where
  "counts_ok r \<longleftrightarrow> tagged r = dom (conns r)
     \<and> (\<forall>p. conns r p = (if streams_of p r = {} then None else Some (int (card (streams_of p r)))))"

definition ids_ok :: "('p, 'a) p2p_stream list \<Rightarrow> ('p, 'a) stream_registry \<Rightarrow> bool" where
  "ids_ok H r \<longleftrightarrow> nextID r = of_nat (length H) \<and> (\<forall>i < length H. st_id (H ! i) = of_nat i)
     \<and> (\<forall>w s. Streams r w = Some s \<longrightarrow> (\<exists>i < length H. w = of_nat i \<and> s = H ! i))"

lemma finite_streams_of [simp]: "finite (streams_of p r)"
  by (rule finite_subset [of _ UNIV]) simp_all

lemma Register_stream_sel [simp]:
  "Streams (Register_stream s r) = (Streams r)(nextID r \<mapsto> s\<lparr>st_id := nextID r\<rparr>)"
  "tagged (Register_stream s r) = insert (st_peer s) (tagged r)"
  "nextID (Register_stream s r) = nextID r + 1"
  "conns (Register_stream s r) =
     (conns r)(st_peer s \<mapsto> (case conns r (st_peer s) of None \<Rightarrow> 0 | Some n \<Rightarrow> n) + 1)"
  by (simp_all add: Register_stream_def Let_def)

lemma Deregister_sel [simp]:
  "Streams (Deregister i r) = (Streams r)(i := None)"
  "nextID (Deregister i r) = nextID r"
  "open_local (Deregister i r) = open_local r" "open_remote (Deregister i r) = open_remote r"
  by (auto simp: Deregister_def Let_def fun_upd_idem split: option.split)

lemma counts_register:
  assumes "counts_ok r" and new: "Streams r (nextID r) = None"
  shows "counts_ok (Register_stream s r)"
proof -
  have so: "streams_of p (Register_stream s r) =
      (if p = st_peer s then insert (nextID r) (streams_of p r) else streams_of p r)" for p
    using new by (auto simp: streams_of_def)
  have "nextID r \<notin> streams_of p r" for p
    using new by (auto simp: streams_of_def)
  then have card: "card (insert (nextID r) (streams_of p r)) = Suc (card (streams_of p r))" for p
    by simp
  have "conns (Register_stream s r) p = (if streams_of p (Register_stream s r) = {} then None
      else Some (int (card (streams_of p (Register_stream s r)))))" for p
    using assms(1) by (cases "p = st_peer s") (simp_all add: counts_ok_def so card)
  moreover have "tagged (Register_stream s r) = dom (conns (Register_stream s r))"
    using assms(1) by (simp add: counts_ok_def)
  ultimately show ?thesis
    by (simp add: counts_ok_def)
qed

lemma counts_deregister:
  assumes "counts_ok r"
  shows "counts_ok (Deregister i r)"
proof (cases "Streams r i")
  case (Some s)
  let ?p = "st_peer s" and ?r = "Deregister i r"
  define n where "n = card (streams_of ?p ?r)"
  have so: "streams_of p ?r = streams_of p r - {i}" for p
    by (auto simp: streams_of_def)
  have i: "i \<in> streams_of ?p r"
    using Some by (simp add: streams_of_def)
  have other: "streams_of p ?r = streams_of p r" if "p \<noteq> ?p" for p
  proof -
    have "i \<notin> streams_of p r"
      using Some that by (simp add: streams_of_def)
    then show ?thesis by (simp add: so)
  qed
  have "card (streams_of ?p r) = Suc n"
    using card_Suc_Diff1 [OF finite_streams_of i] by (simp add: so n_def)
  then have c: "conns r ?p = Some (1 + int n)"
    using assms i by (auto simp: counts_ok_def)
  have d: "conns ?r = (if n = 0 then (conns r)(?p := None) else (conns r)(?p \<mapsto> int n))"
    "tagged ?r = (if n = 0 then tagged r - {?p} else tagged r)"
    by (auto simp: Some c Deregister_def Let_def)
  have e: "streams_of ?p ?r = {} \<longleftrightarrow> n = 0"
    unfolding n_def by (metis card_0_eq finite_streams_of)
  have "conns ?r p = (if streams_of p ?r = {} then None else Some (int (card (streams_of p ?r))))" for p
  proof (cases "p = ?p")
    case True
    then show ?thesis
      by (simp add: d e n_def [symmetric])
  next
    case False
    then show ?thesis
      using assms by (simp add: d other counts_ok_def)
  qed
  moreover have "tagged ?r = dom (conns ?r)"
    using assms c unfolding d by (auto simp: counts_ok_def)
  ultimately show ?thesis
    by (simp add: counts_ok_def)
qed (use assms in \<open>simp add: Deregister_def\<close>)

lemma counts_frame:
  "counts_ok (r\<lparr>open_local := L, open_remote := R\<rparr>) = counts_ok r"
  "counts_ok (r\<lparr>open_local := L\<rparr>) = counts_ok r" "counts_ok (r\<lparr>open_remote := R\<rparr>) = counts_ok r"
  "counts_ok (r\<lparr>copying := C\<rparr>) = counts_ok r"
  by (simp_all add: counts_ok_def streams_of_def)

lemma counts_end:
  assumes "counts_ok r"
  shows "counts_ok (Close_stream s r)" "counts_ok (Reset_stream s r)" "counts_ok (copy_ends s e r)"
  using assms
  by (simp_all add: Close_stream_def Reset_stream_def copy_ends_def Let_def counts_deregister counts_frame)

lemma Streams_end:
  "Streams (Close_stream s r) = (Streams r)(st_id s := None)" "nextID (Close_stream s r) = nextID r"
  "Streams (Reset_stream s r) = (Streams r)(st_id s := None)" "nextID (Reset_stream s r) = nextID r"
  "Streams (copy_ends s e r) = (Streams r)(st_id s := None)" "nextID (copy_ends s e r) = nextID r"
  by (simp_all add: Close_stream_def Reset_stream_def copy_ends_def Let_def)

lemma word64_of_nat_eq: "i < 2 ^ 64 \<Longrightarrow> j < 2 ^ 64 \<Longrightarrow> (of_nat i :: 64 word) = of_nat j \<Longrightarrow> i = j"
  by (drule arg_cong [of _ _ unat]) (simp add: unat_of_nat)

lemma ids_end: "ids_ok H r \<Longrightarrow> Streams r' = (Streams r)(w := None) \<Longrightarrow> nextID r' = nextID r \<Longrightarrow> ids_ok H r'"
  by (auto simp: ids_ok_def)

lemma reg_run_ids: "reg_run H r \<Longrightarrow> ids_ok H r"
proof (induction rule: reg_run.induct)
  case (register H r s)
  have "\<exists>i < Suc (length H). w = of_nat i \<and> s' = (H @ [s\<lparr>st_id := nextID r\<rparr>]) ! i"
    if a: "Streams (Register_stream s r) w = Some s'" for w s'
  proof (cases "w = nextID r")
    case True
    then show ?thesis
      using a register(2) by (intro exI [of _ "length H"]) (simp add: ids_ok_def nth_append)
  next
    case False
    then have "Streams r w = Some s'"
      using a by simp
    then obtain i where "i < length H" "w = of_nat i" "s' = H ! i"
      using register(2) unfolding ids_ok_def by blast
    then show ?thesis
      by (intro exI [of _ i]) (simp add: nth_append)
  qed
  moreover have "nextID (Register_stream s r) = of_nat (Suc (length H))"
    using register(2) by (simp add: ids_ok_def)
  moreover have "st_id ((H @ [s\<lparr>st_id := nextID r\<rparr>]) ! i) = of_nat i" if "i < Suc (length H)" for i
    using that register(2) by (auto simp: ids_ok_def nth_append less_Suc_eq)
  ultimately show ?case
    unfolding ids_ok_def by simp
next
  case (opened H r L R)
  then show ?case
    by (simp add: ids_ok_def)
next
  case (new i)
  then show ?case
    by (simp add: ids_ok_def p2p_New_def)
qed (rule ids_end, assumption, rule Streams_end, rule Streams_end)+

lemma reg_run_counts: "reg_run H r \<Longrightarrow> length H \<le> 2 ^ 64 \<Longrightarrow> counts_ok r"
proof (induction rule: reg_run.induct)
  case (register H r s)
  have ids: "ids_ok H r"
    by (rule reg_run_ids [OF register(1)])
  have "Streams r (nextID r) = None"
  proof (rule ccontr)
    assume "Streams r (nextID r) \<noteq> None"
    then obtain s' where "Streams r (nextID r) = Some s'"
      by blast
    then obtain i where "i < length H" "(of_nat (length H) :: 64 word) = of_nat i"
      using ids unfolding ids_ok_def by metis
    then show False
      using word64_of_nat_eq [of "length H" i] register(3) by simp
  qed
  then show ?case
    using register by (simp add: counts_register)
next
  case (new i)
  then show ?case
    by (simp add: counts_ok_def streams_of_def p2p_New_def)
qed (simp_all add: counts_frame counts_end)

text \<open>C27: the stream registry. Whatever streams are registered and however they end (by either
  copying goroutine, by both, by explicit calls, repeatedly), as long as fewer than
  \<open>2 ^ 64\<close> were registered: the counter of a peer is the number of its registered
  streams, peers without streams have none, and exactly the peers with a stream are tagged
  in the connection manager.\<close>

theorem stream_registry_counts:
  assumes "reg_run H r" and "length H \<le> 2 ^ 64"
  shows "conns r p = (if streams_of p r = {} then None else Some (int (card (streams_of p r))))
    \<and> (p \<in> tagged r \<longleftrightarrow> (\<exists>w s. Streams r w = Some s \<and> st_peer s = p))"
proof -
  have c: "conns r p = (if streams_of p r = {} then None else Some (int (card (streams_of p r))))"
    and t: "tagged r = dom (conns r)"
    using reg_run_counts [OF assms] by (simp_all add: counts_ok_def)
  have "p \<in> tagged r \<longleftrightarrow> streams_of p r \<noteq> {}"
    unfolding t using c by (simp add: domIff)
  also have "\<dots> \<longleftrightarrow> (\<exists>w s. Streams r w = Some s \<and> st_peer s = p)"
    by (auto simp: streams_of_def)
  finally show ?thesis
    using c by blast
qed

text \<open>An ended stream is gone. When a copying goroutine of a registered stream ends, with or
  without an error, the stream is not in the registry any more and both its connections are
  closed; the end of the other goroutine changes nothing in the registry.\<close>

theorem stream_end_once:
  "Streams (copy_ends s err r) (st_id s) = None
   \<and> st_Local s \<notin> open_local (copy_ends s err r) \<and> st_Remote s \<notin> open_remote (copy_ends s err r)
   \<and> conns (copy_ends s err2 (copy_ends s err r)) = conns (copy_ends s err r)
   \<and> Streams (copy_ends s err2 (copy_ends s err r)) = Streams (copy_ends s err r)
   \<and> tagged (copy_ends s err2 (copy_ends s err r)) = tagged (copy_ends s err r)"
proof -
  have again: "Streams r' (st_id s) = None \<Longrightarrow> conns (copy_ends s e r') = conns r'
      \<and> Streams (copy_ends s e r') = Streams r' \<and> tagged (copy_ends s e r') = tagged r'" for e r'
    by (simp add: copy_ends_def Close_stream_def Reset_stream_def Deregister_def Let_def)
  have "Streams (copy_ends s err r) (st_id s) = None"
    by (simp add: Streams_end)
  then show ?thesis
    using again [of "copy_ends s err r" err2]
    by (simp add: copy_ends_def Close_stream_def Reset_stream_def Let_def)
qed

definition ex_stream :: "(nat, nat) p2p_stream" where
  "ex_stream = \<lparr>st_id = 0, st_Protocol = ''/x/ssh'', OriginAddr = 1, TargetAddr = 2, st_peer = 7, st_Local = 3, st_Remote = 4\<rparr>"

definition ex_reg :: "(nat, nat) stream_registry" where
  "ex_reg = registry (p2p_New 0)"

theorem stream_registry_counts_witness:
  "conns (Register_stream ex_stream ex_reg) 7 = Some 1 \<and> 7 \<in> tagged (Register_stream ex_stream ex_reg)
   \<and> (\<exists>w s. Streams (Register_stream ex_stream ex_reg) w = Some s \<and> st_peer s = 7)"
proof -
  have "reg_run [] ex_reg"
    unfolding ex_reg_def by (rule reg_run.new)
  then have "reg_run ([] @ [ex_stream\<lparr>st_id := nextID ex_reg\<rparr>]) (Register_stream ex_stream ex_reg)"
    by (rule reg_run.register)
  from stream_registry_counts [OF this, of 7] show ?thesis
    by (simp add: p2p_New_def ex_stream_def ex_reg_def)
qed

section \<open>The listener registry\<close>

definition listeners_ok :: "('p, 'a) ma_env \<Rightarrow> ('p, 'a) listeners \<Rightarrow> bool" where
  "listeners_ok ma ls \<longleftrightarrow> distinct (map fst ls) \<and> (\<forall>(k, l) \<in> set ls. k = listener_key ma l)"

lemma Register_listener_ok: "listeners_ok ma ls \<Longrightarrow> listeners_ok ma (fst (Register_listener ma l ls))"
  by (auto simp: listeners_ok_def Register_listener_def map_of_eq_None_iff)

lemma close_loop_spec:
  assumes "distinct (map fst todo)" and "\<And>k l. (k, l) \<in> set todo \<Longrightarrow> k = listener_key ma l"
    and "set todo \<subseteq> set ls" and "distinct (map fst ls)"
  shows "close_loop ma f todo ls = ([x\<leftarrow>ls. \<not> (x \<in> set todo \<and> f (snd x))], filter f (map snd todo))"
  using assms
proof (induction ma f todo ls rule: close_loop.induct)
  case (2 ma f k l todo ls)
  have k: "k = listener_key ma l"
    using 2(5) by simp
  show ?case
  proof (cases "f l")
    case True
    have "map_of ls k \<noteq> None"
      using 2(6) by (simp add: map_of_eq_None_iff) (metis fst_conv imageI)
    let ?ls = "filter (\<lambda>(k', _). k' \<noteq> k) ls"
    have only: "x \<in> set ls \<Longrightarrow> fst x = k \<longleftrightarrow> x = (k, l)" for x
      using 2(6,7) by (metis eq_key_imp_eq_value fst_conv list.set_intros(1) prod.collapse subsetD)
    have "k \<notin> fst ` set todo"
      using 2(4) by simp
    then have "fst x \<noteq> k" if "x \<in> set todo" for x
      using that by blast
    then have sub: "x \<in> set ?ls" if "x \<in> set todo" for x
      using that subsetD [OF 2(6), of x] by (simp add: split_beta)
    have "close_loop ma f todo ?ls =
        ([x\<leftarrow>?ls. \<not> (x \<in> set todo \<and> f (snd x))], filter f (map snd todo))"
    proof (rule 2(2) [folded k])
      show "\<not> \<not> f l" "map_of ls k \<noteq> None"
        using True \<open>map_of ls k \<noteq> None\<close> by simp_all
      show "distinct (map fst todo)" "distinct (map fst ?ls)"
        using 2(4,7) by (simp_all add: distinct_map_filter)
      show "set todo \<subseteq> set ?ls"
        using sub by blast
      show "k' = listener_key ma l'" if "(k', l') \<in> set todo" for k' l'
        using that by (intro 2(5)) simp
    qed
    moreover have "[x\<leftarrow>?ls. \<not> (x \<in> set todo \<and> f (snd x))] = [x\<leftarrow>ls. \<not> (x \<in> set ((k, l) # todo) \<and> f (snd x))]"
      unfolding filter_filter using only True by (intro filter_cong refl) (auto simp: split_beta)
    ultimately show ?thesis
      using True \<open>map_of ls k \<noteq> None\<close> by (simp add: k [symmetric])
  next
    case False
    have "[x\<leftarrow>ls. \<not> (x \<in> set todo \<and> f (snd x))] = [x\<leftarrow>ls. \<not> (x \<in> set ((k, l) # todo) \<and> f (snd x))]"
      using False by (intro filter_cong) auto
    moreover have "close_loop ma f todo ls = ([x\<leftarrow>ls. \<not> (x \<in> set todo \<and> f (snd x))], filter f (map snd todo))"
      by (rule 2(1) [OF False]) (use 2(4,6,7) in \<open>simp_all add: 2(5)\<close>)
    ultimately show ?thesis
      using False by simp
  qed
qed simp

text \<open>The registry of listeners. Registering a listener whose key is taken is refused and
  changes nothing, otherwise it is added under its key; \<open>Close\<close> removes exactly the listeners
  that match, returns how many there were, and closes the socket of each removed local listener;
  both keep the registry well formed.\<close>

theorem listeners_register_close:
  assumes "listeners_ok ma ls"
  shows "(Register_listener ma l ls =
      (if listener_key ma l \<in> fst ` set ls then (ls, Some ''listener already registered'')
       else (ls @ [(listener_key ma l, l)], None)))
    \<and> listeners_ok ma (fst (Register_listener ma l ls))
    \<and> Close_listeners ma f ls socks = ([x\<leftarrow>ls. \<not> f (snd x)], fold listener_close (filter f (map snd ls)) socks,
        length (filter f (map snd ls)))
    \<and> listeners_ok ma (fst (Close_listeners ma f ls socks))"
proof -
  have "close_loop ma f ls ls = ([x\<leftarrow>ls. \<not> (x \<in> set ls \<and> f (snd x))], filter f (map snd ls))"
    using assms by (intro close_loop_spec) (auto simp: listeners_ok_def)
  moreover have "[x\<leftarrow>ls. \<not> (x \<in> set ls \<and> f (snd x))] = [x\<leftarrow>ls. \<not> f (snd x)]"
    by (intro filter_cong) auto
  ultimately have c: "Close_listeners ma f ls socks = ([x\<leftarrow>ls. \<not> f (snd x)],
      fold listener_close (filter f (map snd ls)) socks, length (filter f (map snd ls)))"
    by (simp add: Close_listeners_def)
  moreover have "listeners_ok ma [x\<leftarrow>ls. \<not> f (snd x)]"
    using assms by (auto simp: listeners_ok_def distinct_map_filter)
  ultimately show ?thesis
    using Register_listener_ok [OF assms, of l] by (auto simp: Register_listener_def map_of_eq_None_iff)
qed

definition ex_ma :: "(nat, nat) ma_env" where
  "ex_ma = \<lparr>ma_String = (\<lambda>a. if a = 1 then ''/ip4/1'' else ''/ip4/0''), NewMultiaddr = (\<lambda>s. Inr 9), Pretty = (\<lambda>_. ''Qm''),
     maPrefix = ''/p2p/''\<rparr>"

theorem listeners_register_close_witness:
  "Close_listeners ex_ma (\<lambda>l. listener_key ex_ma l = ''/x/a'') [(''/x/a'', RemoteListener ''/x/a'' 1 True), (''/ip4/1'', LocalListener ''/x/b'' 1 7 5)] {5}
     = ([(''/ip4/1'', LocalListener ''/x/b'' 1 7 5)], {5}, 1)"
proof -
  have "listeners_ok ex_ma [(''/x/a'', RemoteListener ''/x/a'' 1 True), (''/ip4/1'', LocalListener ''/x/b'' 1 7 5)]"
    by (simp add: listeners_ok_def ex_ma_def)
  from listeners_register_close [OF this, of "RemoteListener ''/x/a'' 1 True" "\<lambda>l. listener_key ex_ma l = ''/x/a''" "{5}"]
  show ?thesis
    by (simp add: ex_ma_def)
qed

text \<open>Connections of failed forwards. When an outgoing forward cannot reach the peer, the local
  connection is closed again. When an incoming stream cannot be announced to, or attributed on, the
  local side, the stream is reset and nothing is registered, but the local connection
  that was dialled for it stays open and nothing refers to it.\<close>

theorem failed_forward_connections:
  assumes "local \<notin> open_local r" and "remote \<notin> open_remote r"
  shows "setupStream ma proto peer local origin (Inl e) r = Some r
    \<and> handleStream ma proto addr report remote peer (Inl e) w r = r
    \<and> handleStream ma proto addr True remote peer (Inr local) (Some e) r
        = r\<lparr>open_local := insert local (open_local r)\<rparr>"
  using assms by (simp add: setupStream_def handleStream_def Let_def)

theorem failed_forward_connections_witness:
  "open_local (handleStream ex_ma ''/x/a'' 1 True 4 7 (Inr 3) (Some ''broken pipe'') ex_reg) = {3}"
  using failed_forward_connections [of 3 ex_reg 4 ex_ma "''/x/a''" 7 0 "''broken pipe''" 1 True None]
  by (simp add: ex_reg_def p2p_New_def)

end
