(* ===== verification/LinkCache.thy ===== *)
theory LinkCache
  imports Prelude "HOL-Library.AList"
begin

text \<open>
  The caches of the linker: the shared local data (src/linker/data.go), the cache on disk
  (src/linker/cache.go), and the caches of hashes and of peer addresses
  (src/linker/hash_cache.go, src/linker/peer_cache.go).

  The database under the cache is a record of operations on a state \<open>'s\<close>, with \<open>db_laws\<close> what
  is relied on. A transaction works on a state and is committed or discarded. Encoders and
  decoders are arguments. Go maps that are iterated over are association lists; no statement
  depends on their order.
\<close>

section \<open>Local data\<close>

text \<open>The maps of \<open>Info\<close> are references: a copy of the struct shares them.\<close>

record ('n) link_info =
  Initialized :: bool
  Node :: 'n
  Nodes :: nat
  LDs :: nat
  Addrs :: "string list"
  LastUpdate :: int

record 'n info_heap =
  nodes_at :: "nat \<Rightarrow> (string \<rightharpoonup> 'n)"
  lds_at :: "nat \<Rightarrow> (string \<rightharpoonup> 8 word)"
  info_fresh :: nat

definition DefaultLocalData :: "'n \<Rightarrow> int \<Rightarrow> 'n info_heap \<Rightarrow> 'n info_heap \<times> 'n link_info" where
  "DefaultLocalData zero now h =
     (let a = info_fresh h in
      (h\<lparr>nodes_at := (nodes_at h)(a := Map.empty), lds_at := (lds_at h)(a := Map.empty), info_fresh := Suc a\<rparr>,
       \<lparr>Initialized = False, Node = zero, Nodes = a, LDs = a, Addrs = [], LastUpdate = now\<rparr>))"

definition data_Marshal ::
  "('n info_heap \<Rightarrow> 'n link_info \<Rightarrow> (string, string) result) \<Rightarrow> 'n info_heap \<Rightarrow> 'n link_info \<Rightarrow> (string, string) result" where
  "data_Marshal enc h d = enc h d"

definition data_JSON ::
  "('n info_heap \<Rightarrow> 'n link_info \<Rightarrow> (string, string) result) \<Rightarrow> 'n info_heap \<Rightarrow> 'n link_info \<Rightarrow> string" where
  "data_JSON enc h d = (case data_Marshal enc h d of Inl _ \<Rightarrow> [] | Inr s \<Rightarrow> s)"

text \<open>\<open>json.Unmarshal\<close> into the data may have changed a part of it when it fails.\<close>

definition data_Unmarshal ::
  "(string \<Rightarrow> 'n info_heap \<times> 'n link_info \<Rightarrow> ('n info_heap \<times> 'n link_info) \<times> string option) \<Rightarrow> string
    \<Rightarrow> 'n info_heap \<times> 'n link_info \<Rightarrow> ('n info_heap \<times> 'n link_info) \<times> string option" where
  "data_Unmarshal dec bytes l = dec bytes l"

text \<open>\<open>Update\<close> applies the function under the lock; \<open>Data\<close> copies the struct.\<close>

definition data_Update ::
  "('n info_heap \<times> 'n link_info \<Rightarrow> 'n info_heap \<times> 'n link_info) \<Rightarrow> 'n info_heap \<times> 'n link_info
    \<Rightarrow> 'n info_heap \<times> 'n link_info" where
  "data_Update f l = f l"

definition data_Data :: "'n info_heap \<times> 'n link_info \<Rightarrow> 'n link_info" where
  "data_Data l = snd l"

section \<open>The cache on disk\<close>

text \<open>\<open>txn_Get\<close> is \<open>txn.Get\<close> with \<open>item.Value\<close>; \<open>commit s s'\<close> ends a transaction that
  started in \<open>s\<close> and wrote \<open>s'\<close>; \<open>items\<close> lists keys and values in the order of the iterator.\<close>

record 's db_ops =
  txn_Get :: "string \<Rightarrow> 's \<Rightarrow> (string, string) result"
  txn_Set :: "string \<Rightarrow> string \<Rightarrow> 's \<Rightarrow> (string, 's) result"
  commit :: "'s \<Rightarrow> 's \<Rightarrow> (string, 's) result"
  items :: "'s \<Rightarrow> (string \<times> (string, string) result) list"
  db_close :: "'s \<Rightarrow> string option"

text \<open>\<open>db.Update\<close>: the transaction is discarded on an error.\<close>

definition db_update :: "'s db_ops \<Rightarrow> ('s \<Rightarrow> (string, 's) result) \<Rightarrow> 's \<Rightarrow> 's \<times> string option" where
  "db_update db f s =
     (case f s of
        Inl e \<Rightarrow> (s, Some e)
      | Inr s1 \<Rightarrow> (case commit db s s1 of Inl e \<Rightarrow> (s, Some e) | Inr s2 \<Rightarrow> (s2, None)))"

definition UpdateBytes :: "'s db_ops \<Rightarrow> string \<Rightarrow> string \<Rightarrow> 's \<Rightarrow> 's \<times> string option" where
  "UpdateBytes db hash b s =
     db_update db (\<lambda>s. case txn_Get db hash s of Inl e \<Rightarrow> Inl e | Inr _ \<Rightarrow> txn_Set db hash b s) s"

text \<open>A \<open>CacheUpdater\<close>: how it decodes, what \<open>Do\<close> makes of it, and how it encodes.\<close>

record 'u cache_updater =
  up_unmarshal :: "string \<Rightarrow> (string, 'u) result"
  up_Do :: "'u \<Rightarrow> 'u"
  up_marshal :: "'u \<Rightarrow> (string, string) result"

definition cache_Update :: "'s db_ops \<Rightarrow> string \<Rightarrow> 'u cache_updater option \<Rightarrow> 's \<Rightarrow> 's \<times> string option" where
  "cache_Update db hash up s =
     db_update db
       (\<lambda>s. case txn_Get db hash s of
          Inl e \<Rightarrow> Inl e
        | Inr val \<Rightarrow>
            (case up of
               None \<Rightarrow> Inr s
             | Some u \<Rightarrow>
                 (case up_unmarshal u val of
                    Inl e \<Rightarrow> Inl e
                  | Inr x \<Rightarrow>
                      (case up_marshal u (up_Do u x) of
                         Inl e \<Rightarrow> Inl e
                       | Inr enc \<Rightarrow> txn_Set db hash enc s)))) s"

definition cache_Store :: "'s db_ops \<Rightarrow> ('d \<Rightarrow> (string, string) result) \<Rightarrow> string \<Rightarrow> 'd \<Rightarrow> 's \<Rightarrow> 's \<times> string option" where
  "cache_Store db marshal hash d s =
     db_update db (\<lambda>s. case marshal d of Inl e \<Rightarrow> Inl e | Inr enc \<Rightarrow> txn_Set db hash enc s) s"

definition cache_Load :: "'s db_ops \<Rightarrow> (string \<Rightarrow> (string, 'd) result) \<Rightarrow> string \<Rightarrow> 's \<Rightarrow> (string, 'd) result" where
  "cache_Load db unmarshal hash s =
     (case txn_Get db hash s of Inl e \<Rightarrow> Inl e | Inr val \<Rightarrow> unmarshal val)"

text \<open>The loop of \<open>Range\<close>. The callback works on a state of the caller and says whether to go
  on; the flag is tested at the start of the next iteration.\<close>

fun range_loop ::
  "(string \<Rightarrow> string \<Rightarrow> 'x \<Rightarrow> 'x \<times> bool) \<Rightarrow> (string \<times> (string, string) result) list \<Rightarrow> bool \<Rightarrow> 'x \<Rightarrow> 'x \<times> string option" where
  "range_loop f [] continueFlag x = (x, None)"
| "range_loop f ((key, v) # its) continueFlag x =
     (if \<not> continueFlag then (x, None)
      else (case v of
          Inl e \<Rightarrow> (x, Some e)
        | Inr val \<Rightarrow> (case f key val x of (x1, c) \<Rightarrow> range_loop f its c x1)))"

text \<open>The error of \<open>Range\<close> is logged.\<close>

definition cache_Range :: "'s db_ops \<Rightarrow> (string \<Rightarrow> string \<Rightarrow> 'x \<Rightarrow> 'x \<times> bool) \<Rightarrow> 's \<Rightarrow> 'x \<Rightarrow> 'x" where
  "cache_Range db f s x = fst (range_loop f (items db s) True x)"

text \<open>\<open>Close\<close> on a cache whose handle is \<open>None\<close> once closed.\<close>

definition cache_Close :: "'s db_ops \<Rightarrow> 's option \<Rightarrow> 's option \<times> string option" where
  "cache_Close db h = (case h of None \<Rightarrow> (None, None) | Some s \<Rightarrow> (None, db_close db s))"

section \<open>Hashes\<close>

type_synonym 'p hash_cache = "string \<rightharpoonup> 'p list"

definition hash_Get :: "'p hash_cache \<Rightarrow> string \<Rightarrow> 'p list" where
  "hash_Get c hash = (case c hash of None \<Rightarrow> [] | Some ids \<Rightarrow> ids)"

definition CheckHash :: "'p hash_cache \<Rightarrow> string \<Rightarrow> bool" where
  "CheckHash c hash = (c hash \<noteq> None)"

definition CheckHashPeer :: "'p hash_cache \<Rightarrow> string \<Rightarrow> 'p \<Rightarrow> bool" where
  "CheckHashPeer c hash i = (case c hash of None \<Rightarrow> False | Some ids \<Rightarrow> i \<in> set ids)"

definition hash_Add :: "string \<Rightarrow> 'p \<Rightarrow> 'p hash_cache \<Rightarrow> 'p hash_cache \<times> bool" where
  "hash_Add hash i c =
     (if CheckHashPeer c hash i then (c, False)
      else (case c hash of
          Some ids \<Rightarrow> (c(hash \<mapsto> (if i \<in> set ids then ids else ids @ [i])), \<not> i \<in> set ids)
        | None \<Rightarrow> (c(hash \<mapsto> [i]), True)))"

section \<open>Peer addresses\<close>

record ('p, 'a) addr_info =
  ai_ID :: 'p
  ai_Addrs :: "'a list"

type_synonym ('p, 'a) peer_cache = "('p \<times> ('p, 'a) addr_info) list"

definition CheckPeerAddress :: "('p, 'a) peer_cache \<Rightarrow> 'p \<Rightarrow> bool" where
  "CheckPeerAddress c i = (map_of c i \<noteq> None)"

definition AddPeerAddress :: "('p, 'a) addr_info \<Rightarrow> ('p, 'a) peer_cache \<Rightarrow> ('p, 'a) peer_cache \<times> bool" where
  "AddPeerAddress ai c =
     (if map_of c (ai_ID ai) \<noteq> None then (c, False) else (c @ [(ai_ID ai, ai)], True))"

definition GetAddress :: "('p, 'a) peer_cache \<Rightarrow> 'p \<Rightarrow> ('p, 'a) addr_info option" where
  "GetAddress c i = map_of c i"

definition cache_Peers :: "('p, 'a) peer_cache \<Rightarrow> 'p list" where
  "cache_Peers c = map fst c"

text \<open>\<open>UpdatePeerAddress\<close>, in its two critical sections: the addresses are read and merged, and
  written later. \<open>same\<close> is Go's equality on the interface values that are the keys of
  \<open>mark\<close>.\<close>

definition merge_addrs :: "('a \<Rightarrow> 'a \<Rightarrow> bool) \<Rightarrow> 'a list \<Rightarrow> 'a list \<Rightarrow> 'a list" where
  "merge_addrs same old new = old @ [a\<leftarrow>new. \<not> (\<exists>b \<in> set old. same b a)]"

definition set_address :: "'p \<Rightarrow> ('p, 'a) addr_info \<Rightarrow> ('p, 'a) peer_cache \<Rightarrow> ('p, 'a) peer_cache" where
  "set_address i ai c = (if map_of c i = None then c @ [(i, ai)] else map (\<lambda>(j, x). (j, if j = i then ai else x)) c)"

definition UpdatePeerAddress ::
  "('a \<Rightarrow> 'a \<Rightarrow> bool) \<Rightarrow> ('p, 'a) addr_info \<Rightarrow> ('p, 'a) peer_cache \<Rightarrow> ('p, 'a) peer_cache \<times> bool" where
  "UpdatePeerAddress same new c =
     (case GetAddress c (ai_ID new) of
        None \<Rightarrow> AddPeerAddress new c
      | Some address \<Rightarrow>
          (let merged = merge_addrs same (ai_Addrs address) (ai_Addrs new) in
           if merged = ai_Addrs address then (c, False)
           else (set_address (ai_ID new) (address\<lparr>ai_Addrs := merged\<rparr>) c, True)))"

text \<open>\<open>LoadAddress\<close>: the infos sent on the channel; \<open>ctx\<close> says at which send the context is done.\<close>

definition load_step ::
  "(string \<Rightarrow> (string, ('p, 'a) addr_info) result) \<Rightarrow> (nat \<Rightarrow> bool) \<Rightarrow> string \<Rightarrow> string
    \<Rightarrow> ('p, 'a) addr_info list \<Rightarrow> ('p, 'a) addr_info list \<times> bool" where
  "load_step unmarshal ctx hash val sent =
     (case unmarshal val of
        Inl e \<Rightarrow> (sent, False)
      | Inr info \<Rightarrow> if ctx (length sent) then (sent, False) else (sent @ [info], True))"

definition LoadAddress ::
  "'s db_ops \<Rightarrow> (string \<Rightarrow> (string, ('p, 'a) addr_info) result) \<Rightarrow> (nat \<Rightarrow> bool) \<Rightarrow> 's \<Rightarrow> ('p, 'a) addr_info list" where
  "LoadAddress db unmarshal ctx s = cache_Range db (load_step unmarshal ctx) s []"

text \<open>The goroutine of \<open>SaveAddress\<close>, over the peers present when it starts.\<close>

fun save_loop ::
  "'s db_ops \<Rightarrow> (('p, 'a) addr_info \<Rightarrow> (string, string) result) \<Rightarrow> ('p \<Rightarrow> string) \<Rightarrow> (nat \<Rightarrow> bool)
    \<Rightarrow> ('p, 'a) peer_cache \<Rightarrow> 'p list \<Rightarrow> nat \<Rightarrow> 's \<Rightarrow> 's" where
  "save_loop db marshal pretty ctx c [] n s = s"
| "save_loop db marshal pretty ctx c (i # ids) n s =
     (if ctx n then s
      else (case GetAddress c i of
          None \<Rightarrow> save_loop db marshal pretty ctx c ids (Suc n) s
        | Some address \<Rightarrow>
            (case cache_Store db marshal (pretty i) address s of
               (s1, Some e) \<Rightarrow> s1
             | (s1, None) \<Rightarrow> save_loop db marshal pretty ctx c ids (Suc n) s1)))"

definition SaveAddress ::
  "'s db_ops \<Rightarrow> (('p, 'a) addr_info \<Rightarrow> (string, string) result) \<Rightarrow> ('p \<Rightarrow> string) \<Rightarrow> (nat \<Rightarrow> bool)
    \<Rightarrow> ('p, 'a) peer_cache \<Rightarrow> 's \<Rightarrow> 's" where
  "SaveAddress db marshal pretty ctx c s = save_loop db marshal pretty ctx c (cache_Peers c) 0 s"

section \<open>What is relied on of the database\<close>

definition db_laws :: "'s db_ops \<Rightarrow> ('s \<Rightarrow> string \<Rightarrow> string option) \<Rightarrow> bool" where
  "db_laws db view \<longleftrightarrow>
     (\<forall>k s. case txn_Get db k s of Inl _ \<Rightarrow> view s k = None | Inr v \<Rightarrow> view s k = Some v)
   \<and> (\<forall>k v s s'. txn_Set db k v s = Inr s' \<longrightarrow> view s' = (view s)(k \<mapsto> v))
   \<and> (\<forall>s s1 s2. commit db s s1 = Inr s2 \<longrightarrow> view s2 = view s1)
   \<and> (\<forall>s. distinct (map fst (items db s)) \<and> (\<forall>k r. (k, r) \<in> set (items db s) \<longrightarrow> (\<exists>v. r = Inr v))
        \<and> map_of (map (\<lambda>(k, r). (k, projr r)) (items db s)) = view s)"

text \<open>A sorted association list is such a database; the iterator goes backwards.\<close>

definition list_db :: "(string \<times> string) list db_ops" where
  "list_db = \<lparr>txn_Get = (\<lambda>k s. case map_of s k of None \<Rightarrow> Inl ''Key not found'' | Some v \<Rightarrow> Inr v),
     txn_Set = (\<lambda>k v s. Inr ((k, v) # filter (\<lambda>(k', _). k' \<noteq> k) s)),
     commit = (\<lambda>s s'. Inr s'), items = (\<lambda>s. map (\<lambda>(k, v). (k, Inr v)) (AList.clearjunk s)),
     db_close = (\<lambda>s. None)\<rparr>"

lemma map_of_filter_key: "x \<noteq> k \<Longrightarrow> map_of (filter (\<lambda>(k', _). k' \<noteq> k) s) x = map_of s x"
  by (induction s) auto

lemma list_db_laws: "db_laws list_db map_of"
proof -
  have "map_of ((k, v) # filter (\<lambda>(k', _). k' \<noteq> k) s) = (map_of s)(k \<mapsto> v)" for k :: string and v :: string and s
    by (simp add: fun_eq_iff map_of_filter_key)
  moreover have "map_of (map (\<lambda>(k, r). (k, projr r)) (map (\<lambda>(k, v). (k, Inr v)) (AList.clearjunk s))) = map_of s"
    for s :: "(string \<times> string) list"
    by (simp add: o_def split_beta map_of_clearjunk)
  moreover have "distinct (map fst (map (\<lambda>(k, v). (k, Inr v :: (string, string) result)) (AList.clearjunk s)))"
    for s :: "(string \<times> string) list"
    by (simp add: o_def split_beta distinct_clearjunk)
  ultimately show ?thesis
    unfolding db_laws_def list_db_def
    by (auto split: option.splits simp del: map_map map_of.simps)
qed

lemma db_lawsD:
  assumes "db_laws db view"
  shows "txn_Get db k s = Inl e \<Longrightarrow> view s k = None" "txn_Get db k s = Inr v \<Longrightarrow> view s k = Some v"
    and "txn_Set db k v s = Inr s' \<Longrightarrow> view s' = (view s)(k \<mapsto> v)"
    and "commit db s s1 = Inr s2 \<Longrightarrow> view s2 = view s1"
    and "distinct (map fst (items db s))" "(k, r) \<in> set (items db s) \<Longrightarrow> \<exists>v. r = Inr v"
    and "map_of (map (\<lambda>(k, r). (k, projr r)) (items db s)) = view s"
proof -
  have get: "case txn_Get db k s of Inl _ \<Rightarrow> view s k = None | Inr v \<Rightarrow> view s k = Some v"
    using assms unfolding db_laws_def by (elim conjE) (erule allE, erule allE, assumption)
  then show "txn_Get db k s = Inl e \<Longrightarrow> view s k = None" "txn_Get db k s = Inr v \<Longrightarrow> view s k = Some v"
    by simp_all
qed (use assms in \<open>simp_all add: db_laws_def\<close>)

text \<open>A transaction either fails and leaves the contents alone or has its effect.\<close>

lemma db_update_cases:
  assumes "db_laws db view" and "db_update db f s = (s', r)"
  shows "(r \<noteq> None \<and> s' = s) \<or> (r = None \<and> (\<exists>s1. f s = Inr s1 \<and> view s' = view s1))"
  using assms(2) db_lawsD(4) [OF assms(1)] by (auto simp: db_update_def split: sum.splits)

section \<open>Store and load\<close>

lemma cache_Store_cases:
  assumes "db_laws db view" and "cache_Store db marshal k d s = (s', r)"
  shows "(r \<noteq> None \<and> s' = s) \<or> (r = None \<and> (\<exists>enc. marshal d = Inr enc \<and> view s' = (view s)(k \<mapsto> enc)))"
  using db_update_cases [OF assms(1) assms(2) [unfolded cache_Store_def]] db_lawsD(3) [OF assms(1)]
  by (auto split: sum.splits)

text \<open>The cache on disk. A value that was stored without error is what a load of its key decodes,
  and no other key is affected; a failed \<open>Store\<close>, \<open>Update\<close> or \<open>UpdateBytes\<close> changes nothing; the
  two updates never create a key.\<close>

theorem link_cache_store_load:
  assumes "db_laws db view" and "\<And>d enc. marshal d = Inr enc \<Longrightarrow> unmarshal enc = Inr d"
  shows "(cache_Store db marshal k d s = (s1, None) \<longrightarrow>
        cache_Load db unmarshal k s1 = Inr d \<and> (\<forall>k'. k' \<noteq> k \<longrightarrow> view s1 k' = view s k'))
    \<and> (cache_Store db marshal k d s = (s1, Some e) \<longrightarrow> s1 = s)
    \<and> (cache_Update db k up s = (s2, r2) \<longrightarrow>
        (if r2 = None then (\<forall>k'. k' \<noteq> k \<longrightarrow> view s2 k' = view s k') \<and> view s k \<noteq> None else s2 = s))
    \<and> (UpdateBytes db k b s = (s3, r3) \<longrightarrow>
        (if r3 = None then view s3 = (view s)(k \<mapsto> b) \<and> view s k \<noteq> None else s3 = s))"
proof (intro conjI impI)
  note D = db_lawsD [OF assms(1)]
  assume st: "cache_Store db marshal k d s = (s1, None)"
  then obtain enc where enc: "marshal d = Inr enc" "view s1 = (view s)(k \<mapsto> enc)"
    using cache_Store_cases [OF assms(1) st] by auto
  then have "txn_Get db k s1 = Inr enc"
    using D(1,2) [of k s1] by (cases "txn_Get db k s1") auto
  then show "cache_Load db unmarshal k s1 = Inr d"
    using enc assms(2) by (simp add: cache_Load_def)
  show "\<forall>k'. k' \<noteq> k \<longrightarrow> view s1 k' = view s k'"
    using enc by simp
next
  assume "cache_Store db marshal k d s = (s1, Some e)"
  from cache_Store_cases [OF assms(1) this] show "s1 = s"
    by simp
next
  assume "cache_Update db k up s = (s2, r2)"
  from db_update_cases [OF assms(1) this [unfolded cache_Update_def]]
  show "if r2 = None then (\<forall>k'. k' \<noteq> k \<longrightarrow> view s2 k' = view s k') \<and> view s k \<noteq> None else s2 = s"
    by (auto split: sum.splits option.splits dest: db_lawsD(2,3) [OF assms(1)])
next
  assume "UpdateBytes db k b s = (s3, r3)"
  from db_update_cases [OF assms(1) this [unfolded UpdateBytes_def]]
  show "if r3 = None then view s3 = (view s)(k \<mapsto> b) \<and> view s k \<noteq> None else s3 = s"
    by (auto split: sum.splits dest: db_lawsD(2,3) [OF assms(1)])
qed

theorem link_cache_store_load_witness:
  "cache_Load list_db (\<lambda>e. Inr e) ''k'' (fst (cache_Store list_db (\<lambda>d. Inr d) ''k'' ''v'' [])) = Inr ''v''"
proof -
  have "cache_Store list_db (\<lambda>d. Inr d) ''k'' ''v'' [] = ([(''k'', ''v'')], None)"
    by (simp add: cache_Store_def db_update_def list_db_def)
  then show ?thesis
    using link_cache_store_load [OF list_db_laws, of "\<lambda>d. Inr d" "\<lambda>e. Inr e" "''k''" "''v''" "[]" "[(''k'', ''v'')]",
        THEN conjunct1]
    by simp
qed

section \<open>Saving and loading addresses\<close>

lemma range_loop_load:
  assumes "\<And>k r. (k, r) \<in> set its \<Longrightarrow> \<exists>v d. r = Inr v \<and> unmarshal v = Inr d"
  shows "range_loop (load_step unmarshal (\<lambda>_. False)) its True sent
    = (sent @ map (\<lambda>(k, r). projr (unmarshal (projr r))) its, None)"
  using assms
proof (induction its arbitrary: sent)
  case (Cons it its)
  obtain k v d where "it = (k, Inr v)" "unmarshal v = Inr d"
    using Cons.prems [of "fst it" "snd it"] by (cases it) auto
  have tl: "\<exists>v d. r = Inr v \<and> unmarshal v = Inr d" if "(k, r) \<in> set its" for k r
    using that by (intro Cons.prems [of k]) simp
  have "load_step unmarshal (\<lambda>_. False) k v sent = (sent @ [d], True)" for sent
    using \<open>unmarshal v = Inr d\<close> by (simp add: load_step_def)
  moreover have "range_loop (load_step unmarshal (\<lambda>_. False)) its True (sent @ [d])
      = ((sent @ [d]) @ map (\<lambda>(k, r). projr (unmarshal (projr r))) its, None)"
    by (rule Cons.IH) (rule tl)
  ultimately show ?case
    using \<open>it = (k, Inr v)\<close> \<open>unmarshal v = Inr d\<close> by simp
qed simp

lemma save_loop_view:
  assumes laws: "db_laws db view"
    and total: "\<And>k v s. \<exists>s'. txn_Set db k v s = Inr s'" "\<And>s s1. \<exists>s2. commit db s s1 = Inr s2"
    and inj: "inj pretty" and "\<And>d. marshal d = Inr (enc d)"
  shows "view (save_loop db marshal pretty (\<lambda>_. False) c ids n s) k =
    (case map_of (map (\<lambda>i. (pretty i, i)) ids) k of
       None \<Rightarrow> view s k
     | Some i \<Rightarrow> (case GetAddress c i of None \<Rightarrow> view s k | Some d \<Rightarrow> Some (enc d)))"
proof (induction ids arbitrary: n s)
  case (Cons i ids)
  have key: "map_of (map (\<lambda>i. (pretty i, i)) ids) (pretty i) = None
      \<or> map_of (map (\<lambda>i. (pretty i, i)) ids) (pretty i) = Some i"
    using inj by (induction ids) (auto dest: injD)
  show ?case
  proof (cases "GetAddress c i")
    case None
    then show ?thesis
      using Cons [of "Suc n" s] key by (auto split: option.splits)
  next
    case (Some d)
    obtain s1 where s1: "cache_Store db marshal (pretty i) d s = (s1, None)" "view s1 = (view s)(pretty i \<mapsto> enc d)"
    proof -
      obtain sa sb where "txn_Set db (pretty i) (enc d) s = Inr sa" "commit db s sa = Inr sb"
        using total by blast
      then show thesis
        using that [of sb] db_lawsD(3,4) [OF laws] assms(5) by (simp add: cache_Store_def db_update_def)
    qed
    then show ?thesis
      using Some Cons [of "Suc n" s1] key by (auto split: option.splits)
  qed
qed simp

lemma items_view:
  assumes "db_laws db view"
  shows "(k, Inr v) \<in> set (items db s) \<longleftrightarrow> view s k = Some v"
proof -
  let ?m = "map (\<lambda>(k, r). (k, projr r)) (items db s)"
  have d: "distinct (map fst ?m)"
    using db_lawsD(5) [OF assms, of s] by (simp add: o_def split_beta)
  have "(k, Inr v) \<in> set (items db s) \<longleftrightarrow> (k, v) \<in> set ?m"
    using db_lawsD(6) [OF assms] by (force simp: image_iff)
  also have "\<dots> \<longleftrightarrow> view s k = Some v"
    using d db_lawsD(7) [OF assms, of s] by (metis map_of_eq_Some_iff)
  finally show ?thesis .
qed

text \<open>The peer addresses survive a restart. On a database without faults that was empty,
  saving the cache of addresses and loading it again, without cancellation, yields exactly the
  address infos of the cache, provided infos survive their encoding and the texts of peer ids
  are unique.\<close>

theorem peer_cache_save_load:
  assumes "db_laws db view" and "view s = Map.empty"
    and "\<And>k v s. \<exists>s'. txn_Set db k v s = Inr s'" and "\<And>s s1. \<exists>s2. commit db s s1 = Inr s2"
    and "inj pretty" and "\<And>d. marshal d = Inr (enc d)" and "\<And>d. unmarshal (enc d) = Inr d"
    and "distinct (map fst c)"
  shows "set (LoadAddress db unmarshal (\<lambda>_. False) (SaveAddress db marshal pretty (\<lambda>_. False) c s)) = snd ` set c"
proof -
  let ?s = "SaveAddress db marshal pretty (\<lambda>_. False) c s"
  have key: "map_of (map (\<lambda>i. (pretty i, i)) ids) (pretty i) = (if i \<in> set ids then Some i else None)" for i ids
    using assms(5) by (induction ids) (auto dest: injD)
  have sv: "view ?s k = (case map_of (map (\<lambda>i. (pretty i, i)) (map fst c)) k of None \<Rightarrow> None
      | Some i \<Rightarrow> map_option enc (map_of c i))" for k
    unfolding SaveAddress_def cache_Peers_def save_loop_view [OF assms(1,3-6)]
    by (simp add: assms(2) GetAddress_def split: option.split)
  have at: "view ?s (pretty i) = map_option enc (map_of c i)" for i
    unfolding sv key by (simp add: map_of_eq_None_iff [symmetric])
  have off: "view ?s k = None" if "k \<notin> range pretty" for k
  proof -
    have "map_of (map (\<lambda>i. (pretty i, i)) (map fst c)) k = None"
      unfolding map_of_eq_None_iff using that by auto
    then show ?thesis by (simp add: sv)
  qed
  have view: "view ?s k = Some v \<longleftrightarrow> (\<exists>i d. k = pretty i \<and> map_of c i = Some d \<and> v = enc d)" for k v
  proof (cases "k \<in> range pretty")
    case True
    then obtain i where "k = pretty i" by blast
    then show ?thesis
      using at [of i] by (auto simp: inj_eq [OF assms(5)])
  next
    case False
    then show ?thesis
      using off [OF False] by auto
  qed
  have its: "\<exists>v d. r = Inr v \<and> unmarshal v = Inr d" if "(k, r) \<in> set (items db ?s)" for k r
    using db_lawsD(6) [OF assms(1) that] that items_view [OF assms(1)] view assms(7) by metis
  have "LoadAddress db unmarshal (\<lambda>_. False) ?s = map (\<lambda>(k, r). projr (unmarshal (projr r))) (items db ?s)"
    unfolding LoadAddress_def cache_Range_def using range_loop_load [of "items db ?s" unmarshal "[]"] its by simp
  moreover have "projr (unmarshal (projr r)) \<in> ran (map_of c)" if "(k, r) \<in> set (items db ?s)" for k r
    using db_lawsD(6) [OF assms(1) that] that items_view [OF assms(1)] view assms(7) by (fastforce simp: ran_def)
  moreover have "d \<in> (\<lambda>(k, r). projr (unmarshal (projr r))) ` set (items db ?s)" if "map_of c i = Some d" for i d
  proof -
    have "(pretty i, Inr (enc d)) \<in> set (items db ?s)"
      using that view items_view [OF assms(1)] by blast
    from imageI [OF this, of "\<lambda>(k, r). projr (unmarshal (projr r))"] show ?thesis
      by (simp add: assms(7))
  qed
  ultimately have "set (LoadAddress db unmarshal (\<lambda>_. False) ?s) = ran (map_of c)"
    by (fastforce simp: ran_def)
  then show ?thesis
    using ran_distinct [OF assms(8)] by simp
qed

definition ex_enc :: "(string, unit) addr_info \<Rightarrow> string" where
  "ex_enc d = replicate (length (ai_Addrs d)) (CHR ''c'') @ CHR ''#'' # ai_ID d"

definition ex_dec :: "string \<Rightarrow> (string, (string, unit) addr_info) result" where
  "ex_dec s = Inr \<lparr>ai_ID = tl (dropWhile (\<lambda>c. c = CHR ''c'') s),
     ai_Addrs = replicate (length (takeWhile (\<lambda>c. c = CHR ''c'') s)) ()\<rparr>"

lemma ex_dec_enc: "ex_dec (ex_enc d) = Inr d"
proof -
  have "replicate (length us) () = us" for us
    by (induction us) auto
  then show ?thesis
    by (simp add: ex_dec_def ex_enc_def takeWhile_append dropWhile_append)
qed

theorem peer_cache_save_load_witness:
  "set (LoadAddress list_db ex_dec (\<lambda>_. False)
     (SaveAddress list_db (\<lambda>d. Inr (ex_enc d)) id (\<lambda>_. False) [(''p'', \<lparr>ai_ID = ''p'', ai_Addrs = [()]\<rparr>)] []))
   = {\<lparr>ai_ID = ''p'', ai_Addrs = [()]\<rparr>}"
  using peer_cache_save_load [OF list_db_laws, of "[]" id "\<lambda>d. Inr (ex_enc d)" ex_enc ex_dec
      "[(''p'', \<lparr>ai_ID = ''p'', ai_Addrs = [()]\<rparr>)]"]
  by (simp add: ex_dec_enc list_db_def)

section \<open>The caches in memory\<close>

definition peer_cache_ok :: "('p, 'a) peer_cache \<Rightarrow> bool" where
  "peer_cache_ok c \<longleftrightarrow> distinct (map fst c) \<and> (\<forall>(i, ai) \<in> set c. ai_ID ai = i)"

lemma map_of_replace:
  "map_of (map (\<lambda>(j, x). (j, if j = i then ai else x)) c) k =
    (if k = i then map_option (\<lambda>_. ai) (map_of c i) else map_of c k)"
  by (induction c) auto

lemma map_of_set_address: "map_of (set_address i ai c) = (map_of c)(i \<mapsto> ai)"
  by (cases "map_of c i") (auto simp: set_address_def map_of_replace map_add_def fun_eq_iff split: option.split)

lemma set_address_ok: "peer_cache_ok c \<Longrightarrow> ai_ID ai = i \<Longrightarrow> peer_cache_ok (set_address i ai c)"
  by (auto simp: peer_cache_ok_def set_address_def map_of_eq_None_iff o_def split_beta split: if_splits)

lemma merge_addrs_same: "merge_addrs same old new = old \<longleftrightarrow> (\<forall>a \<in> set new. \<exists>b \<in> set old. same b a)"
  by (auto simp: merge_addrs_def filter_empty_conv)

text \<open>Learning addresses. \<open>UpdatePeerAddress\<close> keeps one entry per peer under the peer's own id,
  touches no other peer, and never forgets an address; it adds exactly those new addresses
  that equal none of the known ones, and reports a change exactly when the peer was unknown or
  there were such addresses.\<close>

theorem update_peer_address:
  assumes "peer_cache_ok c"
    and "UpdatePeerAddress same new c = (c', changed)"
  shows "peer_cache_ok c'
    \<and> (\<forall>i. i \<noteq> ai_ID new \<longrightarrow> GetAddress c' i = GetAddress c i)
    \<and> (case GetAddress c (ai_ID new) of
         None \<Rightarrow> GetAddress c' (ai_ID new) = Some new \<and> changed
       | Some old \<Rightarrow> GetAddress c' (ai_ID new) = Some (old\<lparr>ai_Addrs := merge_addrs same (ai_Addrs old) (ai_Addrs new)\<rparr>)
           \<and> (changed \<longleftrightarrow> (\<exists>a \<in> set (ai_Addrs new). \<forall>b \<in> set (ai_Addrs old). \<not> same b a)))"
proof (cases "map_of c (ai_ID new)")
  case None
  then have "peer_cache_ok (c @ [(ai_ID new, new)])"
    using assms(1) by (auto simp: peer_cache_ok_def map_of_eq_None_iff)
  with None assms(2) show ?thesis
    by (auto simp: UpdatePeerAddress_def AddPeerAddress_def GetAddress_def map_add_def split: option.split)
next
  case (Some old)
  then have "ai_ID old = ai_ID new"
    using assms(1) by (auto simp: peer_cache_ok_def dest!: map_of_SomeD)
  then have ok: "peer_cache_ok (set_address (ai_ID new) (old\<lparr>ai_Addrs := m\<rparr>) c)" for m
    using assms(1) by (simp add: set_address_ok)
  show ?thesis
  proof (cases "merge_addrs same (ai_Addrs old) (ai_Addrs new) = ai_Addrs old")
    case True
    then have "old\<lparr>ai_Addrs := merge_addrs same (ai_Addrs old) (ai_Addrs new)\<rparr> = old"
      by simp
    with True Some assms show ?thesis
      using True [unfolded merge_addrs_same]
      by (auto simp: UpdatePeerAddress_def GetAddress_def Let_def)
  next
    case False
    with Some ok assms(2) show ?thesis
      using False [unfolded merge_addrs_same]
      by (auto simp: UpdatePeerAddress_def GetAddress_def Let_def map_of_set_address)
  qed
qed

theorem update_peer_address_witness:
  "UpdatePeerAddress (=) \<lparr>ai_ID = 1, ai_Addrs = [10, 20]\<rparr> [(1::nat, \<lparr>ai_ID = 1, ai_Addrs = [10::nat]\<rparr>)]
    = ([(1, \<lparr>ai_ID = 1, ai_Addrs = [10, 20]\<rparr>)], True)
   \<and> peer_cache_ok [(1::nat, \<lparr>ai_ID = 1, ai_Addrs = [10::nat, 20]\<rparr>)]"
proof -
  have u: "UpdatePeerAddress (=) \<lparr>ai_ID = 1, ai_Addrs = [10, 20]\<rparr> [(1::nat, \<lparr>ai_ID = 1, ai_Addrs = [10::nat]\<rparr>)]
    = ([(1, \<lparr>ai_ID = 1, ai_Addrs = [10, 20]\<rparr>)], True)"
    by (simp add: UpdatePeerAddress_def GetAddress_def merge_addrs_def set_address_def Let_def)
  have "peer_cache_ok [(1::nat, \<lparr>ai_ID = 1, ai_Addrs = [10::nat]\<rparr>)]"
    by (simp add: peer_cache_ok_def)
  from update_peer_address [OF this u] u show ?thesis
    by blast
qed

text \<open>The new addresses are compared with the known ones only, so an address that occurs twice
  among them is stored twice.\<close>

lemma merge_addrs_duplicates: "a \<notin> set old \<Longrightarrow> merge_addrs (=) old [a, a] = old @ [a, a]"
  by (auto simp: merge_addrs_def)

text \<open>Pointers to separately decoded addresses are never equal: with such an equality every
  update adds all addresses again.\<close>

lemma merge_addrs_pointers: "merge_addrs (\<lambda>_ _. False) old new = old @ new"
  by (simp add: merge_addrs_def)

text \<open>Two updates of one peer whose critical sections interleave: both read, then both write. The
  addresses of the first writer are lost.\<close>

lemma update_peer_address_lost:
  assumes "map_of c i = Some ai" and "m1 = merge_addrs same (ai_Addrs ai) new1" and "m2 = merge_addrs same (ai_Addrs ai) new2"
  shows "GetAddress (set_address i (ai\<lparr>ai_Addrs := m2\<rparr>) (set_address i (ai\<lparr>ai_Addrs := m1\<rparr>) c)) i
    = Some (ai\<lparr>ai_Addrs := m2\<rparr>)"
  by (simp add: GetAddress_def map_of_set_address)

text \<open>Learning hashes. \<open>Add\<close> reports true exactly when the peer was not yet recorded for the
  hash; afterwards it is recorded, once, and nothing else has changed.\<close>

theorem hash_add:
  "snd (hash_Add hash i c) = (\<not> CheckHashPeer c hash i)
   \<and> CheckHashPeer (fst (hash_Add hash i c)) hash i \<and> CheckHash (fst (hash_Add hash i c)) hash
   \<and> (\<forall>h j. (h, j) \<noteq> (hash, i) \<longrightarrow> CheckHashPeer (fst (hash_Add hash i c)) h j = CheckHashPeer c h j)
   \<and> (distinct (hash_Get c hash) \<longrightarrow> distinct (hash_Get (fst (hash_Add hash i c)) hash))"
  by (auto simp: hash_Add_def CheckHashPeer_def CheckHash_def hash_Get_def split: option.splits)

theorem hash_add_witness:
  "snd (hash_Add ''h'' (7::nat) Map.empty) \<and> \<not> snd (hash_Add ''h'' (7::nat) (fst (hash_Add ''h'' 7 Map.empty)))"
proof -
  have "\<not> CheckHashPeer Map.empty ''h'' (7::nat)"
    by (simp add: CheckHashPeer_def)
  then show ?thesis
    using hash_add [of "''h''" "7::nat" Map.empty] hash_add [of "''h''" 7 "fst (hash_Add ''h'' (7::nat) Map.empty)"]
    by blast
qed

end
