(* ===== verification/Linker.thy ===== *)
theory Linker
  imports LinkCache
begin

text \<open>
  The linker (src/linker/linker.go) and its pinning queue (src/linker/pinning.go). Nodes tell
  each other the addresses of their peers and the hashes they pin over line-based streams; a
  stream is the string of its bytes, and \<open>readLine\<close> is \<open>bufio.Reader.ReadLine\<close> with its buffer
  of 4096 bytes. What the network, the repository and the core API return is an argument.
\<close>

section \<open>Pinning\<close>

text \<open>\<open>readers\<close> counts read locks that are never released: a writer then waits for ever. The
  \<open>sync.Pool\<close> may drop its values and return them in any order.\<close>

record pinning =
  running :: bool
  pool :: "string list"
  pins :: "string list"
  readers :: nat
  cancelled :: bool
  run_loops :: nat

definition pin_Get :: "pinning \<Rightarrow> pinning \<times> string list" where
  "pin_Get p = (if pins p = [] then (p\<lparr>readers := Suc (readers p)\<rparr>, []) else (p, pins p))"

definition with_lock :: "(pinning \<Rightarrow> pinning) \<Rightarrow> pinning \<Rightarrow> pinning outcome" where
  "with_lock f p = (if readers p > 0 then Blocks else Returns (f p))"

definition pin_Clear :: "pinning \<Rightarrow> pinning outcome" where
  "pin_Clear = with_lock (\<lambda>p. p\<lparr>pins := []\<rparr>)"

definition pin_Add :: "string \<Rightarrow> pinning \<Rightarrow> pinning outcome" where
  "pin_Add pin = with_lock (\<lambda>p. p\<lparr>pins := List.insert pin (pins p)\<rparr>)"

definition pin_Set :: "string list \<Rightarrow> pinning \<Rightarrow> pinning outcome" where
  "pin_Set ps = with_lock (\<lambda>p. p\<lparr>pins := remdups ps\<rparr>)"

text \<open>\<open>Pause\<close> stores false and then swaps true for false.\<close>

definition pin_Pause :: "pinning \<Rightarrow> pinning" where
  "pin_Pause p =
     (let p1 = p\<lparr>running := False\<rparr> in
      if running p1 then p1\<lparr>running := False, cancelled := True\<rparr> else p1)"

definition pin_Resume :: "pinning \<Rightarrow> pinning" where
  "pin_Resume p = (if \<not> running p then p\<lparr>running := True, run_loops := Suc (run_loops p)\<rparr> else p)"

definition pin_AddSync :: "string \<Rightarrow> pinning \<Rightarrow> pinning" where
  "pin_AddSync pin p =
     (let p1 = p\<lparr>pool := pin # pool p\<rparr> in if \<not> running p1 then pin_Resume p1 else p1)"

text \<open>One turn of the loop of \<open>run\<close> with the value \<open>pstr\<close> taken from the pool; \<open>isPinned\<close> and \<open>add\<close>
  are what the pin API returns.\<close>

definition run_turn :: "string \<Rightarrow> (string, string \<times> bool) result \<Rightarrow> string option \<Rightarrow> pinning \<Rightarrow> pinning outcome" where
  "run_turn pstr isPinned add p =
     (let p1 = p\<lparr>pool := remove1 pstr (pool p)\<rparr> in
      case isPinned of
        Inl e \<Rightarrow> Returns p1
      | Inr (typ, b2) \<Rightarrow>
          if b2 \<and> typ = ''recursive'' then Returns p1
          else (case add of Some e \<Rightarrow> Returns p1 | None \<Rightarrow> pin_Add pstr p1))"

text \<open>The last turn, when the pool returns nothing: the loop ends and \<open>Pause\<close> is deferred.\<close>

definition run_exit :: "pinning \<Rightarrow> pinning" where
  "run_exit p = (pin_Pause p)\<lparr>run_loops := run_loops p - 1\<rparr>"

definition newPinning :: pinning where
  "newPinning = pin_Resume \<lparr>running = False, pool = [], pins = [], readers = 0, cancelled = False, run_loops = 0\<rparr>"

section \<open>Lines\<close>

definition nl :: char where "nl = CHR 0x0A"
definition cr :: char where "cr = CHR 0x0D"
definition bufsize :: nat where "bufsize = 4096"

definition readLine :: "string \<Rightarrow> (string \<times> string) option" where
  "readLine s =
     (if s = [] then None
      else let buf = take bufsize s; line = takeWhile (\<lambda>c. c \<noteq> nl) buf in
        if length line < length buf then
          Some (if line \<noteq> [] \<and> last line = cr then butlast line else line, drop (Suc (length line)) s)
        else if length buf = bufsize then
          (if last line = cr then Some (butlast line, drop (bufsize - 1) s) else Some (line, drop bufsize s))
        else Some (line, []))"

lemma readLine_shorter: "readLine s = Some (l, r) \<Longrightarrow> length r < length s"
  by (auto simp: readLine_def bufsize_def Let_def split: if_splits)

text \<open>The writing half of the handlers: each message and a newline, until a write fails; \<open>wr\<close>
  says which write fails.\<close>

fun write_lines :: "(nat \<Rightarrow> bool) \<Rightarrow> nat \<Rightarrow> string list \<Rightarrow> string" where
  "write_lines wr n [] = []"
| "write_lines wr n (m # ms) =
     (if wr n then []
      else if wr (Suc n) then m
      else m @ [nl] @ write_lines wr (Suc (Suc n)) ms)"

section \<open>The linker\<close>

record ('p, 'a) link =
  addresses :: "('p, 'a) peer_cache"
  hashes :: "'p hash_cache"
  pinning_of :: pinning
  failedCount :: "'p \<Rightarrow> 64 word"
  connects :: "'p list"

fun checkAddrIsExist :: "('a \<Rightarrow> 'a \<Rightarrow> bool) \<Rightarrow> 'a list \<Rightarrow> 'a \<Rightarrow> bool" where
  "checkAddrIsExist equal [] addr = False"
| "checkAddrIsExist equal (a # as) addr = (if equal addr a then True else checkAddrIsExist equal as addr)"

text \<open>The handler of the peers protocol: the addresses the peer store holds for the remote
  peer afterwards, and what is sent. A failure to encode is ignored and sends an empty line.\<close>

definition linkPeersHandle ::
  "('a \<Rightarrow> 'a \<Rightarrow> bool) \<Rightarrow> 'a list \<Rightarrow> 'a \<Rightarrow> (string, string) result list \<Rightarrow> (nat \<Rightarrow> bool) \<Rightarrow> 'a list \<times> string" where
  "linkPeersHandle equal known remote infos wr =
     ((if \<not> checkAddrIsExist equal known remote then known @ [remote] else known),
      write_lines wr 0 (map (\<lambda>j. case j of Inl _ \<Rightarrow> [] | Inr s \<Rightarrow> s) infos))"

definition linkHashHandle :: "pinning \<Rightarrow> (nat \<Rightarrow> bool) \<Rightarrow> pinning \<times> string" where
  "linkHashHandle p wr = (case pin_Get p of (p1, ps) \<Rightarrow> (p1, write_lines wr 0 ps))"

definition getAddCount :: "'p \<Rightarrow> ('p, 'a) link \<Rightarrow> ('p, 'a) link \<times> 64 word" where
  "getAddCount i l = (l\<lparr>failedCount := (failedCount l)(i := failedCount l i + 1)\<rparr>, failedCount l i)"

text \<open>What \<open>UpdatePeerAddress\<close> gets from the outside: whether a stream to the peer can be
  opened, the configured number of attempts, the core API, and the result of connecting.\<close>

record update_env =
  can_stream :: bool
  max_attempts :: "(string, 64 word) result"
  core_api :: "string option"
  swarm_connect :: "string option"

definition link_UpdatePeerAddress ::
  "('a \<Rightarrow> 'a \<Rightarrow> bool) \<Rightarrow> update_env \<Rightarrow> ('p, 'a) addr_info \<Rightarrow> ('p, 'a) link \<Rightarrow> ('p, 'a) link \<times> string option" where
  "link_UpdatePeerAddress same env ai l =
     (if can_stream env then (l, None)
      else (case max_attempts env of
          Inl e \<Rightarrow> (l, Some e)
        | Inr maxAttempts \<Rightarrow>
            (case UpdatePeerAddress same ai (addresses l) of
               (c, updated) \<Rightarrow>
                 (let l1 = l\<lparr>addresses := c\<rparr> in
                  if \<not> updated then (l1, None)
                  else (case getAddCount (ai_ID ai) l1 of
                      (l2, count) \<Rightarrow>
                        if maxAttempts <s count then (l2, Some ''connect failed max'')
                        else (case core_api env of
                            Some e \<Rightarrow> (l2, Some e)
                          | None \<Rightarrow> (l2\<lparr>connects := connects l2 @ [ai_ID ai]\<rparr>, swarm_connect env)))))))"

text \<open>The loop of \<open>getRemotePeerAddress\<close> over the bytes received; \<open>ctx\<close> says at which turn the
  context is done and \<open>upd\<close> is the update of each info. Errors of the update are logged.\<close>

function getRemotePeerAddress ::
  "(string \<Rightarrow> (string, ('p, 'a) addr_info) result) \<Rightarrow> 'p \<Rightarrow> (nat \<Rightarrow> bool) \<Rightarrow> (nat \<Rightarrow> ('p, 'a) addr_info \<Rightarrow> 'l \<Rightarrow> 'l)
    \<Rightarrow> nat \<Rightarrow> string \<Rightarrow> 'l \<Rightarrow> 'l" where
  "getRemotePeerAddress dec self ctx upd n s l =
     (if ctx n then l
      else (case readLine s of
          None \<Rightarrow> l
        | Some (line, rest) \<Rightarrow>
            (case dec line of
               Inl e \<Rightarrow> l
             | Inr ai \<Rightarrow>
                 getRemotePeerAddress dec self ctx upd (Suc n) rest (if ai_ID ai = self then l else upd n ai l))))"
  by pat_completeness auto
termination
  by (relation "measure (\<lambda>(_, _, _, _, _, s, _). length s)") (auto dest: readLine_shorter)

definition UpdateHash :: "(string \<Rightarrow> string) \<Rightarrow> string \<Rightarrow> 'p \<Rightarrow> ('p, 'a) link \<Rightarrow> ('p, 'a) link" where
  "UpdateHash path line i l =
     l\<lparr>hashes := fst (hash_Add (path line) i (hashes l)), pinning_of := pin_AddSync (path line) (pinning_of l)\<rparr>"

function getRemoteHash ::
  "(string \<Rightarrow> string) \<Rightarrow> 'p \<Rightarrow> (nat \<Rightarrow> bool) \<Rightarrow> nat \<Rightarrow> string \<Rightarrow> ('p, 'a) link \<Rightarrow> ('p, 'a) link" where
  "getRemoteHash path i ctx n s l =
     (if ctx n then l
      else (case readLine s of
          None \<Rightarrow> l
        | Some (line, rest) \<Rightarrow> getRemoteHash path i ctx (Suc n) rest (UpdateHash path line i l)))"
  by pat_completeness auto
termination
  by (relation "measure (\<lambda>(_, _, _, _, s, _). length s)") (auto dest: readLine_shorter)

declare getRemotePeerAddress.simps [simp del] getRemoteHash.simps [simp del]

text \<open>The receiving loop of \<open>Start\<close>, for the number of turns it makes before the timer fires:
  the channel yields the loaded infos and then, closed, the zero info.\<close>

fun start_loop ::
  "('a \<Rightarrow> 'a \<Rightarrow> bool) \<Rightarrow> ('p, 'a) addr_info \<Rightarrow> nat \<Rightarrow> ('p, 'a) addr_info list \<Rightarrow> ('p, 'a) peer_cache \<Rightarrow> ('p, 'a) peer_cache" where
  "start_loop same zero 0 chan c = c"
| "start_loop same zero (Suc n) [] c = start_loop same zero n [] (fst (UpdatePeerAddress same zero c))"
| "start_loop same zero (Suc n) (ai # chan) c = start_loop same zero n chan (fst (UpdatePeerAddress same ai c))"

text \<open>The peers a turn of \<open>Syncing\<close> asks: every connection but those to the node itself, twice.\<close>

definition sync_targets :: "'p \<Rightarrow> 'p list \<Rightarrow> 'p list" where
  "sync_targets self conns = [p\<leftarrow>conns. p \<noteq> self]"

text \<open>A tick of \<open>syncPin\<close> with the recursive pins listed.\<close>

fun sync_pins :: "string list \<Rightarrow> pinning \<Rightarrow> pinning outcome" where
  "sync_pins [] p = Returns p"
| "sync_pins (x # xs) p = (case pin_Add x p of Blocks \<Rightarrow> Blocks | Returns p1 \<Rightarrow> sync_pins xs p1)"

definition linker_New :: "('p, 'a) link" where
  "linker_New = \<lparr>addresses = [], hashes = Map.empty, pinning_of = newPinning, failedCount = (\<lambda>_. 0), connects = []\<rparr>"

section \<open>Messages arrive\<close>



text \<open>A sequence of updates.\<close>

fun link_updates ::
  "('a \<Rightarrow> 'a \<Rightarrow> bool) \<Rightarrow> (update_env \<times> ('p, 'a) addr_info) list \<Rightarrow> ('p, 'a) link \<Rightarrow> ('p, 'a) link" where
  "link_updates same [] l = l"
| "link_updates same ((env, ai) # us) l = link_updates same us (fst (link_UpdatePeerAddress same env ai l))"











text \<open>A longer message is cut: the reader returns its first 4096 bytes as a line, so the decoding
  fails and the rest of the stream is dropped.\<close>

lemma readLine_long:
  assumes "nl \<notin> set m" and "bufsize < length m" and "last (take bufsize m) \<noteq> cr"
  shows "readLine (m @ nl # r) = Some (take bufsize m, drop bufsize m @ nl # r)"
proof -
  have t: "take bufsize (m @ nl # r) = take bufsize m"
    using assms(2) by simp
  have w: "takeWhile (\<lambda>c. c \<noteq> nl) (take bufsize m) = take bufsize m"
    using assms(1) by (metis (mono_tags, lifting) in_set_takeD takeWhile_eq_all_conv)
  show ?thesis
    unfolding readLine_def t Let_def w using assms by simp
qed

text \<open>A message of more than 4096 bytes ends the exchange. When the decoder does not accept
  the message cut after 4096 bytes, the receiver stops there: neither this info nor any
  that follows it is applied.\<close>

theorem link_peers_long_message:
  assumes "nl \<notin> set m" and "bufsize < length m" and "last (take bufsize m) \<noteq> cr"
    and "dec (take bufsize m) = Inl e"
  shows "getRemotePeerAddress dec self (\<lambda>_. False) upd n
      (snd (linkPeersHandle equal known remote (Inr m # infos) (\<lambda>_. False))) l = l"
  using readLine_long [OF assms(1-3)] assms(4)
  by (subst getRemotePeerAddress.simps) (simp add: linkPeersHandle_def)

section \<open>Starting up\<close>

lemma UpdatePeerAddress_known:
  assumes "GetAddress c i \<noteq> None \<or> ai_ID ai = i"
  shows "GetAddress (fst (UpdatePeerAddress same ai c)) i \<noteq> None"
  using assms
  by (auto simp: UpdatePeerAddress_def AddPeerAddress_def GetAddress_def Let_def map_of_set_address map_add_def
      split: option.splits)

lemma start_loop_known: "GetAddress c i \<noteq> None \<Longrightarrow> GetAddress (start_loop same zero n chan c) i \<noteq> None"
  by (induction same zero n chan c rule: start_loop.induct) (simp_all add: UpdatePeerAddress_known del: not_None_eq)

text \<open>A peer that does not exist. \<open>Start\<close> keeps receiving after the channel of loaded addresses
  is closed; as soon as it makes one turn more than there were addresses, the cache has an
  entry for the zero address info, with the empty peer id.\<close>

theorem start_adds_zero_peer:
  assumes "length chan < n"
  shows "GetAddress (start_loop same zero n chan c) (ai_ID zero) \<noteq> None"
  using assms
proof (induction same zero n chan c rule: start_loop.induct)
  case (2 same zero n c)
  have "GetAddress (fst (UpdatePeerAddress same zero c)) (ai_ID zero) \<noteq> None"
    by (rule UpdatePeerAddress_known) simp
  then show ?case
    using start_loop_known by (metis start_loop.simps(2))
qed simp_all

definition ex_info :: "string \<Rightarrow> (string, unit) addr_info" where
  "ex_info i = \<lparr>ai_ID = i, ai_Addrs = [()]\<rparr>"



theorem link_peers_long_message_witness:
  "getRemotePeerAddress (\<lambda>s. if length s = 4096 then Inl ''eof'' else Inr (ex_info s)) ''me'' (\<lambda>_. False)
     (\<lambda>_ ai l. l @ [ai_ID ai]) 0 (snd (linkPeersHandle (=) [] (0::nat) [Inr (replicate 4097 (CHR ''a'')), Inr ''b''] (\<lambda>_. False))) []
   = []"
  by (rule link_peers_long_message [where e = "''eof''"]) (simp_all add: nl_def cr_def bufsize_def)

theorem start_adds_zero_peer_witness:
  "GetAddress (start_loop (=) (ex_info []) 1 [] []) (ai_ID (ex_info [])) \<noteq> None"
  by (rule start_adds_zero_peer) simp

section \<open>Connection attempts\<close>

lemma sint_of_nat64: "n < 2 ^ 63 \<Longrightarrow> sint (of_nat n :: 64 word) = int n"
  by (simp add: signed_of_nat signed_take_bit_int_eq_self)

text \<open>What an update does to the counter and to the log of connections of a peer.\<close>

lemma link_update_cases:
  assumes "link_UpdatePeerAddress same env ai l = (l', r)" and "max_attempts env = Inr m"
  shows "(failedCount l' p = failedCount l p \<and> count_list (connects l') p = count_list (connects l) p)
    \<or> (failedCount l' p = failedCount l p + 1 \<and> count_list (connects l') p = count_list (connects l) p)
    \<or> (failedCount l' p = failedCount l p + 1 \<and> count_list (connects l') p = Suc (count_list (connects l) p)
        \<and> \<not> m <s failedCount l p)"
  using assms
  by (auto simp: link_UpdatePeerAddress_def getAddCount_def Let_def split: if_splits option.splits prod.splits)

lemma link_updates_bound:
  assumes "\<And>env ai. (env, ai) \<in> set us \<Longrightarrow> max_attempts env = Inr m" and "0 \<le> sint m"
    and "failedCount l p = of_nat k" and "k + length us < 2 ^ 63"
    and "count_list (connects l) p \<le> k" and "count_list (connects l) p \<le> nat (sint m) + 1"
  shows "count_list (connects (link_updates same us l)) p \<le> nat (sint m) + 1"
  using assms
proof (induction us arbitrary: l k)
  case (Cons u us)
  obtain env ai where u: "u = (env, ai)" by (cases u)
  let ?l = "fst (link_UpdatePeerAddress same env ai l)"
  have max: "max_attempts env = Inr m"
    using Cons.prems(1) [of env ai] u by simp
  have k: "sint (of_nat k :: 64 word) = int k"
    using Cons.prems(4) by (intro sint_of_nat64) simp
  have c: "(failedCount ?l p = of_nat k \<and> count_list (connects ?l) p = count_list (connects l) p)
    \<or> (failedCount ?l p = of_nat (Suc k) \<and> count_list (connects ?l) p = count_list (connects l) p)
    \<or> (failedCount ?l p = of_nat (Suc k) \<and> count_list (connects ?l) p = Suc (count_list (connects l) p) \<and> int k \<le> sint m)"
    using link_update_cases [of same env ai l ?l "snd (link_UpdatePeerAddress same env ai l)" m p] max Cons.prems(3) k
    by (simp add: word_sless_alt add.commute not_less)
  have rest: "\<And>env ai. (env, ai) \<in> set us \<Longrightarrow> max_attempts env = Inr m"
    using Cons.prems(1) by (metis list.set_intros(2))
  have lim: "k + length us < 2 ^ 63" "Suc k + length us < 2 ^ 63"
    using Cons.prems(4) by simp_all
  from c show ?case
  proof (elim disjE conjE)
    assume "failedCount ?l p = of_nat k" "count_list (connects ?l) p = count_list (connects l) p"
    then show ?thesis
      using Cons.IH [where l = ?l and k = k, OF rest assms(2)] lim Cons.prems(5,6) u by simp
  next
    assume "failedCount ?l p = of_nat (Suc k)" "count_list (connects ?l) p = count_list (connects l) p"
    then show ?thesis
      using Cons.IH [where l = ?l and k = "Suc k", OF rest assms(2)] lim Cons.prems(5,6) u by simp
  next
    assume "failedCount ?l p = of_nat (Suc k)" "count_list (connects ?l) p = Suc (count_list (connects l) p)" "int k \<le> sint m"
    then show ?thesis
      using Cons.IH [where l = ?l and k = "Suc k", OF rest assms(2)] lim Cons.prems(5) u by simp
  qed
qed simp

text \<open>Attempts are bounded. Whatever addresses a new linker is told, in fewer than
  \<open>2 ^ 63\<close> updates it dials no peer more often than \<open>MaxAttempts + 1\<close> times.\<close>

theorem link_attempts_bounded:
  assumes "\<And>env ai. (env, ai) \<in> set us \<Longrightarrow> max_attempts env = Inr m" and "0 \<le> sint m" and "length us < 2 ^ 63"
  shows "count_list (connects (link_updates same us linker_New)) p \<le> nat (sint m) + 1"
  using assms by (intro link_updates_bound [where k = 0]) (auto simp: linker_New_def)

theorem link_attempts_bounded_witness:
  "count_list (connects (link_updates (\<lambda>_ _. False) (replicate 5 (\<lparr>can_stream = False, max_attempts = Inr 1,
     core_api = None, swarm_connect = Some ''refused''\<rparr>, ex_info ''p'')) linker_New)) ''p'' \<le> 2"
  using link_attempts_bounded [of "replicate 5 (\<lparr>can_stream = False, max_attempts = Inr 1,
     core_api = None, swarm_connect = Some ''refused''\<rparr>, ex_info ''p'')" 1 "\<lambda>_ _. False" "''p''"] by simp

section \<open>Pinning\<close>

text \<open>Asking for no pins locks the pinning for ever. \<open>Get\<close> on an empty set of pins returns without
  releasing its read lock: from then on \<open>Add\<close>, \<open>Set\<close> and \<open>Clear\<close> wait for ever, also
  after any further \<open>Get\<close>. The handler of the hash protocol makes this call, so one remote
  request to a node without pins has this effect; with pins present the lock is released.\<close>

theorem pin_get_empty_locks:
  "(pins p = [] \<longrightarrow> pin_Add x (fst (linkHashHandle p wr)) = Blocks
      \<and> pin_Set xs (fst (linkHashHandle p wr)) = Blocks \<and> pin_Clear (fst (linkHashHandle p wr)) = Blocks
      \<and> pin_Add x (fst (pin_Get (fst (linkHashHandle p wr)))) = Blocks
      \<and> sync_pins (x # xs) (fst (linkHashHandle p wr)) = Blocks)
   \<and> (pins p \<noteq> [] \<longrightarrow> fst (linkHashHandle p wr) = p)"
  by (auto simp: linkHashHandle_def pin_Get_def pin_Add_def pin_Set_def pin_Clear_def with_lock_def
      split: prod.splits)

theorem pin_get_empty_locks_witness:
  "pin_Add ''/ipfs/Qm'' (fst (linkHashHandle newPinning (\<lambda>_. False))) = Blocks"
proof -
  have "pins newPinning = []"
    by (simp add: newPinning_def pin_Resume_def)
  then show ?thesis
    using pin_get_empty_locks [of newPinning "''/ipfs/Qm''" "\<lambda>_. False" "[]"] by (elim conjE) (erule impE, assumption, elim conjE)
qed

text \<open>One turn of the pinning loop: the hash leaves the pool, and it is recorded as pinned exactly
  when it was not pinned recursively before and pinning it succeeded.\<close>

definition needs_pin :: "(string, string \<times> bool) result \<Rightarrow> bool" where
  "needs_pin r = (case r of Inl _ \<Rightarrow> False | Inr (typ, b) \<Rightarrow> \<not> (b \<and> typ = ''recursive''))"

lemma run_turn_records:
  assumes "readers p = 0"
  shows "\<exists>p'. run_turn x isPinned add p = Returns p' \<and> pool p' = remove1 x (pool p)
    \<and> set (pins p') = set (pins p) \<union> (if add = None \<and> needs_pin isPinned then {x} else {})"
proof (cases isPinned)
  case (Inr r)
  obtain t b where "r = (t, b)" by (cases r)
  with Inr assms show ?thesis
    by (cases b; cases "t = ''recursive''"; cases add)
      (simp_all add: run_turn_def needs_pin_def pin_Add_def with_lock_def Let_def)
qed (simp add: run_turn_def needs_pin_def Let_def)

text \<open>\<open>Pause\<close> has set the flag to false before it compares it with true, so it never cancels.\<close>

lemma pin_Pause_never_cancels: "cancelled (pin_Pause p) = cancelled p"
  by (simp add: pin_Pause_def)

text \<open>A hash that is handed over after the loop found the pool empty and before it is marked as
  stopped stays in the pool, and no loop is running.\<close>

lemma pin_lost_wakeup:
  assumes "running p" and "run_loops p = 1"
  shows "x \<in> set (pool (run_exit (pin_AddSync x p))) \<and> \<not> running (run_exit (pin_AddSync x p))
    \<and> run_loops (run_exit (pin_AddSync x p)) = 0"
  using assms by (simp add: run_exit_def pin_AddSync_def pin_Pause_def)

end
