(* ===== verification/Namesys.thy ===== *)
theory Namesys
  imports Prelude "HOL-Library.AList"
begin

text \<open>
  Resolving names: packages \<open>src/namesys\<close> (\<open>base.go\<close>, \<open>cache.go\<close>, the resolving half of
  \<open>namesys.go\<close>, \<open>dns.go\<close>, \<open>routing.go\<close>, \<open>proquint.go\<close>) and \<open>src/namesys/resolve\<close>.

  A resolver's \<open>resolveOnceAsync\<close> is the list of results it sends before it closes its
  channel. The recursive lookup \<open>resolveAsync\<close> selects between the channel of its own results
  and that of a lookup of the name it was led to, so it is an inductive relation: it relates a
  name to every list of results that can come out. A flag says whether the context may be
  cancelled; then the lookup may stop anywhere and a result may be dropped.
  The packages \<open>go-path\<close>, \<open>go-cid\<close>, \<open>go-ipns\<close>, \<open>peer\<close>, \<open>go-is-domain\<close>, \<open>proquint\<close>, the LRU
  cache, the DNS and the routing system are parameters. Times and durations are nanoseconds.
\<close>

section \<open>Recursive resolution (base.go)\<close>

datatype ns_error = ErrResolveFailed | ErrResolveRecursion | ErrNoNamesys | ErrMissingID string | ErrOther string

record onceResult =
  or_value :: string
  or_ttl :: int
  or_err :: "ns_error option"

type_synonym ns_result = "string \<times> ns_error option"

definition ipnsPrefix :: string where
  "ipnsPrefix = ''/ipns/''"

text \<open>\<open>emitResult\<close> and \<open>emitOnceResult\<close> send the result or, on a cancelled context, may drop it.\<close>

definition emitResult :: "bool \<Rightarrow> 'r \<Rightarrow> 'r list \<Rightarrow> 'r list \<Rightarrow> bool" where
  "emitResult cn r outs outs' \<longleftrightarrow> outs' = r # outs \<or> cn \<and> outs' = outs"

text \<open>
  The loop of \<open>resolveAsync\<close>: \<open>None\<close> is a nil channel, \<open>Some rs\<close> a channel on which \<open>rs\<close> is still to
  come before it is closed. A depth of 0 means no limit.
\<close>

inductive resolveAsync :: "(string \<Rightarrow> onceResult list \<Rightarrow> bool) \<Rightarrow> bool \<Rightarrow> nat \<Rightarrow> string \<Rightarrow> ns_result list \<Rightarrow> bool"
  and resolve_loop :: "(string \<Rightarrow> onceResult list \<Rightarrow> bool) \<Rightarrow> bool \<Rightarrow> nat \<Rightarrow> onceResult list option
    \<Rightarrow> ns_result list option \<Rightarrow> ns_result list \<Rightarrow> bool"
  for once :: "string \<Rightarrow> onceResult list \<Rightarrow> bool" and cn :: bool
where
  start: "once name rs \<Longrightarrow> resolve_loop once cn depth (Some rs) None outs
    \<Longrightarrow> resolveAsync once cn depth name outs"
| both_nil: "resolve_loop once cn depth None None []"
| res_closed: "resolve_loop once cn depth None sub outs \<Longrightarrow> resolve_loop once cn depth (Some []) sub outs"
| res_error: "or_err r = Some e \<Longrightarrow> emitResult cn ([], Some e) [] outs
    \<Longrightarrow> resolve_loop once cn depth (Some (r # rs)) sub outs"
| res_final: "or_err r = None \<Longrightarrow> \<not> has_prefix (or_value r) ipnsPrefix
    \<Longrightarrow> resolve_loop once cn depth (Some rs) sub outs \<Longrightarrow> emitResult cn (or_value r, None) outs outs'
    \<Longrightarrow> resolve_loop once cn depth (Some (r # rs)) sub outs'"
| res_limit: "or_err r = None \<Longrightarrow> has_prefix (or_value r) ipnsPrefix \<Longrightarrow> depth = 1
    \<Longrightarrow> resolve_loop once cn depth (Some rs) sub outs
    \<Longrightarrow> emitResult cn (or_value r, Some ErrResolveRecursion) outs outs'
    \<Longrightarrow> resolve_loop once cn depth (Some (r # rs)) sub outs'"
| res_recurse: "or_err r = None \<Longrightarrow> has_prefix (or_value r) ipnsPrefix \<Longrightarrow> depth \<noteq> 1
    \<Longrightarrow> resolveAsync once cn (if depth > 1 then depth - 1 else depth) (trim_prefix (or_value r) ipnsPrefix) subs
    \<Longrightarrow> resolve_loop once cn depth (Some rs) (Some subs) outs
    \<Longrightarrow> resolve_loop once cn depth (Some (r # rs)) sub outs"
| sub_result: "resolve_loop once cn depth res (Some subs) outs \<Longrightarrow> emitResult cn x outs outs'
    \<Longrightarrow> resolve_loop once cn depth res (Some (x # subs)) outs'"
| sub_closed: "resolve_loop once cn depth res None outs \<Longrightarrow> resolve_loop once cn depth res (Some []) outs"
| cancelled: "cn \<Longrightarrow> resolve_loop once cn depth res sub []"

text \<open>\<open>resolve\<close> keeps the last result, or stops at the first error.\<close>

fun resolve_last :: "ns_result \<Rightarrow> ns_result list \<Rightarrow> ns_result" where
  "resolve_last r [] = r"
| "resolve_last r (x # xs) = (if snd x \<noteq> None then x else resolve_last x xs)"

definition resolve :: "ns_result list \<Rightarrow> ns_result" where
  "resolve outs = resolve_last ([], Some ErrResolveFailed) outs"

section \<open>The cache of the name system (cache.go)\<close>

record cacheEntry =
  ce_val :: string
  ce_eol :: int

text \<open>The LRU cache: each operation also returns the cache, which remembers the order of use.\<close>

record 'c lru_ops =
  lru_Get :: "string \<Rightarrow> 'c \<Rightarrow> 'c \<times> cacheEntry option"
  lru_Add :: "string \<Rightarrow> cacheEntry \<Rightarrow> 'c \<Rightarrow> 'c"
  lru_Remove :: "string \<Rightarrow> 'c \<Rightarrow> 'c"

record 'c mpns =
  staticMap :: "string \<rightharpoonup> string"
  ns_cache :: "'c option"

definition cacheGet :: "'c lru_ops \<Rightarrow> int \<Rightarrow> string \<Rightarrow> 'c mpns \<Rightarrow> 'c mpns \<times> string option" where
  "cacheGet ops now name ns = (case staticMap ns name of
     Some v \<Rightarrow> (ns, Some v)
   | None \<Rightarrow> (case ns_cache ns of
       None \<Rightarrow> (ns, None)
     | Some c \<Rightarrow> (case lru_Get ops name c of
         (c', None) \<Rightarrow> (ns\<lparr>ns_cache := Some c'\<rparr>, None)
       | (c', Some entry) \<Rightarrow>
           if now < ce_eol entry then (ns\<lparr>ns_cache := Some c'\<rparr>, Some (ce_val entry))
           else (ns\<lparr>ns_cache := Some (lru_Remove ops name c')\<rparr>, None))))"

definition cacheSet :: "'c lru_ops \<Rightarrow> int \<Rightarrow> string \<Rightarrow> string \<Rightarrow> int \<Rightarrow> 'c mpns \<Rightarrow> 'c mpns" where
  "cacheSet ops now name v ttl ns = (case ns_cache ns of
     None \<Rightarrow> ns
   | Some c \<Rightarrow> if ttl \<le> 0 then ns
       else ns\<lparr>ns_cache := Some (lru_Add ops name \<lparr>ce_val = v, ce_eol = now + ttl\<rparr> c)\<rparr>)"

definition cacheInvalidate :: "'c lru_ops \<Rightarrow> string \<Rightarrow> 'c mpns \<Rightarrow> 'c mpns" where
  "cacheInvalidate ops name ns = (case ns_cache ns of
     None \<Rightarrow> ns | Some c \<Rightarrow> ns\<lparr>ns_cache := Some (lru_Remove ops name c)\<rparr>)"

section \<open>The name system (namesys.go)\<close>

record ns_env =
  parse_path :: "string \<Rightarrow> (ns_error, string) result"
  from_segments :: "string \<Rightarrow> string list \<Rightarrow> (ns_error, string) result"
  peer_decode :: "string \<Rightarrow> (string, string) result"
  cid_decode :: "string \<Rightarrow> (nat \<times> nat \<times> string) option"
  libp2p_key :: nat
  libp2p_cid :: "string \<Rightarrow> string"
  is_domain :: "string \<Rightarrow> bool"

text \<open>
  The environment variable \<open>IPFS_NS_MAP\<close>: a pair without a colon makes \<open>mapping[1]\<close> panic, which
  is the result \<open>None\<close>.
\<close>

fun ns_map_pairs :: "string list \<Rightarrow> (string \<rightharpoonup> string) \<Rightarrow> (string \<rightharpoonup> string) option" where
  "ns_map_pairs [] m = Some m"
| "ns_map_pairs (pair # ps) m = (case split_n 2 CHR '':'' pair of
     [k, v] \<Rightarrow> ns_map_pairs ps (m(k \<mapsto> v)) | _ \<Rightarrow> None)"

definition NewNameSystem :: "(nat \<Rightarrow> 'c) \<Rightarrow> string \<Rightarrow> int \<Rightarrow> 'c mpns option" where
  "NewNameSystem lru_New ns_map cachesize =
     map_option (\<lambda>m. \<lparr>staticMap = m,
        ns_cache = (if 0 < cachesize then Some (lru_New (nat cachesize)) else None)\<rparr>)
      (if ns_map \<noteq> [] then ns_map_pairs (split_all CHR '','' ns_map) Map.empty else Some Map.empty)"

definition once_value :: "int \<Rightarrow> (ns_error, string) result \<Rightarrow> onceResult" where
  "once_value ttl r = (case r of
     Inl e \<Rightarrow> \<lparr>or_value = [], or_ttl = ttl, or_err = Some e\<rparr>
   | Inr p \<Rightarrow> \<lparr>or_value = p, or_ttl = ttl, or_err = None\<rparr>)"

definition once_error :: "ns_error \<Rightarrow> onceResult" where
  "once_error e = \<lparr>or_value = [], or_ttl = 0, or_err = Some e\<rparr>"

definition once_zero :: onceResult where
  "once_zero = \<lparr>or_value = [], or_ttl = 0, or_err = None\<rparr>"

text \<open>Attaching the rest of the path, the fourth segment of the name.\<close>

definition attach_rest :: "ns_env \<Rightarrow> string list \<Rightarrow> string \<Rightarrow> (ns_error, string) result" where
  "attach_rest env segments p =
     from_segments env [] [trim_right p CHR ''/'', segments ! 3]"

definition mpns_emit :: "ns_env \<Rightarrow> string list \<Rightarrow> onceResult \<Rightarrow> onceResult" where
  "mpns_emit env segments r =
     (if 3 < length segments then once_value (or_ttl r) (attach_rest env segments (or_value r)) else r)"

text \<open>
  The forwarding goroutine: \<open>stop n\<close> says that the select at the \<open>n\<close>-th turn finds the context
  cancelled, \<open>lost n\<close> that the emit of that turn does. It returns what it sent and, when it saw the
  end of the channel, the best result.
\<close>

fun mpns_loop :: "ns_env \<Rightarrow> (nat \<Rightarrow> bool) \<Rightarrow> (nat \<Rightarrow> bool) \<Rightarrow> string list \<Rightarrow> nat \<Rightarrow> onceResult list \<Rightarrow> onceResult
    \<Rightarrow> onceResult list \<times> onceResult option" where
  "mpns_loop env stop lost segments n [] best = (if stop n then ([], None) else ([], Some best))"
| "mpns_loop env stop lost segments n (r # rs) best =
     (if stop n then ([], None)
      else let best' = (if or_err r = None then r else best);
               (outs, fin) = mpns_loop env stop lost segments (Suc n) rs best'
           in (if lost n then outs else mpns_emit env segments r # outs, fin))"

record resolvers =
  ipnsResolver :: "string \<Rightarrow> onceResult list"
  dnsResolver :: "string \<Rightarrow> onceResult list"
  proquintResolver :: "string \<Rightarrow> onceResult list"

definition codec_error :: "ns_env \<Rightarrow> string \<Rightarrow> ns_error option" where
  "codec_error env key = (case peer_decode env key of
     Inr _ \<Rightarrow> None
   | Inl e \<Rightarrow> if e = ''can't convert CID of type protobuf to a peer ID'' then
       (case cid_decode env key of
          None \<Rightarrow> None
        | Some (version, codec, h) \<Rightarrow>
            if version = 1 \<and> codec \<noteq> libp2p_key env
            then Some (ErrOther (''peer ID represented as CIDv1 require libp2p-key multicodec: retry with /ipns/''
              @ libp2p_cid env h))
            else None)
       else None)"

definition ns_segments :: "string \<Rightarrow> string list" where
  "ns_segments name =
     split_n 4 CHR ''/'' (if has_prefix name ipnsPrefix then name else ipnsPrefix @ name)"

definition cache_key :: "ns_env \<Rightarrow> string \<Rightarrow> string" where
  "cache_key env key = (case peer_decode env key of Inr ipnsKey \<Rightarrow> ipnsKey | Inl _ \<Rightarrow> key)"

definition select_resolver :: "ns_env \<Rightarrow> resolvers \<Rightarrow> string \<Rightarrow> (string \<Rightarrow> onceResult list)" where
  "select_resolver env rv key =
     (if is_ok (peer_decode env key) then ipnsResolver rv
      else if is_domain env key then dnsResolver rv else proquintResolver rv)"

text \<open>
  \<open>mpns.resolveOnceAsync\<close>: \<open>t1\<close> is the time of the look into the cache, \<open>t2\<close> that of the store at the
  end.
\<close>

definition mpns_once :: "ns_env \<Rightarrow> 'c lru_ops \<Rightarrow> resolvers \<Rightarrow> (nat \<Rightarrow> bool) \<Rightarrow> (nat \<Rightarrow> bool) \<Rightarrow> int \<Rightarrow> int \<Rightarrow> string
    \<Rightarrow> 'c mpns \<Rightarrow> 'c mpns \<times> onceResult list" where
  "mpns_once env ops rv stop lost t1 t2 name ns =
    (let segments = ns_segments name
     in if length segments < 3 \<or> segments ! 0 \<noteq> [] then (ns, [once_error ErrResolveFailed])
     else let key = segments ! 2 in
       case codec_error env key of
         Some e \<Rightarrow> (ns, [once_error e])
       | None \<Rightarrow>
         (case cacheGet ops t1 (cache_key env key) ns of
            (ns', Some p) \<Rightarrow> (ns', [mpns_emit env segments \<lparr>or_value = p, or_ttl = 0, or_err = None\<rparr>])
          | (ns', None) \<Rightarrow>
              (let (outs, fin) = mpns_loop env stop lost segments 0 (select_resolver env rv key key) once_zero
               in (case fin of
                     Some best \<Rightarrow> if best \<noteq> once_zero
                       then cacheSet ops t2 (cache_key env key) (or_value best) (or_ttl best) ns' else ns'
                   | None \<Rightarrow> ns', outs))))"

definition split_result :: "(ns_error, string) result \<Rightarrow> ns_result" where
  "split_result r = (case r of Inl e \<Rightarrow> ([], Some e) | Inr p \<Rightarrow> (p, None))"

text \<open>\<open>Resolve\<close> and \<open>ResolveAsync\<close>; \<open>outs\<close> is what the recursive resolution sends.\<close>

definition mpns_ResolveAsync :: "ns_env \<Rightarrow> string \<Rightarrow> ns_result list \<Rightarrow> ns_result list" where
  "mpns_ResolveAsync env name outs =
    (if has_prefix name ''/ipfs/'' then [split_result (parse_path env name)]
     else if \<not> has_prefix name ''/'' then [split_result (parse_path env (''/ipfs/'' @ name))]
     else outs)"

definition mpns_Resolve :: "ns_env \<Rightarrow> string \<Rightarrow> ns_result list \<Rightarrow> ns_result" where
  "mpns_Resolve env name outs =
    (if has_prefix name ''/ipfs/'' then split_result (parse_path env name)
     else if \<not> has_prefix name ''/'' then split_result (parse_path env (''/ipfs/'' @ name))
     else resolve outs)"

section \<open>The resolver of routing records (routing.go)\<close>

text \<open>The encoded records are of an abstract type \<open>'b\<close>.\<close>

record ipns_entry =
  en_value :: string
  en_seq :: "64 word"
  en_ttl :: "64 word option"
  en_validity :: string
  en_pubkey :: "string option"

datatype eol_result = NoEOL | Eol int | BadEOL ns_error

record 'b ipns_env =
  unmarshal :: "'b \<Rightarrow> (ns_error, ipns_entry) result"
  mh_path :: "string \<Rightarrow> string option"
  get_eol :: "ipns_entry \<Rightarrow> eol_result"
  record_key :: "string \<Rightarrow> string"

definition DefaultResolverCacheTTL :: int where
  "DefaultResolverCacheTTL = 60 * 10 ^ 9"

text \<open>\<open>time.Until\<close>: the difference as a 64-bit duration, saturating.\<close>

definition until :: "int \<Rightarrow> int \<Rightarrow> int" where
  "until now eol = max (- (2 ^ 63)) (min (2 ^ 63 - 1) (eol - now))"

text \<open>The TTL of the record is an unsigned field that is converted to the signed \<open>time.Duration\<close>.\<close>

definition record_ttl :: "int \<Rightarrow> ipns_entry \<Rightarrow> eol_result \<Rightarrow> (ns_error, int) result" where
  "record_ttl now entry eolr =
    (let ttl = (case en_ttl entry of Some t \<Rightarrow> sint t | None \<Rightarrow> DefaultResolverCacheTTL) in
     case eolr of
       NoEOL \<Rightarrow> Inr ttl
     | Eol eol \<Rightarrow> (let ttEol = until now eol in
         Inr (if ttEol < 0 then 0 else if ttEol < ttl then ttEol else ttl))
     | BadEOL e \<Rightarrow> Inl e)"

definition entry_path :: "ns_env \<Rightarrow> 'b ipns_env \<Rightarrow> ipns_entry \<Rightarrow> (ns_error, string) result" where
  "entry_path env ie entry = (case mh_path ie (en_value entry) of
     Some p \<Rightarrow> Inr p | None \<Rightarrow> parse_path env (en_value entry))"

definition ipns_turn :: "ns_env \<Rightarrow> 'b ipns_env \<Rightarrow> int \<Rightarrow> 'b \<Rightarrow> (ns_error, onceResult) result" where
  "ipns_turn env ie now v =
     bind_ok (unmarshal ie v) (\<lambda>entry.
     bind_ok (entry_path env ie entry) (\<lambda>p.
     bind_ok (record_ttl now entry (get_eol ie entry)) (\<lambda>ttl.
     Inr \<lparr>or_value = p, or_ttl = ttl, or_err = None\<rparr>)))"

fun ipns_loop :: "ns_env \<Rightarrow> 'b ipns_env \<Rightarrow> (nat \<Rightarrow> bool) \<Rightarrow> (nat \<Rightarrow> bool) \<Rightarrow> (nat \<Rightarrow> int) \<Rightarrow> nat \<Rightarrow> 'b list \<Rightarrow> onceResult list" where
  "ipns_loop env ie stop lost clock n [] = []"
| "ipns_loop env ie stop lost clock n (v # vs) =
     (if stop n then []
      else case ipns_turn env ie (clock n) v of
        Inl e \<Rightarrow> (if lost n then [] else [once_error e])
      | Inr r \<Rightarrow> (if lost n then [] else [r]) @ ipns_loop env ie stop lost clock (Suc n) vs)"

definition ipns_once :: "ns_env \<Rightarrow> 'b ipns_env \<Rightarrow> (string \<Rightarrow> (ns_error, 'b list) result) \<Rightarrow> (nat \<Rightarrow> bool) \<Rightarrow> (nat \<Rightarrow> bool)
    \<Rightarrow> (nat \<Rightarrow> int) \<Rightarrow> string \<Rightarrow> onceResult list" where
  "ipns_once env ie searchValue stop lost clock name0 =
    (let name = trim_prefix name0 ''/ipns/'' in
     case peer_decode env name of
       Inl e \<Rightarrow> [once_error (ErrOther e)]
     | Inr pid \<Rightarrow> (case searchValue (record_key ie pid) of
         Inl e \<Rightarrow> [once_error e]
       | Inr vals \<Rightarrow> ipns_loop env ie stop lost clock 0 vals))"

section \<open>The DNS resolver (dns.go)\<close>

definition tryParseDnsLink :: "ns_env \<Rightarrow> string \<Rightarrow> (ns_error, string) result" where
  "tryParseDnsLink env txt = (case split_n 2 CHR ''='' txt of
     [a, b] \<Rightarrow> if a = ''dnslink'' then parse_path env b else Inl (ErrOther ''not a valid dnslink entry'')
   | _ \<Rightarrow> Inl (ErrOther ''not a valid dnslink entry''))"

definition parseEntry :: "ns_env \<Rightarrow> (string \<Rightarrow> string option) \<Rightarrow> string \<Rightarrow> (ns_error, string) result" where
  "parseEntry env parse_cid txt = (case parse_cid txt of Some p \<Rightarrow> Inr p | None \<Rightarrow> tryParseDnsLink env txt)"

fun first_entry :: "ns_env \<Rightarrow> (string \<Rightarrow> string option) \<Rightarrow> string list \<Rightarrow> (ns_error, string) result" where
  "first_entry env parse_cid [] = Inl ErrResolveFailed"
| "first_entry env parse_cid (t # ts) = (case parseEntry env parse_cid t of
     Inr p \<Rightarrow> Inr p | Inl _ \<Rightarrow> first_entry env parse_cid ts)"

definition workDomain :: "ns_env \<Rightarrow> (string \<Rightarrow> string option) \<Rightarrow> (string \<Rightarrow> (ns_error, string list) result) \<Rightarrow> string
    \<Rightarrow> (ns_error, string) result" where
  "workDomain env parse_cid lookupTXT name = bind_ok (lookupTXT name) (first_entry env parse_cid)"

definition dns_fqdn :: "string \<Rightarrow> string" where
  "dns_fqdn domain =
    (let fqdn = (if has_suffix domain ''.'' then domain else domain @ ''.'')
     in if has_suffix fqdn ''.eth.'' then fqdn @ ''link.'' else fqdn)"

definition append_path :: "ns_env \<Rightarrow> string list \<Rightarrow> string \<Rightarrow> onceResult" where
  "append_path env segments p =
    (if 1 < length segments
     then once_value 0 (from_segments env [] [trim_right p CHR ''/'', segments ! 1])
     else once_value 0 (Inr p))"

text \<open>The select loop over the two lookups; a channel delivers its result and is then closed.\<close>

inductive dns_loop :: "bool \<Rightarrow> (string \<Rightarrow> onceResult) \<Rightarrow> (ns_error, string) result list option
    \<Rightarrow> (ns_error, string) result list option \<Rightarrow> onceResult list \<Rightarrow> bool"
  for cn :: bool and app :: "string \<Rightarrow> onceResult"
where
  both_nil: "dns_loop cn app None None []"
| sub_closed: "dns_loop cn app None root outs \<Longrightarrow> dns_loop cn app (Some []) root outs"
| sub_ok: "emitResult cn (app p) [] outs \<Longrightarrow> dns_loop cn app (Some (Inr p # ss)) root outs"
| sub_failed: "dns_loop cn app (Some ss) root outs \<Longrightarrow> dns_loop cn app (Some (Inl e # ss)) root outs"
| root_closed: "dns_loop cn app sub None outs \<Longrightarrow> dns_loop cn app sub (Some []) outs"
| root_ok: "dns_loop cn app sub (Some rs) outs \<Longrightarrow> emitResult cn (app p) outs outs'
    \<Longrightarrow> dns_loop cn app sub (Some (Inr p # rs)) outs'"
| root_failed: "dns_loop cn app sub (Some rs) outs \<Longrightarrow> dns_loop cn app sub (Some (Inl e # rs)) outs"
| cancelled: "cn \<Longrightarrow> dns_loop cn app sub root []"

definition dns_once :: "ns_env \<Rightarrow> (string \<Rightarrow> string option) \<Rightarrow> (string \<Rightarrow> (ns_error, string list) result) \<Rightarrow> bool
    \<Rightarrow> string \<Rightarrow> onceResult list \<Rightarrow> bool" where
  "dns_once env parse_cid lookupTXT cn name outs =
    (let segments = split_n 2 CHR ''/'' name; domain = segments ! 0 in
     if \<not> is_domain env domain then outs = [once_error (ErrOther ''not a valid domain name'')]
     else dns_loop cn (append_path env segments)
       (Some [workDomain env parse_cid lookupTXT (''_dnslink.'' @ dns_fqdn domain)])
       (Some [workDomain env parse_cid lookupTXT (dns_fqdn domain)]) outs)"

section \<open>The proquint resolver (proquint.go) and ResolveIPNS (resolve/resolve.go)\<close>

definition proquint_once :: "(string \<Rightarrow> (string, bool) result) \<Rightarrow> (string \<Rightarrow> string) \<Rightarrow> string \<Rightarrow> onceResult list" where
  "proquint_once isProquint decode name =
    (if isProquint name = Inr True then [once_value 0 (Inr (decode name))]
     else [once_error (ErrOther ''not a valid proquint string'')])"

text \<open>The name system is \<open>None\<close> when it is nil; the segments of a path are \<open>path.Segments\<close>.\<close>

definition ResolveIPNS :: "ns_env \<Rightarrow> (string \<Rightarrow> string list) \<Rightarrow> (string \<Rightarrow> ns_result) option \<Rightarrow> string \<Rightarrow> ns_result" where
  "ResolveIPNS env segs nsys p =
    (if has_prefix p ''/ipns/'' then
       (case nsys of
          None \<Rightarrow> ([], Some ErrNoNamesys)
        | Some res \<Rightarrow>
            let seg = segs p in
            if length seg < 2 \<or> seg ! 1 = []
            then ([], Some (ErrMissingID p))
            else (case from_segments env ''/'' [seg ! 0, seg ! 1] of
                Inl e \<Rightarrow> ([], Some e)
              | Inr resolvable \<Rightarrow> (case res resolvable of
                  (_, Some e) \<Rightarrow> ([], Some e)
                | (respath, None) \<Rightarrow> split_result (from_segments env ''/'' (segs respath @ drop 2 seg)))))
     else (p, None))"

section \<open>What recursive resolution returns\<close>

inductive_simps loop_nil_nil [simp]: "resolve_loop once False d None None outs"
inductive_simps loop_closed_nil [simp]: "resolve_loop once False d (Some []) None outs"
inductive_simps loop_sub [simp]:
  "resolve_loop once False d None (Some []) outs"
  "resolve_loop once False d None (Some (x # subs)) outs"
  "resolve_loop once False d (Some []) (Some []) outs"
  "resolve_loop once False d (Some []) (Some (x # subs)) outs"
inductive_simps loop_one: "resolve_loop once False d (Some [r]) None outs"

lemma emitResult_always [simp]: "emitResult False r outs outs' \<longleftrightarrow> outs' = r # outs"
  by (simp add: emitResult_def)

definition result_ok :: "ns_result \<Rightarrow> bool" where
  "result_ok r = (snd r = None \<longrightarrow> \<not> has_prefix (fst r) ipnsPrefix)"

lemma result_ok_simps [simp]:
  "result_ok (p, None) \<longleftrightarrow> \<not> has_prefix p ipnsPrefix" "result_ok (p, Some e)"
  by (simp_all add: result_ok_def)

lemma async_results_ok:
  "resolveAsync once cn d name outs \<Longrightarrow> \<forall>r \<in> set outs. result_ok r"
  "resolve_loop once cn d res sub outs
     \<Longrightarrow> (\<forall>subs. sub = Some subs \<longrightarrow> (\<forall>r \<in> set subs. result_ok r)) \<longrightarrow> (\<forall>r \<in> set outs. result_ok r)"
  by (induction rule: resolveAsync_resolve_loop.inducts)
    (auto simp: emitResult_def)

lemma resolve_last_in: "resolve_last r outs = r \<or> resolve_last r outs \<in> set outs"
  by (induction r outs rule: resolve_last.induct) auto

text \<open>C25: resolution is complete. Whatever the resolver sends and however the channels interleave, also under
  cancellation, a path that \<open>resolve\<close> returns without an error is never again an \<open>/ipns/\<close> name; without
  any result it reports \<open>ErrResolveFailed\<close>.\<close>

theorem resolve_complete:
  assumes "resolveAsync once cn depth name outs" and "resolve outs = (p, None)"
  shows "\<not> has_prefix p ipnsPrefix \<and> (p, None) \<in> set outs"
proof -
  have "(p, None) \<in> set outs"
    using resolve_last_in [of "([], Some ErrResolveFailed)" outs] assms(2) by (auto simp: resolve_def)
  then show ?thesis
    using async_results_ok(1) [OF assms(1)] by (auto simp: result_ok_def)
qed

text \<open>A chain of names: each leads to the next, and the last to something else.\<close>

definition name_chain :: "(string \<Rightarrow> onceResult) \<Rightarrow> (nat \<Rightarrow> string) \<Rightarrow> nat \<Rightarrow> bool" where
  "name_chain r nm k \<longleftrightarrow>
     (\<forall>i < k. or_err (r (nm i)) = None \<and> or_value (r (nm i)) = ipnsPrefix @ nm (Suc i))
     \<and> (or_err (r (nm k)) = None \<longrightarrow> \<not> has_prefix (or_value (r (nm k))) ipnsPrefix)"

definition chain_result :: "(string \<Rightarrow> onceResult) \<Rightarrow> (nat \<Rightarrow> string) \<Rightarrow> nat \<Rightarrow> nat \<Rightarrow> ns_result" where
  "chain_result r nm k depth =
    (if depth = 0 \<or> k < depth
     then (case or_err (r (nm k)) of Some e \<Rightarrow> ([], Some e) | None \<Rightarrow> (or_value (r (nm k)), None))
     else (ipnsPrefix @ nm depth, Some ErrResolveRecursion))"

lemma loop_sub_single:
  "resolve_loop once False d None (Some [x]) outs \<longleftrightarrow> outs = [x]"
  "resolve_loop once False d (Some []) (Some [x]) outs \<longleftrightarrow> outs = [x]"
  by auto

lemma async_single:
  "resolveAsync (\<lambda>n rs. rs = [r n]) False d name outs
     \<longleftrightarrow> resolve_loop (\<lambda>n rs. rs = [r n]) False d (Some [r name]) None outs"
  by (subst resolveAsync.simps) simp

lemma resolve_chain_async:
  assumes "name_chain r nm k"
  shows "resolveAsync (\<lambda>n rs. rs = [r n]) False depth (nm 0) outs \<longleftrightarrow> outs = [chain_result r nm k depth]"
  using assms
proof (induction k arbitrary: nm depth outs)
  case 0
  then show ?case
    by (cases "or_err (r (nm 0))")
      (auto simp: async_single [of r depth "nm 0"] loop_one name_chain_def chain_result_def)
next
  case (Suc k)
  let ?d = "if depth > 1 then depth - 1 else depth"
  have tail: "name_chain r (\<lambda>i. nm (Suc i)) k"
    using Suc.prems by (auto simp: name_chain_def)
  have head: "or_err (r (nm 0)) = None" "or_value (r (nm 0)) = ipnsPrefix @ nm (Suc 0)"
    using Suc.prems by (auto simp: name_chain_def)
  show ?case
  proof (cases "depth = 1")
    case True
    then show ?thesis
      using head by (simp add: async_single [of r "Suc 0" "nm 0"] loop_one chain_result_def)
  next
    case False
    have "chain_result r (\<lambda>i. nm (Suc i)) k ?d = chain_result r nm (Suc k) depth"
      using False by (cases depth) (auto simp: chain_result_def)
    then show ?thesis
      using False head Suc.IH [OF tail, of ?d]
      by (simp add: async_single [of r depth "nm 0"] loop_one loop_sub_single)
  qed
qed

text \<open>C8: the depth limit counts names. If every name on a chain has one record, the recursive lookup ends
  with exactly one result: that of the last name when the chain of \<open>k\<close> redirections is shorter than
  the limit or the limit is 0, and otherwise \<open>ErrResolveRecursion\<close> with the name it stopped at.\<close>

theorem resolve_chain:
  assumes "name_chain r nm k"
  shows "(\<exists>outs. resolveAsync (\<lambda>n rs. rs = [r n]) False depth (nm 0) outs)
    \<and> (resolveAsync (\<lambda>n rs. rs = [r n]) False depth (nm 0) outs \<longrightarrow> resolve outs = chain_result r nm k depth)"
  using resolve_chain_async [OF assms, of depth] by (auto simp: resolve_def)

definition ex_chain :: "string \<Rightarrow> onceResult" where
  "ex_chain n = (if n = ''b'' then once_value 0 (Inr ''/ipfs/Qm'') else once_value 0 (Inr ''/ipns/b''))"

theorem resolve_chain_witness:
  "resolveAsync (\<lambda>n rs. rs = [ex_chain n]) False 2 ''a'' [(''/ipfs/Qm'', None)]
   \<and> resolve [(''/ipns/b'', Some ErrResolveRecursion)] = chain_result ex_chain (\<lambda>i. if i = 0 then ''a'' else ''b'') 1 1"
proof -
  let ?nm = "\<lambda>i. if i = (0::nat) then ''a'' else ''b''"
  have ch: "name_chain ex_chain ?nm 1"
    by (simp add: name_chain_def ex_chain_def once_value_def ipnsPrefix_def has_prefix_def)
  obtain outs where "resolveAsync (\<lambda>n rs. rs = [ex_chain n]) False 2 (?nm 0) outs"
    using resolve_chain [OF ch, of 2] by blast
  moreover have "outs = [(''/ipfs/Qm'', None)]"
    using calculation resolve_chain_async [OF ch, of 2 outs]
    by (simp add: chain_result_def ex_chain_def once_value_def)
  moreover have "resolveAsync (\<lambda>n rs. rs = [ex_chain n]) False 1 (?nm 0) [(''/ipns/b'', Some ErrResolveRecursion)]"
    using resolve_chain_async [OF ch, of 1] by (simp add: chain_result_def ipnsPrefix_def)
  ultimately show ?thesis
    using resolve_chain [OF ch, of 1] by auto
qed

theorem resolve_complete_witness:
  "\<not> has_prefix ''/ipfs/Qm'' ipnsPrefix \<and> (''/ipfs/Qm'', None) \<in> set [(''/ipfs/Qm'', None :: ns_error option)]"
proof (rule resolve_complete)
  show "resolveAsync (\<lambda>n rs. rs = [ex_chain n]) False 0 ''b'' [(''/ipfs/Qm'', None)]"
    using resolve_chain_async [of ex_chain "\<lambda>_. ''b''" 0 0]
    by (simp add: name_chain_def chain_result_def ex_chain_def once_value_def ipnsPrefix_def has_prefix_def)
qed (simp add: resolve_def)

text \<open>
  A final record that follows a redirecting one does not cancel the lookup the redirection started:
  that lookup's result still comes out afterwards and is the one \<open>resolve\<close> returns.
\<close>

definition ex_stale :: "string \<Rightarrow> onceResult list" where
  "ex_stale n = (if n = ''old'' then [once_value 0 (Inr ''/ipfs/stale'')]
     else [once_value 0 (Inr ''/ipns/old''), once_value 0 (Inr ''/ipfs/new'')])"

text \<open>A newer record can lose. When a name first yields a redirection and then, as its better record, a
  final path, the result of the abandoned redirection can come out last, and \<open>resolve\<close> then returns
  it instead of the better one.\<close>

theorem resolve_stale_redirection:
  "\<exists>outs. resolveAsync (\<lambda>n rs. rs = ex_stale n) False 32 ''name'' outs
     \<and> resolve outs = (''/ipfs/stale'', None) \<and> outs = [(''/ipfs/new'', None), (''/ipfs/stale'', None)]"
proof -
  let ?once = "\<lambda>n rs. rs = ex_stale n"
  let ?s = "(''/ipfs/stale'', None :: ns_error option)" and ?n = "(''/ipfs/new'', None :: ns_error option)"
  have defs: "ex_stale ''old'' = [once_value 0 (Inr ''/ipfs/stale'')]"
    "ex_stale ''name'' = [once_value 0 (Inr ''/ipns/old''), once_value 0 (Inr ''/ipfs/new'')]"
    by (simp_all add: ex_stale_def)
  have sub: "resolveAsync ?once False 31 ''old'' [?s]"
    by (rule resolveAsync_resolve_loop.start [OF refl])
      (simp add: defs loop_one once_value_def ipnsPrefix_def has_prefix_def)
  have new: "resolve_loop ?once False 32 (Some [once_value 0 (Inr ''/ipfs/new'')]) (Some [?s]) [?n, ?s]"
    by (rule res_final [where outs = "[?s]"]) (simp_all add: once_value_def ipnsPrefix_def has_prefix_def)
  have "resolve_loop ?once False 32 (Some (ex_stale ''name'')) None [?n, ?s]"
    unfolding defs
    by (rule res_recurse [where subs = "[?s]", OF _ _ _ _ new])
      (insert sub, simp_all add: once_value_def ipnsPrefix_def has_prefix_def trim_prefix_def)
  then have "resolveAsync ?once False 32 ''name'' [?n, ?s]"
    by (rule resolveAsync_resolve_loop.start [OF refl])
  then show ?thesis
    by (intro exI [of _ "[?n, ?s]"]) (simp add: resolve_def)
qed

section \<open>The cache serves what was resolved\<close>

text \<open>
  What the name system relies on of the LRU cache: an added entry is there until entries are evicted,
  and nothing appears by itself.
\<close>

definition lru_laws :: "'c lru_ops \<Rightarrow> ('c \<Rightarrow> string \<rightharpoonup> cacheEntry) \<Rightarrow> bool" where
  "lru_laws ops view \<longleftrightarrow>
     (\<forall>k c. snd (lru_Get ops k c) = view c k \<and> view (fst (lru_Get ops k c)) = view c)
   \<and> (\<forall>k e c. view (lru_Add ops k e c) k = Some e \<and> view (lru_Add ops k e c) \<subseteq>\<^sub>m (view c)(k \<mapsto> e))
   \<and> (\<forall>k c. view (lru_Remove ops k c) = (view c)(k := None))"

text \<open>A cache of two entries.\<close>

definition pair_lru :: "(string \<times> cacheEntry) list lru_ops" where
  "pair_lru = \<lparr>lru_Get = (\<lambda>k c. (c, map_of c k)),
     lru_Add = (\<lambda>k e c. take 2 ((k, e) # AList.delete k c)),
     lru_Remove = (\<lambda>k c. AList.delete k c)\<rparr>"

lemma map_of_take_le: "map_of (take n xs) \<subseteq>\<^sub>m map_of xs"
  by (metis append_take_drop_id map_le_map_add map_of_append)

lemma pair_lru_laws: "lru_laws pair_lru map_of"
proof -
  have "map_of (take 2 ((k, e) # AList.delete k c)) \<subseteq>\<^sub>m (map_of c)(k \<mapsto> e)"
    for k :: string and e :: cacheEntry and c
    using map_of_take_le [of 2 "(k, e) # AList.delete k c"]
    by (simp add: AList.delete_conv')
  then show ?thesis
    by (simp add: lru_laws_def pair_lru_def AList.delete_conv')
qed

lemma cacheGet_hit:
  assumes "lru_laws ops view"
  shows "snd (cacheGet ops now k ns) = Some v \<longleftrightarrow>
    (case staticMap ns k of Some w \<Rightarrow> w = v
     | None \<Rightarrow> (\<exists>c e. ns_cache ns = Some c \<and> view c k = Some e \<and> now < ce_eol e \<and> ce_val e = v))"
proof (cases "staticMap ns k")
  case None
  show ?thesis
  proof (cases "ns_cache ns")
    case (Some c)
    obtain c' r where g: "lru_Get ops k c = (c', r)"
      by fastforce
    then have r: "view c k = r"
      using assms by (metis lru_laws_def snd_conv)
    show ?thesis
      by (cases r) (auto simp: cacheGet_def None Some g r)
  qed (simp add: cacheGet_def None)
qed (simp add: cacheGet_def)

lemma ns_segments_shape:
  "2 < length (ns_segments name) \<and> ns_segments name ! 0 = [] \<and> ns_segments name ! 1 = ''ipns''"
proof -
  obtain r where "(if has_prefix name ipnsPrefix then name else ipnsPrefix @ name) = ''/ipns/'' @ r"
    by (metis has_prefix_conv ipnsPrefix_def)
  then show ?thesis
    by (simp add: ns_segments_def eval_nat_numeral)
qed

definition best_result :: "onceResult list \<Rightarrow> onceResult \<Rightarrow> onceResult" where
  "best_result rs b = fold (\<lambda>r b. if or_err r = None then r else b) rs b"

lemma mpns_loop_uncancelled:
  "mpns_loop env (\<lambda>_. False) (\<lambda>_. False) segs n rs b = (map (mpns_emit env segs) rs, Some (best_result rs b))"
  by (induction rs arbitrary: n b) (simp_all add: best_result_def)

lemma cacheGet_miss:
  assumes "lru_laws ops view" and "snd (cacheGet ops now k ns) = None" and "ns_cache ns = Some c"
  shows "staticMap ns k = None
    \<and> (\<exists>c'. fst (cacheGet ops now k ns) = ns\<lparr>ns_cache := Some c'\<rparr>)"
  using assms(2,3) by (auto simp: cacheGet_def split: option.splits prod.splits if_splits)

lemma mpns_once_hit:
  assumes "codec_error env (ns_segments name ! 2) = None"
    and "snd (cacheGet ops t1 (cache_key env (ns_segments name ! 2)) ns) = Some p"
  shows "snd (mpns_once env ops rv stop lost t1 t2 name ns)
    = [mpns_emit env (ns_segments name) \<lparr>or_value = p, or_ttl = 0, or_err = None\<rparr>]"
  using assms ns_segments_shape [of name]
  by (auto simp: mpns_once_def Let_def split: prod.splits option.splits)

lemma mpns_once_miss:
  assumes "codec_error env (ns_segments name ! 2) = None"
    and "snd (cacheGet ops t1 (cache_key env (ns_segments name ! 2)) ns) = None"
  shows "snd (mpns_once env ops rv stop lost t1 t2 name ns)
    = fst (mpns_loop env stop lost (ns_segments name) 0
        (select_resolver env rv (ns_segments name ! 2) (ns_segments name ! 2)) once_zero)"
  using assms ns_segments_shape [of name]
  by (auto simp: mpns_once_def Let_def split: prod.splits option.splits)

lemma mpns_once_stores:
  assumes "lru_laws ops view" and "ns_cache ns = Some c"
    and "codec_error env (ns_segments name ! 2) = None"
    and k: "k = cache_key env (ns_segments name ! 2)"
    and "snd (cacheGet ops t1 k ns) = None"
    and best: "best = best_result (select_resolver env rv (ns_segments name ! 2) (ns_segments name ! 2)) once_zero"
    and "0 < or_ttl best"
  shows "\<exists>c'. fst (mpns_once env ops rv (\<lambda>_. False) (\<lambda>_. False) t1 t2 name ns) = ns\<lparr>ns_cache := Some c'\<rparr>
    \<and> view c' k = Some \<lparr>ce_val = or_value best, ce_eol = t2 + or_ttl best\<rparr> \<and> staticMap ns k = None"
proof -
  obtain c1 where g: "cacheGet ops t1 k ns = (ns\<lparr>ns_cache := Some c1\<rparr>, None)" and "staticMap ns k = None"
    using cacheGet_miss [OF assms(1,5,2)] assms(5) by (metis prod.collapse)
  let ?e = "\<lparr>ce_val = or_value best, ce_eol = t2 + or_ttl best\<rparr>"
  have "best \<noteq> once_zero"
    using assms(7) by (auto simp: once_zero_def)
  then have "fst (mpns_once env ops rv (\<lambda>_. False) (\<lambda>_. False) t1 t2 name ns)
      = ns\<lparr>ns_cache := Some (lru_Add ops k ?e c1)\<rparr>"
    using assms(3,7) g ns_segments_shape [of name]
    by (simp add: mpns_once_def Let_def mpns_loop_uncancelled cacheSet_def flip: k best)
  moreover have "view (lru_Add ops k ?e c1) k = Some ?e"
    using assms(1) by (simp add: lru_laws_def)
  ultimately show ?thesis
    using \<open>staticMap ns k = None\<close> by blast
qed

text \<open>C19: the cache serves what was resolved. After an uncancelled resolution of one name that found nothing
  in the cache, and in every later state of the name system in which the cache still has the entry of the
  name's key or has evicted it, any name with the same key is answered, with its own path attached, from the best
  (last error-free) result while the entry is there and the time to live of that result is not over, whatever the network would
  answer; else the resolver is asked again. The time to live, which is positive, is taken as it is, however long.\<close>

theorem namesys_cache_serves:
  assumes "lru_laws ops view" and "ns_cache ns = Some c"
    and "codec_error env (ns_segments name ! 2) = None" and "codec_error env (ns_segments name' ! 2) = None"
    and "k = cache_key env (ns_segments name ! 2)" and "k = cache_key env (ns_segments name' ! 2)"
    and "snd (cacheGet ops t1 k ns) = None"
    and "best = best_result (select_resolver env rv (ns_segments name ! 2) (ns_segments name ! 2)) once_zero"
    and "0 < or_ttl best"
    and "ns' = fst (mpns_once env ops rv (\<lambda>_. False) (\<lambda>_. False) t1 t2 name ns)"
    and "staticMap later = staticMap ns'" and "ns_cache later = Some c2" and "view c2 k \<in> {None, view (the (ns_cache ns')) k}"
  shows "snd (mpns_once env ops rv' stop lost t3 t4 name' later) =
    (if view c2 k \<noteq> None \<and> t3 < t2 + or_ttl best
     then [mpns_emit env (ns_segments name') \<lparr>or_value = or_value best, or_ttl = 0, or_err = None\<rparr>]
     else fst (mpns_loop env stop lost (ns_segments name') 0
       (select_resolver env rv' (ns_segments name' ! 2) (ns_segments name' ! 2)) once_zero))"
proof -
  obtain c' where ns': "ns' = ns\<lparr>ns_cache := Some c'\<rparr>"
    and v: "view c' k = Some \<lparr>ce_val = or_value best, ce_eol = t2 + or_ttl best\<rparr>" "staticMap ns k = None"
    using mpns_once_stores [OF assms(1,2,3,5,7,8,9), of t2] assms(10) by auto
  have hit: "snd (cacheGet ops t3 k later) = Some p \<longleftrightarrow> view c2 k \<noteq> None \<and> t3 < t2 + or_ttl best \<and> p = or_value best" for p
    using cacheGet_hit [OF assms(1), of t3 k later p] ns' v assms(11-13) by auto
  show ?thesis
  proof (cases "view c2 k \<noteq> None \<and> t3 < t2 + or_ttl best")
    case True
    then have "snd (cacheGet ops t3 (cache_key env (ns_segments name' ! 2)) later) = Some (or_value best)"
      using hit assms(6) by simp
    then show ?thesis
      using mpns_once_hit [OF assms(4)] True by simp
  next
    case False
    then have "snd (cacheGet ops t3 k later) = None"
      using hit by (metis not_Some_eq)
    then show ?thesis
      using mpns_once_miss [OF assms(4)] False assms(6) by auto
  qed
qed

text \<open>A setting to try the statements in: paths are joined and every name is a domain.\<close>

definition ex_env :: ns_env where
  "ex_env = \<lparr>parse_path = Inr, from_segments = (\<lambda>p ss. Inr (p @ join ''/'' ss)),
     peer_decode = (\<lambda>s. Inl ''no peer''), cid_decode = (\<lambda>_. None), libp2p_key = 114,
     libp2p_cid = (\<lambda>h. h), is_domain = (\<lambda>_. True)\<rparr>"

definition ex_resolvers :: "onceResult list \<Rightarrow> resolvers" where
  "ex_resolvers rs = \<lparr>ipnsResolver = (\<lambda>_. rs), dnsResolver = (\<lambda>_. rs), proquintResolver = (\<lambda>_. rs)\<rparr>"

definition ex_ns :: "(string \<times> cacheEntry) list mpns" where
  "ex_ns = \<lparr>staticMap = Map.empty, ns_cache = Some []\<rparr>"

theorem namesys_cache_serves_witness:
  "snd (mpns_once ex_env pair_lru (ex_resolvers []) (\<lambda>_. False) (\<lambda>_. False) 20 30 ''/ipns/x.y/b''
     (fst (mpns_once ex_env pair_lru (ex_resolvers [once_value 10 (Inr ''/ipfs/Qm'')]) (\<lambda>_. False) (\<lambda>_. False)
        5 11 ''/ipns/x.y/a'' ex_ns)))
   = [once_value 0 (Inr ''/ipfs/Qm/b'')]"
proof -
  have segs: "ns_segments ''/ipns/x.y/a'' = [[], ''ipns'', ''x.y'', ''a'']"
    "ns_segments ''/ipns/x.y/b'' = [[], ''ipns'', ''x.y'', ''b'']"
    by code_simp+
  have time: "(20::int) < 11 + 10"
    by simp
  let ?ns = "\<lparr>staticMap = Map.empty, ns_cache = Some [(''x.y'', \<lparr>ce_val = ''/ipfs/Qm'', ce_eol = 21\<rparr>)]\<rparr>"
  have run: "fst (mpns_once ex_env pair_lru (ex_resolvers [once_value 10 (Inr ''/ipfs/Qm'')]) (\<lambda>_. False) (\<lambda>_. False) 5 11 ''/ipns/x.y/a'' ex_ns) = ?ns"
    by (simp add: mpns_once_def segs ex_ns_def codec_error_def ex_env_def cache_key_def cacheGet_def cacheSet_def pair_lru_def
        select_resolver_def ex_resolvers_def once_value_def once_zero_def Let_def eval_nat_numeral)
  show ?thesis
    by (subst namesys_cache_serves [OF pair_lru_laws, where k = "''x.y''" and best = "once_value 10 (Inr ''/ipfs/Qm'')"
          and ns = ex_ns and c = "[]" and name = "''/ipns/x.y/a''" and ?rv = "ex_resolvers [once_value 10 (Inr ''/ipfs/Qm'')]"
          and ?t1.0 = 5 and ?t2.0 = 11 and ns' = ?ns and ?c2.0 = "[(''x.y'', \<lparr>ce_val = ''/ipfs/Qm'', ce_eol = 21\<rparr>)]"])
      (simp_all only: segs run nth_Cons_numeral nth_Cons_0, simp_all add: time ex_ns_def codec_error_def ex_env_def
        cache_key_def cacheGet_def pair_lru_def best_result_def select_resolver_def ex_resolvers_def
        once_value_def mpns_emit_def attach_rest_def trim_right_def)
qed

text \<open>A failed name can resolve. When a name has a path behind its key, the error of the resolver is
  overwritten by that of attaching the path to the empty value: \<open>/ipns/<key>/ipfs/<cid>\<close> then
  yields \<open>/ipfs/<cid>\<close> without an error although the key cannot be resolved. Of \<open>FromSegments\<close>
  it is assumed that it joins its arguments and parses the result.\<close>

theorem namesys_error_overwritten:
  assumes "\<And>a b. from_segments env [] [a, b] = parse_path env (a @ ''/'' @ b)"
    and "parse_path env (''/ipfs/'' @ x) = Inr (''/ipfs/'' @ x)" and "or_value r = []"
    and "segments = [[], ''ipns'', key, ''ipfs/'' @ x]"
  shows "mpns_loop env (\<lambda>_. False) (\<lambda>_. False) segments 0 [r] once_zero
    = ([once_value (or_ttl r) (Inr (''/ipfs/'' @ x))], Some (if or_err r = None then r else once_zero))"
  using assms
  by (simp add: mpns_emit_def attach_rest_def trim_right_def)

theorem namesys_error_overwritten_witness:
  "fst (mpns_loop ex_env (\<lambda>_. False) (\<lambda>_. False) [[], ''ipns'', ''x.y'', ''ipfs/Qm''] 0 [once_error ErrResolveFailed] once_zero)
   = [once_value 0 (Inr ''/ipfs/Qm'')]"
  using namesys_error_overwritten [of ex_env "''Qm''" "once_error ErrResolveFailed" _ "''x.y''"]
  by (simp add: ex_env_def once_error_def)

section \<open>DNS and routing records\<close>

inductive_simps dns_loop_simps [simp]:
  "dns_loop False app None None outs"
  "dns_loop False app None (Some []) outs"
  "dns_loop False app None (Some (Inr p # rs)) outs"
  "dns_loop False app None (Some (Inl e # rs)) outs"
  "dns_loop False app (Some []) None outs"
  "dns_loop False app (Some []) (Some []) outs"
  "dns_loop False app (Some []) (Some (Inr p # rs)) outs"
  "dns_loop False app (Some []) (Some (Inl e # rs)) outs"
  "dns_loop False app (Some (Inr p # ss)) None outs"
  "dns_loop False app (Some (Inl e # ss)) None outs"
  "dns_loop False app (Some (Inr p # ss)) (Some []) outs"
  "dns_loop False app (Some (Inl e # ss)) (Some []) outs"
  "dns_loop False app (Some (Inr p # ss)) (Some (Inr q # rs)) outs"
  "dns_loop False app (Some (Inr p # ss)) (Some (Inl e # rs)) outs"
  "dns_loop False app (Some (Inl e # ss)) (Some (Inr q # rs)) outs"
  "dns_loop False app (Some (Inl e # ss)) (Some (Inl e' # rs)) outs"

text \<open>The \<open>_dnslink\<close> record wins. However the two lookups of a domain interleave, the last result is the
  one of \<open>_dnslink.<domain>\<close> when that lookup succeeds, preceded by at most the one of the domain
  itself; when it fails, the result is that of the domain, if any.\<close>

theorem dns_prefers_dnslink:
  assumes "is_domain env (split_n 2 CHR ''/'' name ! 0)"
    and "sub = workDomain env pc lookup (''_dnslink.'' @ dns_fqdn (split_n 2 CHR ''/'' name ! 0))"
    and "root = workDomain env pc lookup (dns_fqdn (split_n 2 CHR ''/'' name ! 0))"
    and "app = append_path env (split_n 2 CHR ''/'' name)"
  shows "dns_once env pc lookup False name outs \<longleftrightarrow>
    (case (sub, root) of
       (Inr p, Inr q) \<Rightarrow> outs = [app p] \<or> outs = [app q, app p]
     | (Inr p, Inl _) \<Rightarrow> outs = [app p]
     | (Inl _, Inr q) \<Rightarrow> outs = [app q]
     | (Inl _, Inl _) \<Rightarrow> outs = [])"
proof -
  have "dns_once env pc lookup False name outs = dns_loop False app (Some [sub]) (Some [root]) outs"
    using assms(1) unfolding dns_once_def Let_def assms(2-4) by simp
  then show ?thesis
    by (cases sub; cases root) auto
qed

definition ex_lookup :: "string \<Rightarrow> (ns_error, string list) result" where
  "ex_lookup d = (if d = ''_dnslink.x.eth.link.'' then Inr [''spf1'', ''dnslink=/ipfs/Qm''] else Inl ErrResolveFailed)"

theorem dns_prefers_dnslink_witness:
  "dns_once ex_env (\<lambda>_. None) ex_lookup False ''x.eth/a'' [once_value 0 (Inr ''/ipfs/Qm/a'')]"
proof -
  have s: "split_n 2 CHR ''/'' ''x.eth/a'' = [''x.eth'', ''a'']" "dns_fqdn ''x.eth'' = ''x.eth.link.''"
    by code_simp+
  have w: "workDomain ex_env (\<lambda>_. None) ex_lookup ''_dnslink.x.eth.link.'' = Inr ''/ipfs/Qm''"
    "workDomain ex_env (\<lambda>_. None) ex_lookup ''x.eth.link.'' = Inl ErrResolveFailed"
    by (simp_all add: workDomain_def ex_lookup_def parseEntry_def tryParseDnsLink_def ex_env_def eval_nat_numeral)
  have a: "append_path ex_env [''x.eth'', ''a''] ''/ipfs/Qm'' = once_value 0 (Inr ''/ipfs/Qm/a'')" "is_domain ex_env d" for d
    by (simp_all add: append_path_def ex_env_def trim_right_def)
  show ?thesis
    by (subst dns_prefers_dnslink [OF _ refl refl refl]) (simp_all add: s w a)
qed

lemma record_ttl_eol:
  assumes "record_ttl now entry (Eol eol) = Inr ttl" and "0 < ttl"
  shows "now + ttl \<le> eol"
  using assms by (auto simp: record_ttl_def until_def Let_def split: if_splits option.splits)

lemma cacheGet_after_set:
  assumes "lru_laws ops view" and "ns_cache ns = Some c" and "staticMap ns k = None" and "0 < ttl"
  shows "snd (cacheGet ops t3 k (cacheSet ops t2 k v ttl ns)) = (if t3 < t2 + ttl then Some v else None)"
proof -
  have "snd (cacheGet ops t3 k (cacheSet ops t2 k v ttl ns)) = Some p \<longleftrightarrow> t3 < t2 + ttl \<and> p = v" for p
    using assms by (subst cacheGet_hit [OF assms(1)]) (auto simp: cacheSet_def lru_laws_def)
  then show ?thesis
    by (cases "snd (cacheGet ops t3 k (cacheSet ops t2 k v ttl ns))") auto
qed

text \<open>Records are not served past their end of life. A record received at time \<open>now\<close> and put into the
  cache at time \<open>t2\<close> is served at most for the life it had left at \<open>now\<close>; so it outlives its end of
  life by no more than the time between its receipt and the end of the search.\<close>

theorem ipns_record_served_until_eol:
  assumes "lru_laws ops view" and "ns_cache ns = Some c" and "staticMap ns k = None"
    and "ipns_turn env ie now v = Inr r" and "unmarshal ie v = Inr entry" and "get_eol ie entry = Eol eol"
    and "0 < or_ttl r"
    and "snd (cacheGet ops t3 k (cacheSet ops t2 k (or_value r) (or_ttl r) ns)) = Some p"
  shows "p = or_value r \<and> entry_path env ie entry = Inr p \<and> t3 < eol + (t2 - now)"
proof -
  have "record_ttl now entry (Eol eol) = Inr (or_ttl r)" and "entry_path env ie entry = Inr (or_value r)"
    using assms(4-6) by (auto simp: ipns_turn_def bind_ok_Inr)
  then show ?thesis
    using record_ttl_eol [of now entry eol "or_ttl r"] assms(7,8)
      cacheGet_after_set [OF assms(1-3,7), of t3 t2 "or_value r"]
    by (auto split: if_splits)
qed

definition ex_ipns :: "string ipns_env" where
  "ex_ipns = \<lparr>unmarshal = (\<lambda>v. Inr \<lparr>en_value = v, en_seq = 0, en_ttl = None, en_validity = [], en_pubkey = None\<rparr>),
     mh_path = (\<lambda>_. None), get_eol = (\<lambda>_. Eol 100), record_key = (\<lambda>k. k)\<rparr>"

theorem ipns_record_served_until_eol_witness:
  "(95::int) < 100 + (8 - 7)
   \<and> snd (cacheGet pair_lru 95 ''k'' (cacheSet pair_lru 8 ''k'' ''/ipfs/Qm'' 93 ex_ns)) = Some ''/ipfs/Qm''"
proof -
  let ?r = "\<lparr>or_value = ''/ipfs/Qm'', or_ttl = 93, or_err = None\<rparr>"
  have c: "ns_cache ex_ns = Some []" "staticMap ex_ns ''k'' = None"
    by (simp_all add: ex_ns_def)
  have t: "ipns_turn ex_env ex_ipns 7 ''/ipfs/Qm'' = Inr ?r"
    by (simp add: ipns_turn_def ex_ipns_def ex_env_def entry_path_def record_ttl_def until_def
        DefaultResolverCacheTTL_def)
  have g: "snd (cacheGet pair_lru 95 ''k'' (cacheSet pair_lru 8 ''k'' ''/ipfs/Qm'' 93 ex_ns)) = Some ''/ipfs/Qm''"
    using cacheGet_after_set [OF pair_lru_laws c, of 93 95 8 "''/ipfs/Qm''"] by simp
  show ?thesis
    using ipns_record_served_until_eol [OF pair_lru_laws c t, of _ 100 95 8 "''/ipfs/Qm''"] g
    by (simp add: ex_ipns_def)
qed

end
