(* ===== verification/NamePublisher.thy ===== *)
theory NamePublisher
  imports Namesys Keystore
begin

text \<open>
  Publishing names: \<open>src/namesys/publisher.go\<close>, the publishing half of \<open>src/namesys/namesys.go\<close> and
  the republisher \<open>src/namesys/republisher/repub.go\<close>, which walks the keystore.

  The datastore, the routing system, \<open>go-ipns\<close>, the record codec and the key functions are
  parameters; what is relied on of them is \<open>ds_laws\<close> and \<open>pub_laws\<close>. The datastore is a state
  that is passed on; the mutex of the publisher makes \<open>updateRecord\<close> one step.
\<close>

section \<open>The publisher (publisher.go)\<close>

datatype ds_error = DsNotFound | DsErr ns_error

record ('s, 'b) ds_ops =
  ds_Get :: "string \<Rightarrow> 's \<Rightarrow> (ds_error, 'b) result"
  ds_Put :: "string \<Rightarrow> 'b \<Rightarrow> 's \<Rightarrow> 's \<times> ns_error option"
  ds_Sync :: "string \<Rightarrow> 's \<Rightarrow> ns_error option"
  ds_Query :: "string \<Rightarrow> 's \<Rightarrow> (ns_error, (ns_error, string \<times> 'b) result list) result"

record ('k, 'p, 'b) pub_env =
  id_of_priv :: "'k \<Rightarrow> (ns_error, string) result"
  id_of_pub :: "'p \<Rightarrow> (ns_error, string) result"
  get_public :: "'k \<Rightarrow> 'p"
  pub_bytes :: "'p \<Rightarrow> (ns_error, 'b) result"
  ipns_create :: "'k \<Rightarrow> string \<Rightarrow> 64 word \<Rightarrow> int \<Rightarrow> (ns_error, ipns_entry) result"
  embed_key :: "'p \<Rightarrow> ipns_entry \<Rightarrow> (ns_error, ipns_entry) result"
  pb_marshal :: "ipns_entry \<Rightarrow> (ns_error, 'b) result"
  new_key :: "string \<Rightarrow> string"

definition DefaultRecordEOL :: int where
  "DefaultRecordEOL = 24 * 3600 * 10 ^ 9"

definition IpnsDsKey :: "('k, 'p, 'b) pub_env \<Rightarrow> string \<Rightarrow> string" where
  "IpnsDsKey pe pid = new_key pe (''/ipns/'' @ b32_encode pid)"

text \<open>The loop over the answers to the query; \<open>stop n\<close> is a cancellation seen at the \<open>n\<close>-th turn.\<close>

fun list_loop :: "'b ipns_env \<Rightarrow> (nat \<Rightarrow> ns_error option) \<Rightarrow> nat \<Rightarrow> (ns_error, string \<times> 'b) result list
    \<Rightarrow> (string \<rightharpoonup> ipns_entry) \<Rightarrow> (ns_error, string \<rightharpoonup> ipns_entry) result" where
  "list_loop ie stop n [] records = (case stop n of Some e \<Rightarrow> Inl e | None \<Rightarrow> Inr records)"
| "list_loop ie stop n (r # rs) records = (case stop n of
     Some e \<Rightarrow> Inl e
   | None \<Rightarrow> (case r of
       Inl e \<Rightarrow> Inl e
     | Inr (key, v) \<Rightarrow> list_loop ie stop (Suc n) rs
         (case unmarshal ie v of
            Inl _ \<Rightarrow> records
          | Inr e \<Rightarrow> if \<not> has_prefix key ipnsPrefix then records
              else (case b32_decode (drop (length ipnsPrefix) key) of
                  None \<Rightarrow> records | Some pid \<Rightarrow> records(pid \<mapsto> e)))))"

definition ListPublished :: "'b ipns_env \<Rightarrow> ('s, 'b) ds_ops \<Rightarrow> (nat \<Rightarrow> ns_error option) \<Rightarrow> 's
    \<Rightarrow> (ns_error, string \<rightharpoonup> ipns_entry) result" where
  "ListPublished ie ops stop s =
     bind_ok (ds_Query ops ipnsPrefix s) (\<lambda>rs. list_loop ie stop 0 rs Map.empty)"

text \<open>\<open>getValue\<close> is the answer of the routing system.\<close>

definition GetPublished :: "('k, 'p, 'b) pub_env \<Rightarrow> 'b ipns_env \<Rightarrow> ('s, 'b) ds_ops \<Rightarrow> (string \<Rightarrow> (ns_error, 'b) result)
    \<Rightarrow> string \<Rightarrow> bool \<Rightarrow> 's \<Rightarrow> (ns_error, ipns_entry option) result" where
  "GetPublished pe ie ops getValue pid checkRouting s =
    (let decode = (\<lambda>v. bind_ok (unmarshal ie v) (\<lambda>e. Inr (Some e))) in
     case ds_Get ops (IpnsDsKey pe pid) s of
       Inr v \<Rightarrow> decode v
     | Inl DsNotFound \<Rightarrow>
         if \<not> checkRouting then Inr None
         else (case getValue (record_key ie pid) of Inl _ \<Rightarrow> Inr None | Inr v \<Rightarrow> decode v)
     | Inl (DsErr e) \<Rightarrow> Inl e)"

definition next_seqno :: "ipns_entry option \<Rightarrow> string \<Rightarrow> 64 word" where
  "next_seqno rec v = (case rec of
     None \<Rightarrow> 0 | Some e \<Rightarrow> if v \<noteq> en_value e then en_seq e + 1 else en_seq e)"

text \<open>The TTL of the context is a signed duration, stored as an unsigned number of nanoseconds.\<close>

definition set_ttl :: "int option \<Rightarrow> ipns_entry \<Rightarrow> ipns_entry" where
  "set_ttl ctxTTL entry = (case ctxTTL of
     Some ttl \<Rightarrow> entry\<lparr>en_ttl := Some (word_of_int ttl)\<rparr> | None \<Rightarrow> entry)"

definition updateRecord :: "('k, 'p, 'b) pub_env \<Rightarrow> 'b ipns_env \<Rightarrow> ('s, 'b) ds_ops \<Rightarrow> (string \<Rightarrow> (ns_error, 'b) result)
    \<Rightarrow> int option \<Rightarrow> 'k \<Rightarrow> string \<Rightarrow> int \<Rightarrow> 's \<Rightarrow> 's \<times> (ns_error, ipns_entry) result" where
  "updateRecord pe ie ops getValue ctxTTL k v eol s =
    (case id_of_priv pe k of Inl e \<Rightarrow> (s, Inl e) | Inr pid \<Rightarrow>
    (case GetPublished pe ie ops getValue pid True s of Inl e \<Rightarrow> (s, Inl e) | Inr rec \<Rightarrow>
    (case ipns_create pe k v (next_seqno rec v) eol of Inl e \<Rightarrow> (s, Inl e) | Inr entry0 \<Rightarrow>
    (let entry = set_ttl ctxTTL entry0 in
     case pb_marshal pe entry of Inl e \<Rightarrow> (s, Inl e) | Inr data \<Rightarrow>
    (case ds_Put ops (IpnsDsKey pe pid) data s of
       (s', Some e) \<Rightarrow> (s', Inl e)
     | (s', None) \<Rightarrow> (case ds_Sync ops (IpnsDsKey pe pid) s' of
         Some e \<Rightarrow> (s', Inl e) | None \<Rightarrow> (s', Inr entry)))))))"

definition PkKeyForID :: "string \<Rightarrow> string" where
  "PkKeyForID pid = ''/pk/'' @ pid"

definition PublishPublicKey :: "('k, 'p, 'b) pub_env \<Rightarrow> (string \<Rightarrow> 'b \<Rightarrow> ns_error option) \<Rightarrow> string \<Rightarrow> 'p \<Rightarrow> ns_error option" where
  "PublishPublicKey pe putValue k pubk = (case pub_bytes pe pubk of Inl e \<Rightarrow> Some e | Inr b \<Rightarrow> putValue k b)"

definition PublishEntry :: "('k, 'p, 'b) pub_env \<Rightarrow> (string \<Rightarrow> 'b \<Rightarrow> ns_error option) \<Rightarrow> string \<Rightarrow> ipns_entry \<Rightarrow> ns_error option" where
  "PublishEntry pe putValue key rec = (case pb_marshal pe rec of Inl e \<Rightarrow> Some e | Inr data \<Rightarrow> putValue key data)"

definition waitOnErrChan :: "ns_error option \<Rightarrow> ns_error option \<Rightarrow> ns_error option" where
  "waitOnErrChan cancelled err = (case cancelled of Some e \<Rightarrow> Some e | None \<Rightarrow> err)"

text \<open>
  The two goroutines answer in either order (\<open>pk_first\<close>); \<open>c1\<close> and \<open>c2\<close> are cancellations seen by
  the two waits.
\<close>

definition PutRecordToRouting :: "('k, 'p, 'b) pub_env \<Rightarrow> 'b ipns_env \<Rightarrow> (string \<Rightarrow> 'b \<Rightarrow> ns_error option) \<Rightarrow> bool
    \<Rightarrow> ns_error option \<Rightarrow> ns_error option \<Rightarrow> 'p \<Rightarrow> ipns_entry \<Rightarrow> ns_error option" where
  "PutRecordToRouting pe ie putValue pk_first c1 c2 k entry0 =
    (case embed_key pe k entry0 of Inl e \<Rightarrow> Some e | Inr entry \<Rightarrow>
    (case id_of_pub pe k of Inl e \<Rightarrow> Some e | Inr pid \<Rightarrow>
     (let r1 = PublishEntry pe putValue (record_key ie pid) entry in
      if en_pubkey entry \<noteq> None then
        (let r2 = PublishPublicKey pe putValue (PkKeyForID pid) k;
             (a, b) = (if pk_first then (r2, r1) else (r1, r2))
         in case waitOnErrChan c1 a of Some e \<Rightarrow> Some e | None \<Rightarrow> waitOnErrChan c2 b)
      else waitOnErrChan c2 r1)))"

text \<open>\<open>putRecord\<close> is the outcome of \<open>PutRecordToRouting\<close> for the record.\<close>

definition pub_PublishWithEOL :: "('k, 'p, 'b) pub_env \<Rightarrow> 'b ipns_env \<Rightarrow> ('s, 'b) ds_ops \<Rightarrow> (string \<Rightarrow> (ns_error, 'b) result)
    \<Rightarrow> ('p \<Rightarrow> ipns_entry \<Rightarrow> ns_error option) \<Rightarrow> int option \<Rightarrow> 'k \<Rightarrow> string \<Rightarrow> int \<Rightarrow> 's \<Rightarrow> 's \<times> ns_error option" where
  "pub_PublishWithEOL pe ie ops getValue putRecord ctxTTL k v eol s =
    (case updateRecord pe ie ops getValue ctxTTL k v eol s of
       (s', Inl e) \<Rightarrow> (s', Some e)
     | (s', Inr record) \<Rightarrow> (s', putRecord (get_public pe k) record))"

definition pub_Publish :: "('k, 'p, 'b) pub_env \<Rightarrow> 'b ipns_env \<Rightarrow> ('s, 'b) ds_ops \<Rightarrow> (string \<Rightarrow> (ns_error, 'b) result)
    \<Rightarrow> ('p \<Rightarrow> ipns_entry \<Rightarrow> ns_error option) \<Rightarrow> int option \<Rightarrow> int \<Rightarrow> 'k \<Rightarrow> string \<Rightarrow> 's \<Rightarrow> 's \<times> ns_error option" where
  "pub_Publish pe ie ops getValue putRecord ctxTTL now k v =
     pub_PublishWithEOL pe ie ops getValue putRecord ctxTTL k v (now + DefaultRecordEOL)"

definition InitializeKeyspace :: "('s \<Rightarrow> 's \<times> ns_error option) \<Rightarrow> ('s \<Rightarrow> 's \<times> ns_error option)
    \<Rightarrow> ('s \<Rightarrow> 's \<times> ns_error option) \<Rightarrow> 's \<Rightarrow> 's \<times> ns_error option" where
  "InitializeKeyspace pinEmptyDir flush publishEmptyDir s =
    (case pinEmptyDir s of (s', Some e) \<Rightarrow> (s', Some e) | (s', None) \<Rightarrow>
    (case flush s' of (s'', Some e) \<Rightarrow> (s'', Some e) | (s'', None) \<Rightarrow> publishEmptyDir s''))"

section \<open>Publishing through the name system (namesys.go)\<close>

text \<open>\<open>publish\<close> is the publisher of records, \<open>now\<close> the time after it returned.\<close>

definition mpns_PublishWithEOL :: "('k, 'p, 'b) pub_env \<Rightarrow> 'c lru_ops \<Rightarrow> ('k \<Rightarrow> string \<Rightarrow> int \<Rightarrow> 's \<Rightarrow> 's \<times> ns_error option)
    \<Rightarrow> int option \<Rightarrow> int \<Rightarrow> 'k \<Rightarrow> string \<Rightarrow> int \<Rightarrow> 'c mpns \<times> 's \<Rightarrow> ('c mpns \<times> 's) \<times> ns_error option" where
  "mpns_PublishWithEOL pe lru publish ctxTTL now k v eol st =
    (case st of (ns, s) \<Rightarrow>
     case id_of_priv pe k of
       Inl e \<Rightarrow> ((ns, s), Some e)
     | Inr pid \<Rightarrow> (case publish k v eol s of
         (s', Some e) \<Rightarrow> ((cacheInvalidate lru pid ns, s'), Some e)
       | (s', None) \<Rightarrow>
           (let ttl0 = (case ctxTTL of Some t \<Rightarrow> t | None \<Rightarrow> DefaultResolverCacheTTL);
                ttl = (if until now eol < ttl0 then until now eol else ttl0)
            in ((cacheSet lru now pid v ttl ns, s'), None))))"

definition mpns_Publish :: "('k, 'p, 'b) pub_env \<Rightarrow> 'c lru_ops \<Rightarrow> ('k \<Rightarrow> string \<Rightarrow> int \<Rightarrow> 's \<Rightarrow> 's \<times> ns_error option)
    \<Rightarrow> int option \<Rightarrow> int \<Rightarrow> int \<Rightarrow> 'k \<Rightarrow> string \<Rightarrow> 'c mpns \<times> 's \<Rightarrow> ('c mpns \<times> 's) \<times> ns_error option" where
  "mpns_Publish pe lru publish ctxTTL now0 now k v =
     mpns_PublishWithEOL pe lru publish ctxTTL now k v (now0 + DefaultRecordEOL)"

section \<open>The republisher (republisher/repub.go)\<close>

definition InitialRebroadcastDelay :: int where "InitialRebroadcastDelay = 60 * 10 ^ 9"
definition FailureRetryInterval :: int where "FailureRetryInterval = 5 * 60 * 10 ^ 9"
definition DefaultRebroadcastInterval :: int where "DefaultRebroadcastInterval = 4 * 3600 * 10 ^ 9"
definition DefaultRecordLifetime :: int where "DefaultRecordLifetime = 24 * 3600 * 10 ^ 9"

text \<open>The delays of the loop of \<open>Run\<close>: before the first round, and after a round that failed or not.\<close>

definition first_delay :: "int \<Rightarrow> int" where
  "first_delay interval = (if interval < InitialRebroadcastDelay then interval else InitialRebroadcastDelay)"

definition next_delay :: "int \<Rightarrow> bool \<Rightarrow> int" where
  "next_delay interval failed =
     (if failed \<and> FailureRetryInterval < interval then FailureRetryInterval else interval)"

datatype repub_error = NoEntry | RepubErr ns_error | RepubKs ks_error

definition getLastIPNSEntry :: "('k, 'p, 'b) pub_env \<Rightarrow> 'b ipns_env \<Rightarrow> ('s, 'b) ds_ops \<Rightarrow> string \<Rightarrow> 's \<Rightarrow> (repub_error, ipns_entry) result" where
  "getLastIPNSEntry pe ie ops pid s = (case ds_Get ops (IpnsDsKey pe pid) s of
     Inl DsNotFound \<Rightarrow> Inl NoEntry
   | Inl (DsErr e) \<Rightarrow> Inl (RepubErr e)
   | Inr v \<Rightarrow> (case unmarshal ie v of Inl e \<Rightarrow> Inl (RepubErr e) | Inr e \<Rightarrow> Inr e))"

text \<open>
  \<open>publish\<close> is the \<open>PublishWithEOL\<close> of the name system on the state, \<open>now\<close> the current time. An
  unrecognised validity is an error of \<open>GetEOL\<close> here.
\<close>

definition republishEntry :: "('k, 'p, 'b) pub_env \<Rightarrow> 'b ipns_env \<Rightarrow> ('s, 'b) ds_ops \<Rightarrow> ('k \<Rightarrow> string \<Rightarrow> int \<Rightarrow> 's \<Rightarrow> 's \<times> ns_error option)
    \<Rightarrow> int \<Rightarrow> int \<Rightarrow> 'k \<Rightarrow> 's \<Rightarrow> 's \<times> repub_error option" where
  "republishEntry pe ie ops publish lifetime now priv s =
    (case id_of_priv pe priv of Inl e \<Rightarrow> (s, Some (RepubErr e)) | Inr pid \<Rightarrow>
    (case getLastIPNSEntry pe ie ops pid s of
       Inl NoEntry \<Rightarrow> (s, None)
     | Inl e \<Rightarrow> (s, Some e)
     | Inr e \<Rightarrow> (case get_eol ie e of
         NoEOL \<Rightarrow> (s, Some (RepubErr (ErrOther ''unrecognized validity type'')))
       | BadEOL err \<Rightarrow> (s, Some (RepubErr err))
       | Eol prevEol \<Rightarrow>
           (let eol = (if prevEol > now + lifetime then prevEol else now + lifetime)
            in map_prod id (map_option RepubErr) (publish priv (en_value e) eol s)))))"

fun republish_keys :: "(string \<Rightarrow> (ks_error, 'k) result) \<Rightarrow> (nat \<Rightarrow> 'k \<Rightarrow> 's \<Rightarrow> 's \<times> repub_error option) \<Rightarrow> nat
    \<Rightarrow> string list \<Rightarrow> 's \<Rightarrow> 's \<times> repub_error option" where
  "republish_keys get entry n [] s = (s, None)"
| "republish_keys get entry n (name # names) s = (case get name of
     Inl e \<Rightarrow> (s, Some (RepubKs e))
   | Inr priv \<Rightarrow> (case entry n priv s of
       (s', Some e) \<Rightarrow> (s', Some e)
     | (s', None) \<Rightarrow> republish_keys get entry (Suc n) names s'))"

text \<open>The keystore is given by its \<open>List\<close> and \<open>Get\<close>, or is nil; \<open>entry n\<close> republishes at the \<open>n\<close>-th turn.\<close>

definition republishEntries :: "((ks_error, string list) result \<times> (string \<Rightarrow> (ks_error, 'k) result)) option
    \<Rightarrow> (nat \<Rightarrow> 'k \<Rightarrow> 's \<Rightarrow> 's \<times> repub_error option) \<Rightarrow> 'k \<Rightarrow> 's \<Rightarrow> 's \<times> repub_error option" where
  "republishEntries ks entry self s = (case entry 0 self s of
     (s', Some e) \<Rightarrow> (s', Some e)
   | (s', None) \<Rightarrow> (case ks of
       None \<Rightarrow> (s', None)
     | Some (keyNames, get) \<Rightarrow> (case keyNames of
         Inl e \<Rightarrow> (s', Some (RepubKs e))
       | Inr names \<Rightarrow> republish_keys get entry 1 names s')))"

section \<open>What is relied on\<close>

text \<open>
  \<open>view\<close> reads the contents of the datastore: reads return what is stored, a successful write
  stores, and a failed one stores or does nothing.
\<close>

definition ds_laws :: "('s, 'b) ds_ops \<Rightarrow> ('s \<Rightarrow> string \<rightharpoonup> 'b) \<Rightarrow> bool" where
  "ds_laws ops view \<longleftrightarrow>
     (\<forall>k s b. ds_Get ops k s = Inr b \<longrightarrow> view s k = Some b)
   \<and> (\<forall>k s. ds_Get ops k s = Inl DsNotFound \<longrightarrow> view s k = None)
   \<and> (\<forall>k b s s'. ds_Put ops k b s = (s', None) \<longrightarrow> view s' = (view s)(k \<mapsto> b))
   \<and> (\<forall>k b s s' e. ds_Put ops k b s = (s', Some e) \<longrightarrow> view s' = view s \<or> view s' = (view s)(k \<mapsto> b))"

text \<open>
  Records survive their encoding, a created record holds what it was created from, and a datastore key of
  one slash-free name below \<open>/ipns\<close> is its own clean form.
\<close>

definition pub_laws :: "('k, 'p, 'b) pub_env \<Rightarrow> 'b ipns_env \<Rightarrow> bool" where
  "pub_laws pe ie \<longleftrightarrow>
     (\<forall>e b. pb_marshal pe e = Inr b \<longrightarrow> unmarshal ie b = Inr e)
   \<and> (\<forall>k v q t e x. ipns_create pe k v q t = Inr e \<longrightarrow>
        en_value e = v \<and> en_seq e = q \<and> get_eol ie e = Eol t \<and> get_eol ie (e\<lparr>en_ttl := x\<rparr>) = Eol t)
   \<and> (\<forall>n. CHR ''/'' \<notin> set n \<longrightarrow> new_key pe (''/ipns/'' @ n) = ''/ipns/'' @ n)"

lemma b32_char_no_slash: "list_all (\<lambda>d. b32_char d \<noteq> CHR ''/'') [0..<32]"
  by code_simp

lemma b32_encode_no_slash: "CHR ''/'' \<notin> set (b32_encode s)"
proof
  assume "CHR ''/'' \<in> set (b32_encode s)"
  then obtain d where d: "d \<in> set (b32_encode_digits (map of_char s))" "b32_char d = CHR ''/''"
    unfolding b32_encode_def by (metis (no_types, lifting) imageE list.set_map)
  have "\<forall>x \<in> set (map of_char s). x < (256::nat)"
    by auto
  then have "d < 32"
    using d(1) by (rule b32_encode_digits_range)
  then show False
    using b32_char_no_slash d(2) by (simp add: list_all_iff)
qed

lemma IpnsDsKey_conv: "pub_laws pe ie \<Longrightarrow> IpnsDsKey pe pid = ''/ipns/'' @ b32_encode pid"
  using b32_encode_no_slash by (simp add: IpnsDsKey_def pub_laws_def)

lemma IpnsDsKey_inj: "pub_laws pe ie \<Longrightarrow> IpnsDsKey pe p = IpnsDsKey pe q \<longleftrightarrow> p = q"
  by (metis IpnsDsKey_conv b32_decode_encode option.inject same_append_eq)

text \<open>The record stored for a name.\<close>

definition stored :: "('k, 'p, 'b) pub_env \<Rightarrow> 'b ipns_env \<Rightarrow> ('s \<Rightarrow> string \<rightharpoonup> 'b) \<Rightarrow> 's \<Rightarrow> string \<rightharpoonup> ipns_entry" where
  "stored pe ie view s pid = (case view s (IpnsDsKey pe pid) of
     None \<Rightarrow> None | Some b \<Rightarrow> (case unmarshal ie b of Inl _ \<Rightarrow> None | Inr e \<Rightarrow> Some e))"

lemma stored_put:
  assumes "pub_laws pe ie" and "view s' = (view s)(IpnsDsKey pe pid \<mapsto> b)" and "unmarshal ie b = Inr e"
  shows "stored pe ie view s' = (stored pe ie view s)(pid \<mapsto> e)"
  using assms(2,3) IpnsDsKey_inj [OF assms(1)] by (auto simp: stored_def fun_eq_iff)

lemma GetPublished_stored:
  assumes "ds_laws ops view" and "GetPublished pe ie ops getValue pid c s = Inr rec"
    and "c \<Longrightarrow> \<exists>e. getValue (record_key ie pid) = Inl e"
  shows "rec = stored pe ie view s pid"
proof (cases "ds_Get ops (IpnsDsKey pe pid) s")
  case (Inl e)
  then show ?thesis
    using assms by (cases e) (auto simp: GetPublished_def stored_def ds_laws_def split: if_splits)
next
  case (Inr v)
  then have "view s (IpnsDsKey pe pid) = Some v"
    using assms(1) by (simp add: ds_laws_def)
  then show ?thesis
    using assms(2) Inr by (auto simp: GetPublished_def stored_def bind_ok_Inr)
qed

section \<open>Publishing\<close>

lemma updateRecord_shape:
  assumes "updateRecord pe ie ops getValue ttl k v eol s = (s', r)"
  shows "s' = s \<and> \<not> is_ok r
    \<or> (\<exists>pid rec e0 data w. id_of_priv pe k = Inr pid \<and> GetPublished pe ie ops getValue pid True s = Inr rec
        \<and> ipns_create pe k v (next_seqno rec v) eol = Inr e0 \<and> pb_marshal pe (set_ttl ttl e0) = Inr data
        \<and> ds_Put ops (IpnsDsKey pe pid) data s = (s', w)
        \<and> (r = Inr (set_ttl ttl e0) \<and> w = None \<or> \<not> is_ok r))"
  using assms
  by (simp add: updateRecord_def Let_def is_ok_def split: sum.splits prod.splits option.splits) auto

lemma updateRecord_effect:
  assumes "ds_laws ops view" and "pub_laws pe ie"
    and "updateRecord pe ie ops getValue ttl k v eol s = (s', r)"
  shows "(view s' = view s \<and> \<not> is_ok r)
    \<or> (\<exists>pid rec e. id_of_priv pe k = Inr pid \<and> GetPublished pe ie ops getValue pid True s = Inr rec
        \<and> en_value e = v \<and> en_seq e = next_seqno rec v \<and> get_eol ie e = Eol eol
        \<and> stored pe ie view s' = (stored pe ie view s)(pid \<mapsto> e) \<and> (r = Inr e \<or> \<not> is_ok r))"
proof (cases "s' = s \<and> \<not> is_ok r")
  case False
  then obtain pid rec e0 data w where st: "id_of_priv pe k = Inr pid" "GetPublished pe ie ops getValue pid True s = Inr rec"
    and new: "ipns_create pe k v (next_seqno rec v) eol = Inr e0" "pb_marshal pe (set_ttl ttl e0) = Inr data"
    and put: "ds_Put ops (IpnsDsKey pe pid) data s = (s', w)"
    and r: "r = Inr (set_ttl ttl e0) \<and> w = None \<or> \<not> is_ok r"
    using updateRecord_shape [OF assms(3)] by blast
  have e: "en_value (set_ttl ttl e0) = v" "en_seq (set_ttl ttl e0) = next_seqno rec v"
    "get_eol ie (set_ttl ttl e0) = Eol eol" "unmarshal ie data = Inr (set_ttl ttl e0)"
    using assms(2) new by (cases ttl; auto simp: set_ttl_def pub_laws_def)+
  have "view s' = view s \<and> w \<noteq> None \<or> view s' = (view s)(IpnsDsKey pe pid \<mapsto> data)"
    using assms(1) put by (cases w) (auto simp: ds_laws_def)
  then show ?thesis
    using st e r stored_put [OF assms(2) _ e(4), of view s' s pid] by blast
qed simp

text \<open>A sequence of publications under one key, stopped by the first error.\<close>

fun update_all :: "('k, 'p, 'b) pub_env \<Rightarrow> 'b ipns_env \<Rightarrow> ('s, 'b) ds_ops \<Rightarrow> (string \<Rightarrow> (ns_error, 'b) result)
    \<Rightarrow> 'k \<Rightarrow> (string \<times> int) list \<Rightarrow> 's \<Rightarrow> 's option" where
  "update_all pe ie ops getValue k [] s = Some s"
| "update_all pe ie ops getValue k ((v, eol) # vs) s =
     (case updateRecord pe ie ops getValue None k v eol s of
        (s', Inl e) \<Rightarrow> None | (s', Inr _) \<Rightarrow> update_all pe ie ops getValue k vs s')"

lemma updateRecord_ok:
  assumes "ds_laws ops view" and "pub_laws pe ie" and "id_of_priv pe k = Inr pid"
    and "getValue (record_key ie pid) = Inl err"
    and "updateRecord pe ie ops getValue ttl k v eol s = (s', Inr e)"
  shows "en_value e = v \<and> en_seq e = next_seqno (stored pe ie view s pid) v
    \<and> stored pe ie view s' = (stored pe ie view s)(pid \<mapsto> e)"
  using updateRecord_effect [OF assms(1,2,5)] GetPublished_stored [OF assms(1), of pe ie getValue pid True s] assms(3,4)
  by auto

lemma update_all_from:
  assumes "ds_laws ops view" and "pub_laws pe ie" and "id_of_priv pe k = Inr pid"
    and "getValue (record_key ie pid) = Inl err"
  shows "update_all pe ie ops getValue k vs s = Some s' \<Longrightarrow> stored pe ie view s pid = Some e0 \<Longrightarrow>
    (\<exists>e. stored pe ie view s' = (stored pe ie view s)(pid \<mapsto> e) \<and> en_value e = last (en_value e0 # map fst vs)
       \<and> en_seq e = en_seq e0 + of_nat (length (remdups_adj (en_value e0 # map fst vs)) - 1))"
proof (induction vs arbitrary: s e0)
  case Nil
  then show ?case
    by (intro exI [of _ e0]) (simp add: fun_upd_idem)
next
  case (Cons p vs)
  obtain v eol where p: "p = (v, eol)"
    by fastforce
  with Cons.prems(1) obtain s1 e1 where u: "updateRecord pe ie ops getValue None k v eol s = (s1, Inr e1)"
    and rest: "update_all pe ie ops getValue k vs s1 = Some s'"
    by (auto split: prod.splits sum.splits)
  have e1: "en_value e1 = v" "en_seq e1 = next_seqno (Some e0) v"
    "stored pe ie view s1 = (stored pe ie view s)(pid \<mapsto> e1)"
    using updateRecord_ok [OF assms u] Cons.prems(2) by auto
  have "stored pe ie view s1 pid = Some e1"
    by (simp add: e1(3))
  from Cons.IH [OF rest this, unfolded e1(1,2)] obtain e
    where e: "stored pe ie view s' = (stored pe ie view s1)(pid \<mapsto> e)" "en_value e = last (v # map fst vs)"
      "en_seq e = next_seqno (Some e0) v + of_nat (length (remdups_adj (v # map fst vs)) - 1)"
    by blast
  have "0 < length (remdups_adj (v # map fst vs))"
    by simp
  then have "next_seqno (Some e0) v + of_nat (length (remdups_adj (v # map fst vs)) - 1)
      = en_seq e0 + of_nat (length (remdups_adj (en_value e0 # v # map fst vs)) - 1)"
    by (cases "remdups_adj (v # map fst vs)") (auto simp: next_seqno_def)
  then show ?case
    using e e1(3) p by auto
qed

text \<open>C7: sequence numbers count changes. Publishing values one after the other under a key that has no record
  yet, locally or in the routing system, leaves the last value stored under the key and no other record
  touched; its sequence number is the number of times the published value changed, modulo the
  64 bits of the counter.\<close>

theorem publish_sequence_numbers:
  assumes "ds_laws ops view" and "pub_laws pe ie" and "id_of_priv pe k = Inr pid"
    and "getValue (record_key ie pid) = Inl err" and "stored pe ie view s pid = None"
    and "vs \<noteq> []" and "update_all pe ie ops getValue k vs s = Some s'"
  shows "\<exists>e. stored pe ie view s' = (stored pe ie view s)(pid \<mapsto> e) \<and> en_value e = last (map fst vs)
    \<and> en_seq e = of_nat (length (remdups_adj (map fst vs)) - 1)"
proof -
  obtain v eol ws where vs: "vs = (v, eol) # ws"
    using assms(6) by (cases vs) auto
  with assms(7) obtain s1 e1 where u: "updateRecord pe ie ops getValue None k v eol s = (s1, Inr e1)"
    and rest: "update_all pe ie ops getValue k ws s1 = Some s'"
    by (auto split: prod.splits sum.splits)
  have e1: "en_value e1 = v" "en_seq e1 = 0" "stored pe ie view s1 = (stored pe ie view s)(pid \<mapsto> e1)"
    using updateRecord_ok [OF assms(1-4) u] assms(5) by (auto simp: next_seqno_def)
  have "stored pe ie view s1 pid = Some e1"
    by (simp add: e1(3))
  from update_all_from [OF assms(1-4) rest this] show ?thesis
    by (auto simp: e1 vs)
qed

text \<open>A setting to try the statements in: identity codec, keys that are their own names.\<close>

definition ex_pub :: "(string, string, ipns_entry) pub_env" where
  "ex_pub = \<lparr>id_of_priv = Inr, id_of_pub = Inr, get_public = (\<lambda>k. k), pub_bytes = (\<lambda>_. Inl ErrResolveFailed),
     ipns_create = (\<lambda>k v q t. if 0 \<le> t then Inr \<lparr>en_value = v, en_seq = q, en_ttl = None,
       en_validity = replicate (nat t) CHR ''.'', en_pubkey = None\<rparr> else Inl ErrResolveFailed),
     embed_key = (\<lambda>_. Inr), pb_marshal = Inr, new_key = (\<lambda>k. k)\<rparr>"

definition ex_ie :: "ipns_entry ipns_env" where
  "ex_ie = \<lparr>unmarshal = Inr, mh_path = (\<lambda>_. None), get_eol = (\<lambda>e. Eol (int (length (en_validity e)))),
     record_key = (\<lambda>k. k)\<rparr>"

definition alist_ds :: "((string \<times> 'b) list, 'b) ds_ops" where
  "alist_ds = \<lparr>ds_Get = (\<lambda>k s. case map_of s k of None \<Rightarrow> Inl DsNotFound | Some b \<Rightarrow> Inr b),
     ds_Put = (\<lambda>k b s. (AList.update k b s, None)), ds_Sync = (\<lambda>_ _. None),
     ds_Query = (\<lambda>p s. Inr [Inr kv. kv \<leftarrow> s, has_prefix (fst kv) p])\<rparr>"

lemma ex_pub_laws: "pub_laws ex_pub ex_ie"
  by (auto simp: pub_laws_def ex_pub_def ex_ie_def split: if_splits)

lemma alist_ds_laws: "ds_laws alist_ds map_of"
  by (auto simp: ds_laws_def alist_ds_def AList.update_conv' split: option.splits)

lemma ex_update_ok:
  assumes "0 \<le> eol"
  shows "\<exists>s' e. updateRecord ex_pub ex_ie alist_ds getValue None k v eol s = (s', Inr e)"
proof -
  have fields: "id_of_priv ex_pub k = Inr k" "pb_marshal ex_pub e = Inr e" "unmarshal ex_ie e = Inr e"
    "ds_Sync alist_ds x s1 = None" "ds_Put alist_ds x b s1 = (AList.update x b s1, None)" for x e b s1
    by (simp_all add: ex_pub_def ex_ie_def alist_ds_def)
  obtain rec where "GetPublished ex_pub ex_ie alist_ds getValue k True s = Inr rec"
    by (cases "map_of s (IpnsDsKey ex_pub k)"; cases "getValue (record_key ex_ie k)")
      (auto simp: GetPublished_def alist_ds_def fields)
  moreover obtain e0 where "ipns_create ex_pub k v (next_seqno rec v) eol = Inr e0"
    using assms by (simp add: ex_pub_def)
  ultimately show ?thesis
    by (simp add: updateRecord_def fields Let_def)
qed

theorem publish_sequence_numbers_witness:
  "\<exists>s' e. update_all ex_pub ex_ie alist_ds (\<lambda>_. Inl ErrResolveFailed) ''me'' [(''/a'', 1), (''/a'', 2), (''/b'', 3)] [] = Some s'
     \<and> stored ex_pub ex_ie map_of s' ''me'' = Some e \<and> en_value e = ''/b'' \<and> en_seq e = 1"
proof -
  let ?vs = "[(''/a'', 1), (''/a'', 2), (''/b'', 3)] :: (string \<times> int) list"
  let ?u = "update_all ex_pub ex_ie alist_ds (\<lambda>_. Inl ErrResolveFailed) ''me'' ?vs []"
  have all: "list_all (\<lambda>p. 0 \<le> snd p) vs
      \<Longrightarrow> update_all ex_pub ex_ie alist_ds (\<lambda>_. Inl ErrResolveFailed) ''me'' vs s \<noteq> None" for vs s
  proof (induction vs arbitrary: s)
    case (Cons p vs)
    then show ?case
      using ex_update_ok [of "snd p" "\<lambda>_. Inl ErrResolveFailed" "''me''" "fst p" s] by (cases p) auto
  qed simp
  obtain s' where s': "?u = Some s'"
    using all [of ?vs "[]"] by auto
  have "stored ex_pub ex_ie map_of [] ''me'' = None" and "id_of_priv ex_pub ''me'' = Inr ''me''"
    by (simp_all add: stored_def ex_pub_def)
  then show ?thesis
    using publish_sequence_numbers [OF alist_ds_laws ex_pub_laws _ _ _ _ s', of "''me''" ErrResolveFailed] s' by auto
qed

section \<open>Listing what was published\<close>

text \<open>The query answers with the stored pairs whose key has the prefix, each key once.\<close>

definition query_law :: "('s, 'b) ds_ops \<Rightarrow> ('s \<Rightarrow> string \<rightharpoonup> 'b) \<Rightarrow> 's \<Rightarrow> bool" where
  "query_law ops view s \<longleftrightarrow> (\<exists>kvs. ds_Query ops ipnsPrefix s = Inr (map Inr kvs) \<and> distinct (map fst kvs)
     \<and> (\<forall>k. map_of kvs k = (if has_prefix k ipnsPrefix then view s k else None)))"

definition ipns_keys_only :: "('k, 'p, 'b) pub_env \<Rightarrow> ('s \<Rightarrow> string \<rightharpoonup> 'b) \<Rightarrow> 's \<Rightarrow> bool" where
  "ipns_keys_only pe view s \<longleftrightarrow>
     (\<forall>k. has_prefix k ipnsPrefix \<and> view s k \<noteq> None \<longrightarrow> (\<exists>pid. k = IpnsDsKey pe pid))"

lemma list_loop_lookup:
  assumes "pub_laws pe ie" and "distinct (map fst kvs)"
    and "\<forall>k \<in> fst ` set kvs. \<exists>pid. k = IpnsDsKey pe pid"
  shows "\<exists>m. list_loop ie (\<lambda>_. None) n (map Inr kvs) records = Inr m
    \<and> (\<forall>pid. m pid = (case map_of kvs (IpnsDsKey pe pid) of
         Some b \<Rightarrow> (case unmarshal ie b of Inr e \<Rightarrow> Some e | Inl _ \<Rightarrow> records pid) | None \<Rightarrow> records pid))"
  using assms(2,3)
proof (induction kvs arbitrary: n records)
  case (Cons kv kvs)
  obtain q b where kv: "kv = (IpnsDsKey pe q, b)"
    using Cons.prems(2) by (cases kv) auto
  have key: "IpnsDsKey pe q = ipnsPrefix @ b32_encode q"
    by (simp add: IpnsDsKey_conv [OF assms(1)] ipnsPrefix_def)
  define records' where "records' = (case unmarshal ie b of Inl _ \<Rightarrow> records | Inr e \<Rightarrow> records(q \<mapsto> e))"
  have step: "list_loop ie (\<lambda>_. None) n (map Inr (kv # kvs)) records
      = list_loop ie (\<lambda>_. None) (Suc n) (map Inr kvs) records'"
    by (simp add: kv records'_def key b32_decode_encode split: sum.split)
  have none: "map_of kvs (IpnsDsKey pe q) = None"
    using Cons.prems(1) by (simp add: kv map_of_eq_None_iff)
  have "distinct (map fst kvs)" "\<forall>k \<in> fst ` set kvs. \<exists>pid. k = IpnsDsKey pe pid"
    using Cons.prems by auto
  from Cons.IH [OF this, of "Suc n" records'] obtain m
    where m: "list_loop ie (\<lambda>_. None) (Suc n) (map Inr kvs) records' = Inr m"
      "\<And>pid. m pid = (case map_of kvs (IpnsDsKey pe pid) of
         Some b \<Rightarrow> (case unmarshal ie b of Inr e \<Rightarrow> Some e | Inl _ \<Rightarrow> records' pid) | None \<Rightarrow> records' pid)"
    by blast
  have "m pid = (case map_of (kv # kvs) (IpnsDsKey pe pid) of
         Some b \<Rightarrow> (case unmarshal ie b of Inr e \<Rightarrow> Some e | Inl _ \<Rightarrow> records pid) | None \<Rightarrow> records pid)" for pid
  proof (cases "pid = q")
    case True
    then show ?thesis
      by (simp add: m(2) none kv records'_def split: sum.split)
  next
    case False
    then have "records' pid = records pid"
      by (simp add: records'_def split: sum.split)
    then show ?thesis
      using False by (simp add: m(2) kv IpnsDsKey_inj [OF assms(1)] split: option.split sum.split)
  qed
  then show ?case
    unfolding step m(1) by blast
qed simp

text \<open>Listing agrees with looking up. On a datastore whose keys below \<open>/ipns/\<close> are the publisher's own,
  an uncancelled \<open>ListPublished\<close> succeeds and maps every identity to exactly the record stored for
  it, which is what \<open>GetPublished\<close> without the routing system returns whenever it succeeds.\<close>

theorem listPublished_agrees:
  assumes "ds_laws ops view" and "pub_laws pe ie" and "query_law ops view s" and "ipns_keys_only pe view s"
  shows "\<exists>m. ListPublished ie ops (\<lambda>_. None) s = Inr m \<and> m = stored pe ie view s
    \<and> (\<forall>pid rec. GetPublished pe ie ops getValue pid False s = Inr rec \<longrightarrow> rec = m pid)"
proof -
  obtain kvs where q: "ds_Query ops ipnsPrefix s = Inr (map Inr kvs)" "distinct (map fst kvs)"
    and kvs: "\<And>k. map_of kvs k = (if has_prefix k ipnsPrefix then view s k else None)"
    using assms(3) by (auto simp: query_law_def)
  have "has_prefix k ipnsPrefix \<and> view s k \<noteq> None" if "k \<in> fst ` set kvs" for k
    using kvs [of k] that by (metis map_of_eq_None_iff)
  then have keys: "\<forall>k \<in> fst ` set kvs. \<exists>pid. k = IpnsDsKey pe pid"
    using assms(4) by (simp add: ipns_keys_only_def)
  have pre: "has_prefix (IpnsDsKey pe pid) ipnsPrefix" for pid
    by (metis IpnsDsKey_conv assms(2) has_prefix_append ipnsPrefix_def)
  obtain m where l: "list_loop ie (\<lambda>_. None) 0 (map Inr kvs) Map.empty = Inr m"
    and m: "\<And>pid. m pid = (case map_of kvs (IpnsDsKey pe pid) of
      Some b \<Rightarrow> (case unmarshal ie b of Inr e \<Rightarrow> Some e | Inl _ \<Rightarrow> None) | None \<Rightarrow> None)"
    using list_loop_lookup [OF assms(2) q(2) keys, of 0 Map.empty] by blast
  have "m pid = stored pe ie view s pid" for pid
    by (simp add: m kvs pre stored_def split: option.split sum.split)
  then have "m = stored pe ie view s"
    by blast
  moreover have "ListPublished ie ops (\<lambda>_. None) s = Inr m"
    by (simp add: ListPublished_def q(1) l)
  ultimately show ?thesis
    using GetPublished_stored [OF assms(1)] by blast
qed

definition ex_entry :: ipns_entry where
  "ex_entry = \<lparr>en_value = ''/ipfs/Qm'', en_seq = 7, en_ttl = None, en_validity = ''...'', en_pubkey = None\<rparr>"

theorem listPublished_agrees_witness:
  "\<exists>m. ListPublished ex_ie alist_ds (\<lambda>_. None) [(''/ipns/NVSQ'', ex_entry), (''/other'', ex_entry)] = Inr m
     \<and> m ''me'' = Some ex_entry"
proof -
  let ?s = "[(''/ipns/NVSQ'', ex_entry), (''/other'', ex_entry)]"
  have me: "IpnsDsKey ex_pub ''me'' = ''/ipns/NVSQ''"
    by (simp add: IpnsDsKey_conv [OF ex_pub_laws] b32_encode_def b32_char_def b32_alphabet_def)
  have "query_law alist_ds map_of ?s"
    by (auto simp: query_law_def alist_ds_def ipnsPrefix_def has_prefix_def intro!: exI [of _ "[(''/ipns/NVSQ'', ex_entry)]"])
  moreover have "ipns_keys_only ex_pub map_of ?s"
    by (auto simp: ipns_keys_only_def ipnsPrefix_def has_prefix_def split: if_splits intro!: exI [of _ "''me''"] me [symmetric])
  ultimately show ?thesis
    using listPublished_agrees [OF alist_ds_laws ex_pub_laws, of ?s "\<lambda>_. Inl ErrResolveFailed"] me
    by (simp add: stored_def ex_ie_def)
qed

section \<open>Republishing\<close>

text \<open>What republishing may do to the stored records: keep value and sequence number, never shorten a life.\<close>

definition renewed :: "'b ipns_env \<Rightarrow> ipns_entry option \<Rightarrow> ipns_entry option \<Rightarrow> bool" where
  "renewed ie r r' = (case (r, r') of
     (None, None) \<Rightarrow> True
   | (Some e, Some e') \<Rightarrow> en_value e' = en_value e \<and> en_seq e' = en_seq e
       \<and> (case get_eol ie e of Eol t \<Rightarrow> (case get_eol ie e' of Eol t' \<Rightarrow> t \<le> t' | _ \<Rightarrow> False) | _ \<Rightarrow> True)
   | _ \<Rightarrow> False)"

lemma renewed_refl [simp]: "renewed ie r r"
  by (simp add: renewed_def split: option.split eol_result.split)

lemma renewed_trans: "renewed ie a b \<Longrightarrow> renewed ie b c \<Longrightarrow> renewed ie a c"
  by (auto simp: renewed_def split: option.splits eol_result.splits)

text \<open>A record that lives at least until \<open>t\<close>.\<close>

definition lives :: "'b ipns_env \<Rightarrow> int \<Rightarrow> ipns_entry option \<Rightarrow> bool" where
  "lives ie t r = (case r of None \<Rightarrow> True | Some e \<Rightarrow> (case get_eol ie e of Eol t' \<Rightarrow> t \<le> t' | _ \<Rightarrow> False))"

lemma lives_renewed: "lives ie t r \<Longrightarrow> renewed ie r r' \<Longrightarrow> lives ie t r'"
  by (auto simp: renewed_def lives_def split: option.splits eol_result.splits)

lemma republishEntry_shape:
  assumes "republishEntry pe ie ops publish lifetime now priv s = (s', r)"
  shows "s' = s \<and> (r = None \<longrightarrow> (\<exists>pid. id_of_priv pe priv = Inr pid \<and> ds_Get ops (IpnsDsKey pe pid) s = Inl DsNotFound))
    \<or> (\<exists>pid v e t w. id_of_priv pe priv = Inr pid \<and> ds_Get ops (IpnsDsKey pe pid) s = Inr v \<and> unmarshal ie v = Inr e
        \<and> get_eol ie e = Eol t \<and> publish priv (en_value e) (if t > now + lifetime then t else now + lifetime) s = (s', w)
        \<and> (r = None \<longleftrightarrow> w = None))"
  using assms
  by (auto simp: republishEntry_def getLastIPNSEntry_def Let_def map_prod_def
      split: sum.splits ds_error.splits eol_result.splits prod.splits)

lemma pub_PublishWithEOL_shape:
  assumes "pub_PublishWithEOL pe ie ops getValue putRecord ttl k v eol s = (s', w)"
  shows "\<exists>r. updateRecord pe ie ops getValue ttl k v eol s = (s', r) \<and> (w = None \<longrightarrow> is_ok r)"
  using assms by (auto simp: pub_PublishWithEOL_def split: prod.splits sum.splits)

lemma republishEntry_renews:
  assumes laws: "ds_laws ops view" "pub_laws pe ie"
    and r: "republishEntry pe ie ops (pub_PublishWithEOL pe ie ops getValue putRecord ttl) lifetime now priv s = (s', r)"
  shows "(\<forall>p. renewed ie (stored pe ie view s p) (stored pe ie view s' p))
    \<and> (r = None \<longrightarrow> (\<exists>pid. id_of_priv pe priv = Inr pid \<and> lives ie (now + lifetime) (stored pe ie view s' pid)))"
  using republishEntry_shape [OF r]
proof
  assume *: "s' = s \<and> (r = None \<longrightarrow> (\<exists>pid. id_of_priv pe priv = Inr pid \<and> ds_Get ops (IpnsDsKey pe pid) s = Inl DsNotFound))"
  then show ?thesis
    using laws(1) by (auto simp: ds_laws_def lives_def stored_def)
next
  assume "\<exists>pid v e t w. id_of_priv pe priv = Inr pid \<and> ds_Get ops (IpnsDsKey pe pid) s = Inr v \<and> unmarshal ie v = Inr e
        \<and> get_eol ie e = Eol t
        \<and> pub_PublishWithEOL pe ie ops getValue putRecord ttl priv (en_value e) (if t > now + lifetime then t else now + lifetime) s = (s', w)
        \<and> (r = None \<longleftrightarrow> w = None)"
  then obtain pid v e t w where pid: "id_of_priv pe priv = Inr pid" and get: "ds_Get ops (IpnsDsKey pe pid) s = Inr v"
    and e: "unmarshal ie v = Inr e" "get_eol ie e = Eol t"
    and p: "pub_PublishWithEOL pe ie ops getValue putRecord ttl priv (en_value e) (if t > now + lifetime then t else now + lifetime) s = (s', w)"
    and w: "r = None \<longleftrightarrow> w = None"
    by blast
  have old: "stored pe ie view s pid = Some e"
    using laws(1) get e(1) by (simp add: ds_laws_def stored_def)
  have pub: "GetPublished pe ie ops getValue pid True s = Inr (Some e)"
    by (simp add: GetPublished_def get e(1))
  obtain q where u: "updateRecord pe ie ops getValue ttl priv (en_value e) (if t > now + lifetime then t else now + lifetime) s = (s', q)"
    and q: "w = None \<longrightarrow> is_ok q"
    using pub_PublishWithEOL_shape [OF p] by blast
  show ?thesis
    using updateRecord_effect [OF laws u]
  proof
    assume "view s' = view s \<and> \<not> is_ok q"
    then show ?thesis
      using q w by (auto simp: stored_def)
  next
    assume "\<exists>p rec e'. id_of_priv pe priv = Inr p \<and> GetPublished pe ie ops getValue p True s = Inr rec
        \<and> en_value e' = en_value e \<and> en_seq e' = next_seqno rec (en_value e)
        \<and> get_eol ie e' = Eol (if t > now + lifetime then t else now + lifetime)
        \<and> stored pe ie view s' = (stored pe ie view s)(p \<mapsto> e') \<and> (q = Inr e' \<or> \<not> is_ok q)"
    then obtain e' where e': "en_value e' = en_value e" "en_seq e' = en_seq e"
      "get_eol ie e' = Eol (if t > now + lifetime then t else now + lifetime)"
      "stored pe ie view s' = (stored pe ie view s)(pid \<mapsto> e')"
      using pid pub by (auto simp: next_seqno_def)
    have "renewed ie (Some e) (Some e') \<and> lives ie (now + lifetime) (Some e')"
      using e(2) e'(1-3) by (simp add: renewed_def lives_def)
    then show ?thesis
      using pid old e'(4) by simp
  qed
qed

text \<open>
  What one entry does to the state (\<open>P\<close>, a preorder) and establishes on success (\<open>Q\<close>, kept by \<open>P\<close>), so
  that a whole round does and establishes it.
\<close>

definition entry_contract :: "(nat \<Rightarrow> 'k \<Rightarrow> 's \<Rightarrow> 's \<times> repub_error option) \<Rightarrow> ('s \<Rightarrow> 's \<Rightarrow> bool) \<Rightarrow> ('k \<Rightarrow> 's \<Rightarrow> bool) \<Rightarrow> bool" where
  "entry_contract entry P Q \<longleftrightarrow>
     (\<forall>n k s s' r. entry n k s = (s', r) \<longrightarrow> P s s' \<and> (r = None \<longrightarrow> Q k s'))
   \<and> (\<forall>s. P s s) \<and> (\<forall>a b c. P a b \<longrightarrow> P b c \<longrightarrow> P a c) \<and> (\<forall>k a b. Q k a \<longrightarrow> P a b \<longrightarrow> Q k b)"

lemma entry_contractD:
  assumes "entry_contract entry P Q"
  shows "entry n k s = (s', r) \<Longrightarrow> P s s' \<and> (r = None \<longrightarrow> Q k s')"
    and "P s s" and "P a b \<Longrightarrow> P b c \<Longrightarrow> P a c" and "Q k a \<Longrightarrow> P a b \<Longrightarrow> Q k b"
  using assms unfolding entry_contract_def by blast+

lemma republish_keys_all:
  assumes "entry_contract entry P Q"
  shows "republish_keys get entry n names s = (s', r) \<Longrightarrow>
    P s s' \<and> (r = None \<longrightarrow> (\<forall>x \<in> set names. \<exists>k. get x = Inr k \<and> Q k s'))"
proof (induction names arbitrary: n s)
  case Nil
  then show ?case
    using entry_contractD(2) [OF assms] by simp
next
  case (Cons x names)
  show ?case
  proof (cases "get x")
    case (Inl e)
    then show ?thesis
      using Cons.prems entry_contractD(2) [OF assms] by auto
  next
    case (Inr k)
    obtain s1 w where e: "entry n k s = (s1, w)"
      by fastforce
    show ?thesis
    proof (cases w)
      case None
      then have "republish_keys get entry (Suc n) names s1 = (s', r)"
        using Cons.prems Inr e by simp
      then show ?thesis
        using Cons.IH entry_contractD(1) [OF assms e] entry_contractD(3,4) [OF assms] Inr None by (metis set_ConsD)
    qed (use Cons.prems Inr e entry_contractD(1) [OF assms e] in auto)
  qed
qed

lemma republishEntries_all:
  assumes "entry_contract entry P Q"
    and r: "republishEntries (Some (Inr names, get)) entry self s = (s', r)"
  shows "P s s' \<and> (r = None \<longrightarrow> Q self s' \<and> (\<forall>x \<in> set names. \<exists>k. get x = Inr k \<and> Q k s'))"
proof -
  obtain s1 w where e: "entry 0 self s = (s1, w)"
    by fastforce
  show ?thesis
  proof (cases w)
    case None
    then have "republish_keys get entry 1 names s1 = (s', r)"
      using r e by (simp add: republishEntries_def)
    from republish_keys_all [OF assms(1) this] show ?thesis
      using entry_contractD(1) [OF assms(1) e] entry_contractD(3,4) [OF assms(1)] None by blast
  qed (use r e entry_contractD(1) [OF assms(1) e] in \<open>auto simp: republishEntries_def\<close>)
qed

text \<open>The republisher walks any store that keeps the contract of a keystore.\<close>

context keystore
begin

lemma republish_round:
  assumes "invar ks"
    and "entry_contract entry P Q"
    and r: "republishEntries (Some (List ks, Get ks)) entry self s = (s', r)"
  shows "P s s' \<and> (r = None \<longrightarrow> Q self s' \<and> (\<forall>x \<in> names ks. \<exists>k. Get ks x = Inr k \<and> Q k s'))"
proof -
  obtain xs where xs: "List ks = Inr xs" "set xs = names ks"
    using List_names [OF assms(1)] by blast
  show ?thesis
    using republishEntries_all [OF assms(2) r [unfolded xs(1)]] xs(2) by simp
qed

end

text \<open>C15: republishing renews. A round of the republisher over the key directory keeps the value and the
  sequence number of every stored record and never shortens its life, whether the round fails or not;
  when it succeeds, the records of the node's own key and of every key of the directory live for at
  least the record lifetime from the beginning of the round.\<close>

theorem republish_renews:
  assumes "ds_laws ops view" and "pub_laws pe ie" and "fs_invar ks" and "\<And>n. t0 \<le> clock n"
    and "republishEntries (Some (fs_List up ks, fs_Get unm ks))
      (\<lambda>n. republishEntry pe ie ops (pub_PublishWithEOL pe ie ops getValue putRecord ttl) lifetime (clock n)) self s = (s', r)"
  shows "(\<forall>p. renewed ie (stored pe ie view s p) (stored pe ie view s' p))
    \<and> (r = None \<longrightarrow> (\<forall>k. k = self \<or> (\<exists>x \<in> fs_names ks. fs_Get unm ks x = Inr k) \<longrightarrow>
        (\<exists>pid. id_of_priv pe k = Inr pid \<and> lives ie (t0 + lifetime) (stored pe ie view s' pid))))"
proof -
  let ?P = "\<lambda>s s'. \<forall>p. renewed ie (stored pe ie view s p) (stored pe ie view s' p)"
  let ?Q = "\<lambda>k s'. \<exists>pid. id_of_priv pe k = Inr pid \<and> lives ie (t0 + lifetime) (stored pe ie view s' pid)"
  have weaken: "lives ie (clock n + lifetime) x \<Longrightarrow> lives ie (t0 + lifetime) x" for n x
    using assms(4) [of n] by (auto simp: lives_def split: option.splits eol_result.splits)
  let ?entry = "\<lambda>n. republishEntry pe ie ops (pub_PublishWithEOL pe ie ops getValue putRecord ttl) lifetime (clock n)"
  have "entry_contract ?entry ?P ?Q"
    unfolding entry_contract_def
  proof (intro conjI allI impI)
    fix n k s s' r
    assume "?entry n k s = (s', r)"
    then show "renewed ie (stored pe ie view s p) (stored pe ie view s' p)" for p
      using republishEntry_renews [OF assms(1,2)] by blast
    assume "r = None"
    with \<open>?entry n k s = (s', r)\<close> show "?Q k s'"
      using republishEntry_renews [OF assms(1,2)] weaken by blast
  next
    show "?P a b \<Longrightarrow> ?P b c \<Longrightarrow> renewed ie (stored pe ie view a p) (stored pe ie view c p)" for a b c p
      by (meson renewed_trans)
    show "?Q k a \<Longrightarrow> ?P a b \<Longrightarrow> ?Q k b" for k a b
      by (meson lives_renewed)
  qed simp
  from fs.republish_round [OF assms(3) this assms(5)]
  have "?P s s' \<and> (r = None \<longrightarrow> ?Q self s' \<and> (\<forall>x \<in> fs_names ks. \<exists>k. fs_Get unm ks x = Inr k \<and> ?Q k s'))" .
  then show ?thesis
    by (metis Inr_inject)
qed

lemma id_of_priv_ex: "id_of_priv ex_pub k = Inr k"
  by (simp add: ex_pub_def)

lemma ex_republish_ok:
  assumes "0 \<le> now + lifetime"
  shows "snd (republishEntry ex_pub ex_ie alist_ds
    (pub_PublishWithEOL ex_pub ex_ie alist_ds getValue (\<lambda>_ _. None) None) lifetime now k s) = None"
proof (cases "map_of s (IpnsDsKey ex_pub k)")
  case None
  then show ?thesis
    by (simp add: republishEntry_def getLastIPNSEntry_def alist_ds_def id_of_priv_ex)
next
  case (Some e)
  have fields: "unmarshal ex_ie e = Inr e" "get_eol ex_ie e = Eol (int (length (en_validity e)))"
    "ds_Get alist_ds (IpnsDsKey ex_pub k) s = Inr e"
    by (simp_all add: ex_ie_def alist_ds_def Some)
  let ?eol = "if now + lifetime < int (length (en_validity e)) then int (length (en_validity e)) else now + lifetime"
  have "0 \<le> ?eol"
    using assms by simp
  then obtain s' e' where "updateRecord ex_pub ex_ie alist_ds getValue None k (en_value e) ?eol s = (s', Inr e')"
    using ex_update_ok by blast
  then show ?thesis
    by (simp add: republishEntry_def getLastIPNSEntry_def id_of_priv_ex fields pub_PublishWithEOL_def Let_def)
qed

theorem republish_renews_witness:
  "\<exists>ks s' r. fs_names ks = {''a''}
     \<and> republishEntries (Some (fs_List (\<lambda>s. s) ks, fs_Get Inr ks))
         (\<lambda>n. republishEntry ex_pub ex_ie alist_ds
           (pub_PublishWithEOL ex_pub ex_ie alist_ds (\<lambda>_. Inl ErrResolveFailed) (\<lambda>_ _. None) None) 5 10)
         ''me'' [(IpnsDsKey ex_pub ''me'', ex_entry), (IpnsDsKey ex_pub ''K'', ex_entry)] = (s', r)
     \<and> r = None \<and> lives ex_ie 15 (stored ex_pub ex_ie map_of s' ''K'')"
proof -
  have inv: "fs_invar empty_dir" and free: "''a'' \<notin> fs_names empty_dir"
    by (simp_all add: fs_invar_def fs_names_def empty_dir_def)
  define ks where "ks = fst (fs_Put Inr empty_dir ''a'' ''K'')"
  have ok: "snd (fs_Put Inr empty_dir ''a'' ''K'') = Inr ()"
    using fs.Put_free [OF inv free, where marshal = Inr and unmarshal = Inr] by simp
  have ks: "fs_invar ks" "fs_names ks = {''a''}" "fs_Get Inr ks ''a'' = Inr ''K''"
    using fs.invar_Put [OF inv] fs.Put_names [OF inv ok] fs.Put_Get [OF inv ok, where unmarshal = Inr]
    by (simp_all add: ks_def fs_names_def empty_dir_def)
  obtain xs where xs: "fs_List (\<lambda>s. s) ks = Inr xs" "set xs = {''a''}" "distinct xs"
    using fs.List_names [OF ks(1)] ks(2) by metis
  then have "xs = [''a'']"
    by (cases xs; cases "tl xs") auto
  note list = xs(1) [unfolded this]
  define E where "E = (\<lambda>n::nat. republishEntry ex_pub ex_ie alist_ds
    (pub_PublishWithEOL ex_pub ex_ie alist_ds (\<lambda>_. Inl ErrResolveFailed) (\<lambda>_ _. None) None) 5 10)"
  have ok: "\<exists>s'. E n k s = (s', None)" for n k s
    using ex_republish_ok [of 10 5] unfolding E_def by (metis prod.collapse zero_le_numeral add_nonneg_nonneg)
  let ?s = "[(IpnsDsKey ex_pub ''me'', ex_entry), (IpnsDsKey ex_pub ''K'', ex_entry)]"
  obtain s1 s2 where "E 0 ''me'' ?s = (s1, None)" "E 1 ''K'' s1 = (s2, None)"
    using ok by metis
  then have round: "republishEntries (Some (fs_List (\<lambda>s. s) ks, fs_Get Inr ks)) E ''me'' ?s = (s2, None)"
    by (simp add: republishEntries_def list ks(3))
  moreover have "lives ex_ie (10 + 5) (stored ex_pub ex_ie map_of s2 ''K'')"
    using republish_renews [OF alist_ds_laws ex_pub_laws ks(1) order_refl round [unfolded E_def]] ks(2,3) id_of_priv_ex
    by (metis Inr_inject singletonI)
  ultimately show ?thesis
    using ks(2) unfolding E_def by auto
qed

text \<open>One's own publications are seen at once. After a successful publication the name system answers the name
  from its cache with the published value until the time to live (that of the caller or one minute,
  but never past the end of life) is over; if that is not positive, the cache stays as it was; after a
  failed publication the name is not answered from the cache.\<close>

theorem publish_updates_cache:
  assumes "lru_laws lru view" and "ns_cache ns = Some c" and "staticMap ns pid = None" and "id_of_priv pe k = Inr pid"
    and "mpns_PublishWithEOL pe lru publish ctxTTL now k v eol (ns, s) = ((ns', s'), w)"
    and "ttl = min (until now eol) (case ctxTTL of Some t \<Rightarrow> t | None \<Rightarrow> DefaultResolverCacheTTL)"
  shows "snd (cacheGet lru t3 pid ns') =
    (if w \<noteq> None then None
     else if 0 < ttl then if t3 < now + ttl then Some v else None
     else snd (cacheGet lru t3 pid ns))"
proof -
  obtain s1 w1 where p: "publish k v eol s = (s1, w1)"
    by fastforce
  show ?thesis
  proof (cases w1)
    case None
    have "(if until now eol < (case ctxTTL of Some t \<Rightarrow> t | None \<Rightarrow> DefaultResolverCacheTTL) then until now eol
        else (case ctxTTL of Some t \<Rightarrow> t | None \<Rightarrow> DefaultResolverCacheTTL)) = ttl"
      by (simp add: assms(6))
    then have "w = None" "ns' = cacheSet lru now pid v ttl ns"
      using assms(4,5) p None by (auto simp: mpns_PublishWithEOL_def Let_def)
    then show ?thesis
      using cacheGet_after_set [OF assms(1-3), of ttl t3 now v] assms(2) by (simp add: cacheSet_def)
  next
    case (Some e)
    then have "w = Some e" "ns' = cacheInvalidate lru pid ns"
      using assms(4,5) p by (auto simp: mpns_PublishWithEOL_def)
    moreover have "snd (cacheGet lru t3 pid (cacheInvalidate lru pid ns)) \<noteq> Some x" for x
      using assms(1-3) by (simp add: cacheGet_hit [OF assms(1)] cacheInvalidate_def lru_laws_def)
    ultimately show ?thesis
      by auto
  qed
qed

theorem publish_updates_cache_witness:
  "snd (cacheGet pair_lru 9 ''me'' (fst (fst (mpns_PublishWithEOL ex_pub pair_lru (\<lambda>_ _ _ s. (s, None)) None 5 ''me'' ''/a'' 10
     (ex_ns, ()))))) = Some ''/a''"
proof -
  have c: "ns_cache ex_ns = Some []" "staticMap ex_ns ''me'' = None" "id_of_priv ex_pub ''me'' = Inr ''me''"
    by (simp_all add: ex_ns_def id_of_priv_ex)
  let ?r = "mpns_PublishWithEOL ex_pub pair_lru (\<lambda>_ _ _ s. (s, None)) None 5 ''me'' ''/a'' 10 (ex_ns, ())"
  have "snd ?r = None"
    by (simp add: mpns_PublishWithEOL_def id_of_priv_ex Let_def)
  then show ?thesis
    using publish_updates_cache [OF pair_lru_laws c, of "\<lambda>_ _ _ s. (s, None)" None 5 "''/a''" 10 "()"
        "fst (fst ?r)" "()" None _ 9]
    by (simp add: until_def DefaultResolverCacheTTL_def prod_eq_iff)
qed

end
