(* ===== verification/Hostname.thy ===== *)
theory Hostname
  imports Namesys "HOL-Library.Char_ord"
begin

text \<open>
  The gateway's handling of the \<open>Host\<close> header, \<open>src/core/corehttp/hostname.go\<close>: known gateways,
  subdomain gateways, redirects to a canonical origin and DNSLink hosts.

  Of the standard library, \<open>net.SplitHostPort\<close> and the regular expressions that wildcard hostnames
  compile to are written out; \<open>net/url\<close> and the packages for cids and peer identities are
  parameters (\<open>hn_env\<close>), as are regular expressions with further metacharacters. The handler's
  reply is a value; what the inner handler serves is \<open>Served\<close> with the path it is given.
\<close>

section \<open>Hosts and ports\<close>

text \<open>\<open>net.SplitHostPort\<close>: the host, or \<open>None\<close> for its errors.\<close>

definition split_last_colon :: "string \<Rightarrow> (string \<times> string) option" where
  "split_last_colon s = (if CHR '':'' \<notin> set s then None
     else Some (rev (tl (dropWhile (\<lambda>c. c \<noteq> CHR '':'') (rev s))), rev (takeWhile (\<lambda>c. c \<noteq> CHR '':'') (rev s))))"

definition SplitHostPort :: "string \<Rightarrow> string option" where
  "SplitHostPort hp = (case split_last_colon hp of
     None \<Rightarrow> None
   | Some (before, port) \<Rightarrow>
       if hd hp = CHR ''['' then
         (if CHR '']'' \<notin> set hp then None
          else let host = takeWhile (\<lambda>c. c \<noteq> CHR '']'') (tl hp); rest = drop (length host + 2) hp in
            if rest \<noteq> CHR '':'' # port \<or> CHR ''['' \<in> set (tl hp) \<or> CHR '']'' \<in> set rest then None else Some host)
       else if CHR '':'' \<in> set before \<or> CHR ''['' \<in> set hp \<or> CHR '']'' \<in> set hp then None
       else Some before)"

definition stripPort :: "string \<Rightarrow> string" where
  "stripPort hostname = (case SplitHostPort hostname of Some host \<Rightarrow> host | None \<Rightarrow> hostname)"

section \<open>Known gateways\<close>

record GatewaySpec =
  gs_Paths :: "string list"
  UseSubdomains :: bool
  NoDNSLink :: bool

definition defaultPaths :: "string list" where
  "defaultPaths = [''/ipfs/'', ''/ipns/'', ''/api/'', ''/p2p/'', ''/version'']"

definition pathGatewaySpec :: GatewaySpec where
  "pathGatewaySpec = \<lparr>gs_Paths = defaultPaths, UseSubdomains = False, NoDNSLink = False\<rparr>"

definition subdomainGatewaySpec :: GatewaySpec where
  "subdomainGatewaySpec = \<lparr>gs_Paths = defaultPaths, UseSubdomains = True, NoDNSLink = False\<rparr>"

definition defaultKnownGateways :: "string \<rightharpoonup> GatewaySpec" where
  "defaultKnownGateways = [''localhost'' \<mapsto> subdomainGatewaySpec, ''ipfs.io'' \<mapsto> pathGatewaySpec,
     ''gateway.ipfs.io'' \<mapsto> pathGatewaySpec, ''dweb.link'' \<mapsto> subdomainGatewaySpec]"

text \<open>
  The expression made from a wildcard hostname of plain characters: a star is one or more characters
  other than the dot, and a port may follow. A hostname with other characters is compiled by \<open>re\<close>;
  \<open>None\<close> is the nil expression of a failed compilation, on which matching panics.
\<close>

definition port_suffix :: "string \<Rightarrow> bool" where
  "port_suffix s \<longleftrightarrow> s = [] \<or>
     (hd s = CHR '':'' \<and> tl s \<noteq> [] \<and> list_all is_digit (tl s))"

fun wild_match :: "string \<Rightarrow> string \<Rightarrow> bool" where
  "wild_match [] s = port_suffix s"
| "wild_match (p # ps) [] = False"
| "wild_match (p # ps) (c # cs) =
     (if p = CHR ''*'' then c \<noteq> CHR ''.'' \<and> (wild_match ps cs \<or> wild_match (p # ps) cs)
      else p = c \<and> wild_match ps cs)"

definition plain_char :: "char \<Rightarrow> bool" where
  "plain_char c \<longleftrightarrow> is_digit c \<or> is_letter c
     \<or> c \<in> {CHR ''-'', CHR ''_'', CHR ''.'', CHR ''*'', CHR '':''}"

definition compile :: "(string \<Rightarrow> (string \<Rightarrow> bool) option) \<Rightarrow> string \<Rightarrow> (string \<Rightarrow> bool) option" where
  "compile re hostname = (if list_all plain_char hostname then Some (wild_match hostname) else re hostname)"

record gatewayHosts =
  exact :: "string \<rightharpoonup> GatewaySpec"
  wildcard :: "((string \<Rightarrow> bool) option \<times> GatewaySpec) list"

text \<open>The configured gateways come in the order of the iteration over the map.\<close>

fun apply_gateways :: "(string \<Rightarrow> (string \<Rightarrow> bool) option) \<Rightarrow> (string \<times> GatewaySpec option) list \<Rightarrow> gatewayHosts \<Rightarrow> gatewayHosts" where
  "apply_gateways re [] hosts = hosts"
| "apply_gateways re ((hostname, gw) # gws) hosts = apply_gateways re gws
     (case gw of
        None \<Rightarrow> hosts\<lparr>exact := (exact hosts)(hostname := None)\<rparr>
      | Some spec \<Rightarrow>
          if CHR ''*'' \<in> set hostname then hosts\<lparr>wildcard := wildcard hosts @ [(compile re hostname, spec)]\<rparr>
          else hosts\<lparr>exact := (exact hosts)(hostname \<mapsto> spec)\<rparr>)"

definition prepareKnownGateways :: "(string \<Rightarrow> (string \<Rightarrow> bool) option) \<Rightarrow> (string \<times> GatewaySpec option) list \<Rightarrow> gatewayHosts" where
  "prepareKnownGateways re publicGateways =
     apply_gateways re publicGateways \<lparr>exact = defaultKnownGateways, wildcard = []\<rparr>"

datatype panic = NilRegexp

fun match_wildcards :: "string \<Rightarrow> ((string \<Rightarrow> bool) option \<times> GatewaySpec) list \<Rightarrow> (panic, GatewaySpec option) result" where
  "match_wildcards hostname [] = Inr None"
| "match_wildcards hostname ((re, spec) # hs) = (case re of
     None \<Rightarrow> Inl NilRegexp
   | Some m \<Rightarrow> if m hostname then Inr (Some spec) else match_wildcards hostname hs)"

definition isKnownHostname :: "string \<Rightarrow> gatewayHosts \<Rightarrow> (panic, GatewaySpec option) result" where
  "isKnownHostname hostname hosts = (case exact hosts hostname of
     Some gw \<Rightarrow> Inr (Some gw)
   | None \<Rightarrow> (case exact hosts (stripPort hostname) of
       Some gw \<Rightarrow> Inr (Some gw)
     | None \<Rightarrow> match_wildcards hostname (wildcard hosts)))"

definition isSubdomainNamespace :: "string \<Rightarrow> bool" where
  "isSubdomainNamespace ns \<longleftrightarrow> ns \<in> {''ipfs'', ''ipns'', ''p2p'', ''ipld''}"

definition isPeerIDNamespace :: "string \<Rightarrow> bool" where
  "isPeerIDNamespace ns \<longleftrightarrow> ns \<in> {''ipns'', ''p2p''}"

fun subdomain_loop :: "gatewayHosts \<Rightarrow> string list \<Rightarrow> nat
    \<Rightarrow> (panic, (GatewaySpec \<times> string \<times> string \<times> string) option) result" where
  "subdomain_loop hosts labels i =
    (if i < 2 then Inr None
     else let fqdn = join ''.'' (drop i labels) in
       case isKnownHostname fqdn hosts of
         Inl p \<Rightarrow> Inl p
       | Inr None \<Rightarrow> subdomain_loop hosts labels (i - 1)
       | Inr (Some gw) \<Rightarrow>
           if \<not> isSubdomainNamespace (labels ! (i - 1)) then Inr None
           else Inr (Some (gw, fqdn, labels ! (i - 1), join ''.'' (take (i - 1) labels))))"

definition knownSubdomainDetails :: "string \<Rightarrow> gatewayHosts
    \<Rightarrow> (panic, (GatewaySpec \<times> string \<times> string \<times> string) option) result" where
  "knownSubdomainDetails hostname hosts =
    (let labels = split_all CHR ''.'' hostname in subdomain_loop hosts labels (length labels - 1))"

fun hasPrefix :: "string \<Rightarrow> string list \<Rightarrow> bool" where
  "hasPrefix path [] = False"
| "hasPrefix path (prefix # ps) =
    (let p = trim_suffix prefix ''/'' in p = path \<or> has_prefix path (p @ ''/'') \<or> hasPrefix path ps)"

section \<open>Canonical origins\<close>

datatype mbase = MBase32 | MBase36

record 'c hn_env =
  hn_cid :: "string \<Rightarrow> 'c option"
  hn_codec :: "'c \<Rightarrow> nat"
  hn_v1 :: "nat \<Rightarrow> 'c \<Rightarrow> 'c"
  hn_base :: "mbase \<Rightarrow> 'c \<Rightarrow> (string, string) result"
  hn_libp2p :: nat
  hn_peer_cid :: "string \<Rightarrow> string option"
  hn_domain :: "string \<Rightarrow> bool"
  hn_uri :: "string \<Rightarrow> (string, string) result"
  hn_resolve :: "string \<Rightarrow> ns_error option"

definition dnsLabelMaxLength :: nat where
  "dnsLabelMaxLength = 63"

definition toDNSPrefix :: "'c hn_env \<Rightarrow> string \<Rightarrow> 'c \<Rightarrow> (string, string) result" where
  "toDNSPrefix env rootID rootCID =
    (if length rootID \<le> dnsLabelMaxLength then Inr rootID
     else bind_ok (hn_base env MBase36 (hn_v1 env (hn_codec env rootCID) rootCID)) (\<lambda>s.
       if length s \<le> dnsLabelMaxLength then Inr s
       else Inl (''CID incompatible with DNS label length limit of 63: '' @ s)))"

text \<open>The normalisation of the root identifier inside \<open>toSubdomainURL\<close>.\<close>

definition canonical_root :: "'c hn_env \<Rightarrow> string \<Rightarrow> string \<Rightarrow> (string, string) result" where
  "canonical_root env ns rootID0 =
    (let rootID = (if isPeerIDNamespace ns \<and> \<not> hn_domain env rootID0
                   then (case hn_peer_cid env rootID0 of Some s \<Rightarrow> s | None \<Rightarrow> rootID0) else rootID0) in
     case hn_cid env rootID of
       None \<Rightarrow> Inr rootID
     | Some c0 \<Rightarrow>
         (let base = (if isPeerIDNamespace ns then MBase36 else MBase32);
              codec = (if isPeerIDNamespace ns then hn_libp2p env else hn_codec env c0);
              c = hn_v1 env codec c0
          in bind_ok (hn_base env base c) (\<lambda>s. toDNSPrefix env s c)))"

record request =
  r_Host :: string
  x_forwarded_host :: string
  x_forwarded_proto :: string
  r_Path :: string
  r_RawQuery :: string

definition subdomain_url :: "request \<Rightarrow> string \<Rightarrow> string \<Rightarrow> string \<Rightarrow> string \<Rightarrow> string" where
  "subdomain_url r rootID ns hostname rest =
     (if x_forwarded_proto r = ''https'' then ''https:'' else ''http:'') @ ''//'' @ rootID @ ''.'' @ ns @ ''.'' @ hostname
       @ ''/'' @ rest @ (if r_RawQuery r \<noteq> [] then ''?'' @ r_RawQuery r else [])"

text \<open>The empty URL is \<open>None\<close>.\<close>

definition toSubdomainURL :: "'c hn_env \<Rightarrow> string \<Rightarrow> string \<Rightarrow> request \<Rightarrow> (string, string option) result" where
  "toSubdomainURL env hostname path r =
    (let parts = split_n 4 CHR ''/'' path in
     if length parts < 3 then Inr None
     else let rest = (if length parts = 4 then parts ! 3 else []); ns = parts ! 1; rootID = parts ! 2 in
       if \<not> isSubdomainNamespace ns then Inr None
       else bind_ok (canonical_root env ns rootID) (\<lambda>root.
         bind_ok (hn_uri env (subdomain_url r root ns hostname rest)) (\<lambda>u. Inr (if u = [] then None else Some u))))"

section \<open>The handler\<close>

definition isDNSLinkRequest :: "'c hn_env \<Rightarrow> string \<Rightarrow> bool" where
  "isDNSLinkRequest env host =
    (let fqdn = stripPort host in
     if length fqdn = 0 \<and> \<not> hn_domain env fqdn then False
     else hn_resolve env (''/ipns/'' @ fqdn) \<in> {None, Some ErrResolveRecursion})"

datatype hn_reply =
    BadRequest string
  | NotFound
  | MovedPermanently string
  | Served string "string option" "string option" \<comment> \<open>path, Location header, gateway hostname\<close>
  | Panicked

definition serve_known :: "'c hn_env \<Rightarrow> GatewaySpec \<Rightarrow> string \<Rightarrow> request \<Rightarrow> hn_reply" where
  "serve_known env gw host r =
    (if hasPrefix (r_Path r) (gs_Paths gw) then
       (if UseSubdomains gw then
          (case toSubdomainURL env host (r_Path r) r of
             Inl e \<Rightarrow> BadRequest e
           | Inr location \<Rightarrow> Served (r_Path r) location None)
        else Served (r_Path r) None None)
     else if \<not> NoDNSLink gw \<and> isDNSLinkRequest env host
     then Served (''/ipns/'' @ stripPort host @ r_Path r) None None
     else NotFound)"

definition redirect_or :: "(string, string option) result \<Rightarrow> hn_reply \<Rightarrow> hn_reply" where
  "redirect_or u reply = (case u of
     Inl e \<Rightarrow> BadRequest e | Inr (Some newURL) \<Rightarrow> MovedPermanently newURL | Inr None \<Rightarrow> reply)"

definition serve_subdomain :: "'c hn_env \<Rightarrow> GatewaySpec \<Rightarrow> string \<Rightarrow> string \<Rightarrow> string \<Rightarrow> request \<Rightarrow> hn_reply" where
  "serve_subdomain env gw hostname ns rootID r =
    (let pathPrefix = ''/'' @ ns @ ''/'' @ rootID;
         served = Served (pathPrefix @ r_Path r) None (Some hostname) in
     if \<not> (UseSubdomains gw \<and> hasPrefix pathPrefix (gs_Paths gw)) then NotFound
     else case hn_cid env rootID of
       None \<Rightarrow> served
     | Some rootCID \<Rightarrow>
         (let fix_codec = (if isPeerIDNamespace ns \<and> hn_codec env rootCID \<noteq> hn_libp2p env
               then redirect_or (toSubdomainURL env hostname (pathPrefix @ r_Path r) r) served else served) in
          case toDNSPrefix env rootID rootCID of
            Inl e \<Rightarrow> BadRequest e
          | Inr dnsCID \<Rightarrow>
              if \<not> has_prefix (r_Host r) dnsCID
              then redirect_or (toSubdomainURL env hostname (''/'' @ ns @ ''/'' @ dnsCID @ r_Path r) r) fix_codec
              else fix_codec))"

definition HostnameOption :: "'c hn_env \<Rightarrow> gatewayHosts \<Rightarrow> bool \<Rightarrow> request \<Rightarrow> hn_reply" where
  "HostnameOption env hosts noDNSLink r =
    (let host = (if x_forwarded_host r \<noteq> [] then x_forwarded_host r else r_Host r) in
     case isKnownHostname host hosts of
       Inl _ \<Rightarrow> Panicked
     | Inr (Some gw) \<Rightarrow> serve_known env gw host r
     | Inr None \<Rightarrow> (case knownSubdomainDetails host hosts of
         Inl _ \<Rightarrow> Panicked
       | Inr (Some (gw, hostname, ns, rootID)) \<Rightarrow> serve_subdomain env gw hostname ns rootID r
       | Inr None \<Rightarrow>
           if \<not> noDNSLink \<and> isDNSLinkRequest env host
           then Served (''/ipns/'' @ stripPort host @ r_Path r) None None
           else Served (r_Path r) None None))"

section \<open>Subdomains lead back to their gateway\<close>

declare subdomain_loop.simps [simp del]

text \<open>No parent domain of the gateway's hostname is itself a known gateway.\<close>

definition no_known_parent :: "string \<Rightarrow> gatewayHosts \<Rightarrow> bool" where
  "no_known_parent h hosts \<longleftrightarrow>
     (\<forall>j. 0 < j \<and> j < length (split_all CHR ''.'' h) \<longrightarrow>
        isKnownHostname (join ''.'' (drop j (split_all CHR ''.'' h))) hosts = Inr None)"

lemma subdomain_loop_parents:
  assumes "no_known_parent h hosts" and "2 \<le> length pre" and "j < length (split_all CHR ''.'' h)"
  shows "subdomain_loop hosts (pre @ split_all CHR ''.'' h) (length pre + j)
    = subdomain_loop hosts (pre @ split_all CHR ''.'' h) (length pre)"
  using assms(3)
proof (induction j)
  case (Suc j)
  have "isKnownHostname (join ''.'' (drop (Suc j) (split_all CHR ''.'' h))) hosts = Inr None"
    using assms(1) Suc.prems by (simp add: no_known_parent_def)
  then have "subdomain_loop hosts (pre @ split_all CHR ''.'' h) (length pre + Suc j)
      = subdomain_loop hosts (pre @ split_all CHR ''.'' h) (length pre + j)"
    using assms(2) by (subst subdomain_loop.simps) auto
  then show ?case
    using Suc by simp
qed simp

lemma namespace_no_dot: "isSubdomainNamespace ns \<Longrightarrow> CHR ''.'' \<notin> set ns"
  by (auto simp: isSubdomainNamespace_def)

lemma knownSubdomainDetails_of:
  assumes "isKnownHostname h hosts = Inr (Some gw)" and "no_known_parent h hosts" and "isSubdomainNamespace ns"
  shows "knownSubdomainDetails (root @ ''.'' @ ns @ ''.'' @ h) hosts = Inr (Some (gw, h, ns, root))"
proof -
  let ?hs = "split_all CHR ''.'' h" and ?rs = "split_all CHR ''.'' root"
  let ?pre = "?rs @ [ns]"
  have labels: "split_all CHR ''.'' (root @ ''.'' @ ns @ ''.'' @ h) = ?pre @ ?hs"
    using namespace_no_dot [OF assms(3)] by (simp add: split_all_append split_all_single)
  obtain x xs where rs: "?rs = x # xs"
    by (cases ?rs) simp_all
  have len: "0 < length ?hs" "2 \<le> length ?pre"
    using rs by simp_all
  then have i: "length (?pre @ ?hs) - 1 = length ?pre + (length ?hs - 1)"
    by simp
  have "subdomain_loop hosts (?pre @ ?hs) (length (?pre @ ?hs) - 1) = subdomain_loop hosts (?pre @ ?hs) (length ?pre)"
    unfolding i using len by (intro subdomain_loop_parents [OF assms(2)]) simp_all
  also have "\<dots> = Inr (Some (gw, h, ns, root))"
    using len(2) assms(1,3) by (subst subdomain_loop.simps) (simp add: Let_def join_split_all nth_append)
  finally show ?thesis
    unfolding knownSubdomainDetails_def labels Let_def .
qed

section \<open>Redirects settle\<close>

text \<open>
  What is relied on of cids: text decodes to the cid it came from, and \<open>NewCidV1\<close> gives the cid
  the codec asked for and forgets the version.
\<close>

definition cid_laws :: "'c hn_env \<Rightarrow> bool" where
  "cid_laws env \<longleftrightarrow> (\<forall>b t c s. hn_base env b (hn_v1 env t c) = Inr s \<longrightarrow> hn_cid env s = Some (hn_v1 env t c))
     \<and> (\<forall>t c. hn_codec env (hn_v1 env t c) = t) \<and> (\<forall>t u c. hn_v1 env t (hn_v1 env u c) = hn_v1 env t c)"

lemma toDNSPrefix_fits:
  assumes "toDNSPrefix env s c = Inr root"
  shows "length root \<le> 63"
  using assms by (auto simp: toDNSPrefix_def dnsLabelMaxLength_def bind_ok_Inr split: if_splits)

lemma canonical_root_settled:
  assumes "cid_laws env" and "canonical_root env ns x = Inr root" and "hn_cid env root = Some c"
  shows "length root \<le> 63 \<and> (isPeerIDNamespace ns \<longrightarrow> hn_codec env c = hn_libp2p env)"
proof -
  define y where "y = (if isPeerIDNamespace ns \<and> \<not> hn_domain env x
    then (case hn_peer_cid env x of Some s \<Rightarrow> s | None \<Rightarrow> x) else x)"
  show ?thesis
  proof (cases "hn_cid env y")
    case None
    then show ?thesis
      using assms(2,3) by (simp add: canonical_root_def y_def [symmetric])
  next
    case (Some c0)
    define t where "t = (if isPeerIDNamespace ns then hn_libp2p env else hn_codec env c0)"
    obtain b s where s: "hn_base env b (hn_v1 env t c0) = Inr s"
      and root: "toDNSPrefix env s (hn_v1 env t c0) = Inr root"
      using assms(2) Some by (auto simp: canonical_root_def y_def [symmetric] t_def [symmetric] Let_def bind_ok_Inr)
    have "hn_cid env root = Some (hn_v1 env t c0)"
      using assms(1) s root
      by (auto simp: toDNSPrefix_def cid_laws_def bind_ok_Inr split: if_splits)
    then have "hn_codec env c = t"
      using assms(1,3) by (simp add: cid_laws_def)
    then show ?thesis
      using toDNSPrefix_fits [OF root] by (simp add: t_def)
  qed
qed

text \<open>C26: redirects settle. The canonical root identifier that \<open>toSubdomainURL\<close> puts into a subdomain of a
  known subdomain gateway, when requested there, is not redirected again: the request is
  served under the original namespace and root, and the identifier fits a DNS label if it is a
  cid. So a client follows at most one redirect. This is for requests without an \<open>X-Forwarded-Host\<close> header (with one they can
  be redirected forever, see \<open>forwarded_host_redirect_loop\<close>), for a gateway that serves the path and has no parent domain
  that is itself a known gateway, and for a subdomain that is not itself one.\<close>

theorem subdomain_redirect_settles:
  assumes "cid_laws env" and "canonical_root env ns x = Inr root" and "isSubdomainNamespace ns"
    and "isKnownHostname h hosts = Inr (Some gw)" and "no_known_parent h hosts"
    and "UseSubdomains gw" and "hasPrefix (''/'' @ ns @ ''/'' @ root) (gs_Paths gw)"
    and "r_Host r = root @ ''.'' @ ns @ ''.'' @ h" and "x_forwarded_host r = []"
    and "isKnownHostname (r_Host r) hosts = Inr None"
  shows "HostnameOption env hosts noDNSLink r = Served (''/'' @ ns @ ''/'' @ root @ r_Path r) None (Some h)
    \<and> (hn_cid env root \<noteq> None \<longrightarrow> length root \<le> 63)"
proof -
  have "HostnameOption env hosts noDNSLink r = serve_subdomain env gw h ns root r"
    using assms(4,5,9,10) knownSubdomainDetails_of [OF assms(4,5,3), of root]
    by (simp add: HostnameOption_def assms(8))
  moreover have "serve_subdomain env gw h ns root r = Served (''/'' @ ns @ ''/'' @ root @ r_Path r) None (Some h)"
  proof (cases "hn_cid env root")
    case None
    then show ?thesis
      using assms(6,7) by (simp add: serve_subdomain_def)
  next
    case (Some c)
    then have "toDNSPrefix env root c = Inr root" "\<not> (isPeerIDNamespace ns \<and> hn_codec env c \<noteq> hn_libp2p env)"
      using canonical_root_settled [OF assms(1,2)] by (auto simp: toDNSPrefix_def dnsLabelMaxLength_def)
    then show ?thesis
      using assms(6,7) Some by (auto simp: serve_subdomain_def Let_def assms(8))
  qed
  ultimately show ?thesis
    using canonical_root_settled [OF assms(1,2)] by auto
qed

text \<open>A setting to try the statements in: the first letter of a cid stands for its codec.\<close>

definition ex_hn :: "(nat \<times> string) hn_env" where
  "ex_hn = \<lparr>hn_cid = (\<lambda>s. case s of [] \<Rightarrow> None
       | c # x \<Rightarrow> if c = CHR ''k'' then Some (114, x) else if c = CHR ''b'' then Some (112, x) else None),
     hn_codec = fst, hn_v1 = (\<lambda>t c. (t, snd c)),
     hn_base = (\<lambda>_ c. if fst c = 114 then Inr (CHR ''k'' # snd c) else if fst c = 112 then Inr (CHR ''b'' # snd c) else Inl ''codec''),
     hn_libp2p = 114, hn_peer_cid = (\<lambda>_. None), hn_domain = (\<lambda>_. False), hn_uri = Inr,
     hn_resolve = (\<lambda>_. Some ErrResolveFailed)\<rparr>"

lemma ex_hn_laws: "cid_laws ex_hn"
  by (auto simp: cid_laws_def ex_hn_def split: if_splits)

definition ex_request :: "string \<Rightarrow> string \<Rightarrow> request" where
  "ex_request host fwd = \<lparr>r_Host = host, x_forwarded_host = fwd, x_forwarded_proto = [], r_Path = ''/a'', r_RawQuery = []\<rparr>"

lemma ex_hosts:
  defines "hosts \<equiv> prepareKnownGateways (\<lambda>_. None) []"
  shows "isKnownHostname ''localhost:80'' hosts = Inr (Some subdomainGatewaySpec)"
    and "isKnownHostname ''bQm.ipfs.localhost:80'' hosts = Inr None"
    and "no_known_parent ''localhost:80'' hosts"
proof -
  have strip: "stripPort ''localhost:80'' = ''localhost''" "stripPort ''bQm.ipfs.localhost:80'' = ''bQm.ipfs.localhost''"
    by code_simp+
  show "isKnownHostname ''localhost:80'' hosts = Inr (Some subdomainGatewaySpec)"
    "isKnownHostname ''bQm.ipfs.localhost:80'' hosts = Inr None"
    by (simp_all add: isKnownHostname_def hosts_def prepareKnownGateways_def defaultKnownGateways_def strip)
  show "no_known_parent ''localhost:80'' hosts"
    by (simp add: no_known_parent_def split_all_single)
qed

lemma ex_canonical: "canonical_root ex_hn ''ipfs'' ''bQm'' = Inr ''bQm''"
  by (simp add: canonical_root_def isPeerIDNamespace_def ex_hn_def toDNSPrefix_def dnsLabelMaxLength_def)

lemma ex_served: "hasPrefix (''/'' @ ''ipfs'' @ ''/'' @ ''bQm'') (gs_Paths subdomainGatewaySpec)" "UseSubdomains subdomainGatewaySpec"
  by code_simp+

theorem subdomain_redirect_settles_witness:
  "HostnameOption ex_hn (prepareKnownGateways (\<lambda>_. None) []) False (ex_request ''bQm.ipfs.localhost:80'' [])
   = Served ''/ipfs/bQm/a'' None (Some ''localhost:80'')"
proof -
  let ?r = "ex_request ''bQm.ipfs.localhost:80'' []"
  have r: "r_Host ?r = ''bQm'' @ ''.'' @ ''ipfs'' @ ''.'' @ ''localhost:80''" "x_forwarded_host ?r = []"
    "isKnownHostname (r_Host ?r) (prepareKnownGateways (\<lambda>_. None) []) = Inr None" "r_Path ?r = ''/a''"
    using ex_hosts(2) by (simp_all add: ex_request_def)
  have ns: "isSubdomainNamespace ''ipfs''"
    by (simp add: isSubdomainNamespace_def)
  show ?thesis
    using subdomain_redirect_settles [OF ex_hn_laws ex_canonical ns ex_hosts(1,3) ex_served(2,1) r(1-3), of False] r(4) by simp
qed

text \<open>Behind a proxy redirects can loop. When the host comes from \<open>X-Forwarded-Host\<close>, the canonical
  identifier is still compared with the plain \<open>Host\<close> header: if that does not begin with it, a
  request for a canonical subdomain URL is redirected to this very URL.\<close>

theorem forwarded_host_redirect_loop:
  assumes "canonical_root env ns root = Inr root" and "isSubdomainNamespace ns" and "CHR ''/'' \<notin> set root"
    and "hn_cid env root = Some c" and "length root \<le> 63"
    and "isKnownHostname h hosts = Inr (Some gw)" and "no_known_parent h hosts"
    and "UseSubdomains gw" and "hasPrefix (''/'' @ ns @ ''/'' @ root) (gs_Paths gw)"
    and "x_forwarded_host r = root @ ''.'' @ ns @ ''.'' @ h" and "isKnownHostname (x_forwarded_host r) hosts = Inr None"
    and "\<not> has_prefix (r_Host r) root" and "r_Path r = ''/'' @ p"
    and "hn_uri env (subdomain_url r root ns h p) = Inr (subdomain_url r root ns h p)"
  shows "HostnameOption env hosts noDNSLink r = MovedPermanently (subdomain_url r root ns h p)"
proof -
  have "CHR ''/'' \<notin> set ns"
    using assms(2) by (auto simp: isSubdomainNamespace_def)
  then have parts: "split_n 4 CHR ''/'' (''/'' @ ns @ ''/'' @ root @ ''/'' @ p) = [[], ns, root, p]"
    using assms(3) by (simp add: eval_nat_numeral takeWhile_append dropWhile_append)
  have "subdomain_url r root ns h p \<noteq> []"
    by (simp add: subdomain_url_def)
  then have url: "toSubdomainURL env h (''/'' @ ns @ ''/'' @ root @ ''/'' @ p) r = Inr (Some (subdomain_url r root ns h p))"
    unfolding toSubdomainURL_def parts using assms(1,2,14) by (simp add: Let_def)
  have "toDNSPrefix env root c = Inr root"
    using assms(5) by (simp add: toDNSPrefix_def dnsLabelMaxLength_def)
  then have "serve_subdomain env gw h ns root r = MovedPermanently (subdomain_url r root ns h p)"
    using assms(4,8,9,12,13) url by (simp add: serve_subdomain_def redirect_or_def Let_def)
  then show ?thesis
    using assms(10,11) knownSubdomainDetails_of [OF assms(6,7,2), of root] by (simp add: HostnameOption_def)
qed

theorem forwarded_host_redirect_loop_witness:
  "HostnameOption ex_hn (prepareKnownGateways (\<lambda>_. None) []) False (ex_request ''127.0.0.1:8080'' ''bQm.ipfs.localhost:80'')
   = MovedPermanently ''http://bQm.ipfs.localhost:80/a''"
proof -
  let ?r = "ex_request ''127.0.0.1:8080'' ''bQm.ipfs.localhost:80''"
  have r: "x_forwarded_host ?r = ''bQm'' @ ''.'' @ ''ipfs'' @ ''.'' @ ''localhost:80''"
    "isKnownHostname (x_forwarded_host ?r) (prepareKnownGateways (\<lambda>_. None) []) = Inr None"
    "\<not> has_prefix (r_Host ?r) ''bQm''" "r_Path ?r = ''/'' @ ''a''"
    using ex_hosts(2) by (simp_all add: ex_request_def has_prefix_def)
  have u: "hn_uri ex_hn (subdomain_url ?r ''bQm'' ''ipfs'' ''localhost:80'' ''a'') = Inr (subdomain_url ?r ''bQm'' ''ipfs'' ''localhost:80'' ''a'')"
    "subdomain_url ?r ''bQm'' ''ipfs'' ''localhost:80'' ''a'' = ''http://bQm.ipfs.localhost:80/a''"
    "hn_cid ex_hn ''bQm'' = Some (112, ''Qm'')" "isSubdomainNamespace ''ipfs''"
    by (simp_all add: ex_hn_def subdomain_url_def ex_request_def isSubdomainNamespace_def)
  show ?thesis
    using forwarded_host_redirect_loop [OF ex_canonical u(4) _ u(3) _ ex_hosts(1,3) ex_served(2,1) r u(1), of False] u(2) by simp
qed

text \<open>
  The condition of \<open>isDNSLinkRequest\<close> joins its tests with \<open>and\<close>: a host that is no domain, such as an
  address, is still looked up.
\<close>

lemma dnslink_looks_up_non_domains:
  "stripPort host \<noteq> [] \<Longrightarrow>
     isDNSLinkRequest env host = (hn_resolve env (''/ipns/'' @ stripPort host) \<in> {None, Some ErrResolveRecursion})"
  by (simp add: isDNSLinkRequest_def Let_def)

text \<open>
  A wildcard entry matches exactly one label in place of each star, with or without a port.
\<close>

lemma wild_match_literal: "CHR ''*'' \<notin> set ps \<Longrightarrow> wild_match ps s \<longleftrightarrow> (\<exists>t. s = ps @ t \<and> port_suffix t)"
proof (induction ps arbitrary: s)
  case (Cons p ps)
  then show ?case
    by (cases s) auto
qed simp

lemma wild_match_star:
  "wild_match (CHR ''*'' # ps) s \<longleftrightarrow> (\<exists>l t. s = l @ t \<and> l \<noteq> [] \<and> CHR ''.'' \<notin> set l \<and> wild_match ps t)"
proof (induction s)
  case (Cons c cs)
  have "(\<exists>l t. c # cs = l @ t \<and> l \<noteq> [] \<and> CHR ''.'' \<notin> set l \<and> wild_match ps t) \<longleftrightarrow>
      c \<noteq> CHR ''.'' \<and> (wild_match ps cs \<or> (\<exists>l t. cs = l @ t \<and> l \<noteq> [] \<and> CHR ''.'' \<notin> set l \<and> wild_match ps t))"
    (is "?l \<longleftrightarrow> ?r")
  proof
    assume ?l
    then obtain l t where lt: "c # cs = l @ t" "l \<noteq> []" "CHR ''.'' \<notin> set l" "wild_match ps t"
      by blast
    then obtain m where m: "l = c # m" "cs = m @ t"
      by (cases l) auto
    then show ?r
      using lt(3,4) by (cases "m = []") auto
  next
    assume ?r
    then show ?l
    proof (elim conjE disjE exE)
      assume "c \<noteq> CHR ''.''" "wild_match ps cs"
      then show ?l
        by (intro exI [of _ "[c]"] exI [of _ cs]) simp
    next
      fix l t
      assume "c \<noteq> CHR ''.''" "cs = l @ t" "CHR ''.'' \<notin> set l" "wild_match ps t"
      then show ?l
        by (intro exI [of _ "c # l"] exI [of _ t]) simp
    qed
  qed
  then show ?case
    using Cons by simp
qed simp

text \<open>Wildcards stand for one label. The entry \<open>*.domain\<close> of the public gateways matches exactly the hosts
  made of one non-empty label without dots, a dot, the domain and optionally a colon and digits.\<close>

theorem wildcard_gateway_matches:
  assumes "CHR ''*'' \<notin> set domain"
  shows "wild_match (''*.'' @ domain) host \<longleftrightarrow>
    (\<exists>label port. host = label @ ''.'' @ domain @ port \<and> label \<noteq> [] \<and> CHR ''.'' \<notin> set label \<and> port_suffix port)"
  using wild_match_literal [of "CHR ''.'' # domain"] assms by (fastforce simp: wild_match_star)

theorem wildcard_gateway_matches_witness:
  "wild_match ''*.example.net'' ''a.example.net:80'' \<and> \<not> wild_match ''*.example.net'' ''a.b.example.net''"
proof -
  have no: "CHR ''*'' \<notin> set ''example.net''"
    by simp
  have "port_suffix '':80''"
    by code_simp
  then have "\<exists>label port. ''a.example.net:80'' = label @ ''.'' @ ''example.net'' @ port
      \<and> label \<noteq> [] \<and> CHR ''.'' \<notin> set label \<and> port_suffix port"
    by (intro exI [where x = "''a''"] exI [where x = "'':80''"]) simp
  then have "wild_match (''*.'' @ ''example.net'') ''a.example.net:80''"
    using wildcard_gateway_matches [OF no] by blast
  moreover have "\<not> wild_match ''*.example.net'' ''a.b.example.net''"
    by code_simp
  ultimately show ?thesis
    by simp
qed

end
