(* ===== verification/KeyAPI.thy ===== *)
theory KeyAPI
  imports Namesys Keystore "HOL-Library.List_Lexorder" "HOL-Library.Char_ord"
begin

text \<open>
  The key and name interfaces of the core API, \<open>src/core/coreapi/key.go\<close> and
  \<open>src/core/coreapi/name.go\<close>, which sit on a keystore and on the name system.

  The operations take the keystore they work on as a record of operations; what they do is proved
  for every store that keeps the contract of the locale \<open>keystore\<close> and then used for the key
  directory. Key generation, peer identities and the options' parsing are parameters.
\<close>

section \<open>Keys (key.go)\<close>

datatype api_error =
    SelfName string
  | KeyTaken string
  | NoKeyNamed string
  | UnknownKeyType string
  | NoKeyFound
  | NotLoaded
  | Offline
  | IpnsMounted
  | ApiKs ks_error
  | ApiNs ns_error
  | ApiOther string

record ('s, 'k) ks_ops =
  k_Has :: "'s \<Rightarrow> string \<Rightarrow> (ks_error, bool) result"
  k_Put :: "'s \<Rightarrow> string \<Rightarrow> 'k \<Rightarrow> 's \<times> (ks_error, unit) result"
  k_Get :: "'s \<Rightarrow> string \<Rightarrow> (ks_error, 'k) result"
  k_Delete :: "'s \<Rightarrow> string \<Rightarrow> 's \<times> (ks_error, unit) result"
  k_List :: "'s \<Rightarrow> (ks_error, string list) result"

text \<open>\<open>key_id\<close> is \<open>peer.IDFromPublicKey\<close> of the public half of the key.\<close>

record 'k key_env =
  key_id :: "'k \<Rightarrow> (string, string) result"
  gen_rsa :: "int \<Rightarrow> (string, 'k) result"
  gen_ed25519 :: "(string, 'k) result"

definition DefaultRSALen :: int where
  "DefaultRSALen = 2048"

type_synonym api_key = "string \<times> string"

definition generate_key :: "'k key_env \<Rightarrow> string \<Rightarrow> int \<Rightarrow> (api_error, 'k) result" where
  "generate_key env algorithm bits =
    (if algorithm = ''rsa'' then
       (case gen_rsa env (if bits = -1 then DefaultRSALen else bits) of Inl e \<Rightarrow> Inl (ApiOther e) | Inr k \<Rightarrow> Inr k)
     else if algorithm = ''ed25519'' then
       (case gen_ed25519 env of Inl e \<Rightarrow> Inl (ApiOther e) | Inr k \<Rightarrow> Inr k)
     else Inl (UnknownKeyType algorithm))"

definition key_Generate :: "('s, 'k) ks_ops \<Rightarrow> 'k key_env \<Rightarrow> (api_error, string \<times> int) result \<Rightarrow> string \<Rightarrow> 's
    \<Rightarrow> 's \<times> (api_error, api_key) result" where
  "key_Generate ops env options name s =
    (case options of Inl e \<Rightarrow> (s, Inl e) | Inr (algorithm, bits) \<Rightarrow>
     if name = ''self'' then (s, Inl (SelfName ''create''))
     else case k_Get ops s name of
       Inr _ \<Rightarrow> (s, Inl (KeyTaken name))
     | Inl _ \<Rightarrow> (case generate_key env algorithm bits of
         Inl e \<Rightarrow> (s, Inl e)
       | Inr sk \<Rightarrow> (case k_Put ops s name sk of
           (s', Inl e) \<Rightarrow> (s', Inl (ApiKs e))
         | (s', Inr _) \<Rightarrow> (case key_id env sk of
             Inl e \<Rightarrow> (s', Inl (ApiOther e)) | Inr pid \<Rightarrow> (s', Inr (name, pid))))))"

fun list_keys :: "('s, 'k) ks_ops \<Rightarrow> 'k key_env \<Rightarrow> 's \<Rightarrow> string list \<Rightarrow> (api_error, api_key list) result" where
  "list_keys ops env s [] = Inr []"
| "list_keys ops env s (n # ns) = (case k_Get ops s n of
     Inl e \<Rightarrow> Inl (ApiKs e)
   | Inr k \<Rightarrow> (case key_id env k of
       Inl e \<Rightarrow> Inl (ApiOther e)
     | Inr pid \<Rightarrow> bind_ok (list_keys ops env s ns) (\<lambda>ks. Inr ((n, pid) # ks))))"

definition key_List :: "('s, 'k) ks_ops \<Rightarrow> 'k key_env \<Rightarrow> string \<Rightarrow> 's \<Rightarrow> (api_error, api_key list) result" where
  "key_List ops env identity s = (case k_List ops s of
     Inl e \<Rightarrow> Inl (ApiKs e)
   | Inr names \<Rightarrow> bind_ok (list_keys ops env s (sort names)) (\<lambda>ks. Inr ((''self'', identity) # ks)))"

definition rename_target :: "('s, 'k) ks_ops \<Rightarrow> bool \<Rightarrow> string \<Rightarrow> 's \<Rightarrow> 's \<times> (ks_error, bool) result" where
  "rename_target ops force newName s =
    (if force then (case k_Has ops s newName of
       Inl e \<Rightarrow> (s, Inl e)
     | Inr False \<Rightarrow> (s, Inr False)
     | Inr True \<Rightarrow> (case k_Delete ops s newName of (s', Inl e) \<Rightarrow> (s', Inl e) | (s', Inr _) \<Rightarrow> (s', Inr True)))
     else (s, Inr False))"

definition key_Rename :: "('s, 'k) ks_ops \<Rightarrow> 'k key_env \<Rightarrow> (api_error, bool) result \<Rightarrow> string \<Rightarrow> string \<Rightarrow> 's
    \<Rightarrow> 's \<times> (api_error, api_key \<times> bool) result" where
  "key_Rename ops env options oldName newName s =
    (case options of Inl e \<Rightarrow> (s, Inl e) | Inr force \<Rightarrow>
     if oldName = ''self'' then (s, Inl (SelfName ''rename''))
     else if newName = ''self'' then (s, Inl (SelfName ''overwrite''))
     else case k_Get ops s oldName of
       Inl _ \<Rightarrow> (s, Inl (NoKeyNamed oldName))
     | Inr oldKey \<Rightarrow> (case key_id env oldKey of
         Inl e \<Rightarrow> (s, Inl (ApiOther e))
       | Inr pid \<Rightarrow>
           if newName = oldName then (s, Inr ((oldName, pid), False))
           else (case rename_target ops force newName s of
             (s1, Inl e) \<Rightarrow> (s1, Inl (ApiKs e))
           | (s1, Inr overwrite) \<Rightarrow> (case k_Put ops s1 newName oldKey of
               (s2, Inl e) \<Rightarrow> (s2, Inl (ApiKs e))
             | (s2, Inr _) \<Rightarrow> (case k_Delete ops s2 oldName of
                 (s3, Inl e) \<Rightarrow> (s3, Inl (ApiKs e))
               | (s3, Inr _) \<Rightarrow> (s3, Inr ((newName, pid), overwrite)))))))"

definition key_Remove :: "('s, 'k) ks_ops \<Rightarrow> 'k key_env \<Rightarrow> string \<Rightarrow> 's \<Rightarrow> 's \<times> (api_error, api_key) result" where
  "key_Remove ops env name s =
    (if name = ''self'' then (s, Inl (SelfName ''remove''))
     else case k_Get ops s name of
       Inl _ \<Rightarrow> (s, Inl (NoKeyNamed name))
     | Inr removed \<Rightarrow> (case key_id env removed of
         Inl e \<Rightarrow> (s, Inl (ApiOther e))
       | Inr pid \<Rightarrow> (case k_Delete ops s name of
           (s', Inl e) \<Rightarrow> (s', Inl (ApiKs e)) | (s', Inr _) \<Rightarrow> (s', Inr ([], pid)))))"

definition key_Self :: "string \<Rightarrow> (api_error, api_key) result" where
  "key_Self identity = (if identity = [] then Inl NotLoaded else Inr (''self'', identity))"

section \<open>Names (name.go)\<close>

fun lookup_by_id :: "('s, 'k) ks_ops \<Rightarrow> ('k \<Rightarrow> (string, string) result) \<Rightarrow> string \<Rightarrow> string list \<Rightarrow> 's \<Rightarrow> (api_error, 'k) result" where
  "lookup_by_id ops priv_id target [] s = Inl NoKeyFound"
| "lookup_by_id ops priv_id target (n # ns) s = (case k_Get ops s n of
     Inl e \<Rightarrow> Inl (ApiKs e)
   | Inr k \<Rightarrow> (case priv_id k of
       Inl e \<Rightarrow> Inl (ApiOther e)
     | Inr pid \<Rightarrow> if target = pid then Inr k else lookup_by_id ops priv_id target ns s))"

text \<open>\<open>kstore.Get\<close> returns a key exactly when it returns no error, so testing the key is testing the error.\<close>

definition keylookup :: "('s, 'k) ks_ops \<Rightarrow> ('k \<Rightarrow> (string, string) result) \<Rightarrow> (string \<Rightarrow> (string, string) result)
    \<Rightarrow> 'k \<Rightarrow> string \<Rightarrow> 's \<Rightarrow> (api_error, 'k) result" where
  "keylookup ops priv_id peer_dec self k s =
    (if k = ''self'' then Inr self
     else case k_Get ops s k of
       Inr res \<Rightarrow> Inr res
     | Inl e \<Rightarrow>
         if e \<noteq> ErrNoSuchKey then Inl (ApiKs e)
         else case k_List ops s of
           Inl e \<Rightarrow> Inl (ApiKs e)
         | Inr keyNames \<Rightarrow> (case peer_dec k of
             Inl _ \<Rightarrow> Inl (ApiKs ErrNoSuchKey)
           | Inr target \<Rightarrow> (case priv_id self of
               Inl e \<Rightarrow> Inl (ApiOther e)
             | Inr pid \<Rightarrow> if pid = target then Inr self else lookup_by_id ops priv_id target keyNames s)))"

record publish_options =
  po_Key :: string
  po_TTL :: "int option"
  po_ValidTime :: int
  po_AllowOffline :: bool

definition checkOnline :: "bool \<Rightarrow> bool \<Rightarrow> api_error option" where
  "checkOnline isOnline allowOffline = (if \<not> isOnline \<and> \<not> allowOffline then Some Offline else None)"

definition checkPublishAllowed :: "bool \<Rightarrow> api_error option" where
  "checkPublishAllowed ipnsActive = (if ipnsActive then Some IpnsMounted else None)"

text \<open>
  \<open>publish\<close> is \<open>PublishWithEOL\<close> of the name system, which gets the TTL through the context;
  \<open>lookup\<close> is \<open>keylookup\<close> and \<open>format\<close> the text of an identity.
\<close>

definition name_Publish :: "(string \<Rightarrow> (api_error, string) result) \<Rightarrow> (string \<Rightarrow> (api_error, 'k) result)
    \<Rightarrow> (int option \<Rightarrow> 'k \<Rightarrow> string \<Rightarrow> int \<Rightarrow> 's \<Rightarrow> 's \<times> ns_error option) \<Rightarrow> ('k \<Rightarrow> (string, string) result) \<Rightarrow> (string \<Rightarrow> string)
    \<Rightarrow> bool \<Rightarrow> bool \<Rightarrow> (api_error, publish_options) result \<Rightarrow> int \<Rightarrow> string \<Rightarrow> 's \<Rightarrow> 's \<times> (api_error, string \<times> string) result" where
  "name_Publish parse lookup publish priv_id format ipnsActive isOnline opts now p s =
    (case checkPublishAllowed ipnsActive of Some e \<Rightarrow> (s, Inl e) | None \<Rightarrow>
    (case opts of Inl e \<Rightarrow> (s, Inl e) | Inr options \<Rightarrow>
    (case checkOnline isOnline (po_AllowOffline options) of Some e \<Rightarrow> (s, Inl e) | None \<Rightarrow>
    (case parse p of Inl e \<Rightarrow> (s, Inl e) | Inr pth \<Rightarrow>
    (case lookup (po_Key options) of Inl e \<Rightarrow> (s, Inl e) | Inr k \<Rightarrow>
    (case publish (po_TTL options) k pth (now + po_ValidTime options) s of
       (s', Some e) \<Rightarrow> (s', Inl (ApiNs e))
     | (s', None) \<Rightarrow> (case priv_id k of
         Inl e \<Rightarrow> (s', Inl (ApiOther e)) | Inr pid \<Rightarrow> (s', Inr (format pid, p)))))))))"

definition name_Search :: "(bool \<Rightarrow> string \<Rightarrow> ns_result list) \<Rightarrow> (api_error, bool) result \<Rightarrow> string \<Rightarrow> (api_error, ns_result list) result" where
  "name_Search search opts name = (case opts of
     Inl e \<Rightarrow> Inl e
   | Inr useCache \<Rightarrow> Inr (search useCache (if has_prefix name ''/ipns/'' then name else ''/ipns/'' @ name)))"

definition name_Resolve :: "(bool \<Rightarrow> string \<Rightarrow> ns_result list) \<Rightarrow> (api_error, bool) result \<Rightarrow> string \<Rightarrow> (api_error, ns_result) result" where
  "name_Resolve search opts name =
     bind_ok (name_Search search opts name) (\<lambda>results. Inr (resolve results))"

section \<open>Keys over any keystore\<close>

context keystore
begin

lemma Get_names: "invar s \<Longrightarrow> n \<noteq> [] \<Longrightarrow> Get s n = Inr k \<Longrightarrow> n \<in> names s"
  using Get_missing by fastforce

lemma Delete_get: "invar s \<Longrightarrow> n \<noteq> [] \<Longrightarrow> Get (fst (Delete s n)) n = Inl ErrNoSuchKey"
  by (simp add: Delete_names Get_missing invar_Delete)

lemma rename_target_step:
  assumes "ops = \<lparr>k_Has = Has, k_Put = Put, k_Get = Get, k_Delete = Delete, k_List = List\<rparr>"
    and "invar s" and "n \<noteq> []" and "force \<or> n \<notin> names s"
  shows "\<exists>s1. rename_target ops force n s = (s1, Inr (n \<in> names s)) \<and> invar s1 \<and> names s1 = names s - {n}
    \<and> (\<forall>m. m \<noteq> n \<longrightarrow> Get s1 m = Get s m)"
proof (cases "n \<in> names s")
  case True
  obtain s1 where d: "Delete s n = (s1, Inr ())"
    using Delete_ok [OF assms(2) True] by (metis prod.collapse)
  have s1: "s1 = fst (Delete s n)"
    by (simp add: d)
  have "rename_target ops force n s = (s1, Inr True)"
    using assms(4) True d Has_names [OF assms(2,3)] by (simp add: rename_target_def assms(1))
  then show ?thesis
    using True invar_Delete [OF assms(2)] Delete_names [OF assms(2)] Delete_frame [OF assms(2)] by (simp add: s1)
next
  case False
  then have "rename_target ops force n s = (s, Inr False)"
    using Has_names [OF assms(2,3)] by (simp add: rename_target_def assms(1))
  then show ?thesis
    using False assms(2) by simp
qed

lemma rename_moves:
  assumes ops: "ops = \<lparr>k_Has = Has, k_Put = Put, k_Get = Get, k_Delete = Delete, k_List = List\<rparr>"
    and "invar s" and "old \<in> names s" and "Get s old = Inr k" and "reread k = Inr k" and "key_id env k = Inr pid"
    and "old \<noteq> new" and "old \<noteq> ''self''" and "new \<noteq> ''self''" and "new \<noteq> []" and "force \<or> new \<notin> names s"
  shows "\<exists>s'. key_Rename ops env (Inr force) old new s = (s', Inr ((new, pid), new \<in> names s))
    \<and> invar s' \<and> names s' = insert new (names s) - {old} \<and> Get s' new = Inr k
    \<and> (\<forall>m. m \<noteq> old \<and> m \<noteq> new \<longrightarrow> Get s' m = Get s m)"
proof -
  obtain s1 where t: "rename_target ops force new s = (s1, Inr (new \<in> names s))"
    and s1: "invar s1" "names s1 = names s - {new}" "\<And>m. m \<noteq> new \<Longrightarrow> Get s1 m = Get s m"
    using rename_target_step [OF ops assms(2,10,11)] by blast
  have "new \<notin> names s1"
    by (simp add: s1(2))
  then have p: "snd (Put s1 new k) = Inr ()"
    using Put_free [OF s1(1) _ assms(10,5)] by simp
  then obtain s2 where s2: "Put s1 new k = (s2, Inr ())"
    by (metis prod.collapse)
  have i2: "invar s2" "names s2 = insert new (names s1)" "Get s2 new = Inr k" "\<And>m. m \<noteq> new \<Longrightarrow> Get s2 m = Get s1 m"
    using invar_Put [OF s1(1), of new k] Put_names [OF s1(1) p] Put_Get [OF s1(1) p] Put_frame [OF s1(1), of _ new k] assms(5)
    by (simp_all add: s2)
  have "old \<in> names s2"
    using assms(3,7) by (simp add: i2(2) s1(2))
  then obtain s3 where s3: "Delete s2 old = (s3, Inr ())"
    using Delete_ok [OF i2(1)] by (metis prod.collapse)
  have "invar s3" "names s3 = names s2 - {old}" "\<And>m. m \<noteq> old \<Longrightarrow> Get s3 m = Get s2 m"
    using invar_Delete [OF i2(1), of old] Delete_names [OF i2(1), of old] Delete_frame [OF i2(1), of _ old] by (simp_all add: s3)
  moreover have "key_Rename ops env (Inr force) old new s = (s3, Inr ((new, pid), new \<in> names s))"
    using assms(4,6-9) t s2 s3 by (simp add: key_Rename_def ops)
  ultimately show ?thesis
    using i2 s1 assms(7) by auto
qed

lemma list_keys_all:
  assumes ops: "ops = \<lparr>k_Has = Has, k_Put = Put, k_Get = Get, k_Delete = Delete, k_List = List\<rparr>"
    and "\<And>n. n \<in> set ns \<Longrightarrow> Get s n = Inr (key n)" and "\<And>n. n \<in> set ns \<Longrightarrow> key_id env (key n) = Inr (pid n)"
  shows "list_keys ops env s ns = Inr (map (\<lambda>n. (n, pid n)) ns)"
  using assms(2,3) by (induction ns) (simp_all add: ops)

lemma key_List_sorted:
  assumes ops: "ops = \<lparr>k_Has = Has, k_Put = Put, k_Get = Get, k_Delete = Delete, k_List = List\<rparr>"
    and "invar s" and "\<forall>n \<in> names s. Get s n = Inr (key n)" and "\<forall>n \<in> names s. key_id env (key n) = Inr (pid n)"
  shows "\<exists>ns. key_List ops env identity s = Inr ((''self'', identity) # map (\<lambda>n. (n, pid n)) ns)
    \<and> sorted ns \<and> distinct ns \<and> set ns = names s"
proof -
  obtain xs where "List s = Inr xs" "set xs = names s" "distinct xs"
    using List_names [OF assms(2)] by blast
  moreover have "list_keys ops env s (sort xs) = Inr (map (\<lambda>n. (n, pid n)) (sort xs))"
    using calculation(2) by (intro list_keys_all [OF ops, where key = key]) (simp_all add: assms(3,4))
  ultimately show ?thesis
    by (intro exI [of _ "sort xs"]) (simp add: key_List_def ops)
qed

lemma keylookup_name_first:
  assumes "ops = \<lparr>k_Has = Has, k_Put = Put, k_Get = Get, k_Delete = Delete, k_List = List\<rparr>"
    and "Get s n = Inr k" and "n \<noteq> ''self''"
  shows "keylookup ops priv_id peer_dec self n s = Inr k"
  using assms by (simp add: keylookup_def)

lemma lookup_by_id_found:
  assumes ops: "ops = \<lparr>k_Has = Has, k_Put = Put, k_Get = Get, k_Delete = Delete, k_List = List\<rparr>"
    and "\<And>n. n \<in> set ns \<Longrightarrow> \<exists>k pid. Get s n = Inr k \<and> priv_id k = Inr pid"
  shows "(\<exists>k n. lookup_by_id ops priv_id t ns s = Inr k \<and> n \<in> set ns \<and> Get s n = Inr k \<and> priv_id k = Inr t)
    \<or> lookup_by_id ops priv_id t ns s = Inl NoKeyFound \<and> (\<forall>n \<in> set ns. \<forall>k. Get s n = Inr k \<longrightarrow> priv_id k \<noteq> Inr t)"
  using assms(2)
proof (induction ns)
  case (Cons n ns)
  obtain k pid where k: "Get s n = Inr k" "priv_id k = Inr pid"
    using Cons.prems [of n] by auto
  show ?case
  proof (cases "t = pid")
    case True
    then show ?thesis
      using k by (intro disjI1 exI [of _ k] exI [of _ n]) (simp add: ops)
  next
    case False
    then have "lookup_by_id ops priv_id t (n # ns) s = lookup_by_id ops priv_id t ns s"
      using k by (simp add: ops)
    then show ?thesis
      using Cons False k by auto
  qed
qed simp

lemma keylookup_id:
  assumes ops: "ops = \<lparr>k_Has = Has, k_Put = Put, k_Get = Get, k_Delete = Delete, k_List = List\<rparr>"
    and "invar s" and "\<forall>n \<in> names s. \<exists>k pid. Get s n = Inr k \<and> priv_id k = Inr pid"
    and "x \<notin> names s" and "x \<noteq> []" and "x \<noteq> ''self''" and "peer_dec x = Inr t" and "priv_id self = Inr sid"
  shows "(\<exists>k. keylookup ops priv_id peer_dec self x s = Inr k \<and> priv_id k = Inr t \<and> (k = self \<or> (\<exists>n \<in> names s. Get s n = Inr k)))
    \<or> keylookup ops priv_id peer_dec self x s = Inl NoKeyFound \<and> sid \<noteq> t
      \<and> (\<forall>n \<in> names s. \<forall>k. Get s n = Inr k \<longrightarrow> priv_id k \<noteq> Inr t)"
proof -
  obtain xs where xs: "List s = Inr xs" "set xs = names s"
    using List_names [OF assms(2)] by blast
  have g: "Get s x = Inl ErrNoSuchKey"
    using Get_missing [OF assms(2,4,5)] .
  show ?thesis
  proof (cases "sid = t")
    case True
    then show ?thesis
      using g xs assms(6-8) by (simp add: keylookup_def ops)
  next
    case False
    then have "keylookup ops priv_id peer_dec self x s = lookup_by_id ops priv_id t xs s"
      using g xs assms(6-8) by (simp add: keylookup_def ops)
    moreover have "\<exists>k pid. Get s n = Inr k \<and> priv_id k = Inr pid" if "n \<in> set xs" for n
      using assms(3) that xs(2) by simp
    ultimately show ?thesis
      using lookup_by_id_found [OF ops, of xs s priv_id t] False xs(2) by fastforce
  qed
qed

end

section \<open>Keys in the key directory\<close>

definition fs_ops :: "('k \<Rightarrow> (string, string) result) \<Rightarrow> (string \<Rightarrow> (string, 'k) result) \<Rightarrow> (string \<Rightarrow> string) \<Rightarrow> (fs_dir, 'k) ks_ops" where
  "fs_ops mar unm up =
     \<lparr>k_Has = fs_Has, k_Put = fs_Put mar, k_Get = fs_Get unm, k_Delete = fs_Delete, k_List = fs_List up\<rparr>"

text \<open>Renaming moves the key. Renaming a key of the directory to a free name, or with \<open>Force\<close> to any
  name other than \<open>self\<close>, returns the new name, the identity and whether a key was overwritten;
  afterwards the key is under the new name only, and no other key has changed.\<close>

theorem key_rename_moves:
  assumes "fs_invar d" and "old \<in> fs_names d" and "fs_Get unm d old = Inr k"
    and "mar k = Inr b" and "unm b = Inr k" and "key_id env k = Inr pid"
    and "old \<noteq> new" and "old \<noteq> ''self''" and "new \<noteq> ''self''" and "new \<noteq> []" and "force \<or> new \<notin> fs_names d"
  shows "\<exists>d'. key_Rename (fs_ops mar unm up) env (Inr force) old new d = (d', Inr ((new, pid), new \<in> fs_names d))
    \<and> fs_invar d' \<and> fs_names d' = insert new (fs_names d) - {old} \<and> fs_Get unm d' new = Inr k
    \<and> (\<forall>m. m \<noteq> old \<and> m \<noteq> new \<longrightarrow> fs_Get unm d' m = fs_Get unm d m)"
  using fs.rename_moves [where marshal = mar and unmarshal = unm, OF fs_ops_def assms(1,2,3) _ assms(6-11)] assms(4,5)
  by simp

text \<open>A key is found by name first, then by identity. For the key directory \<open>keylookup\<close> returns the key with
  the given name; if there is none, it returns a key, own or stored, whose identity the argument
  is, and it fails only if there is no such key.\<close>

theorem keylookup_finds:
  assumes "fs_invar d" and "\<forall>n \<in> fs_names d. \<exists>k pid. fs_Get unm d n = Inr k \<and> priv_id k = Inr pid"
    and "x \<noteq> []" and "x \<noteq> ''self''" and "peer_dec x = Inr t" and "priv_id self = Inr sid"
  shows "if x \<in> fs_names d
    then \<exists>k. fs_Get unm d x = Inr k \<and> keylookup (fs_ops mar unm up) priv_id peer_dec self x d = Inr k
    else (\<exists>k. keylookup (fs_ops mar unm up) priv_id peer_dec self x d = Inr k \<and> priv_id k = Inr t
           \<and> (k = self \<or> (\<exists>n \<in> fs_names d. fs_Get unm d n = Inr k)))
      \<or> keylookup (fs_ops mar unm up) priv_id peer_dec self x d = Inl NoKeyFound \<and> sid \<noteq> t
        \<and> (\<forall>n \<in> fs_names d. \<forall>k. fs_Get unm d n = Inr k \<longrightarrow> priv_id k \<noteq> Inr t)"
proof (cases "x \<in> fs_names d")
  case True
  then obtain k where "fs_Get unm d x = Inr k"
    using assms(2) by blast
  then show ?thesis
    using True fs.keylookup_name_first [where marshal = mar and unmarshal = unm, OF fs_ops_def _ assms(4)] by simp
next
  case False
  then show ?thesis
    using fs.keylookup_id [OF fs_ops_def [of mar unm up] assms(1)] assms(2-6) by simp
qed

text \<open>Listing is sorted and complete. When every key of the directory can be read, \<open>List\<close> returns \<open>self\<close>
  first and then every key of the directory once, in byte order of the names, with its identity.\<close>

theorem key_list_sorted:
  assumes "fs_invar d" and "\<forall>n \<in> fs_names d. fs_Get unm d n = Inr (key n)"
    and "\<forall>n \<in> fs_names d. key_id env (key n) = Inr (pid n)"
  shows "\<exists>ns. key_List (fs_ops mar unm up) env identity d = Inr ((''self'', identity) # map (\<lambda>n. (n, pid n)) ns)
    \<and> sorted ns \<and> distinct ns \<and> set ns = fs_names d"
  using fs.key_List_sorted [where marshal = mar and unmarshal = unm, OF fs_ops_def assms] .

definition ex_key_env :: "string key_env" where
  "ex_key_env = \<lparr>key_id = Inr, gen_rsa = (\<lambda>_. Inl ''no entropy''), gen_ed25519 = Inl ''no entropy''\<rparr>"

text \<open>A directory with the key \<open>K\<close> under the name \<open>a\<close>.\<close>

definition ex_dir :: fs_dir where
  "ex_dir = fst (fs_Put Inr empty_dir ''a'' ''K'')"

lemma ex_dir_facts: "fs_invar ex_dir" "fs_names ex_dir = {''a''}" "fs_Get Inr ex_dir ''a'' = Inr ''K''"
proof -
  have inv: "fs_invar empty_dir" and free: "''a'' \<notin> fs_names empty_dir"
    by (simp_all add: fs_invar_def fs_names_def empty_dir_def)
  have ok: "snd (fs_Put Inr empty_dir ''a'' ''K'') = Inr ()"
    using fs.Put_free [OF inv free, where marshal = Inr and unmarshal = Inr] by simp
  show "fs_invar ex_dir" "fs_names ex_dir = {''a''}" "fs_Get Inr ex_dir ''a'' = Inr ''K''"
    using fs.invar_Put [OF inv] fs.Put_names [OF inv ok] fs.Put_Get [OF inv ok, where unmarshal = Inr]
    by (simp_all add: ex_dir_def fs_names_def empty_dir_def)
qed

theorem key_rename_moves_witness:
  "\<exists>d'. key_Rename (fs_ops Inr Inr (\<lambda>s. s)) ex_key_env (Inr False) ''a'' ''b'' ex_dir = (d', Inr ((''b'', ''K''), False))
     \<and> fs_names d' = {''b''} \<and> fs_Get Inr d' ''b'' = Inr ''K''"
proof -
  have i: "key_id ex_key_env ''K'' = Inr ''K''"
    by (simp add: ex_key_env_def)
  have p: "''a'' \<in> fs_names ex_dir" "''a'' \<noteq> ''b''" "''a'' \<noteq> ''self''" "''b'' \<noteq> ''self''" "''b'' \<noteq> []"
    "False \<or> ''b'' \<notin> fs_names ex_dir"
    by (simp_all add: ex_dir_facts(2))
  have n: "insert ''b'' (fs_names ex_dir) - {''a''} = {''b''}" "(''b'' \<in> fs_names ex_dir) = False"
    by (auto simp: ex_dir_facts(2))
  note moved = key_rename_moves [where mar = Inr and unm = Inr and b = "''K''", OF ex_dir_facts(1) p(1) ex_dir_facts(3) refl refl i p(2-6), of "\<lambda>s. s", unfolded n]
  show ?thesis
    by (rule exE [OF moved], elim conjE, intro exI conjI, assumption+)
qed

theorem keylookup_finds_witness:
  "keylookup (fs_ops Inr Inr (\<lambda>s. s)) Inr Inr ''S'' ''a'' ex_dir = Inr ''K''
   \<and> (\<exists>k. keylookup (fs_ops Inr Inr (\<lambda>s. s)) Inr Inr ''S'' ''K'' ex_dir = Inr k \<and> Inr k = (Inr ''K'' :: (string, string) result))"
proof -
  have all: "\<forall>n \<in> fs_names ex_dir. \<exists>k pid. fs_Get Inr ex_dir n = Inr k \<and> Inr k = (Inr pid :: (string, string) result)"
    by (simp add: ex_dir_facts(2,3))
  have n: "''a'' \<noteq> []" "''a'' \<noteq> ''self''" "''K'' \<noteq> []" "''K'' \<noteq> ''self''"
    by simp_all
  show ?thesis
    using keylookup_finds [where mar = Inr and up = "\<lambda>s. s" and peer_dec = Inr, OF ex_dir_facts(1) all n(1,2) refl, of "''S''"]
      keylookup_finds [where mar = Inr and up = "\<lambda>s. s" and peer_dec = Inr, OF ex_dir_facts(1) all n(3,4) refl, of "''S''"]
    by (simp add: ex_dir_facts(2,3))
qed

theorem key_list_sorted_witness:
  "key_List (fs_ops Inr Inr (\<lambda>s. s)) ex_key_env ''me'' ex_dir = Inr [(''self'', ''me''), (''a'', ''K'')]"
proof -
  have all: "\<forall>n \<in> fs_names ex_dir. fs_Get Inr ex_dir n = Inr ''K''"
    "\<forall>n \<in> fs_names ex_dir. key_id ex_key_env ''K'' = Inr ''K''"
    by (simp_all add: ex_dir_facts(2,3) ex_key_env_def)
  obtain ns where ns: "key_List (fs_ops Inr Inr (\<lambda>s. s)) ex_key_env ''me'' ex_dir = Inr ((''self'', ''me'') # map (\<lambda>n. (n, ''K'')) ns)"
    and d: "distinct ns" and n: "set ns = fs_names ex_dir"
    by (rule exE [OF key_list_sorted [where key = "\<lambda>_. ''K''" and pid = "\<lambda>_. ''K''" and mar = Inr and up = "\<lambda>s. s" and identity = "''me''",
          OF ex_dir_facts(1) all]]) blast
  have "ns = [''a'']"
    using d n ex_dir_facts(2) by (cases ns; cases "tl ns") auto
  then show ?thesis
    using ns by simp
qed

text \<open>
  With \<open>Force\<close>, the key that is overwritten is deleted before the new one is stored: when storing fails,
  it is gone, although the rename is reported as failed.
\<close>

lemma key_rename_force_loses:
  assumes "k_Get ops s old = Inr k" and "key_id env k = Inr pid" and "old \<noteq> new" and "old \<noteq> ''self''" and "new \<noteq> ''self''"
    and "k_Has ops s new = Inr True" and "k_Delete ops s new = (s1, Inr ())" and "k_Put ops s1 new k = (s2, Inl e)"
  shows "key_Rename ops env (Inr True) old new s = (s2, Inl (ApiKs e))"
  using assms by (simp add: key_Rename_def rename_target_def)

end
