(* ===== verification/Refs.thy ===== *)
theory Refs
  imports Prelude
begin

text \<open>
  The command \<open>ipfs refs\<close>, \<open>src/core/commands/refs.go\<close>: a depth-first listing of the links below
  the given objects, with an optional depth limit and the pruning that \<open>--unique\<close> brings.

  The objects of a content-addressed store cannot be cyclic, so an object is a finite tree: a
  datatype whose links carry the fetched object or the error of fetching it. That equal cids stand
  for equal objects is a hypothesis of the theorems. Emitting a line and a cancelled context are
  parameters (\<open>refs_env\<close>).
\<close>

section \<open>Objects and the writer\<close>

datatype 'c dag = Node (dag_cid: 'c) (dag_links: "'c dag_link list")
  and 'c dag_link =
    Link (link_name: string) (link_cid: 'c) (link_dag: "'c dag")
  | Missing (link_name: string) (link_cid: 'c) (link_err: string)

record RefWriter =
  rw_Unique :: bool
  rw_MaxDepth :: int
  rw_PrintFmt :: string

text \<open>The state of a run: what \<open>seen\<close> holds and the lines emitted so far with the edge they stand for.\<close>

record 'c refs_state =
  rw_seen :: "'c \<rightharpoonup> int"
  rw_out :: "('c \<times> 'c \<times> string) list"

record 'c refs_env =
  ctx_done :: "nat \<Rightarrow> string option"
  emit_err :: "nat \<Rightarrow> string option"
  enc_cid :: "'c \<Rightarrow> string"

text \<open>\<open>strings.Replace(s, old, new, -1)\<close> for a non-empty \<open>old\<close>.\<close>

function replace_all :: "string \<Rightarrow> string \<Rightarrow> string \<Rightarrow> string" where
  "replace_all s old new =
    (if s = [] \<or> old = [] then s
     else if has_prefix s old then new @ replace_all (drop (length old) s) old new
     else hd s # replace_all (tl s) old new)"
  by pat_completeness auto
termination
  by (relation "measure (\<lambda>(s, _, _). length s)") auto

definition edge_text :: "'c refs_env \<Rightarrow> RefWriter \<Rightarrow> 'c \<Rightarrow> 'c \<Rightarrow> string \<Rightarrow> string" where
  "edge_text env rw src dst name =
    (if rw_PrintFmt rw \<noteq> [] then
       replace_all (replace_all (replace_all (rw_PrintFmt rw) ''<src>'' (enc_cid env src)) ''<dst>'' (enc_cid env dst))
         ''<linkname>'' name
     else enc_cid env dst)"

definition WriteEdge :: "'c refs_env \<Rightarrow> RefWriter \<Rightarrow> 'c \<Rightarrow> 'c \<Rightarrow> string \<Rightarrow> 'c refs_state \<Rightarrow> 'c refs_state \<times> string option" where
  "WriteEdge env rw src dst name st = (case ctx_done env (length (rw_out st)) of
     Some e \<Rightarrow> (st, Some e)
   | None \<Rightarrow> (case emit_err env (length (rw_out st)) of
       Some e \<Rightarrow> (st, Some e)
     | None \<Rightarrow> (st\<lparr>rw_out := rw_out st @ [(src, dst, edge_text env rw src dst name)]\<rparr>, None)))"

text \<open>\<open>visit\<close> returns the new \<open>seen\<close>, whether to go deeper and whether to write.\<close>

definition visit :: "RefWriter \<Rightarrow> 'c \<Rightarrow> int \<Rightarrow> ('c \<rightharpoonup> int) \<Rightarrow> ('c \<rightharpoonup> int) \<times> bool \<times> bool" where
  "visit rw c depth seen =
    (let atMaxDepth = (rw_MaxDepth rw \<ge> 0 \<and> depth = rw_MaxDepth rw);
         overMaxDepth = (rw_MaxDepth rw \<ge> 0 \<and> depth > rw_MaxDepth rw) in
     if overMaxDepth then (seen, False, False)
     else if \<not> rw_Unique rw then (seen, \<not> atMaxDepth, True)
     else (case seen c of
         Some oldDepth \<Rightarrow>
           if rw_MaxDepth rw < 0 \<or> oldDepth \<le> depth then (seen, False, False)
           else (seen(c \<mapsto> depth), \<not> atMaxDepth, False)
       | None \<Rightarrow> (seen(c \<mapsto> depth), \<not> atMaxDepth, True)))"

fun writeRefsRecursive :: "'c refs_env \<Rightarrow> RefWriter \<Rightarrow> 'c dag \<Rightarrow> int \<Rightarrow> 'c refs_state \<Rightarrow> 'c refs_state \<times> nat \<times> string option"
  and write_links :: "'c refs_env \<Rightarrow> RefWriter \<Rightarrow> 'c \<Rightarrow> 'c dag_link list \<Rightarrow> int \<Rightarrow> 'c refs_state \<Rightarrow> 'c refs_state \<times> nat \<times> string option"
where
  "writeRefsRecursive env rw (Node nc ls) depth st = write_links env rw nc ls depth st"
| "write_links env rw nc [] depth st = (st, 0, None)"
| "write_links env rw nc (Missing name lc e # ls) depth st =
    (case visit rw lc (depth + 1) (rw_seen st) of (seen', goDeeper, shouldWrite) \<Rightarrow>
     let st1 = st\<lparr>rw_seen := seen'\<rparr> in
     if \<not> shouldWrite \<and> \<not> goDeeper then write_links env rw nc ls depth st1
     else (st1, 0, Some e))"
| "write_links env rw nc (Link name lc nd # ls) depth st =
    (case visit rw lc (depth + 1) (rw_seen st) of (seen', goDeeper, shouldWrite) \<Rightarrow>
     let st1 = st\<lparr>rw_seen := seen'\<rparr> in
     if \<not> shouldWrite \<and> \<not> goDeeper then write_links env rw nc ls depth st1
     else (case (if shouldWrite then WriteEdge env rw nc lc name st1 else (st1, None)) of
         (st2, Some e) \<Rightarrow> (st2, 0, Some e)
       | (st2, None) \<Rightarrow>
           (case (if goDeeper then writeRefsRecursive env rw nd (depth + 1) st2 else (st2, 0, None)) of
              (st3, c, Some e) \<Rightarrow> (st3, (if shouldWrite then 1 else 0) + c, Some e)
            | (st3, c, None) \<Rightarrow>
                (case write_links env rw nc ls depth st3 of
                   (st4, c', err) \<Rightarrow> (st4, (if shouldWrite then 1 else 0) + c + c', err)))))"

text \<open>An object is given by the outcome of fetching it.\<close>

definition WriteRefs :: "'c refs_env \<Rightarrow> RefWriter \<Rightarrow> (string, 'c dag) result \<Rightarrow> 'c refs_state \<Rightarrow> 'c refs_state \<times> nat \<times> string option" where
  "WriteRefs env rw obj st = (case obj of Inl e \<Rightarrow> (st, 0, Some e) | Inr n \<Rightarrow> writeRefsRecursive env rw n 0 st)"

definition refs_format :: "bool \<Rightarrow> string \<Rightarrow> (string, string) result" where
  "refs_format edges format =
    (if edges then if format \<noteq> ''<dst>'' then Inl ''using format argument with edges is not allowed'' else Inr ''<src> -> <dst>''
     else Inr format)"

text \<open>
  The loop of the command over the objects: an error of an object is emitted as a line of its own
  (its text goes to the list of errors), and only a failure to emit that ends the command.
\<close>

fun refs_loop :: "'c refs_env \<Rightarrow> (nat \<Rightarrow> string option) \<Rightarrow> RefWriter \<Rightarrow> (string, 'c dag) result list \<Rightarrow> 'c refs_state \<times> string list
    \<Rightarrow> 'c refs_state \<times> string list \<times> string option" where
  "refs_loop env emit_fail rw [] (st, errs) = (st, errs, None)"
| "refs_loop env emit_fail rw (o1 # os) (st, errs) = (case WriteRefs env rw o1 st of
     (st', _, None) \<Rightarrow> refs_loop env emit_fail rw os (st', errs)
   | (st', _, Some e) \<Rightarrow> (case emit_fail (length errs) of
       Some e' \<Rightarrow> (st', errs, Some e')
     | None \<Rightarrow> refs_loop env emit_fail rw os (st', errs @ [e])))"

definition RefsCmd :: "'c refs_env \<Rightarrow> (nat \<Rightarrow> string option) \<Rightarrow> bool \<Rightarrow> bool \<Rightarrow> int \<Rightarrow> bool \<Rightarrow> string \<Rightarrow> (string, (string, 'c dag) result list) result
    \<Rightarrow> (string, 'c refs_state \<times> string list \<times> string option) result" where
  "RefsCmd env emit_fail unique recursive maxDepth edges format objs =
    bind_ok (refs_format edges format) (\<lambda>fmt.
    bind_ok objs (\<lambda>os. Inr (refs_loop env emit_fail
      \<lparr>rw_Unique = unique, rw_MaxDepth = (if recursive then maxDepth else 1), rw_PrintFmt = fmt\<rparr> os
      (\<lparr>rw_seen = Map.empty, rw_out = []\<rparr>, []))))"

section \<open>What is below an object\<close>

definition children :: "'c dag \<Rightarrow> 'c dag set" where
  "children n = {m. \<exists>name c. Link name c m \<in> set (dag_links n)}"

text \<open>\<open>m\<close> is \<open>k\<close> links below \<open>n\<close>.\<close>

inductive below :: "'c dag \<Rightarrow> nat \<Rightarrow> 'c dag \<Rightarrow> bool" where
  below_0: "below n 0 n"
| below_Suc: "m \<in> children n \<Longrightarrow> below m k x \<Longrightarrow> below n (Suc k) x"

text \<open>Everything can be fetched and is what its cid says; \<open>obj\<close> gives the object of a cid.\<close>

fun available :: "('c \<Rightarrow> 'c dag) \<Rightarrow> 'c dag \<Rightarrow> bool"
  and available_link :: "('c \<Rightarrow> 'c dag) \<Rightarrow> 'c dag_link \<Rightarrow> bool"
where
  "available obj (Node c ls) = list_all (available_link obj) ls"
| "available_link obj (Link name c m) = (obj c = m \<and> dag_cid m = c \<and> available obj m)"
| "available_link obj (Missing name c e) = False"

definition within :: "RefWriter \<Rightarrow> int \<Rightarrow> bool" where
  "within rw d \<longleftrightarrow> rw_MaxDepth rw < 0 \<or> d \<le> rw_MaxDepth rw"

section \<open>The pruned search\<close>

text \<open>The cid was seen early enough to be explored from depth \<open>d\<close> on.\<close>

definition seen_at :: "RefWriter \<Rightarrow> ('c \<rightharpoonup> int) \<Rightarrow> 'c \<Rightarrow> int \<Rightarrow> bool" where
  "seen_at rw seen c d \<longleftrightarrow> (\<exists>d'. seen c = Some d' \<and> (rw_MaxDepth rw < 0 \<or> d' \<le> d))"

text \<open>The successors of every seen object are seen, except for the objects of \<open>G\<close> that are still being explored.\<close>

definition explored :: "RefWriter \<Rightarrow> ('c \<Rightarrow> 'c dag) \<Rightarrow> ('c \<rightharpoonup> int) \<Rightarrow> 'c set \<Rightarrow> bool" where
  "explored rw obj seen G \<longleftrightarrow>
     (\<forall>c d. seen c = Some d \<and> c \<notin> G \<and> within rw (d + 1) \<longrightarrow> (\<forall>m \<in> children (obj c). seen_at rw seen (dag_cid m) (d + 1)))"

definition earlier :: "('c \<rightharpoonup> int) \<Rightarrow> ('c \<rightharpoonup> int) \<Rightarrow> bool" where
  "earlier seen seen' \<longleftrightarrow> (\<forall>c d. seen c = Some d \<longrightarrow> (\<exists>d'. seen' c = Some d' \<and> d' \<le> d))"

definition targets :: "('c \<times> 'c \<times> string) list \<Rightarrow> 'c list" where
  "targets out = map (\<lambda>(_, dst, _). dst) out"

text \<open>What exploring the objects \<open>C\<close> at depth \<open>depth + 1\<close> achieves; \<open>k\<close> is the number of lines written.\<close>

definition explores :: "RefWriter \<Rightarrow> ('c \<Rightarrow> 'c dag) \<Rightarrow> int \<Rightarrow> 'c dag set \<Rightarrow> 'c refs_state \<Rightarrow> 'c refs_state \<Rightarrow> nat \<Rightarrow> bool" where
  "explores rw obj depth C st st' k \<longleftrightarrow>
     (\<forall>m \<in> C. within rw (depth + 1) \<longrightarrow> seen_at rw (rw_seen st') (dag_cid m) (depth + 1))
   \<and> (\<forall>G. explored rw obj (rw_seen st) G \<longrightarrow> explored rw obj (rw_seen st') G)
   \<and> earlier (rw_seen st) (rw_seen st')
   \<and> (\<forall>c d. rw_seen st c = Some d \<and> d \<le> depth \<longrightarrow> rw_seen st' c = Some d)
   \<and> (\<exists>new. rw_out st' = rw_out st @ new \<and> distinct (targets new) \<and> k = length new
        \<and> set (targets new) = dom (rw_seen st') - dom (rw_seen st))
   \<and> (\<forall>c d. rw_seen st' c = Some d \<longrightarrow> rw_seen st c = Some d
        \<or> within rw d \<and> (\<exists>m \<in> C. \<exists>j x. below m j x \<and> dag_cid x = c \<and> d = depth + 1 + int j))"

lemma earlier_refl [simp]: "earlier s s"
  by (auto simp: earlier_def)

lemma earlier_trans: "earlier a b \<Longrightarrow> earlier b c \<Longrightarrow> earlier a c"
  unfolding earlier_def by (meson order_trans)

lemma earlier_dom: "earlier a b \<Longrightarrow> dom a \<subseteq> dom b"
  by (fastforce simp: earlier_def dom_def)

lemma seen_at_earlier: "seen_at rw s c d \<Longrightarrow> earlier s s' \<Longrightarrow> seen_at rw s' c d"
  unfolding seen_at_def earlier_def by (meson order_trans)

lemma explores_none: "explores rw obj depth {} st st 0"
  by (auto simp: explores_def targets_def)

lemma explores_append:
  assumes 1: "explores rw obj depth C st st1 k" and 2: "explores rw obj depth D st1 st2 l"
  shows "explores rw obj depth (C \<union> D) st st2 (k + l)"
proof -
  obtain n1 where n1: "rw_out st1 = rw_out st @ n1" "distinct (targets n1)" "k = length n1"
    "set (targets n1) = dom (rw_seen st1) - dom (rw_seen st)"
    using 1 by (auto simp: explores_def)
  obtain n2 where n2: "rw_out st2 = rw_out st1 @ n2" "distinct (targets n2)" "l = length n2"
    "set (targets n2) = dom (rw_seen st2) - dom (rw_seen st1)"
    using 2 by (auto simp: explores_def)
  have e: "earlier (rw_seen st) (rw_seen st1)" "earlier (rw_seen st1) (rw_seen st2)"
    using 1 2 by (auto simp: explores_def)
  have "\<exists>new. rw_out st2 = rw_out st @ new \<and> distinct (targets new) \<and> k + l = length new
      \<and> set (targets new) = dom (rw_seen st2) - dom (rw_seen st)"
    using n1 n2 earlier_dom [OF e(1)] earlier_dom [OF e(2)]
    by (intro exI [of _ "n1 @ n2"]) (auto simp: targets_def)
  moreover have "\<forall>m \<in> C \<union> D. within rw (depth + 1) \<longrightarrow> seen_at rw (rw_seen st2) (dag_cid m) (depth + 1)"
    using 1 2 seen_at_earlier [OF _ e(2)] by (auto simp: explores_def)
  moreover have "rw_seen st c = Some d \<or> within rw d \<and> (\<exists>m \<in> C \<union> D. \<exists>j x. below m j x \<and> dag_cid x = c \<and> d = depth + 1 + int j)"
    if "rw_seen st2 c = Some d" for c d
    using 1 2 that unfolding explores_def by (metis UnCI)
  ultimately show ?thesis
    using 1 2 earlier_trans [OF e] by (simp add: explores_def)
qed

lemma explores_stop: "\<not> within rw (depth + 1) \<Longrightarrow> explores rw obj depth C st st 0"
  by (auto simp: explores_def targets_def)

lemma explores_pruned:
  assumes "seen_at rw (rw_seen st) (dag_cid m) (depth + 1)"
  shows "explores rw obj depth {m} st st 0"
  using assms by (auto simp: explores_def targets_def)

text \<open>Entering an object lowers its depth, so it has to be explored again before the invariant holds for it.\<close>

lemma explored_enter:
  assumes "explored rw obj s G" and "earlier s (s(c \<mapsto> d))"
  shows "explored rw obj (s(c \<mapsto> d)) (insert c G)"
  using assms(1) seen_at_earlier [OF _ assms(2)] by (auto simp: explored_def)

lemma explores_enter_written:
  assumes st2: "rw_seen st2 = (rw_seen st)(c \<mapsto> d)" "rw_out st2 = rw_out st @ wr"
      "targets wr = (if rw_seen st c = None then [c] else [])"
    and rec: "explores rw obj depth C st2 st3 k"
  shows "\<exists>new. rw_out st3 = rw_out st @ new \<and> distinct (targets new) \<and> length wr + k = length new
    \<and> set (targets new) = dom (rw_seen st3) - dom (rw_seen st)"
proof -
  obtain n3 where n3: "rw_out st3 = rw_out st2 @ n3" "distinct (targets n3)" "k = length n3"
    "set (targets n3) = dom (rw_seen st3) - dom (rw_seen st2)" and e3: "earlier (rw_seen st2) (rw_seen st3)"
    using rec by (auto simp: explores_def)
  have t: "targets (wr @ n3) = targets wr @ targets n3"
    by (simp add: targets_def)
  have d2: "dom (rw_seen st2) = insert c (dom (rw_seen st))"
    by (simp add: st2(1))
  have "set (targets wr) = {c} - dom (rw_seen st)" "distinct (targets wr)"
    by (auto simp: st2(3))
  then have "distinct (targets (wr @ n3))" "set (targets (wr @ n3)) = dom (rw_seen st3) - dom (rw_seen st)"
    using n3(2,4) earlier_dom [OF e3] unfolding t d2 by auto
  then show ?thesis
    using n3 st2(2) by (intro exI [of _ "wr @ n3"]) simp
qed

lemma explores_enter_origin:
  assumes w: "within rw (depth + 1)" and st2: "rw_seen st2 = (rw_seen st)(dag_cid m \<mapsto> depth + 1)"
    and rec: "explores rw obj (depth + 1) (children m) st2 st3 k" and x: "rw_seen st3 x = Some d"
  shows "rw_seen st x = Some d \<or> within rw d \<and> (\<exists>j y. below m j y \<and> dag_cid y = x \<and> d = depth + 1 + int j)"
proof (cases "rw_seen st2 x = Some d")
  case True
  then show ?thesis
    using w below_0 [of m] by (cases "x = dag_cid m") (auto simp: st2 intro!: exI [of _ 0] exI [of _ m])
next
  case False
  then obtain ch j y where "within rw d" "ch \<in> children m" "below ch j y" "dag_cid y = x" "d = depth + 1 + 1 + int j"
    using rec x unfolding explores_def by blast
  then show ?thesis
    by (intro disjI2 conjI exI [of _ "Suc j"] exI [of _ y]) (auto intro: below_Suc)
qed

lemma explores_enter:
  assumes c: "obj (dag_cid m) = m" and w: "within rw (depth + 1)"
    and old: "\<And>d. rw_seen st (dag_cid m) = Some d \<Longrightarrow> depth + 1 < d"
    and st2: "rw_seen st2 = (rw_seen st)(dag_cid m \<mapsto> depth + 1)" "rw_out st2 = rw_out st @ wr"
      "targets wr = (if rw_seen st (dag_cid m) = None then [dag_cid m] else [])"
    and rec: "explores rw obj (depth + 1) (children m) st2 st3 k"
  shows "explores rw obj depth {m} st st3 (length wr + k)"
proof -
  let ?c = "dag_cid m"
  have e2: "earlier (rw_seen st) (rw_seen st2)"
    using old by (fastforce simp: st2(1) earlier_def)
  have e3: "earlier (rw_seen st2) (rw_seen st3)"
    using rec by (simp add: explores_def)
  have c3: "rw_seen st3 ?c = Some (depth + 1)"
    using rec by (simp add: explores_def st2(1))
  have "explored rw obj (rw_seen st3) G" if G: "explored rw obj (rw_seen st) G" for G
  proof -
    have "explored rw obj (rw_seen st2) (insert ?c G)"
      using explored_enter [OF G] e2 by (simp add: st2(1))
    then have "explored rw obj (rw_seen st3) (insert ?c G)"
      using rec by (simp add: explores_def)
    moreover have "\<forall>x \<in> children (obj ?c). seen_at rw (rw_seen st3) (dag_cid x) (depth + 1 + 1)" if "within rw (depth + 1 + 1)"
      using rec that c by (simp add: explores_def)
    ultimately show ?thesis
      using c3 unfolding explored_def by (metis insertE option.inject)
  qed
  moreover have "rw_seen st3 x = Some d" if "rw_seen st x = Some d" "d \<le> depth" for x d
    using rec old that by (cases "x = ?c") (fastforce simp: explores_def st2(1))+
  ultimately show ?thesis
    using w c3 earlier_trans [OF e2 e3] explores_enter_written [OF st2 rec] explores_enter_origin [OF w st2(1) rec]
    by (simp add: explores_def seen_at_def)
qed

definition no_faults :: "'c refs_env \<Rightarrow> bool" where
  "no_faults env \<longleftrightarrow> (\<forall>n. ctx_done env n = None) \<and> (\<forall>n. emit_err env n = None)"

lemma visit_unique:
  assumes "rw_Unique rw"
  shows "visit rw c d seen =
    (if \<not> within rw d \<or> seen_at rw seen c d then (seen, False, False)
     else (seen(c \<mapsto> d), within rw (d + 1), seen c = None))"
  using assms by (auto simp: visit_def within_def seen_at_def Let_def split: option.splits)

lemma not_seen_at: "\<not> seen_at rw s c d \<Longrightarrow> s c = Some d' \<Longrightarrow> d < d'"
  by (auto simp: seen_at_def)

text \<open>One link: visiting it, writing it if it is new, and exploring below it unless the limit is reached.\<close>

lemma link_explores:
  assumes u: "rw_Unique rw" and f: "no_faults env" and a: "obj lc = nd" "dag_cid nd = lc"
    and rec: "\<And>st. \<exists>st' k. writeRefsRecursive env rw nd (depth + 1) st = (st', k, None) \<and> explores rw obj (depth + 1) (children nd) st st' k"
  shows "\<exists>st1 k. explores rw obj depth {nd} st st1 k
    \<and> write_links env rw nc (Link name lc nd # ls) depth st =
        (case write_links env rw nc ls depth st1 of (st', k', e) \<Rightarrow> (st', k + k', e))"
proof (cases "\<not> within rw (depth + 1) \<or> seen_at rw (rw_seen st) lc (depth + 1)")
  case True
  then have "explores rw obj depth {nd} st st 0"
    using explores_stop explores_pruned [of rw st nd depth] a(2) by blast
  moreover have "st\<lparr>rw_seen := rw_seen st\<rparr> = st"
    by simp
  ultimately show ?thesis
    using True by (intro exI [of _ st] exI [of _ 0]) (auto simp: visit_unique [OF u] Let_def)
next
  case False
  define wr where "wr = (if rw_seen st lc = None then [(nc, lc, edge_text env rw nc lc name)] else [])"
  define st2 where "st2 = st\<lparr>rw_seen := (rw_seen st)(lc \<mapsto> depth + 1), rw_out := rw_out st @ wr\<rparr>"
  have w: "(if rw_seen st lc = None then WriteEdge env rw nc lc name (st\<lparr>rw_seen := (rw_seen st)(lc \<mapsto> depth + 1)\<rparr>)
      else (st\<lparr>rw_seen := (rw_seen st)(lc \<mapsto> depth + 1)\<rparr>, None)) = (st2, None)"
    using f by (simp add: WriteEdge_def no_faults_def st2_def wr_def)
  obtain st3 k where st3: "(if within rw (depth + 1 + 1) then writeRefsRecursive env rw nd (depth + 1) st2 else (st2, 0, None)) = (st3, k, None)"
    and e3: "explores rw obj (depth + 1) (children nd) st2 st3 k"
    using rec [of st2] explores_stop [of rw "depth + 1" obj "children nd" st2] by (cases "within rw (depth + 1 + 1)") auto
  have "targets wr = (if rw_seen st (dag_cid nd) = None then [dag_cid nd] else [])"
    by (simp add: targets_def wr_def a(2))
  then have "explores rw obj depth {nd} st st3 (length wr + k)"
    using False not_seen_at [of rw "rw_seen st" lc "depth + 1"] e3 a
    by (intro explores_enter [where wr = wr and ?st2.0 = st2]) (auto simp: st2_def)
  moreover have "write_links env rw nc (Link name lc nd # ls) depth st =
      (case write_links env rw nc ls depth st3 of (st', k', e) \<Rightarrow> (st', length wr + k + k', e))"
  proof (cases "rw_seen st lc = None \<or> within rw (depth + 1 + 1)")
    case True
    then show ?thesis
      using False w st3 by (auto simp: visit_unique [OF u] Let_def wr_def split: prod.splits)
  next
    case no: False
    then have "wr = []" "st3 = st2" "k = 0" "st2 = st\<lparr>rw_seen := (rw_seen st)(lc \<mapsto> depth + 1)\<rparr>"
      using st3 by (auto simp: wr_def st2_def)
    then show ?thesis
      using False no by (auto simp: visit_unique [OF u] Let_def split: prod.splits)
  qed
  ultimately show ?thesis
    by blast
qed

lemma children_Cons: "{m. \<exists>name c. Link name c m \<in> set (Link n c0 m0 # ls)} = {m0} \<union> {m. \<exists>name c. Link name c m \<in> set ls}"
  by auto

lemma links_explore:
  assumes u: "rw_Unique rw" and f: "no_faults env"
    and "\<forall>name c nd st. Link name c nd \<in> set ls \<longrightarrow> (\<exists>st' k. writeRefsRecursive env rw nd (depth + 1) st = (st', k, None)
      \<and> explores rw obj (depth + 1) (children nd) st st' k)"
    and "list_all (available_link obj) ls"
  shows "\<exists>st' k. write_links env rw nc ls depth st = (st', k, None)
    \<and> explores rw obj depth {m. \<exists>name c. Link name c m \<in> set ls} st st' k"
  using assms(3,4)
proof (induction ls arbitrary: st)
  case Nil
  then show ?case
    using explores_none by auto
next
  case (Cons l ls)
  then obtain name lc nd where l: "l = Link name lc nd" and a: "obj lc = nd" "dag_cid nd = lc"
    by (cases l) auto
  have "\<exists>st' k. writeRefsRecursive env rw nd (depth + 1) st = (st', k, None)
      \<and> explores rw obj (depth + 1) (children nd) st st' k" for st
    using Cons.prems(1) l by simp
  from link_explores [where obj = obj and nc = nc and name = name and ls = ls and st = st, OF u f a this]
  obtain st1 k where e: "explores rw obj depth {nd} st st1 k"
    and w: "write_links env rw nc (Link name lc nd # ls) depth st =
      (case write_links env rw nc ls depth st1 of (st', k', e) \<Rightarrow> (st', k + k', e))"
    by blast
  have rest: "list_all (available_link obj) ls"
    using Cons.prems(2) by simp
  have "\<forall>name c nd st. Link name c nd \<in> set ls \<longrightarrow> (\<exists>st' k. writeRefsRecursive env rw nd (depth + 1) st = (st', k, None)
      \<and> explores rw obj (depth + 1) (children nd) st st' k)"
    using Cons.prems(1) by (meson list.set_intros(2))
  from Cons.IH [OF this rest] obtain st' k' where "write_links env rw nc ls depth st1 = (st', k', None)"
    and "explores rw obj depth {m. \<exists>name c. Link name c m \<in> set ls} st1 st' k'"
    by blast
  then show ?case
    using explores_append [OF e] w unfolding l children_Cons by auto
qed

lemma writeRefs_explores:
  assumes u: "rw_Unique rw" and f: "no_faults env"
  shows "available obj n \<Longrightarrow> \<exists>st' k. writeRefsRecursive env rw n depth st = (st', k, None)
      \<and> explores rw obj depth (children n) st st' k"
proof (induction n arbitrary: depth st rule: dag.induct
    [where ?P2.0 = "\<lambda>l. \<forall>name c nd depth st. l = Link name c nd \<longrightarrow> available obj nd \<longrightarrow>
      (\<exists>st' k. writeRefsRecursive env rw nd depth st = (st', k, None) \<and> explores rw obj depth (children nd) st st' k)"])
  case (Node c ls)
  have "\<exists>st' k. write_links env rw c ls depth st = (st', k, None)
      \<and> explores rw obj depth {m. \<exists>name c. Link name c m \<in> set ls} st st' k"
  proof (rule links_explore [OF u f])
    show "list_all (available_link obj) ls"
      using Node.prems by simp
    have "available obj nd" if "Link name c' nd \<in> set ls" for name c' nd
      using Node.prems that by (auto simp: list_all_iff)
    then show "\<forall>name c nd st. Link name c nd \<in> set ls \<longrightarrow> (\<exists>st' k. writeRefsRecursive env rw nd (depth + 1) st = (st', k, None)
        \<and> explores rw obj (depth + 1) (children nd) st st' k)"
      using Node.hyps by blast
  qed
  then show ?case
    by (simp add: children_def)
qed auto

lemma available_child: "available obj n \<Longrightarrow> m \<in> children n \<Longrightarrow> obj (dag_cid m) = m \<and> available obj m"
  by (cases n) (fastforce simp: children_def list_all_iff)

lemma refs_loop_explores:
  assumes "rw_Unique rw" and "no_faults env"
  shows "\<forall>n \<in> set roots. available obj n \<Longrightarrow>
    \<exists>st' k. refs_loop env emit_fail rw (map Inr roots) (st, errs) = (st', errs, None)
      \<and> explores rw obj 0 (\<Union>n \<in> set roots. children n) st st' k"
proof (induction roots arbitrary: st)
  case Nil
  then show ?case
    by (auto intro: explores_none)
next
  case (Cons n roots)
  obtain st1 k where 1: "writeRefsRecursive env rw n 0 st = (st1, k, None)" "explores rw obj 0 (children n) st st1 k"
    using writeRefs_explores [OF assms, of obj n 0 st] Cons.prems by auto
  obtain st' k' where 2: "refs_loop env emit_fail rw (map Inr roots) (st1, errs) = (st', errs, None)"
    "explores rw obj 0 (\<Union>n \<in> set roots. children n) st1 st' k'"
    using Cons.IH [of st1] Cons.prems by auto
  show ?case
    using 1(1) 2(1) explores_append [OF 1(2) 2(2)] by (auto simp: WriteRefs_def)
qed

text \<open>With nothing left to explore, seeing an object means having seen all that is below it within the limit.\<close>

lemma explored_below:
  assumes "explored rw obj seen {}"
  shows "below m j x \<Longrightarrow> obj (dag_cid m) = m \<Longrightarrow> available obj m \<Longrightarrow> seen_at rw seen (dag_cid m) d \<Longrightarrow> within rw (d + int j)
    \<Longrightarrow> seen_at rw seen (dag_cid x) (d + int j)"
proof (induction arbitrary: d rule: below.induct)
  case (below_Suc ch m k x)
  obtain d' where d': "seen (dag_cid m) = Some d'" "rw_MaxDepth rw < 0 \<or> d' \<le> d"
    using below_Suc.prems by (auto simp: seen_at_def)
  then have "within rw (d' + 1)"
    using below_Suc.prems(4) by (auto simp: within_def)
  then have "seen_at rw seen (dag_cid ch) (d' + 1)"
    using assms d'(1) below_Suc.hyps(1) below_Suc.prems(1) by (auto simp: explored_def)
  then have "seen_at rw seen (dag_cid ch) (d + 1)"
    using d'(2) by (auto simp: seen_at_def)
  then show ?case
    using below_Suc.IH [of "d + 1"] available_child [OF below_Suc.prems(2) below_Suc.hyps(1)] below_Suc.prems(4)
    by (simp add: algebra_simps)
qed simp

definition listed :: "RefWriter \<Rightarrow> 'c dag list \<Rightarrow> 'c set" where
  "listed rw roots = {dag_cid x | n j x. n \<in> set roots \<and> below n (Suc j) x \<and> within rw (int (Suc j))}"

inductive_cases below_SucE: "below n (Suc j) x"

lemma explores_all:
  assumes "\<forall>n \<in> set roots. available obj n"
    and e: "explores rw obj 0 (\<Union>n \<in> set roots. children n) \<lparr>rw_seen = Map.empty, rw_out = []\<rparr> st k"
  shows "distinct (targets (rw_out st)) \<and> set (targets (rw_out st)) = listed rw roots"
proof -
  have ex: "explored rw obj (rw_seen st) {}" and t: "distinct (targets (rw_out st))" "set (targets (rw_out st)) = dom (rw_seen st)"
    using e by (auto simp: explores_def explored_def)
  have "dag_cid x \<in> dom (rw_seen st)" if n: "n \<in> set roots" "below n (Suc j) x" "within rw (int (Suc j))" for n j x
  proof -
    obtain m where m: "m \<in> children n" "below m j x"
      using n(2) by (rule below_SucE)
    have "within rw 1"
      using n(3) by (auto simp: within_def)
    then have "seen_at rw (rw_seen st) (dag_cid m) 1"
      using e n(1) m(1) by (auto simp: explores_def)
    then have "seen_at rw (rw_seen st) (dag_cid x) (1 + int j)"
      using explored_below [OF ex m(2), of 1] available_child [of obj n, OF _ m(1)] assms(1) n(1,3) by simp
    then show ?thesis
      by (auto simp: seen_at_def)
  qed
  moreover have "c \<in> listed rw roots" if c: "rw_seen st c = Some d" for c d
  proof -
    obtain n m j x where "n \<in> set roots" "m \<in> children n" "below m j x" "dag_cid x = c" "d = 1 + int j" "within rw d"
      using e c by (fastforce simp: explores_def)
    moreover from this have "below n (Suc j) x"
      by (intro below_Suc)
    ultimately show ?thesis
      by (auto simp: listed_def)
  qed
  ultimately show ?thesis
    using t by (auto simp: listed_def)
qed

text \<open>C35: \<open>refs --unique\<close> lists exactly what is there. When everything can be fetched and equal cids are equal
  objects, the command succeeds and writes every object below the given ones within the depth
  limit (1 without \<open>--recursive\<close>, no limit if it is negative) exactly once, although it prunes
  what it has seen and an object may first be met too deep to be explored.\<close>

theorem refs_unique_exact:
  assumes "no_faults env" and "\<forall>n \<in> set roots. available obj n"
    and "rw = \<lparr>rw_Unique = True, rw_MaxDepth = (if recursive then maxDepth else 1), rw_PrintFmt = fmt\<rparr>"
  shows "\<exists>st. RefsCmd env emit_fail True recursive maxDepth False fmt (Inr (map Inr roots)) = Inr (st, [], None)
    \<and> distinct (targets (rw_out st)) \<and> set (targets (rw_out st)) = listed rw roots"
proof -
  have "rw_Unique rw"
    by (simp add: assms(3))
  from refs_loop_explores [OF this assms(1,2)] obtain st k
    where "refs_loop env emit_fail rw (map Inr roots) (\<lparr>rw_seen = Map.empty, rw_out = []\<rparr>, []) = (st, [], None)"
      and "explores rw obj 0 (\<Union>n \<in> set roots. children n) \<lparr>rw_seen = Map.empty, rw_out = []\<rparr> st k"
    by blast
  then show ?thesis
    using explores_all [OF assms(2)] by (simp add: RefsCmd_def refs_format_def assms(3))
qed

text \<open>
  An object with two links: to a leaf through a long way first, and to the same object directly.
\<close>

definition ex_leaf :: "nat dag" where "ex_leaf = Node 3 []"
definition ex_mid :: "nat dag" where "ex_mid = Node 2 [Link ''c'' 3 ex_leaf]"
definition ex_long :: "nat dag" where "ex_long = Node 1 [Link ''b'' 2 ex_mid]"
definition ex_root :: "nat dag" where "ex_root = Node 0 [Link ''a'' 1 ex_long, Link ''b'' 2 ex_mid]"

definition ex_obj :: "nat \<Rightarrow> nat dag" where
  "ex_obj c = (if c = 1 then ex_long else if c = 2 then ex_mid else ex_leaf)"

definition ex_refs_env :: "nat refs_env" where
  "ex_refs_env = \<lparr>ctx_done = (\<lambda>_. None), emit_err = (\<lambda>_. None), enc_cid = (\<lambda>n. replicate n CHR ''x'')\<rparr>"

theorem refs_unique_exact_witness:
  "\<exists>st. RefsCmd ex_refs_env (\<lambda>_. None) True True 2 False ''<dst>'' (Inr [Inr ex_root]) = Inr (st, [], None)
     \<and> distinct (targets (rw_out st)) \<and> 3 \<in> set (targets (rw_out st))"
proof -
  let ?rw = "\<lparr>rw_Unique = True, rw_MaxDepth = 2, rw_PrintFmt = ''<dst>''\<rparr>"
  have f: "no_faults ex_refs_env"
    by (simp add: no_faults_def ex_refs_env_def)
  have a: "\<forall>n \<in> set [ex_root]. available ex_obj n"
    by (simp add: ex_root_def ex_long_def ex_mid_def ex_leaf_def ex_obj_def)
  have "ex_leaf \<in> children ex_mid" "ex_mid \<in> children ex_root"
    by (auto simp: children_def ex_mid_def ex_root_def)
  then have "below ex_root (Suc (Suc 0)) ex_leaf"
    by (blast intro: below.intros)
  moreover have "within ?rw (int (Suc (Suc 0)))"
    by (simp add: within_def)
  ultimately have "dag_cid ex_leaf \<in> listed ?rw [ex_root]"
    unfolding listed_def by fastforce
  then have "3 \<in> listed ?rw [ex_root]"
    by (simp add: ex_leaf_def)
  then show ?thesis
    using refs_unique_exact [OF f a, of ?rw True 2 "''<dst>''" "\<lambda>_. None"] by auto
qed

end
