(* ===== verification/GoJson.thy ===== *)
theory GoJson
  imports Prelude "HOL-Library.AList"
begin

text \<open>
  Values of Go's \<open>interface{}\<close> as \<open>encoding/json\<close> makes them, and the access to nested maps by dotted keys,
  \<open>src/repo/common/common.go\<close>.

  A Go map is an association list; reading uses the first entry of a key, and writing replaces it or
  appends a new one. A number is kept as its text.
\<close>

section \<open>Values\<close>

datatype json = JNull | JBool bool | JNum string | JStr string | JArr "json list" | JObj "(string \<times> json) list"

definition as_string :: "json option \<Rightarrow> string option" where
  "as_string v = (case v of Some (JStr s) \<Rightarrow> Some s | _ \<Rightarrow> None)"

definition as_bool :: "json option \<Rightarrow> bool option" where
  "as_bool v = (case v of Some (JBool b) \<Rightarrow> Some b | _ \<Rightarrow> None)"

definition as_map :: "json option \<Rightarrow> (string \<times> json) list option" where
  "as_map v = (case v of Some (JObj kvs) \<Rightarrow> Some kvs | _ \<Rightarrow> None)"

definition as_array :: "json option \<Rightarrow> json list option" where
  "as_array v = (case v of Some (JArr vs) \<Rightarrow> Some vs | _ \<Rightarrow> None)"

lemma as_map_Some [simp]: "as_map v = Some kvs \<longleftrightarrow> v = Some (JObj kvs)"
  by (auto simp: as_map_def split: option.splits json.splits)

lemma as_array_Some [simp]: "as_array v = Some vs \<longleftrightarrow> v = Some (JArr vs)"
  by (auto simp: as_array_def split: option.splits json.splits)

lemma as_string_Some [simp]: "as_string v = Some s \<longleftrightarrow> v = Some (JStr s)"
  by (auto simp: as_string_def split: option.splits json.splits)

lemma as_bool_Some [simp]: "as_bool v = Some b \<longleftrightarrow> v = Some (JBool b)"
  by (auto simp: as_bool_def split: option.splits json.splits)

section \<open>Dotted keys\<close>

definition not_a_map :: "string list \<Rightarrow> string" where
  "not_a_map sofar = join ''.'' sofar @ '' key is not a map''"

definition no_attributes :: "string list \<Rightarrow> string" where
  "no_attributes sofar = join ''.'' sofar @ '' key has no attributes''"

fun get_parts :: "string list \<Rightarrow> string list \<Rightarrow> json \<Rightarrow> (string, json) result" where
  "get_parts sofar [] cursor = Inr cursor"
| "get_parts sofar (p # ps) cursor = (case cursor of
     JObj kvs \<Rightarrow> (case map_of kvs p of
         Some c \<Rightarrow> get_parts (sofar @ [p]) ps c
       | None \<Rightarrow> Inl (no_attributes sofar))
   | _ \<Rightarrow> Inl (not_a_map sofar))"

definition key_parts :: "string \<Rightarrow> string list" where
  "key_parts = split_all (CHR ''.'')"

definition MapGetKV :: "(string \<times> json) list \<Rightarrow> string \<Rightarrow> (string, json) result" where
  "MapGetKV v key = get_parts [] (key_parts key) (JObj v)"

text \<open>The map to descend into: a missing or null entry is replaced by an empty map.\<close>

definition descend :: "(string \<times> json) list \<Rightarrow> string \<Rightarrow> json" where
  "descend kvs p = (case map_of kvs p of None \<Rightarrow> JObj [] | Some c \<Rightarrow> if c = JNull then JObj [] else c)"

fun set_parts :: "string list \<Rightarrow> string list \<Rightarrow> json \<Rightarrow> json \<Rightarrow> (string, json) result" where
  "set_parts sofar [] val cursor = Inr cursor"
| "set_parts sofar (p # ps) val cursor = (case cursor of
     JObj kvs \<Rightarrow>
       if ps = [] then Inr (JObj (AList.update p val kvs))
       else bind_ok (set_parts (sofar @ [p]) ps val (descend kvs p)) (\<lambda>c. Inr (JObj (AList.update p c kvs)))
   | _ \<Rightarrow> Inl (not_a_map sofar))"

text \<open>
  The source changes the maps in place; the result is the changed outer map. An error leaves it as it was:
  behind the first map it creates, all maps are new ones and no error follows.
\<close>

definition MapSetKV :: "(string \<times> json) list \<Rightarrow> string \<Rightarrow> json \<Rightarrow> (string, (string \<times> json) list) result" where
  "MapSetKV v key val = bind_ok (set_parts [] (key_parts key) val (JObj v))
     (\<lambda>c. case c of JObj kvs \<Rightarrow> Inr kvs | _ \<Rightarrow> Inr v)"

section \<open>Reading what was written\<close>

lemma set_parts_get:
  assumes "set_parts sofar ps val c = Inr c'" and "ps \<noteq> []"
  shows "get_parts so ps c' = Inr val"
  using assms
proof (induction ps arbitrary: sofar so c c')
  case (Cons p ps)
  then show ?case
    by (cases c) (auto simp: update_conv bind_ok_Inr split: if_splits)
qed simp

text \<open>Two keys are apart if neither is the path to the other.\<close>

definition apart :: "string list \<Rightarrow> string list \<Rightarrow> bool" where
  "apart ps qs \<longleftrightarrow> take (length qs) ps \<noteq> qs \<and> take (length ps) qs \<noteq> ps"

lemma apart_Cons [simp]:
  "\<not> apart [] qs" "\<not> apart ps []"
  "apart (p # ps) (q # qs) \<longleftrightarrow> p \<noteq> q \<or> apart ps qs"
  by (auto simp: apart_def)

lemma get_parts_ok: "(\<exists>so. get_parts so ps c = Inr w) \<longleftrightarrow> (\<forall>so. get_parts so ps c = Inr w)"
proof -
  have "get_parts so ps c = Inr w \<Longrightarrow> get_parts so' ps c = Inr w" for so so'
    by (induction ps arbitrary: so so' c) (auto split: json.splits option.splits)
  then show ?thesis by blast
qed

lemma get_parts_empty: "qs \<noteq> [] \<Longrightarrow> get_parts so qs (JObj []) \<noteq> Inr w" "qs \<noteq> [] \<Longrightarrow> get_parts so qs JNull \<noteq> Inr w"
  by (cases qs; simp)+

lemma set_parts_frame:
  assumes "set_parts sofar ps val c = Inr c'" and "apart ps qs"
  shows "get_parts so qs c' = Inr w \<longleftrightarrow> get_parts so qs c = Inr w"
  using assms
proof (induction ps arbitrary: sofar so c c' qs)
  case (Cons p ps)
  obtain q qs' where q: "qs = q # qs'"
    using Cons.prems(2) by (cases qs) auto
  obtain kvs where c: "c = JObj kvs"
    using Cons.prems(1) by (cases c) auto
  show ?case
  proof (cases "q = p")
    case False
    then show ?thesis
      using Cons.prems(1) by (auto simp: q c update_conv bind_ok_Inr split: if_splits)
  next
    case True
    then have ap: "apart ps qs'"
      using Cons.prems(2) q by simp
    then have ne: "ps \<noteq> []" "qs' \<noteq> []"
      by auto
    then obtain d where d: "set_parts (sofar @ [p]) ps val (descend kvs p) = Inr d" "c' = JObj (AList.update p d kvs)"
      using Cons.prems(1) by (auto simp: c bind_ok_Inr)
    show ?thesis
      using Cons.IH [OF d(1) ap, of "so @ [p]"] ne
      by (auto simp: q c True d(2) update_conv descend_def get_parts_empty split: option.splits if_splits)
  qed
qed simp

lemma key_parts_not_Nil [simp]: "key_parts key \<noteq> []"
  by (simp add: key_parts_def)

lemma MapSetKV_Inr: "MapSetKV v key val = Inr v' \<longleftrightarrow> set_parts [] (key_parts key) val (JObj v) = Inr (JObj v')"
proof -
  obtain p ps where "key_parts key = p # ps"
    by (cases "key_parts key") (use key_parts_not_Nil in blast)+
  then show ?thesis
    by (auto simp: MapSetKV_def bind_ok_Inr)
qed

lemma MapSetKV_get: "MapSetKV v key val = Inr v' \<Longrightarrow> MapGetKV v' key = Inr val"
  by (simp add: MapSetKV_Inr MapGetKV_def set_parts_get)

lemma MapSetKV_frame:
  "MapSetKV v key val = Inr v' \<Longrightarrow> apart (key_parts key) (key_parts k)
    \<Longrightarrow> MapGetKV v' k = Inr w \<longleftrightarrow> MapGetKV v k = Inr w"
  by (simp add: MapSetKV_Inr MapGetKV_def set_parts_frame)

text \<open>Configuration keys behave like a store. After \<open>MapSetKV\<close> succeeds the key reads back as the new value,
  and every key that is neither above nor below it reads as before.\<close>

theorem config_key_store:
  assumes "MapSetKV v key val = Inr v'"
  shows "MapGetKV v' key = Inr val
    \<and> (apart (key_parts key) (key_parts k) \<longrightarrow> (MapGetKV v' k = Inr w \<longleftrightarrow> MapGetKV v k = Inr w))"
  using MapSetKV_get [OF assms] MapSetKV_frame [OF assms] by blast

theorem config_key_store_witness:
  "MapGetKV [(''a'', JObj [(''c'', JBool True), (''b'', JStr ''x'')])] ''a.b'' = Inr (JStr ''x'')
    \<and> MapGetKV [(''a'', JObj [(''c'', JBool True), (''b'', JStr ''x'')])] ''a.c'' = Inr (JBool True)"
proof -
  have s: "MapSetKV [(''a'', JObj [(''c'', JBool True)])] ''a.b'' (JStr ''x'') =
      Inr [(''a'', JObj [(''c'', JBool True), (''b'', JStr ''x'')])]"
    by code_simp
  have a: "apart (key_parts ''a.b'') (key_parts ''a.c'')" and g: "MapGetKV [(''a'', JObj [(''c'', JBool True)])] ''a.c'' = Inr (JBool True)"
    by code_simp+
  show ?thesis
    using config_key_store [OF s, of "''a.c''" "JBool True"] a g by blast
qed

end
