(* ===== verification/GoPath.thy ===== *)
theory GoPath
  imports Prelude
begin

text \<open>
  The part of Go's \<open>path\<close> and \<open>path/filepath\<close> (on Unix) that the code uses: \<open>Clean\<close>, \<open>Join\<close>, \<open>IsAbs\<close>, \<open>Split\<close>, \<open>Dir\<close>, \<open>Base\<close> and \<open>Ext\<close>.
\<close>

text \<open>One element of a path is pushed on the elements so far, the last of which comes first.\<close>

definition push_elem :: "bool \<Rightarrow> string list \<Rightarrow> string \<Rightarrow> string list" where
  "push_elem rooted st e =
    (if e = [] \<or> e = ''.'' then st
     else if e = ''..'' then
       (case st of [] \<Rightarrow> if rooted then [] else [e] | t # ts \<Rightarrow> if t = ''..'' then e # st else ts)
     else e # st)"

definition IsAbs :: "string \<Rightarrow> bool" where
  "IsAbs p = has_prefix p ''/''"

definition Clean :: "string \<Rightarrow> string" where
  "Clean p =
    (let body = join ''/'' (rev (foldl (push_elem (IsAbs p)) [] (split_all (CHR ''/'') p)))
     in if IsAbs p then ''/'' @ body else if body = [] then ''.'' else body)"

definition Join :: "string list \<Rightarrow> string" where
  "Join es = (let ne = filter (\<lambda>e. e \<noteq> []) es in if ne = [] then [] else Clean (join ''/'' ne))"

text \<open>\<open>Split\<close> cuts after the last slash.\<close>

definition Split :: "string \<Rightarrow> string \<times> string" where
  "Split p = (let file = rev (takeWhile (\<lambda>c. c \<noteq> CHR ''/'') (rev p)) in (take (length p - length file) p, file))"

definition Dir :: "string \<Rightarrow> string" where
  "Dir p = Clean (fst (Split p))"

definition Base :: "string \<Rightarrow> string" where
  "Base p = (if p = [] then ''.''
     else let q = trim_right p (CHR ''/''); b = snd (Split q) in if b = [] then ''/'' else b)"

text \<open>\<open>Ext\<close> is what follows the last dot of the last element, with the dot.\<close>

definition Ext :: "string \<Rightarrow> string" where
  "Ext p = (let file = snd (Split p); e = takeWhile (\<lambda>c. c \<noteq> CHR ''.'') (rev file)
     in if length e = length file then [] else CHR ''.'' # rev e)"

lemma Split_append: "fst (Split p) @ snd (Split p) = p"
proof -
  let ?file = "takeWhile (\<lambda>c. c \<noteq> CHR ''/'') (rev p)"
  have "rev p = ?file @ dropWhile (\<lambda>c. c \<noteq> CHR ''/'') (rev p)"
    by simp
  then have p: "p = rev (dropWhile (\<lambda>c. c \<noteq> CHR ''/'') (rev p)) @ rev ?file"
    by (metis rev_append rev_rev_ident)
  then have "length p - length ?file = length (rev (dropWhile (\<lambda>c. c \<noteq> CHR ''/'') (rev p)))"
    by (metis add_diff_cancel_right' length_append length_rev)
  then show ?thesis
    unfolding Split_def Let_def using p by (metis append_eq_conv_conj fst_conv length_rev snd_conv)
qed

lemma Split_no_slash: "CHR ''/'' \<notin> set (snd (Split p))"
  unfolding Split_def Let_def by (auto dest: set_takeWhileD)

section \<open>Clean paths\<close>

text \<open>The elements of a clean path.\<close>

definition clean_elem :: "string \<Rightarrow> bool" where
  "clean_elem e \<longleftrightarrow> e \<noteq> [] \<and> e \<noteq> ''.'' \<and> e \<noteq> ''..'' \<and> CHR ''/'' \<notin> set e"

lemma push_clean: "list_all clean_elem st \<Longrightarrow> CHR ''/'' \<notin> set e \<Longrightarrow> list_all clean_elem (push_elem True st e)"
  by (cases st) (auto simp: push_elem_def clean_elem_def)

lemma foldl_push_clean:
  "list_all clean_elem st \<Longrightarrow> \<forall>e \<in> set es. CHR ''/'' \<notin> set e \<Longrightarrow> list_all clean_elem (foldl (push_elem True) st es)"
  by (induction es arbitrary: st) (auto simp: push_clean)

lemma foldl_push_id: "list_all clean_elem es \<Longrightarrow> foldl (push_elem True) st es = rev es @ st"
  by (induction es arbitrary: st) (auto simp: push_elem_def clean_elem_def)

lemma Clean_abs:
  assumes "IsAbs p"
  obtains es where "list_all clean_elem es" "Clean p = ''/'' @ join ''/'' es"
proof
  let ?es = "rev (foldl (push_elem True) [] (split_all (CHR ''/'') p))"
  have "list_all clean_elem (foldl (push_elem True) [] (split_all (CHR ''/'') p))"
    by (rule foldl_push_clean) (auto dest: split_all_no_sep)
  then show "list_all clean_elem ?es"
    by (simp add: list_all_iff)
  show "Clean p = ''/'' @ join ''/'' ?es"
    using assms by (simp add: Clean_def Let_def)
qed

lemma split_elems: "list_all clean_elem es \<Longrightarrow> es \<noteq> [] \<Longrightarrow> split_all (CHR ''/'') (join ''/'' es) = es"
  by (rule split_all_join) (auto simp: list_all_iff clean_elem_def)

lemma push_empty: "push_elem r st [] = st"
  by (simp add: push_elem_def)

lemma split_all_Nil: "split_all c [] = [[]]"
  by (rule split_all_single) simp

text \<open>A clean path, with or without a slash at its end, has its elements as the result of cleaning.\<close>

lemma Clean_elems:
  assumes "list_all clean_elem es"
  shows "Clean (''/'' @ join ''/'' es) = ''/'' @ join ''/'' es" "Clean (''/'' @ join ''/'' es @ ''/'') = ''/'' @ join ''/'' es"
proof -
  have abs: "IsAbs (CHR ''/'' # s)" for s
    using has_prefix_append [of "''/''" s] by (simp add: IsAbs_def)
  have s1: "split_all (CHR ''/'') (CHR ''/'' # join ''/'' es) = [] # (if es = [] then [[]] else es)"
    using split_all_append [of "CHR ''/''" "[]" "join ''/'' es"] split_elems [OF assms] by (simp add: split_all_Nil)
  have s2: "split_all (CHR ''/'') (CHR ''/'' # join ''/'' es @ ''/'') = [] # (if es = [] then [[]] else es) @ [[]]"
    using split_all_append [of "CHR ''/''" "[]" "join ''/'' es @ ''/''"] split_all_append [of "CHR ''/''" "join ''/'' es" "[]"] split_elems [OF assms]
    by (simp add: split_all_Nil)
  show "Clean (''/'' @ join ''/'' es) = ''/'' @ join ''/'' es"
    using foldl_push_id [OF assms, of "[]"] by (simp add: Clean_def Let_def abs s1 push_empty)
  show "Clean (''/'' @ join ''/'' es @ ''/'') = ''/'' @ join ''/'' es"
    using foldl_push_id [OF assms, of "[]"] by (simp add: Clean_def Let_def abs s2 push_empty)
qed

lemma last_join:
  assumes "list_all clean_elem es" and "es \<noteq> []"
  shows "join ''/'' es \<noteq> [] \<and> last (join ''/'' es) \<noteq> CHR ''/''"
  using assms
proof (induction es rule: rev_induct)
  case (snoc e es)
  have e: "e \<noteq> []" "last e \<noteq> CHR ''/''"
    using snoc.prems(1) by (auto simp: clean_elem_def) (metis last_in_set)
  show ?case
  proof (cases "es = []")
    case False
    then show ?thesis
      using e join_append [of es "[e]" "CHR ''/''"] by simp
  qed (use e in simp)
qed simp

end
