(* ===== verification/DsConfig.thy ===== *)
theory DsConfig
  imports GoJson GoPath "HOL-Library.Multiset" "HOL-Library.List_Lexorder" "HOL-Library.Char_ord"
begin

text \<open>
  Configurations of datastores: the registry of types and the composition of mounts and wrappers,
  \<open>src/repo/fsrepo/datastores.go\<close>, and the three datastore plugins, \<open>src/plugin/plugins/flatfs/flatfs.go\<close>,
  \<open>src/plugin/plugins/levelds/levelds.go\<close> and \<open>src/plugin/plugins/badgerds/badgerds.go\<close>.

  The function of a source constructor that parses nested configurations gets the parser as an
  argument, and \<open>AnyDatastoreConfig\<close> ties the knot. Parsing keys, shard functions and sizes is done by
  other packages and is a parameter, as is the result of \<open>sort.Slice\<close>, which does not fix the order of
  equal elements.
\<close>

section \<open>Configurations\<close>

datatype ds_error = DErr string | DPanic

datatype registry_error = AlreadyHave string

datatype Compression = DefaultCompression | NoCompression | SnappyCompression

datatype 'x dsconfig =
    MountC "(string \<times> 'x dsconfig) list"
  | MemC "(string \<times> json) list"
  | LogC "'x dsconfig" string
  | MeasureC "'x dsconfig" string
  | FlatfsC string string bool
  | LevelC string Compression
  | BadgerC string bool bool "64 word"
  | PluginC 'x

datatype 'x ConfigFromMap = MountH | MemH | LogH | MeasureH | FlatfsH | LevelH | BadgerH
  | PluginH "(string \<times> json) list \<Rightarrow> (ds_error, 'x) result"

type_synonym 'x datastores = "string \<rightharpoonup> 'x ConfigFromMap"

record 'x ds_env =
  newKey :: "string \<Rightarrow> string"
  parseShardFunc :: "string \<Rightarrow> (string, string) result"
  parseBytes :: "string \<Rightarrow> (string, 64 word) result"
  defaultValueLogFileSize :: "64 word"
  sortMounts :: "(string \<times> 'x dsconfig) list \<Rightarrow> (string \<times> 'x dsconfig) list"

definition init_datastores :: "'x datastores" where
  "init_datastores = [''mount'' \<mapsto> MountH, ''mem'' \<mapsto> MemH, ''log'' \<mapsto> LogH, ''measure'' \<mapsto> MeasureH]"

definition AddDatastoreConfigHandler :: "string \<Rightarrow> 'x ConfigFromMap \<Rightarrow> 'x datastores \<Rightarrow> 'x datastores \<times> registry_error option" where
  "AddDatastoreConfigHandler name dsc reg = (case reg name of
     Some _ \<Rightarrow> (reg, Some (AlreadyHave name))
   | None \<Rightarrow> (reg(name \<mapsto> dsc), None))"

section \<open>Parsing\<close>

fun mount_configs :: "'x ds_env \<Rightarrow> ((string \<times> json) list \<Rightarrow> (ds_error, 'x dsconfig) result) \<Rightarrow> json list
    \<Rightarrow> (ds_error, (string \<times> 'x dsconfig) list) result" where
  "mount_configs env any [] = Inr []"
| "mount_configs env any (iface # rest) = (case iface of
     JObj cfg \<Rightarrow> bind_ok (any cfg) (\<lambda>child. case map_of cfg ''mountpoint'' of
         None \<Rightarrow> Inl (DErr ''no 'mountpoint' on mount'')
       | Some prefix \<Rightarrow> (case as_string (Some prefix) of
           None \<Rightarrow> Inl DPanic
         | Some s \<Rightarrow> bind_ok (mount_configs env any rest) (\<lambda>ms. Inr ((newKey env s, child) # ms))))
   | _ \<Rightarrow> Inl (DErr ''expected map for mountpoint''))"

definition MountDatastoreConfig where
  "MountDatastoreConfig env any params = (case as_array (map_of params ''mounts'') of
     None \<Rightarrow> Inl (DErr '''mounts' field is missing or not an array'')
   | Some mounts \<Rightarrow> bind_ok (mount_configs env any mounts) (\<lambda>ms. Inr (MountC (sortMounts env ms))))"

definition MemDatastoreConfig :: "(string \<times> json) list \<Rightarrow> (ds_error, 'x dsconfig) result" where
  "MemDatastoreConfig params = Inr (MemC params)"

definition LogDatastoreConfig where
  "LogDatastoreConfig any params = (case as_map (map_of params ''child'') of
     None \<Rightarrow> Inl (DErr '''child' field is missing or not a map'')
   | Some childField \<Rightarrow> bind_ok (any childField) (\<lambda>child. case as_string (map_of params ''name'') of
         None \<Rightarrow> Inl (DErr '''name' field was missing or not a string'')
       | Some name \<Rightarrow> Inr (LogC child name)))"

definition MeasureDatastoreConfig where
  "MeasureDatastoreConfig any params = (case as_map (map_of params ''child'') of
     None \<Rightarrow> Inl (DErr '''child' field is missing or not a map'')
   | Some childField \<Rightarrow> bind_ok (any childField) (\<lambda>child. case as_string (map_of params ''prefix'') of
         None \<Rightarrow> Inl (DErr '''prefix' field was missing or not a string'')
       | Some prefix \<Rightarrow> Inr (MeasureC child prefix)))"

definition flatfs_parser :: "'x ds_env \<Rightarrow> (string \<times> json) list \<Rightarrow> (ds_error, 'x dsconfig) result" where
  "flatfs_parser env params = (case as_string (map_of params ''path'') of
     None \<Rightarrow> Inl (DErr '''path' field is missing or not boolean'')
   | Some path \<Rightarrow> (case as_string (map_of params ''shardFunc'') of
       None \<Rightarrow> Inl (DErr '''shardFunc' field is missing or not a string'')
     | Some sshardFun \<Rightarrow> (case parseShardFunc env sshardFun of
         Inl e \<Rightarrow> Inl (DErr e)
       | Inr shardFun \<Rightarrow> (case as_bool (map_of params ''sync'') of
           None \<Rightarrow> Inl (DErr '''sync' field is missing or not boolean'')
         | Some sync \<Rightarrow> Inr (FlatfsC path shardFun sync)))))"

text \<open>The type assertion on \<open>compression\<close> has no second result, so it panics on a missing field.\<close>

definition levelds_parser :: "(string \<times> json) list \<Rightarrow> (ds_error, 'x dsconfig) result" where
  "levelds_parser params = (case as_string (map_of params ''path'') of
     None \<Rightarrow> Inl (DErr '''path' field is missing or not string'')
   | Some path \<Rightarrow> (case as_string (map_of params ''compression'') of
       None \<Rightarrow> Inl DPanic
     | Some cm \<Rightarrow>
         if cm = ''none'' then Inr (LevelC path NoCompression)
         else if cm = ''snappy'' then Inr (LevelC path SnappyCompression)
         else if cm = [] then Inr (LevelC path DefaultCompression)
         else Inl (DErr (''unrecognized value for compression: '' @ cm))))"

definition bool_field :: "(string \<times> json) list \<Rightarrow> string \<Rightarrow> bool \<Rightarrow> (ds_error, bool) result" where
  "bool_field params k dflt = (case map_of params k of
     None \<Rightarrow> Inr dflt
   | Some v \<Rightarrow> (case as_bool (Some v) of
       Some b \<Rightarrow> Inr b | None \<Rightarrow> Inl (DErr ([CHR 0x27] @ k @ [CHR 0x27] @ '' field was not a boolean''))))"

definition vlog_field :: "'x ds_env \<Rightarrow> (string \<times> json) list \<Rightarrow> (ds_error, 64 word) result" where
  "vlog_field env params = (case map_of params ''vlogFileSize'' of
     None \<Rightarrow> Inr (defaultValueLogFileSize env)
   | Some v \<Rightarrow> (case as_string (Some v) of
       None \<Rightarrow> Inl (DErr '''vlogFileSize' field was not a string'')
     | Some s \<Rightarrow> (case parseBytes env s of Inl e \<Rightarrow> Inl (DErr e) | Inr n \<Rightarrow> Inr n)))"

definition badgerds_parser :: "'x ds_env \<Rightarrow> (string \<times> json) list \<Rightarrow> (ds_error, 'x dsconfig) result" where
  "badgerds_parser env params = (case as_string (map_of params ''path'') of
     None \<Rightarrow> Inl (DErr '''path' field is missing or not string'')
   | Some path \<Rightarrow> bind_ok (bool_field params ''syncWrites'' False) (\<lambda>syncWrites.
       bind_ok (bool_field params ''truncate'' True) (\<lambda>truncate.
       bind_ok (vlog_field env params) (\<lambda>vlog. Inr (BadgerC path syncWrites truncate vlog)))))"

definition run_handler :: "'x ds_env \<Rightarrow> ((string \<times> json) list \<Rightarrow> (ds_error, 'x dsconfig) result) \<Rightarrow> 'x ConfigFromMap
    \<Rightarrow> (string \<times> json) list \<Rightarrow> (ds_error, 'x dsconfig) result" where
  "run_handler env any h params = (case h of
     MountH \<Rightarrow> MountDatastoreConfig env any params
   | MemH \<Rightarrow> MemDatastoreConfig params
   | LogH \<Rightarrow> LogDatastoreConfig any params
   | MeasureH \<Rightarrow> MeasureDatastoreConfig any params
   | FlatfsH \<Rightarrow> flatfs_parser env params
   | LevelH \<Rightarrow> levelds_parser params
   | BadgerH \<Rightarrow> badgerds_parser env params
   | PluginH f \<Rightarrow> bind_ok (f params) (\<lambda>x. Inr (PluginC x)))"

lemma mount_configs_cong:
  "(\<And>cfg. JObj cfg \<in> set vs \<Longrightarrow> f cfg = g cfg) \<Longrightarrow> mount_configs env f vs = mount_configs env g vs"
proof (induction vs)
  case (Cons v vs)
  have eq: "mount_configs env f vs = mount_configs env g vs"
    by (rule Cons.IH) (simp add: Cons.prems)
  show ?case
    unfolding mount_configs.simps eq using Cons.prems by (cases v) auto
qed simp

lemma size_map_of: "map_of kvs k = Some v \<Longrightarrow> size v < size (JObj kvs)"
  by (induction kvs) (auto split: if_splits)

lemma size_mem: "v \<in> set vs \<Longrightarrow> size v < size (JArr vs)"
  by (induction vs) auto

lemma run_handler_cong [fundef_cong]:
  assumes "env = env'" and "h = h'" and "params = params'"
    and "\<And>cfg. size (JObj cfg) < size (JObj params') \<Longrightarrow> f cfg = g cfg"
  shows "run_handler env f h params = run_handler env' g h' params'"
proof -
  have "f cfg = g cfg" if "map_of params' k = Some (JObj cfg)" for k cfg
    using assms(4) size_map_of [OF that] by blast
  moreover have "mount_configs env' f vs = mount_configs env' g vs" if "map_of params' ''mounts'' = Some (JArr vs)" for vs
    by (rule mount_configs_cong) (use assms(4) size_map_of [OF that] size_mem in fastforce)
  ultimately show ?thesis
    unfolding assms(1-3)
    by (cases h') (auto simp: run_handler_def MountDatastoreConfig_def LogDatastoreConfig_def MeasureDatastoreConfig_def
        as_map_def as_array_def split: option.splits json.splits)
qed

function AnyDatastoreConfig :: "'x ds_env \<Rightarrow> 'x datastores \<Rightarrow> (string \<times> json) list \<Rightarrow> (ds_error, 'x dsconfig) result" where
  "AnyDatastoreConfig env reg params = (case as_string (map_of params ''type'') of
     None \<Rightarrow> Inl (DErr '''type' field missing or not a string'')
   | Some which \<Rightarrow> (case reg which of
       None \<Rightarrow> Inl (DErr (''unknown datastore type: '' @ which))
     | Some h \<Rightarrow> run_handler env (AnyDatastoreConfig env reg) h params))"
  by pat_completeness auto
termination
  by (relation "measure (\<lambda>(env, reg, params). size (JObj params))") auto

declare AnyDatastoreConfig.simps [simp del]

section \<open>What is stored on disk\<close>

fun DiskSpec :: "('x \<Rightarrow> (string \<times> json) list option) \<Rightarrow> 'x dsconfig \<Rightarrow> (string \<times> json) list option" where
  "DiskSpec pspec (MountC ms) = Some [(''type'', JStr ''mount''), (''mounts'', JArr (map (\<lambda>m.
     JObj (AList.update ''mountpoint'' (JStr (fst m)) (case DiskSpec pspec (snd m) of None \<Rightarrow> [] | Some c \<Rightarrow> c))) ms))]"
| "DiskSpec pspec (MemC cfg) = None"
| "DiskSpec pspec (LogC child name) = DiskSpec pspec child"
| "DiskSpec pspec (MeasureC child prefix) = DiskSpec pspec child"
| "DiskSpec pspec (FlatfsC path shardFun sync) =
     Some [(''type'', JStr ''flatfs''), (''path'', JStr path), (''shardFunc'', JStr shardFun)]"
| "DiskSpec pspec (LevelC path c) = Some [(''type'', JStr ''levelds''), (''path'', JStr path)]"
| "DiskSpec pspec (BadgerC path sw tr vlog) = Some [(''type'', JStr ''badgerds''), (''path'', JStr path)]"
| "DiskSpec pspec (PluginC x) = pspec x"

section \<open>Opening the datastores\<close>

text \<open>
  What the packages of the datastores do is a parameter. The state is the list of datastores that
  have been opened on disk; they stay open until somebody closes them.
\<close>

record ('x, 'd) create_env =
  newMap :: 'd
  newLog :: "'d \<Rightarrow> string \<Rightarrow> 'd"
  newMeasure :: "string \<Rightarrow> 'd \<Rightarrow> 'd"
  newMount :: "(string \<times> 'd) list \<Rightarrow> 'd"
  openFlatfs :: "string \<Rightarrow> string \<Rightarrow> bool \<Rightarrow> (string, 'd) result"
  openLevel :: "string \<Rightarrow> Compression \<Rightarrow> (string, 'd) result"
  mkdirAll :: "string \<Rightarrow> string option"
  openBadger :: "string \<Rightarrow> bool \<Rightarrow> bool \<Rightarrow> 64 word \<Rightarrow> (string, 'd) result"
  openPlugin :: "'x \<Rightarrow> string \<Rightarrow> (string, 'd) result"

definition store_path :: "string \<Rightarrow> string \<Rightarrow> string" where
  "store_path path p = (if IsAbs p then p else Join [path, p])"

definition opened :: "'d list \<Rightarrow> (string, 'd) result \<Rightarrow> 'd list \<times> (string, 'd) result" where
  "opened st r = (case r of Inl e \<Rightarrow> (st, Inl e) | Inr d \<Rightarrow> (st @ [d], Inr d))"

fun create_mounts :: "('c \<Rightarrow> 'd list \<Rightarrow> 'd list \<times> (string, 'd) result) \<Rightarrow> (string \<times> 'c) list \<Rightarrow> 'd list
    \<Rightarrow> 'd list \<times> (string, (string \<times> 'd) list) result" where
  "create_mounts create [] st = (st, Inr [])"
| "create_mounts create (m # ms) st = (case create (snd m) st of
     (st1, Inl e) \<Rightarrow> (st1, Inl e)
   | (st1, Inr d) \<Rightarrow> (case create_mounts create ms st1 of
       (st2, Inl e) \<Rightarrow> (st2, Inl e) | (st2, Inr ds) \<Rightarrow> (st2, Inr ((fst m, d) # ds))))"

lemma create_mounts_cong [fundef_cong]:
  "ms = ms' \<Longrightarrow> st = st' \<Longrightarrow> (\<And>m s. m \<in> set ms' \<Longrightarrow> f (snd m) s = g (snd m) s) \<Longrightarrow> create_mounts f ms st = create_mounts g ms' st'"
proof (induction ms arbitrary: ms' st st')
  case (Cons m ms)
  have ms: "ms' = m # ms" "st' = st" and eq: "\<And>n s. n \<in> set (m # ms) \<Longrightarrow> f (snd n) s = g (snd n) s"
    using Cons.prems by blast+
  have "create_mounts f ms s = create_mounts g ms s" for s
    by (rule Cons.IH [OF refl refl eq]) simp
  then show ?case
    unfolding ms create_mounts.simps eq [of m, simplified] by simp
qed simp

fun Create_ds :: "('x, 'd) create_env \<Rightarrow> string \<Rightarrow> 'x dsconfig \<Rightarrow> 'd list \<Rightarrow> 'd list \<times> (string, 'd) result" where
  "Create_ds env path (MountC ms) st = (case create_mounts (Create_ds env path) ms st of
     (st', Inl e) \<Rightarrow> (st', Inl e) | (st', Inr ds) \<Rightarrow> (st', Inr (newMount env ds)))"
| "Create_ds env path (MemC cfg) st = (st, Inr (newMap env))"
| "Create_ds env path (LogC child name) st = (case Create_ds env path child st of
     (st', Inl e) \<Rightarrow> (st', Inl e) | (st', Inr d) \<Rightarrow> (st', Inr (newLog env d name)))"
| "Create_ds env path (MeasureC child prefix) st = (case Create_ds env path child st of
     (st', Inl e) \<Rightarrow> (st', Inl e) | (st', Inr d) \<Rightarrow> (st', Inr (newMeasure env prefix d)))"
| "Create_ds env path (FlatfsC p shardFun sync) st = opened st (openFlatfs env (store_path path p) shardFun sync)"
| "Create_ds env path (LevelC p c) st = opened st (openLevel env (store_path path p) c)"
| "Create_ds env path (BadgerC p sw tr vlog) st = (case mkdirAll env (store_path path p) of
     Some e \<Rightarrow> (st, Inl e) | None \<Rightarrow> opened st (openBadger env (store_path path p) sw tr vlog))"
| "Create_ds env path (PluginC x) st = opened st (openPlugin env x path)"

section \<open>What the stored specification says\<close>

text \<open>The configuration without what may change between two runs: wrappers and run-time options.\<close>

fun persistent :: "'x dsconfig \<Rightarrow> 'x dsconfig" where
  "persistent (MountC ms) = MountC (map (\<lambda>m. (fst m, persistent (snd m))) ms)"
| "persistent (MemC cfg) = MemC []"
| "persistent (LogC child name) = persistent child"
| "persistent (MeasureC child prefix) = persistent child"
| "persistent (FlatfsC path shardFun sync) = FlatfsC path shardFun False"
| "persistent (LevelC path c) = LevelC path DefaultCompression"
| "persistent (BadgerC path sw tr vlog) = BadgerC path False False 0"
| "persistent (PluginC x) = PluginC x"

fun no_plugin :: "'x dsconfig \<Rightarrow> bool" where
  "no_plugin (MountC ms) = list_all (\<lambda>m. no_plugin (snd m)) ms"
| "no_plugin (LogC child name) = no_plugin child"
| "no_plugin (MeasureC child prefix) = no_plugin child"
| "no_plugin (PluginC x) = False"
| "no_plugin c = True"

lemma DiskSpec_persistent: "DiskSpec ps (persistent c) = DiskSpec ps c"
  by (induction c rule: persistent.induct) (auto simp: comp_def)

text \<open>Configurations that are nothing but persistent.\<close>

fun bare :: "'x dsconfig \<Rightarrow> bool" where
  "bare (MountC ms) = list_all (\<lambda>m. bare (snd m)) ms"
| "bare (MemC cfg) = (cfg = [])"
| "bare (FlatfsC path shardFun sync) = (\<not> sync)"
| "bare (LevelC path c) = (c = DefaultCompression)"
| "bare (BadgerC path sw tr vlog) = (\<not> sw \<and> \<not> tr \<and> vlog = 0)"
| "bare _ = False"

lemma bare_persistent: "no_plugin c \<Longrightarrow> bare (persistent c)"
  by (induction c rule: persistent.induct) (auto simp: list_all_iff)

definition spec_map :: "(string \<times> json) list option \<Rightarrow> (string \<times> json) list" where
  "spec_map s = (case s of None \<Rightarrow> [] | Some c \<Rightarrow> c)"

lemma spec_no_mountpoint: "bare c \<Longrightarrow> ''mountpoint'' \<notin> fst ` set (spec_map (DiskSpec ps c))"
  by (cases c) (auto simp: spec_map_def)

lemma update_fresh: "k \<notin> fst ` set kvs \<Longrightarrow> AList.update k v kvs = kvs @ [(k, v)]"
  by (induction kvs) auto

lemma DiskSpec_None: "bare c \<Longrightarrow> spec_map (DiskSpec ps c) = [] \<longleftrightarrow> DiskSpec ps c = None"
  by (cases c) (auto simp: spec_map_def)

definition mounted_spec :: "('x \<Rightarrow> (string \<times> json) list option) \<Rightarrow> string \<times> 'x dsconfig \<Rightarrow> json" where
  "mounted_spec ps m = JObj (AList.update ''mountpoint'' (JStr (fst m)) (spec_map (DiskSpec ps (snd m))))"

lemma DiskSpec_Mount:
  "DiskSpec ps (MountC ms) = Some [(''type'', JStr ''mount''), (''mounts'', JArr (map (mounted_spec ps) ms))]"
  by (simp add: mounted_spec_def spec_map_def)

lemma mounted_spec_eq:
  assumes "bare (snd m)" and "bare (snd n)"
  shows "mounted_spec ps m = mounted_spec ps n \<longleftrightarrow> fst m = fst n \<and> DiskSpec ps (snd m) = DiskSpec ps (snd n)"
proof -
  have "spec_map (DiskSpec ps (snd m)) = spec_map (DiskSpec ps (snd n)) \<longleftrightarrow> DiskSpec ps (snd m) = DiskSpec ps (snd n)"
    using DiskSpec_None [OF assms(1), of ps] DiskSpec_None [OF assms(2), of ps]
    by (cases "DiskSpec ps (snd m)"; cases "DiskSpec ps (snd n)") (auto simp: spec_map_def)
  then show ?thesis
    by (auto simp: mounted_spec_def update_fresh spec_no_mountpoint assms)
qed

lemma mounted_specs_inj:
  assumes "\<And>m c. m \<in> set ms \<Longrightarrow> bare c \<Longrightarrow> DiskSpec ps (snd m) = DiskSpec ps c \<Longrightarrow> snd m = c"
    and "\<forall>m \<in> set ms. bare (snd m)" and "\<forall>m \<in> set ns. bare (snd m)"
    and "map (mounted_spec ps) ms = map (mounted_spec ps) ns"
  shows "ms = ns"
  using assms
proof (induction ms arbitrary: ns)
  case (Cons m ms)
  then obtain n ns' where n: "ns = n # ns'" "mounted_spec ps m = mounted_spec ps n"
      "map (mounted_spec ps) ms = map (mounted_spec ps) ns'"
    by (cases ns) auto
  have "fst m = fst n" "DiskSpec ps (snd m) = DiskSpec ps (snd n)"
    using mounted_spec_eq [of m n ps] n Cons.prems(2,3) by auto
  moreover have "snd m = snd n"
    by (rule Cons.prems(1)) (use Cons.prems(3) n calculation in auto)
  moreover have "ms = ns'"
    by (rule Cons.IH) (use Cons.prems n in auto)
  ultimately show ?case
    by (simp add: n prod_eq_iff)
qed simp

lemma DiskSpec_inj: "bare c \<Longrightarrow> bare c' \<Longrightarrow> DiskSpec ps c = DiskSpec ps c' \<Longrightarrow> c = c'"
proof (induction c arbitrary: c')
  case (MountC ms)
  then obtain ns where ns: "c' = MountC ns"
    by (cases c') auto
  have "ms = ns"
  proof (rule mounted_specs_inj [of ms ps ns])
    show "snd m = c" if "m \<in> set ms" "bare c" "DiskSpec ps (snd m) = DiskSpec ps c" for m c
      using MountC.IH [OF that(1), of "snd m" c] MountC.prems(1) that by (cases m) (auto simp: list_all_iff)
    show "map (mounted_spec ps) ms = map (mounted_spec ps) ns"
      using MountC.prems(3) by (simp add: ns DiskSpec_Mount del: DiskSpec.simps)
  qed (use MountC.prems ns in \<open>auto simp: list_all_iff\<close>)
  then show ?case
    by (simp add: ns)
qed (case_tac c'; auto)+

text \<open>C36: the specification on disk is exactly what persists. Two configurations without foreign plugins have
  the same \<open>DiskSpec\<close> if and only if they agree on everything but wrappers, synchronisation, compression
  and the options of badger: mount points and their order, types, paths and shard functions.\<close>

theorem diskspec_exact:
  assumes "no_plugin c" and "no_plugin c'"
  shows "DiskSpec ps c = DiskSpec ps c' \<longleftrightarrow> persistent c = persistent c'"
  using DiskSpec_inj [OF bare_persistent [OF assms(1)] bare_persistent [OF assms(2)], of ps]
  by (metis DiskSpec_persistent)

theorem diskspec_exact_witness:
  "DiskSpec (\<lambda>_::nat. None) (MountC [(''/blocks'', MeasureC (FlatfsC ''blocks'' ''s'' True) ''m''), (''/'', MemC [])])
     = DiskSpec (\<lambda>_::nat. None) (MountC [(''/blocks'', FlatfsC ''blocks'' ''s'' False), (''/'', LogC (MemC []) ''l'')])
   \<and> DiskSpec (\<lambda>_::nat. None) (FlatfsC ''blocks'' ''s'' True) \<noteq> DiskSpec (\<lambda>_::nat. None) (FlatfsC ''other'' ''s'' True)"
  by (simp add: diskspec_exact del: DiskSpec.simps)

section \<open>The order of the mounts\<close>

definition sort_law :: "((string \<times> 'x dsconfig) list \<Rightarrow> (string \<times> 'x dsconfig) list) \<Rightarrow> bool" where
  "sort_law srt \<longleftrightarrow> (\<forall>ms. mset (srt ms) = mset ms \<and> sorted_wrt (\<lambda>m n. fst n \<le> fst m) (srt ms))"

lemma sorted_keys_unique:
  assumes "mset xs = mset ys" and "distinct (map fst xs)"
    and "sorted_wrt (\<lambda>m n. fst n \<le> fst m) xs" and "sorted_wrt (\<lambda>m n. fst n \<le> fst m) ys"
  shows "xs = (ys :: (string \<times> 'b) list)"
proof -
  have set: "set xs = set ys"
    using assms(1) by (rule mset_eq_setD)
  have "mset (map fst xs) = mset (map fst ys)"
    using assms(1) by simp
  then have "distinct (map fst ys)"
    using assms(2) by (metis mset_eq_imp_distinct_iff)
  moreover have "sorted (rev (map fst xs))" "sorted (rev (map fst ys))"
    using assms(3,4) by (simp_all add: sorted_wrt_rev sorted_wrt_map flip: rev_map)
  ultimately have "rev (map fst xs) = rev (map fst ys)"
    using assms(2) set by (intro sorted_distinct_set_unique) auto
  then have "map fst xs = map fst ys"
    by simp
  then show ?thesis
    by (rule map_inj_on) (use assms(2) set in \<open>simp add: distinct_map\<close>)
qed

definition mount_entry :: "'x ds_env \<Rightarrow> ((string \<times> json) list \<Rightarrow> (ds_error, 'x dsconfig) result) \<Rightarrow> json \<Rightarrow> string \<times> 'x dsconfig \<Rightarrow> bool" where
  "mount_entry env any v m \<longleftrightarrow> (\<exists>cfg s child. v = JObj cfg \<and> any cfg = Inr child
     \<and> map_of cfg ''mountpoint'' = Some (JStr s) \<and> m = (newKey env s, child))"

lemma mount_configs_ok: "mount_configs env any vs = Inr ms \<longleftrightarrow> list_all2 (mount_entry env any) vs ms"
proof (induction vs arbitrary: ms)
  case (Cons v vs)
  have "mount_configs env any (v # vs) = Inr ms \<longleftrightarrow>
      (\<exists>m ms'. ms = m # ms' \<and> mount_entry env any v m \<and> mount_configs env any vs = Inr ms')"
  proof (cases v)
    case (JObj cfg)
    consider "map_of cfg ''mountpoint'' = None" | x where "map_of cfg ''mountpoint'' = Some x" "as_string (Some x) = None"
      | s where "map_of cfg ''mountpoint'' = Some (JStr s)"
      by (cases "map_of cfg ''mountpoint''"; cases "as_string (map_of cfg ''mountpoint'')") auto
    then show ?thesis
      by cases (auto simp: JObj mount_entry_def bind_ok_Inr as_string_def)
  qed (auto simp: mount_entry_def)
  then show ?case
    by (simp add: Cons.IH list_all2_Cons1)
qed auto

lemma any_mount:
  assumes "map_of params ''type'' = Some (JStr t)" and "reg t = Some MountH" and "map_of params ''mounts'' = Some (JArr vs)"
  shows "AnyDatastoreConfig env reg params = bind_ok (mount_configs env (AnyDatastoreConfig env reg) vs) (\<lambda>ms. Inr (MountC (sortMounts env ms)))"
  using assms
  by (subst AnyDatastoreConfig.simps) (simp add: run_handler_def MountDatastoreConfig_def as_string_def as_array_def)

text \<open>The order of the mounts in the configuration is irrelevant. If a mount configuration parses and its
  mount points differ, any permutation of its mounts parses to the same configuration, hence to the
  same specification on disk.\<close>

theorem mounts_order_irrelevant:
  assumes "sort_law (sortMounts env)"
    and "map_of params ''type'' = Some (JStr t)" and "reg t = Some MountH" and "map_of params ''mounts'' = Some (JArr vs)"
    and "AnyDatastoreConfig env reg params = Inr (MountC ms)" and "distinct (map fst ms)" and "mset vs' = mset vs"
  shows "AnyDatastoreConfig env reg (AList.update ''mounts'' (JArr vs') params) = Inr (MountC ms)"
proof -
  let ?any = "AnyDatastoreConfig env reg"
  from assms(5) obtain ms0 where ms0: "mount_configs env ?any vs = Inr ms0" "ms = sortMounts env ms0"
    unfolding any_mount [of params t reg vs, OF assms(2-4)] by (auto simp: bind_ok_Inr)
  obtain ms1 where ms1: "list_all2 (mount_entry env ?any) vs' ms1" "mset ms1 = mset ms0"
    using list_all2_reorder_left_invariance [OF ms0(1) [unfolded mount_configs_ok] assms(7)] by blast
  have "sortMounts env ms1 = ms"
    using assms(1,6) ms1(2) unfolding ms0(2) sort_law_def by (metis sorted_keys_unique)
  moreover have "mount_configs env ?any vs' = Inr ms1"
    using ms1(1) by (simp add: mount_configs_ok)
  moreover have "?any (AList.update ''mounts'' (JArr vs') params) =
      bind_ok (mount_configs env ?any vs') (\<lambda>ms. Inr (MountC (sortMounts env ms)))"
    by (rule any_mount [where t = t and reg = reg]) (simp_all add: update_conv assms)
  ultimately show ?thesis
    by simp
qed

definition ex_ds_env :: "nat ds_env" where
  "ex_ds_env = \<lparr>newKey = (\<lambda>s. s), parseShardFunc = Inr, parseBytes = (\<lambda>_. Inr 0), defaultValueLogFileSize = 0,
     sortMounts = (\<lambda>ms. rev (sort_key fst ms))\<rparr>"

lemma ex_sort_law: "sort_law (sortMounts ex_ds_env)"
proof -
  have "sorted_wrt (\<lambda>m n. fst m \<le> fst n) (sort_key fst ms)" for ms :: "(string \<times> nat dsconfig) list"
    using sorted_sort_key [of fst ms] by (simp only: sorted_wrt_map)
  then show ?thesis
    by (simp add: sort_law_def ex_ds_env_def sorted_wrt_rev)
qed

definition ex_mounts :: "json list" where
  "ex_mounts = [JObj [(''type'', JStr ''mem''), (''mountpoint'', JStr ''/'')],
     JObj [(''type'', JStr ''mem''), (''mountpoint'', JStr ''/blocks'')]]"

theorem mounts_order_irrelevant_witness:
  "AnyDatastoreConfig ex_ds_env init_datastores [(''type'', JStr ''mount''), (''mounts'', JArr (rev ex_mounts))]
     = AnyDatastoreConfig ex_ds_env init_datastores [(''type'', JStr ''mount''), (''mounts'', JArr ex_mounts)]"
proof -
  let ?p = "[(''type'', JStr ''mount''), (''mounts'', JArr ex_mounts)]"
  let ?c = "\<lambda>m. MemC [(''type'', JStr ''mem''), (''mountpoint'', JStr m)]"
  have any: "AnyDatastoreConfig ex_ds_env init_datastores ?p = Inr (MountC [(''/blocks'', ?c ''/blocks''), (''/'', ?c ''/'')])"
    by code_simp
  have "AnyDatastoreConfig ex_ds_env init_datastores (AList.update ''mounts'' (JArr (rev ex_mounts)) ?p)
      = Inr (MountC [(''/blocks'', ?c ''/blocks''), (''/'', ?c ''/'')])"
    by (rule mounts_order_irrelevant [OF ex_sort_law _ _ _ any, where t = "''mount''" and vs = ex_mounts])
      (simp_all add: init_datastores_def)
  then show ?thesis
    by (simp add: any)
qed

section \<open>Two slips\<close>

lemma levelds_no_compression_panics:
  "map_of params ''path'' = Some (JStr p) \<Longrightarrow> map_of params ''compression'' = None \<Longrightarrow> levelds_parser params = Inl DPanic"
  by (simp add: levelds_parser_def as_string_def)

text \<open>When a later mount cannot be opened, the ones before it stay open and nobody holds them any more.\<close>

lemma mount_create_leaks:
  assumes "openFlatfs env (store_path path p) sh sy = Inr d" and "openLevel env (store_path path q) c = Inl e"
  shows "Create_ds env path (MountC [(a, FlatfsC p sh sy), (b, LevelC q c)]) st = (st @ [d], Inl e)"
  using assms by (simp add: opened_def)

end
