(* ===== verification/PluginLoader.thy ===== *)
theory PluginLoader
  imports DsConfig
begin

text \<open>
  The plugin loader, \<open>src/plugin/loader/loader.go\<close>: a state machine that loads, initialises, injects, starts
  and closes plugins.

  What a plugin answers is a parameter. Go visits the entries of a map in any order, another one for
  each loop, so every operation that loops over the plugins gets an order; all that is assumed of it is
  that it visits every entry once. The registry of datastore types is a variable of another package
  and part of the state. The calls made to plugins are logged in the state with their success, so
  that the theorems can speak about them.
\<close>

section \<open>The loader\<close>

datatype loaderState = loaderLoading | loaderInitializing | loaderInitialized | loaderInjecting | loaderInjected
  | loaderStarting | loaderStarted | loaderClosing | loaderClosed | loaderFailed

fun state_String :: "loaderState \<Rightarrow> string" where
  "state_String loaderLoading = ''Loading''"
| "state_String loaderInitializing = ''Initializing''"
| "state_String loaderInitialized = ''Initialized''"
| "state_String loaderInjecting = ''Injecting''"
| "state_String loaderInjected = ''Injected''"
| "state_String loaderStarting = ''Starting''"
| "state_String loaderStarted = ''Started''"
| "state_String loaderClosing = ''Closing''"
| "state_String loaderClosed = ''Closed''"
| "state_String loaderFailed = ''Failed''"

text \<open>
  Errors keep what their texts are made of: the wanted and the actual state, a name with the two
  versions, a file with the error of loading it, the closed plugins with their errors.
\<close>

datatype loader_error = EState string string | EDuplicated string string string | EFile string string
  | ERegistry registry_error | EClosing "(string \<times> string) list" | EOther string

datatype 'p plugin_call = CInit 'p bool | CDecoders 'p bool | CParsers 'p bool | CTracer 'p bool | CStart 'p bool | CClose 'p bool

text \<open>
  A field that ends in two options is \<open>None\<close> for a plugin without that interface; otherwise it is the
  error of the call, if any. \<open>pl_init\<close> gets the path of the repository and the plugin's configuration.
\<close>

record ('p, 'c, 'x) plugin_env =
  pl_name :: "'p \<Rightarrow> string"
  pl_version :: "'p \<Rightarrow> string"
  pl_init :: "'p \<Rightarrow> string \<Rightarrow> 'c option \<Rightarrow> string option"
  pl_ipld :: "'p \<Rightarrow> (string option \<times> string option) option"
  pl_tracer :: "'p \<Rightarrow> string option option"
  pl_datastore :: "'p \<Rightarrow> (string \<times> 'x ConfigFromMap) option"
  pl_daemon :: "'p \<Rightarrow> string option option"
  pl_internal :: "'p \<Rightarrow> string option option"
  pl_closer :: "'p \<Rightarrow> string option option"

record ('p, 'c, 'x) PluginLoader =
  l_state :: loaderState
  l_plugins :: "(string \<times> 'p) list"
  l_started :: "'p list"
  l_config :: "string \<rightharpoonup> bool \<times> 'c"
  l_repo :: string
  l_registry :: "'x datastores"
  l_calls :: "'p plugin_call list"

type_synonym ('p, 'c, 'x) step_result = "('p, 'c, 'x) PluginLoader \<times> loader_error option"

definition assertState :: "loaderState \<Rightarrow> ('p, 'c, 'x) PluginLoader \<Rightarrow> loader_error option" where
  "assertState state l =
    (if l_state l \<noteq> state then Some (EState (state_String state) (state_String (l_state l))) else None)"

definition transition :: "loaderState \<Rightarrow> loaderState \<Rightarrow> ('p, 'c, 'x) PluginLoader \<Rightarrow> ('p, 'c, 'x) step_result" where
  "transition from to l = (case assertState from l of Some e \<Rightarrow> (l, Some e) | None \<Rightarrow> (l\<lparr>l_state := to\<rparr>, None))"

definition disabled :: "('p, 'c, 'x) PluginLoader \<Rightarrow> string \<Rightarrow> bool" where
  "disabled l name = (case l_config l name of None \<Rightarrow> False | Some (d, _) \<Rightarrow> d)"

definition Load :: "('p, 'c, 'x) plugin_env \<Rightarrow> 'p \<Rightarrow> ('p, 'c, 'x) PluginLoader \<Rightarrow> ('p, 'c, 'x) step_result" where
  "Load env pl l = (case assertState loaderLoading l of
     Some e \<Rightarrow> (l, Some e)
   | None \<Rightarrow> (case map_of (l_plugins l) (pl_name env pl) of
       Some ppl \<Rightarrow> (l, Some (EDuplicated (pl_name env pl) (pl_version env ppl) (pl_version env pl)))
     | None \<Rightarrow> if disabled l (pl_name env pl) then (l, None)
         else (l\<lparr>l_plugins := l_plugins l @ [(pl_name env pl, pl)]\<rparr>, None)))"

fun load_all :: "('p, 'c, 'x) plugin_env \<Rightarrow> 'p list \<Rightarrow> ('p, 'c, 'x) PluginLoader \<Rightarrow> ('p, 'c, 'x) step_result" where
  "load_all env [] l = (l, None)"
| "load_all env (pl # pls) l = (case Load env pl l of
     (l', Some e) \<Rightarrow> (l', Some e) | (l', None) \<Rightarrow> load_all env pls l')"

text \<open>What \<open>filepath.Walk\<close> visits: a name with an error, a directory, or a file with what loading it gives.\<close>

record 'p plugin_file =
  pf_name :: string
  pf_err :: "string option"
  pf_dir :: bool
  pf_exec :: bool
  pf_load :: "(string, 'p list) result"

fun walk_plugins :: "'p plugin_file list \<Rightarrow> 'p list \<Rightarrow> (loader_error, 'p list) result" where
  "walk_plugins [] plugins = Inr plugins"
| "walk_plugins (f # fs) plugins = (case pf_err f of
     Some e \<Rightarrow> Inl (EOther e)
   | None \<Rightarrow>
       if pf_dir f then walk_plugins fs plugins
       else if \<not> pf_exec f then walk_plugins fs plugins
       else (case pf_load f of
           Inr newPlugins \<Rightarrow> walk_plugins fs (plugins @ newPlugins)
         | Inl e \<Rightarrow> Inl (EFile (pf_name f) e)))"

text \<open>The plugin directory: missing, not readable, or what the walk visits.\<close>

datatype 'p plugin_dir = DirMissing | DirError string | DirFiles "'p plugin_file list"

definition loadDynamicPlugins :: "'p plugin_dir \<Rightarrow> (loader_error, 'p list) result" where
  "loadDynamicPlugins dir = (case dir of
     DirMissing \<Rightarrow> Inr [] | DirError e \<Rightarrow> Inl (EOther e) | DirFiles fs \<Rightarrow> walk_plugins fs [])"

definition LoadDirectory :: "('p, 'c, 'x) plugin_env \<Rightarrow> 'p plugin_dir \<Rightarrow> ('p, 'c, 'x) PluginLoader \<Rightarrow> ('p, 'c, 'x) step_result" where
  "LoadDirectory env dir l = (case assertState loaderLoading l of
     Some e \<Rightarrow> (l, Some e)
   | None \<Rightarrow> (case loadDynamicPlugins dir of
       Inl e \<Rightarrow> (l, Some e) | Inr newPls \<Rightarrow> load_all env newPls l))"

text \<open>The result of reading the configuration file.\<close>

datatype 'c config_load = CfgNotInitialized | CfgLoaded "string \<rightharpoonup> bool \<times> 'c" | CfgError string

definition empty_loader :: "'x datastores \<Rightarrow> string \<Rightarrow> ('p, 'c, 'x) PluginLoader" where
  "empty_loader reg repo = \<lparr>l_state = loaderLoading, l_plugins = [], l_started = [], l_config = Map.empty,
     l_repo = repo, l_registry = reg, l_calls = []\<rparr>"

definition load_config :: "'c config_load \<Rightarrow> ('p, 'c, 'x) PluginLoader \<Rightarrow> (loader_error, ('p, 'c, 'x) PluginLoader) result" where
  "load_config cfg l = (if l_repo l = [] then Inr l else case cfg of
     CfgNotInitialized \<Rightarrow> Inr l | CfgLoaded c \<Rightarrow> Inr (l\<lparr>l_config := c\<rparr>) | CfgError e \<Rightarrow> Inl (EOther e))"

definition NewPluginLoader :: "('p, 'c, 'x) plugin_env \<Rightarrow> 'x datastores \<Rightarrow> string \<Rightarrow> (string \<Rightarrow> 'c config_load) \<Rightarrow> 'p list
    \<Rightarrow> (string \<Rightarrow> 'p plugin_dir) \<Rightarrow> (loader_error, ('p, 'c, 'x) PluginLoader) result" where
  "NewPluginLoader env reg repo cfg preloadPlugins dirs =
    bind_ok (load_config (cfg (Join [repo, ''config''])) (empty_loader reg repo)) (\<lambda>l.
      case load_all env preloadPlugins l of
        (_, Some e) \<Rightarrow> Inl e
      | (l1, None) \<Rightarrow> (case LoadDirectory env (dirs (Join [repo, ''plugins''])) l1 of
          (_, Some e) \<Rightarrow> Inl e | (l2, None) \<Rightarrow> Inr l2))"

section \<open>Initialising and injecting\<close>

definition call :: "'p plugin_call \<Rightarrow> ('p, 'c, 'x) PluginLoader \<Rightarrow> ('p, 'c, 'x) PluginLoader" where
  "call c l = l\<lparr>l_calls := l_calls l @ [c]\<rparr>"

definition fail_with :: "loader_error \<Rightarrow> ('p, 'c, 'x) PluginLoader \<Rightarrow> ('p, 'c, 'x) step_result" where
  "fail_with e l = (l\<lparr>l_state := loaderFailed\<rparr>, Some e)"

definition plugin_config :: "('p, 'c, 'x) PluginLoader \<Rightarrow> string \<Rightarrow> 'c option" where
  "plugin_config l name = map_option snd (l_config l name)"

fun init_all :: "('p, 'c, 'x) plugin_env \<Rightarrow> (string \<times> 'p) list \<Rightarrow> ('p, 'c, 'x) PluginLoader \<Rightarrow> ('p, 'c, 'x) step_result" where
  "init_all env [] l = (l, None)"
| "init_all env (np # nps) l = (case pl_init env (snd np) (l_repo l) (plugin_config l (fst np)) of
     Some e \<Rightarrow> fail_with (EOther e) (call (CInit (snd np) False) l)
   | None \<Rightarrow> init_all env nps (call (CInit (snd np) True) l))"

type_synonym 'p visit_order = "(string \<times> 'p) list \<Rightarrow> (string \<times> 'p) list"

definition Initialize :: "('p, 'c, 'x) plugin_env \<Rightarrow> 'p visit_order \<Rightarrow> ('p, 'c, 'x) PluginLoader \<Rightarrow> ('p, 'c, 'x) step_result" where
  "Initialize env ord l = (case transition loaderLoading loaderInitializing l of
     (l1, Some e) \<Rightarrow> (l1, Some e)
   | (l1, None) \<Rightarrow> (case init_all env (ord (l_plugins l1)) l1 of
       (l2, Some e) \<Rightarrow> (l2, Some e)
     | (l2, None) \<Rightarrow> transition loaderInitializing loaderInitialized l2))"

definition injectIPLDPlugin :: "'p \<Rightarrow> string option \<times> string option \<Rightarrow> ('p, 'c, 'x) PluginLoader \<Rightarrow> ('p, 'c, 'x) step_result" where
  "injectIPLDPlugin p r l = (case fst r of
     Some e \<Rightarrow> (call (CDecoders p False) l, Some (EOther e))
   | None \<Rightarrow> (call (CParsers p (snd r = None)) (call (CDecoders p True) l), map_option EOther (snd r)))"

definition injectTracerPlugin :: "'p \<Rightarrow> string option \<Rightarrow> ('p, 'c, 'x) PluginLoader \<Rightarrow> ('p, 'c, 'x) step_result" where
  "injectTracerPlugin p r l = (call (CTracer p (r = None)) l, map_option EOther r)"

definition injectDatastorePlugin :: "string \<times> 'x ConfigFromMap \<Rightarrow> ('p, 'c, 'x) PluginLoader \<Rightarrow> ('p, 'c, 'x) step_result" where
  "injectDatastorePlugin nh l = (case AddDatastoreConfigHandler (fst nh) (snd nh) (l_registry l) of
     (reg, e) \<Rightarrow> (l\<lparr>l_registry := reg\<rparr>, map_option ERegistry e))"

text \<open>A plugin that has an interface is injected through it; an error fails the loader.\<close>

definition inject_if :: "'i option \<Rightarrow> ('i \<Rightarrow> ('p, 'c, 'x) PluginLoader \<Rightarrow> ('p, 'c, 'x) step_result) \<Rightarrow> ('p, 'c, 'x) PluginLoader
    \<Rightarrow> ('p, 'c, 'x) step_result" where
  "inject_if i f l = (case i of None \<Rightarrow> (l, None) | Some x \<Rightarrow> (case f x l of
     (l1, None) \<Rightarrow> (l1, None) | (l1, Some e) \<Rightarrow> fail_with e l1))"

definition inject_plugin :: "('p, 'c, 'x) plugin_env \<Rightarrow> 'p \<Rightarrow> ('p, 'c, 'x) PluginLoader \<Rightarrow> ('p, 'c, 'x) step_result" where
  "inject_plugin env p l = (case inject_if (pl_ipld env p) (injectIPLDPlugin p) l of
     (l1, Some e) \<Rightarrow> (l1, Some e)
   | (l1, None) \<Rightarrow> (case inject_if (pl_tracer env p) (injectTracerPlugin p) l1 of
       (l2, Some e) \<Rightarrow> (l2, Some e)
     | (l2, None) \<Rightarrow> inject_if (pl_datastore env p) injectDatastorePlugin l2))"

fun inject_all :: "('p, 'c, 'x) plugin_env \<Rightarrow> (string \<times> 'p) list \<Rightarrow> ('p, 'c, 'x) PluginLoader \<Rightarrow> ('p, 'c, 'x) step_result" where
  "inject_all env [] l = (l, None)"
| "inject_all env (np # nps) l = (case inject_plugin env (snd np) l of
     (l1, Some e) \<Rightarrow> (l1, Some e) | (l1, None) \<Rightarrow> inject_all env nps l1)"

definition Inject :: "('p, 'c, 'x) plugin_env \<Rightarrow> 'p visit_order \<Rightarrow> ('p, 'c, 'x) PluginLoader \<Rightarrow> ('p, 'c, 'x) step_result" where
  "Inject env ord l = (case transition loaderInitialized loaderInjecting l of
     (l1, Some e) \<Rightarrow> (l1, Some e)
   | (l1, None) \<Rightarrow> (case inject_all env (ord (l_plugins l1)) l1 of
       (l2, Some e) \<Rightarrow> (l2, Some e)
     | (l2, None) \<Rightarrow> transition loaderInjecting loaderInjected l2))"

section \<open>Starting and closing\<close>

fun close_all :: "('p, 'c, 'x) plugin_env \<Rightarrow> 'p list \<Rightarrow> ('p, 'c, 'x) PluginLoader \<Rightarrow> ('p, 'c, 'x) PluginLoader \<times> (string \<times> string) list" where
  "close_all env [] l = (l, [])"
| "close_all env (p # ps) l = (case pl_closer env p of
     None \<Rightarrow> close_all env ps l
   | Some None \<Rightarrow> close_all env ps (call (CClose p True) l)
   | Some (Some e) \<Rightarrow> (case close_all env ps (call (CClose p False) l) of
       (l', errs) \<Rightarrow> (l', (pl_name env p, e) # errs)))"

definition Close_loader :: "('p, 'c, 'x) plugin_env \<Rightarrow> ('p, 'c, 'x) PluginLoader \<Rightarrow> ('p, 'c, 'x) step_result" where
  "Close_loader env l =
    (if l_state l \<in> {loaderClosing, loaderFailed, loaderClosed} then (l, None)
     else case close_all env (l_started l) (l\<lparr>l_state := loaderClosing, l_started := []\<rparr>) of
       (l1, errs) \<Rightarrow> if errs \<noteq> [] then (l1\<lparr>l_state := loaderFailed\<rparr>, Some (EClosing errs))
         else (l1\<lparr>l_state := loaderClosed\<rparr>, None))"

definition start_call :: "('p, 'c, 'x) plugin_env \<Rightarrow> 'p \<Rightarrow> string option option \<Rightarrow> ('p, 'c, 'x) PluginLoader \<Rightarrow> ('p, 'c, 'x) step_result" where
  "start_call env p r l = (case r of
     None \<Rightarrow> (l, None)
   | Some None \<Rightarrow> ((call (CStart p True) l)\<lparr>l_started := l_started l @ [p]\<rparr>, None)
   | Some (Some e) \<Rightarrow> (fst (Close_loader env (call (CStart p False) l)), Some (EOther e)))"

fun start_all :: "('p, 'c, 'x) plugin_env \<Rightarrow> (string \<times> 'p) list \<Rightarrow> ('p, 'c, 'x) PluginLoader \<Rightarrow> ('p, 'c, 'x) step_result" where
  "start_all env [] l = (l, None)"
| "start_all env (np # nps) l = (case start_call env (snd np) (pl_daemon env (snd np)) l of
     (l1, Some e) \<Rightarrow> (l1, Some e)
   | (l1, None) \<Rightarrow> (case start_call env (snd np) (pl_internal env (snd np)) l1 of
       (l2, Some e) \<Rightarrow> (l2, Some e)
     | (l2, None) \<Rightarrow> start_all env nps l2))"

text \<open>\<open>api_err\<close> is the error of making the core API for the node.\<close>

definition Start_loader :: "('p, 'c, 'x) plugin_env \<Rightarrow> 'p visit_order \<Rightarrow> string option \<Rightarrow> ('p, 'c, 'x) PluginLoader
    \<Rightarrow> ('p, 'c, 'x) step_result" where
  "Start_loader env ord api_err l = (case transition loaderInjected loaderStarting l of
     (l1, Some e) \<Rightarrow> (l1, Some e)
   | (l1, None) \<Rightarrow> (case api_err of
       Some e \<Rightarrow> (l1, Some (EOther e))
     | None \<Rightarrow> (case start_all env (ord (l_plugins l1)) l1 of
         (l2, Some e) \<Rightarrow> (l2, Some e)
       | (l2, None) \<Rightarrow> transition loaderStarting loaderStarted l2)))"

section \<open>Runs of the loader\<close>

inductive loader_step :: "('p, 'c, 'x) plugin_env \<Rightarrow> ('p, 'c, 'x) PluginLoader \<Rightarrow> ('p, 'c, 'x) PluginLoader \<Rightarrow> bool" for env where
  step_load: "loader_step env l (fst (Load env pl l))"
| step_dir: "loader_step env l (fst (LoadDirectory env dir l))"
| step_init: "(\<And>xs. mset (ord xs) = mset xs) \<Longrightarrow> loader_step env l (fst (Initialize env ord l))"
| step_inject: "(\<And>xs. mset (ord xs) = mset xs) \<Longrightarrow> loader_step env l (fst (Inject env ord l))"
| step_start: "(\<And>xs. mset (ord xs) = mset xs) \<Longrightarrow> loader_step env l (fst (Start_loader env ord api_err l))"
| step_close: "loader_step env l (fst (Close_loader env l))"

inductive loader_reach :: "('p, 'c, 'x) plugin_env \<Rightarrow> ('p, 'c, 'x) PluginLoader \<Rightarrow> bool" for env where
  reach_new: "NewPluginLoader env reg repo cfg preload dirs = Inr l \<Longrightarrow> loader_reach env l"
| reach_step: "loader_reach env l \<Longrightarrow> loader_step env l l' \<Longrightarrow> loader_reach env l'"

section \<open>Every started plugin is closed once\<close>

definition starts_of :: "'p plugin_call list \<Rightarrow> 'p list" where
  "starts_of cs = concat (map (\<lambda>c. case c of CStart p ok \<Rightarrow> if ok then [p] else [] | _ \<Rightarrow> []) cs)"

definition closes_of :: "'p plugin_call list \<Rightarrow> 'p list" where
  "closes_of cs = concat (map (\<lambda>c. case c of CClose p ok \<Rightarrow> [p] | _ \<Rightarrow> []) cs)"

lemma calls_of_simps [simp]:
  "starts_of [] = []" "closes_of [] = []"
  "starts_of (cs @ ds) = starts_of cs @ starts_of ds" "closes_of (cs @ ds) = closes_of cs @ closes_of ds"
  "starts_of (c # cs) = (case c of CStart p ok \<Rightarrow> if ok then [p] else [] | _ \<Rightarrow> []) @ starts_of cs"
  "closes_of (c # cs) = (case c of CClose p ok \<Rightarrow> [p] | _ \<Rightarrow> []) @ closes_of cs"
  by (simp_all add: starts_of_def closes_of_def)

definition closer :: "('p, 'c, 'x) plugin_env \<Rightarrow> 'p \<Rightarrow> bool" where
  "closer env p \<longleftrightarrow> pl_closer env p \<noteq> None"

definition closing_ok :: "('p, 'c, 'x) plugin_env \<Rightarrow> ('p, 'c, 'x) PluginLoader \<Rightarrow> bool" where
  "closing_ok env l \<longleftrightarrow>
     closes_of (l_calls l) @ filter (closer env) (l_started l) = filter (closer env) (starts_of (l_calls l))
   \<and> (l_started l = [] \<or> l_state l \<in> {loaderStarting, loaderStarted})"

text \<open>The loader has made further calls, all of a kind \<open>K\<close>.\<close>

definition extends :: "('p plugin_call \<Rightarrow> bool) \<Rightarrow> ('p, 'c, 'x) PluginLoader \<Rightarrow> ('p, 'c, 'x) PluginLoader \<Rightarrow> bool" where
  "extends K l l' \<longleftrightarrow> l_plugins l' = l_plugins l \<and> (\<exists>cs. l_calls l' = l_calls l @ cs \<and> list_all K cs)"

definition quiet :: "('p plugin_call \<Rightarrow> bool) \<Rightarrow> ('p, 'c, 'x) PluginLoader \<Rightarrow> ('p, 'c, 'x) PluginLoader \<Rightarrow> bool" where
  "quiet K l l' \<longleftrightarrow> l_started l' = l_started l \<and> extends K l l'"

fun init_call :: "'p plugin_call \<Rightarrow> bool" where
  "init_call (CInit p b) = True"
| "init_call _ = False"

fun inject_call :: "'p plugin_call \<Rightarrow> bool" where
  "inject_call (CDecoders p b) = True"
| "inject_call (CParsers p b) = True"
| "inject_call (CTracer p b) = True"
| "inject_call _ = False"

fun close_call :: "'p plugin_call \<Rightarrow> bool" where
  "close_call (CClose p b) = True"
| "close_call _ = False"

fun start_kind :: "'p plugin_call \<Rightarrow> bool" where
  "start_kind (CStart p b) = True"
| "start_kind _ = False"

lemma call_kinds:
  "inject_call c \<Longrightarrow> \<not> init_call c" "close_call c \<Longrightarrow> \<not> init_call c" "start_kind c \<Longrightarrow> \<not> init_call c"
  "close_call c \<Longrightarrow> \<not> start_kind c" "init_call c \<Longrightarrow> \<not> start_kind c"
  by (cases c; simp)+

lemma extends_refl [simp]: "extends K l l"
  by (auto simp: extends_def)

lemma extends_trans: "extends K l l' \<Longrightarrow> extends K l' l'' \<Longrightarrow> extends K l l''"
  by (auto simp: extends_def)

lemma extends_upd [simp]:
  "extends K l (l'\<lparr>l_state := s\<rparr>) \<longleftrightarrow> extends K l l'" "extends K l (l'\<lparr>l_started := ps\<rparr>) \<longleftrightarrow> extends K l l'"
  "extends K (l\<lparr>l_state := s\<rparr>) l' \<longleftrightarrow> extends K l l'" "extends K (l\<lparr>l_started := ps\<rparr>) l' \<longleftrightarrow> extends K l l'"
  by (auto simp: extends_def)

lemma extends_call: "K c \<Longrightarrow> extends K l (call c l)"
  by (auto simp: extends_def call_def)

lemma quiet_refl [simp]: "quiet K l l"
  by (simp add: quiet_def)

lemma quiet_trans: "quiet K l l' \<Longrightarrow> quiet K l' l'' \<Longrightarrow> quiet K l l''"
  by (auto simp: quiet_def intro: extends_trans)

lemma quiet_upd [simp]:
  "quiet K l (l'\<lparr>l_state := s\<rparr>) \<longleftrightarrow> quiet K l l'" "quiet K l (l'\<lparr>l_registry := r\<rparr>) \<longleftrightarrow> quiet K l l'"
  by (auto simp: quiet_def extends_def)

lemma quiet_call: "K c \<Longrightarrow> quiet K l (call c l)"
  by (simp add: quiet_def extends_call) (simp add: call_def)

lemma quiet_fail [simp]: "quiet K l (fst (fail_with e l')) \<longleftrightarrow> quiet K l l'"
  by (simp add: fail_with_def)

lemma quiet_init_all: "quiet init_call l (fst (init_all env nps l))"
proof (induction nps arbitrary: l)
  case (Cons np nps)
  have "quiet init_call l (call (CInit (snd np) b) l)" for b
    by (rule quiet_call) simp
  then show ?case
    using quiet_trans [OF _ Cons.IH] by (auto split: option.splits)
qed simp

lemma quiet_inject_if: "(\<And>x. quiet inject_call l (fst (f x l))) \<Longrightarrow> quiet inject_call l (fst (inject_if i f l))"
proof (cases i)
  case (Some x)
  assume "\<And>x. quiet inject_call l (fst (f x l))"
  from this [of x] show ?thesis
    by (cases "f x l") (auto simp: inject_if_def Some split: option.splits)
qed (simp add: inject_if_def)

lemma quiet_injections:
  "quiet inject_call l (fst (injectIPLDPlugin p r l))" "quiet inject_call l (fst (injectTracerPlugin p t l))" "quiet inject_call l (fst (injectDatastorePlugin nh l))"
  by (auto simp: injectIPLDPlugin_def injectTracerPlugin_def injectDatastorePlugin_def quiet_def extends_def call_def split: option.splits prod.splits)

lemma quiet_inject_plugin: "quiet inject_call l (fst (inject_plugin env p l))"
proof -
  obtain l1 e1 where 1: "inject_if (pl_ipld env p) (injectIPLDPlugin p) l = (l1, e1)" by fastforce
  obtain l2 e2 where 2: "inject_if (pl_tracer env p) (injectTracerPlugin p) l1 = (l2, e2)" by fastforce
  have "quiet inject_call l l1"
    using quiet_inject_if [of l "injectIPLDPlugin p", OF quiet_injections(1)] 1 by (metis fst_conv)
  moreover have "quiet inject_call l1 l2"
    using quiet_inject_if [of l1 "injectTracerPlugin p", OF quiet_injections(2)] 2 by (metis fst_conv)
  moreover have "quiet inject_call l2 (fst (inject_if (pl_datastore env p) injectDatastorePlugin l2))"
    by (intro quiet_inject_if quiet_injections)
  ultimately show ?thesis
    by (auto simp: inject_plugin_def 1 2 intro: quiet_trans split: option.splits)
qed

lemma quiet_inject_all: "quiet inject_call l (fst (inject_all env nps l))"
proof (induction nps arbitrary: l)
  case (Cons np nps)
  obtain l1 e where 1: "inject_plugin env (snd np) l = (l1, e)" by fastforce
  then have "quiet inject_call l l1"
    using quiet_inject_plugin [of l env "snd np"] by simp
  then show ?case
    using Cons.IH [of l1] by (auto simp: 1 intro: quiet_trans split: option.splits)
qed simp

lemma no_starts_closes:
  "list_all init_call cs \<Longrightarrow> starts_of cs = [] \<and> closes_of cs = []"
  "list_all inject_call cs \<Longrightarrow> starts_of cs = [] \<and> closes_of cs = []"
  by (induction cs) (auto split: plugin_call.splits)

lemma closing_ok_quiet:
  assumes "closing_ok env l" and "l_started l = []" and "quiet init_call l l' \<or> quiet inject_call l l'"
  shows "closing_ok env l'"
proof -
  obtain cs where "l_calls l' = l_calls l @ cs" "list_all init_call cs \<or> list_all inject_call cs"
    using assms(3) by (auto simp: quiet_def extends_def)
  then show ?thesis
    using assms no_starts_closes [of cs] by (auto simp: closing_ok_def quiet_def)
qed

lemma transition_cases:
  "transition a b l = (if l_state l = a then (l\<lparr>l_state := b\<rparr>, None) else (l, Some (EState (state_String a) (state_String (l_state l)))))"
  by (simp add: transition_def assertState_def)

lemma quiet_Initialize: "quiet init_call l (fst (Initialize env ord l))"
proof (cases "l_state l = loaderLoading")
  case True
  obtain l2 e where 2: "init_all env (ord (l_plugins l)) (l\<lparr>l_state := loaderInitializing\<rparr>) = (l2, e)" by fastforce
  have "quiet init_call l l2"
    using quiet_trans [of init_call l "l\<lparr>l_state := loaderInitializing\<rparr>" l2] quiet_init_all [of "l\<lparr>l_state := loaderInitializing\<rparr>" env "ord (l_plugins l)"] 2 by simp
  then show ?thesis
    by (simp add: Initialize_def transition_cases True 2 split: option.splits)
qed (simp add: Initialize_def transition_cases)

lemma quiet_Inject: "quiet inject_call l (fst (Inject env ord l))"
proof (cases "l_state l = loaderInitialized")
  case True
  obtain l2 e where 2: "inject_all env (ord (l_plugins l)) (l\<lparr>l_state := loaderInjecting\<rparr>) = (l2, e)" by fastforce
  have "quiet inject_call l l2"
    using quiet_trans [of inject_call l "l\<lparr>l_state := loaderInjecting\<rparr>" l2] quiet_inject_all [of "l\<lparr>l_state := loaderInjecting\<rparr>" env "ord (l_plugins l)"] 2 by simp
  then show ?thesis
    by (simp add: Inject_def transition_cases True 2 split: option.splits)
qed (simp add: Inject_def transition_cases)

lemma close_all_calls:
  assumes "close_all env ps l = (l', errs)"
  shows "\<exists>cs. l' = l\<lparr>l_calls := l_calls l @ cs\<rparr> \<and> starts_of cs = [] \<and> closes_of cs = filter (closer env) ps
    \<and> list_all close_call cs"
  using assms
proof (induction ps arbitrary: l l' errs)
  case (Cons p ps)
  consider "pl_closer env p = None" | r where "pl_closer env p = Some r" by fastforce
  then show ?case
  proof cases
    case 1
    then show ?thesis using Cons by (simp add: closer_def)
  next
    case (2 r)
    then obtain b errs' where "close_all env ps (call (CClose p b) l) = (l', errs')"
      using Cons.prems by (auto split: option.splits prod.splits)
    from Cons.IH [OF this] obtain cs where "l' = (call (CClose p b) l)\<lparr>l_calls := l_calls (call (CClose p b) l) @ cs\<rparr>"
      "starts_of cs = []" "closes_of cs = filter (closer env) ps" "list_all close_call cs" by blast
    moreover have "closer env p"
      using 2 by (simp add: closer_def)
    ultimately show ?thesis
      by (intro exI [where x = "CClose p b # cs"]) (simp add: call_def)
  qed
qed (auto intro!: exI [where x = "[]"])

lemma Close_loader_ok: "closing_ok env l \<Longrightarrow> closing_ok env (fst (Close_loader env l))"
proof -
  assume ok: "closing_ok env l"
  obtain l1 errs where c: "close_all env (l_started l) (l\<lparr>l_state := loaderClosing, l_started := []\<rparr>) = (l1, errs)" by fastforce
  from close_all_calls [OF this] show ?thesis
    using ok by (auto simp: Close_loader_def c closing_ok_def)
qed

lemma start_call_ok:
  assumes "closing_ok env l" and "l_state l = loaderStarting" and "start_call env p r l = (l', e)"
  shows "closing_ok env l' \<and> (e = None \<longrightarrow> l_state l' = loaderStarting)"
proof -
  have "closing_ok env (call (CStart p False) l)"
    using assms(1) by (simp add: closing_ok_def call_def)
  then have "closing_ok env (fst (Close_loader env (call (CStart p False) l)))"
    by (rule Close_loader_ok)
  moreover have "closing_ok env ((call (CStart p True) l)\<lparr>l_started := l_started l @ [p]\<rparr>)"
    using assms(1,2) by (auto simp: closing_ok_def call_def)
  ultimately show ?thesis
    using assms by (auto simp: start_call_def call_def split: option.splits)
qed

lemma start_all_ok:
  assumes "closing_ok env l" and "l_state l = loaderStarting" and "start_all env nps l = (l', e)"
  shows "closing_ok env l' \<and> (e = None \<longrightarrow> l_state l' = loaderStarting)"
  using assms
proof (induction nps arbitrary: l)
  case (Cons np nps)
  obtain l1 e1 where 1: "start_call env (snd np) (pl_daemon env (snd np)) l = (l1, e1)" by fastforce
  obtain l2 e2 where 2: "start_call env (snd np) (pl_internal env (snd np)) l1 = (l2, e2)" by fastforce
  note s1 = start_call_ok [OF Cons.prems(1,2) 1]
  show ?case
  proof (cases e1)
    case None
    then have s2: "closing_ok env l2 \<and> (e2 = None \<longrightarrow> l_state l2 = loaderStarting)"
      using start_call_ok [OF _ _ 2] s1 by blast
    then show ?thesis
      using Cons.IH [of l2] Cons.prems(3) None by (cases e2) (auto simp: 1 2)
  qed (use s1 Cons.prems(3) in \<open>auto simp: 1\<close>)
qed simp

lemma Start_loader_ok: "closing_ok env l \<Longrightarrow> closing_ok env (fst (Start_loader env ord api_err l))"
proof (cases "l_state l = loaderInjected")
  case True
  assume ok: "closing_ok env l"
  let ?l1 = "l\<lparr>l_state := loaderStarting\<rparr>"
  have ok1: "closing_ok env ?l1"
    using ok by (simp add: closing_ok_def)
  obtain l2 e where 2: "start_all env (ord (l_plugins l)) ?l1 = (l2, e)" by fastforce
  have "closing_ok env l2 \<and> (e = None \<longrightarrow> l_state l2 = loaderStarting)"
    by (rule start_all_ok [OF ok1 _ 2]) simp
  moreover from this have "e = None \<Longrightarrow> closing_ok env (l2\<lparr>l_state := loaderStarted\<rparr>)"
    by (auto simp: closing_ok_def)
  ultimately show ?thesis
    using ok1 by (auto simp: Start_loader_def transition_cases True 2 split: option.splits)
qed (simp add: Start_loader_def transition_cases)

text \<open>Loading changes the plugins only.\<close>

definition loads :: "('p, 'c, 'x) PluginLoader \<Rightarrow> ('p, 'c, 'x) PluginLoader \<Rightarrow> bool" where
  "loads l l' \<longleftrightarrow> l_started l' = l_started l \<and> l_calls l' = l_calls l \<and> l_state l' = l_state l
     \<and> (l_state l = loaderLoading \<or> l_plugins l' = l_plugins l)"

lemma loads_refl [simp]: "loads l l"
  by (simp add: loads_def)

lemma loads_trans: "loads l l' \<Longrightarrow> loads l' l'' \<Longrightarrow> loads l l''"
  by (auto simp: loads_def)

lemma loads_Load: "loads l (fst (Load env pl l))"
  by (auto simp: Load_def assertState_def loads_def split: option.splits)

lemma loads_load_all: "loads l (fst (load_all env pls l))"
proof (induction pls arbitrary: l)
  case (Cons pl pls)
  obtain l1 e where 1: "Load env pl l = (l1, e)" by fastforce
  then have "loads l l1"
    using loads_Load [of l env pl] by simp
  then show ?case
    using Cons.IH [of l1] by (auto simp: 1 intro: loads_trans split: option.splits)
qed simp

lemma loads_LoadDirectory: "loads l (fst (LoadDirectory env dir l))"
  by (auto simp: LoadDirectory_def loads_load_all split: option.splits sum.splits)

lemma new_loader:
  assumes "NewPluginLoader env reg repo cfg preload dirs = Inr l"
  shows "l_state l = loaderLoading \<and> l_started l = [] \<and> l_calls l = []"
proof -
  from assms obtain l0 where l0: "load_config (cfg (Join [repo, ''config''])) (empty_loader reg repo) = Inr l0"
    and rest: "(case load_all env preload l0 of (_, Some e) \<Rightarrow> Inl e
      | (l1, None) \<Rightarrow> (case LoadDirectory env (dirs (Join [repo, ''plugins''])) l1 of (_, Some e) \<Rightarrow> Inl e | (l2, None) \<Rightarrow> Inr l2)) = Inr l"
    unfolding NewPluginLoader_def bind_ok_Inr by blast
  have "l_state l0 = loaderLoading \<and> l_started l0 = [] \<and> l_calls l0 = []"
    using l0 by (auto simp: load_config_def empty_loader_def split: if_splits config_load.splits)
  moreover obtain l1 e1 where 1: "load_all env preload l0 = (l1, e1)" by fastforce
  moreover obtain l2 e2 where 2: "LoadDirectory env (dirs (Join [repo, ''plugins''])) l1 = (l2, e2)" by fastforce
  moreover have "loads l0 l1" "loads l1 l2"
    using loads_load_all [of l0 env preload] loads_LoadDirectory [of l1 env "dirs (Join [repo, ''plugins''])"] 1 2 by simp_all
  ultimately show ?thesis
    using rest by (auto simp: loads_def split: option.splits)
qed

lemma closing_ok_step: "loader_step env l l' \<Longrightarrow> closing_ok env l \<Longrightarrow> closing_ok env l'"
proof (induction rule: loader_step.induct)
  case (step_load l pl)
  then show ?case using loads_Load [of l env pl] by (simp add: closing_ok_def loads_def)
next
  case (step_dir l dir)
  then show ?case using loads_LoadDirectory [of l env dir] by (simp add: closing_ok_def loads_def)
next
  case (step_init ord l)
  show ?case
  proof (cases "l_state l = loaderLoading")
    case True
    then have "l_started l = []" using step_init.prems by (simp add: closing_ok_def)
    then show ?thesis using closing_ok_quiet [OF step_init.prems] quiet_Initialize by blast
  qed (use step_init.prems in \<open>simp add: Initialize_def transition_cases\<close>)
next
  case (step_inject ord l)
  show ?case
  proof (cases "l_state l = loaderInitialized")
    case True
    then have "l_started l = []" using step_inject.prems by (simp add: closing_ok_def)
    then show ?thesis using closing_ok_quiet [OF step_inject.prems] quiet_Inject by blast
  qed (use step_inject.prems in \<open>simp add: Inject_def transition_cases\<close>)
next
  case (step_start ord l api_err)
  then show ?case by (intro Start_loader_ok)
next
  case (step_close l)
  then show ?case by (intro Close_loader_ok)
qed

lemma closing_ok_reach: "loader_reach env l \<Longrightarrow> closing_ok env l"
proof (induction rule: loader_reach.induct)
  case (reach_new reg repo cfg preload dirs l)
  then show ?case using new_loader [of env reg repo cfg preload dirs l] by (simp add: closing_ok_def)
qed (rule closing_ok_step)

text \<open>C33: every started plugin is closed once, and no other. Whatever sequence of operations is run on a new loader, in any
  order and with any failures, the plugins closed so far, followed by the started ones that are
  still to be closed, are exactly the plugins that were started and can be closed, in the order of
  their start; and unless the loader is starting or started, none is left to be closed.\<close>

theorem plugins_closed_once:
  assumes "loader_reach env l"
  shows "closes_of (l_calls l) @ filter (closer env) (l_started l) = filter (closer env) (starts_of (l_calls l))
    \<and> (l_started l = [] \<or> l_state l = loaderStarting \<or> l_state l = loaderStarted)"
  using closing_ok_reach [OF assms] by (simp add: closing_ok_def)

text \<open>A plugin that was loaded and initialised but not started, because it is no daemon plugin or because \<open>Start\<close>, which is optional, was not
  called, is never closed.\<close>

theorem plugins_unstarted_never_closed:
  assumes "loader_reach env l" and "p \<notin> set (starts_of (l_calls l))"
  shows "p \<notin> set (closes_of (l_calls l))"
proof -
  have "closes_of (l_calls l) @ filter (closer env) (l_started l) = filter (closer env) (starts_of (l_calls l))"
    using closing_ok_reach [OF assms(1)] by (simp add: closing_ok_def)
  then have "set (closes_of (l_calls l)) \<subseteq> set (starts_of (l_calls l))"
    by (metis Un_upper1 filter_is_subset set_append subset_trans)
  then show ?thesis
    using assms(2) by blast
qed

text \<open>Two daemon plugins: the first one starts and closes, the second one refuses to start.\<close>

definition ex_plugins :: "(nat, nat, nat) plugin_env" where
  "ex_plugins = \<lparr>pl_name = (\<lambda>p. if p = 1 then ''one'' else ''two''), pl_version = (\<lambda>_. ''0''), pl_init = (\<lambda>_ _ _. None),
     pl_ipld = (\<lambda>_. None), pl_tracer = (\<lambda>_. None), pl_datastore = (\<lambda>_. None),
     pl_daemon = (\<lambda>p. if p = 1 then Some None else Some (Some ''no'')), pl_internal = (\<lambda>_. None), pl_closer = (\<lambda>_. Some None)\<rparr>"

definition ex_loader :: "(nat, nat, nat) PluginLoader" where
  "ex_loader = (empty_loader init_datastores [])\<lparr>l_plugins := [(''one'', 1), (''two'', 2)]\<rparr>"

definition ex_failed_start :: "(nat, nat, nat) PluginLoader" where
  "ex_failed_start = fst (Start_loader ex_plugins (\<lambda>x. x) None (fst (Inject ex_plugins (\<lambda>x. x) (fst (Initialize ex_plugins (\<lambda>x. x) ex_loader)))))"

lemma ex_loader_new: "NewPluginLoader ex_plugins init_datastores [] (\<lambda>_. CfgNotInitialized) [1, 2] (\<lambda>_. DirMissing) = Inr ex_loader"
  by (simp add: NewPluginLoader_def load_config_def empty_loader_def Load_def assertState_def ex_plugins_def disabled_def
      LoadDirectory_def loadDynamicPlugins_def ex_loader_def)

lemma ex_failed_start_reach: "loader_reach ex_plugins ex_failed_start"
  unfolding ex_failed_start_def
  by (intro reach_step [OF _ step_start] reach_step [OF _ step_inject] reach_step [OF _ step_init] reach_new [OF ex_loader_new]) simp_all

lemma ex_failed_start_calls:
  "l_calls ex_failed_start = [CInit 1 True, CInit 2 True, CStart 1 True, CStart 2 False, CClose 1 True]"
  "l_plugins ex_failed_start = [(''one'', 1), (''two'', 2)]" "l_state ex_failed_start = loaderClosed"
  by (simp_all add: ex_failed_start_def Start_loader_def Inject_def Initialize_def transition_cases ex_loader_def empty_loader_def
      ex_plugins_def call_def inject_plugin_def inject_if_def start_call_def Close_loader_def plugin_config_def)

theorem plugins_closed_once_witness:
  "closes_of (l_calls ex_failed_start) = [1] \<and> l_started ex_failed_start = []"
proof -
  have "closer ex_plugins 1"
    by (simp add: closer_def ex_plugins_def)
  then show ?thesis
    using plugins_closed_once [OF ex_failed_start_reach] by (simp add: ex_failed_start_calls)
qed

section \<open>Nothing starts before everything is initialised\<close>

definition inits_first :: "('p, 'c, 'x) PluginLoader \<Rightarrow> bool" where
  "inits_first l \<longleftrightarrow> (\<exists>nps rest. mset nps = mset (l_plugins l)
     \<and> l_calls l = map (\<lambda>np. CInit (snd np) True) nps @ rest \<and> list_all (\<lambda>c. \<not> init_call c) rest)"

definition phases_ok :: "('p, 'c, 'x) PluginLoader \<Rightarrow> bool" where
  "phases_ok l \<longleftrightarrow> (l_state l = loaderLoading \<longrightarrow> l_calls l = [])
     \<and> (l_state l \<in> {loaderInitialized, loaderInjected, loaderStarting, loaderStarted} \<or> list_ex start_kind (l_calls l) \<longrightarrow> inits_first l)
     \<and> l_state l \<notin> {loaderInitializing, loaderInjecting, loaderClosing}"

lemma inits_first_extends: "inits_first l \<Longrightarrow> extends (\<lambda>c. \<not> init_call c) l l' \<Longrightarrow> inits_first l'"
  unfolding inits_first_def extends_def by force

lemma extends_mono: "extends K l l' \<Longrightarrow> (\<And>c. K c \<Longrightarrow> K' c) \<Longrightarrow> extends K' l l'"
  by (auto simp: extends_def list_all_iff)

lemma init_all_ok: "init_all env nps l = (l', None) \<Longrightarrow> l' = l\<lparr>l_calls := l_calls l @ map (\<lambda>np. CInit (snd np) True) nps\<rparr>"
proof (induction nps arbitrary: l)
  case (Cons np nps)
  then have "init_all env nps (call (CInit (snd np) True) l) = (l', None)"
    by (simp add: fail_with_def split: option.splits)
  from Cons.IH [OF this] show ?case
    by (simp add: call_def)
qed simp

lemma init_all_failed: "init_all env nps l = (l', Some e) \<Longrightarrow> l_state l' = loaderFailed"
  by (induction nps arbitrary: l) (auto simp: fail_with_def split: option.splits)

lemma inject_if_state: "(\<And>x. l_state (fst (f x l)) = l_state l) \<Longrightarrow> inject_if i f l = (l', e)
    \<Longrightarrow> l_state l' = (if e = None then l_state l else loaderFailed)"
  by (cases i) (auto simp: inject_if_def fail_with_def split: prod.splits option.splits, metis fst_conv)

lemma injections_state:
  "l_state (fst (injectIPLDPlugin p r l)) = l_state l" "l_state (fst (injectTracerPlugin p t l)) = l_state l"
  "l_state (fst (injectDatastorePlugin nh l)) = l_state l"
  by (auto simp: injectIPLDPlugin_def injectTracerPlugin_def injectDatastorePlugin_def call_def split: option.splits prod.splits)

lemma inject_plugin_state:
  assumes "inject_plugin env p l = (l', e)"
  shows "l_state l' = (if e = None then l_state l else loaderFailed)"
proof -
  obtain l1 e1 where 1: "inject_if (pl_ipld env p) (injectIPLDPlugin p) l = (l1, e1)" by fastforce
  obtain l2 e2 where 2: "inject_if (pl_tracer env p) (injectTracerPlugin p) l1 = (l2, e2)" by fastforce
  obtain l3 e3 where 3: "inject_if (pl_datastore env p) injectDatastorePlugin l2 = (l3, e3)" by fastforce
  note s = inject_if_state [OF injections_state(1) 1] inject_if_state [OF injections_state(2) 2] inject_if_state [OF injections_state(3) 3]
  show ?thesis
    using assms s by (cases e1; cases e2) (auto simp: inject_plugin_def 1 2 3)
qed

lemma inject_all_state: "inject_all env nps l = (l', e) \<Longrightarrow> l_state l' = (if e = None then l_state l else loaderFailed)"
proof (induction nps arbitrary: l)
  case (Cons np nps)
  obtain l1 e1 where 1: "inject_plugin env (snd np) l = (l1, e1)" by fastforce
  show ?case
    using inject_plugin_state [OF 1] Cons.IH [of l1] Cons.prems by (cases e1) (auto simp: 1)
qed simp

lemma Initialize_phases:
  assumes "phases_ok l" and "\<And>xs. mset (ord xs) = mset xs"
  shows "phases_ok (fst (Initialize env ord l))"
proof (cases "l_state l = loaderLoading")
  case True
  let ?l1 = "l\<lparr>l_state := loaderInitializing\<rparr>"
  obtain l2 e where 2: "init_all env (ord (l_plugins l)) ?l1 = (l2, e)" by fastforce
  have no: "l_calls l = []"
    using assms(1) True by (simp add: phases_ok_def)
  show ?thesis
  proof (cases e)
    case None
    then have l2: "l2 = ?l1\<lparr>l_calls := map (\<lambda>np. CInit (snd np) True) (ord (l_plugins l))\<rparr>"
      using init_all_ok 2 no by fastforce
    then have "inits_first (l2\<lparr>l_state := loaderInitialized\<rparr>)"
      unfolding inits_first_def using assms(2) by (intro exI [where x = "ord (l_plugins l)"] exI [where x = "[]"]) simp
    then show ?thesis
      using None l2 by (simp add: Initialize_def transition_cases True 2 phases_ok_def)
  next
    case (Some err)
    have "quiet init_call ?l1 l2"
      using quiet_init_all [of ?l1 env "ord (l_plugins l)"] 2 by simp
    then have "\<not> list_ex start_kind (l_calls l2)"
      by (auto simp: quiet_def extends_def no list_all_iff list_ex_iff elim!: start_kind.elims)
    then show ?thesis
      using init_all_failed [OF 2 [unfolded Some]] by (simp add: Initialize_def transition_cases True 2 Some phases_ok_def)
  qed
qed (use assms(1) in \<open>simp add: Initialize_def transition_cases\<close>)

lemma Inject_phases:
  assumes "phases_ok l"
  shows "phases_ok (fst (Inject env ord l))"
proof (cases "l_state l = loaderInitialized")
  case True
  let ?l1 = "l\<lparr>l_state := loaderInjecting\<rparr>"
  obtain l2 e where 2: "inject_all env (ord (l_plugins l)) ?l1 = (l2, e)" by fastforce
  have "extends inject_call ?l1 l2"
    using quiet_inject_all [of ?l1 env "ord (l_plugins l)"] 2 by (simp add: quiet_def)
  then have "extends (\<lambda>c. \<not> init_call c) l l2"
    using extends_mono [OF _ call_kinds(1)] by simp
  moreover have "inits_first l"
    using assms True by (simp add: phases_ok_def)
  ultimately have "inits_first l2"
    using inits_first_extends by blast
  then have "inits_first (l2\<lparr>l_state := s\<rparr>)" for s
    by (simp add: inits_first_def)
  then show ?thesis
    using inject_all_state [OF 2] \<open>inits_first l2\<close>
    by (cases e) (simp_all add: Inject_def transition_cases True 2 phases_ok_def)
qed (use assms in \<open>simp add: Inject_def transition_cases\<close>)

lemma Close_extends: "extends close_call l (fst (Close_loader env l))"
proof -
  obtain l1 errs where c: "close_all env (l_started l) (l\<lparr>l_state := loaderClosing, l_started := []\<rparr>) = (l1, errs)" by fastforce
  from close_all_calls [OF this] have "extends close_call l l1"
    by (auto simp: extends_def)
  then show ?thesis
    by (simp add: Close_loader_def c)
qed

lemma Close_extends_not_init: "extends (\<lambda>c. \<not> init_call c) l (fst (Close_loader env l))"
proof -
  obtain cs where "l_plugins (fst (Close_loader env l)) = l_plugins l" "l_calls (fst (Close_loader env l)) = l_calls l @ cs"
      "list_all close_call cs"
    using Close_extends [of l env] unfolding extends_def by blast
  moreover from this(3) have "list_all (\<lambda>c. \<not> init_call c) cs"
    by (rule list.pred_mono_strong) (rule call_kinds(2))
  ultimately show ?thesis
    unfolding extends_def by blast
qed

lemma Close_state: "l_state (fst (Close_loader env l)) \<in> {loaderClosed, loaderFailed} \<or> fst (Close_loader env l) = l"
  by (auto simp: Close_loader_def split: prod.splits)

lemma phases_ok_closed:
  assumes "phases_ok l" and "l_state l' = loaderClosed \<or> l_state l' = loaderFailed"
    and "list_ex start_kind (l_calls l') \<Longrightarrow> list_ex start_kind (l_calls l)" and "inits_first l \<Longrightarrow> inits_first l'"
  shows "phases_ok l'"
proof -
  have "list_ex start_kind (l_calls l') \<longrightarrow> inits_first l'"
    using assms(1,3,4) unfolding phases_ok_def by blast
  with assms(2) show ?thesis
    by (elim disjE) (simp_all add: phases_ok_def)
qed

lemma Close_phases:
  assumes "phases_ok l"
  shows "phases_ok (fst (Close_loader env l))"
proof (cases "fst (Close_loader env l) = l")
  case False
  let ?l = "fst (Close_loader env l)"
  have st: "l_state ?l = loaderClosed \<or> l_state ?l = loaderFailed"
    using Close_state [of env l] False by blast
  obtain cs where cs: "l_calls ?l = l_calls l @ cs" "list_all close_call cs"
    using Close_extends [of l env] unfolding extends_def by blast
  have "\<not> list_ex start_kind cs"
    using cs(2) by (induction cs) (auto dest: call_kinds(4))
  then have "list_ex start_kind (l_calls ?l) \<Longrightarrow> list_ex start_kind (l_calls l)"
    by (simp add: cs(1))
  then show ?thesis
    by (rule phases_ok_closed [OF assms st]) (auto intro: inits_first_extends Close_extends_not_init)
qed (use assms in simp)

lemma start_call_extends: "extends (\<lambda>c. \<not> init_call c) l (fst (start_call env p r l))"
proof -
  have c: "extends (\<lambda>c. \<not> init_call c) l (call (CStart p b) l)" for b
    by (rule extends_call) simp
  moreover have "extends (\<lambda>c. \<not> init_call c) (call (CStart p False) l) (fst (Close_loader env (call (CStart p False) l)))"
    by (rule Close_extends_not_init)
  ultimately have "extends (\<lambda>c. \<not> init_call c) l (fst (Close_loader env (call (CStart p False) l)))"
    using extends_trans by blast
  with c show ?thesis
    by (auto simp: start_call_def split: option.splits)
qed

lemma start_all_extends: "extends (\<lambda>c. \<not> init_call c) l (fst (start_all env nps l))"
proof (induction nps arbitrary: l)
  case (Cons np nps)
  obtain l1 e1 where 1: "start_call env (snd np) (pl_daemon env (snd np)) l = (l1, e1)" by fastforce
  obtain l2 e2 where 2: "start_call env (snd np) (pl_internal env (snd np)) l1 = (l2, e2)" by fastforce
  have "extends (\<lambda>c. \<not> init_call c) l l1" "extends (\<lambda>c. \<not> init_call c) l1 l2"
    using start_call_extends [of l env "snd np" "pl_daemon env (snd np)"] start_call_extends [of l1 env "snd np" "pl_internal env (snd np)"]
    by (simp_all add: 1 2)
  then show ?case
    using Cons.IH [of l2] by (auto simp: 1 2 intro: extends_trans split: option.splits)
qed simp

lemma start_call_state:
  "start_call env p r l = (l', e) \<Longrightarrow> l_state l = loaderStarting
    \<Longrightarrow> l_state l' \<in> (if e = None then {loaderStarting} else {loaderClosed, loaderFailed})"
  by (auto simp: start_call_def call_def Close_loader_def split: option.splits prod.splits if_splits)

lemma start_all_state:
  "start_all env nps l = (l', e) \<Longrightarrow> l_state l = loaderStarting
    \<Longrightarrow> l_state l' \<in> (if e = None then {loaderStarting} else {loaderClosed, loaderFailed})"
proof (induction nps arbitrary: l)
  case (Cons np nps)
  obtain l1 e1 where 1: "start_call env (snd np) (pl_daemon env (snd np)) l = (l1, e1)" by fastforce
  obtain l2 e2 where 2: "start_call env (snd np) (pl_internal env (snd np)) l1 = (l2, e2)" by fastforce
  show ?case
    using start_call_state [OF 1 Cons.prems(2)] start_call_state [OF 2] Cons.IH [of l2] Cons.prems(1)
    by (cases e1; cases e2) (auto simp: 1 2)
qed simp

lemma phases_okI:
  "inits_first l \<Longrightarrow> l_state l \<in> {loaderStarting, loaderStarted, loaderClosed, loaderFailed} \<Longrightarrow> phases_ok l"
  unfolding phases_ok_def by (elim insertE) simp_all

lemma Start_phases:
  assumes "phases_ok l"
  shows "phases_ok (fst (Start_loader env ord api_err l))"
proof (cases "l_state l = loaderInjected")
  case True
  let ?l1 = "l\<lparr>l_state := loaderStarting\<rparr>"
  obtain l2 e where 2: "start_all env (ord (l_plugins l)) ?l1 = (l2, e)" by fastforce
  have first: "inits_first l"
    using assms True by (simp add: phases_ok_def)
  have "extends (\<lambda>c. \<not> init_call c) l l2"
    using start_all_extends [of ?l1 env "ord (l_plugins l)"] 2 by simp
  then have l2: "inits_first l2"
    by (rule inits_first_extends [OF first])
  then have "inits_first (l2\<lparr>l_state := s\<rparr>)" "inits_first (l\<lparr>l_state := s\<rparr>)" for s
    using first by (simp_all add: inits_first_def)
  then have ok: "phases_ok (l\<lparr>l_state := loaderStarting\<rparr>)" "phases_ok (l2\<lparr>l_state := loaderStarted\<rparr>)"
    by (simp_all add: phases_okI)
  have st: "l_state l2 \<in> (if e = None then {loaderStarting} else {loaderClosed, loaderFailed})"
    by (rule start_all_state [OF 2]) simp
  then have "phases_ok l2"
    by (intro phases_okI l2) (simp split: if_splits)
  then show ?thesis
    using ok st by (cases api_err; cases e) (simp_all add: Start_loader_def transition_cases True 2)
qed (use assms in \<open>simp add: Start_loader_def transition_cases\<close>)

lemma loads_phases:
  assumes "phases_ok l" and "loads l l'"
  shows "phases_ok l'"
proof (cases "l_state l = loaderLoading")
  case True
  then show ?thesis
    using assms by (simp add: phases_ok_def loads_def)
next
  case False
  then have "l_state l' = l_state l" "l_calls l' = l_calls l" "inits_first l' = inits_first l"
    using assms(2) by (simp_all add: loads_def inits_first_def)
  then show ?thesis
    using assms(1) unfolding phases_ok_def by (simp only:) blast
qed

lemma phases_ok_reach: "loader_reach env l \<Longrightarrow> phases_ok l"
proof (induction rule: loader_reach.induct)
  case (reach_new reg repo cfg preload dirs l)
  then show ?case using new_loader [of env reg repo cfg preload dirs l] by (simp add: phases_ok_def)
next
  case (reach_step l l')
  from reach_step.hyps(2) reach_step.IH show ?case
    by (cases rule: loader_step.cases)
      (simp_all add: Initialize_phases Inject_phases Start_phases Close_phases loads_phases [OF _ loads_Load] loads_phases [OF _ loads_LoadDirectory])
qed

text \<open>Nothing starts before everything is initialised. Whatever sequence of operations is run on a new
  loader, when a plugin is started, every loaded plugin has been initialised before, with success and
  only once, and none is initialised afterwards.\<close>

theorem plugins_initialized_first:
  assumes "loader_reach env l" and "l_calls l = before @ CStart p ok # after"
  shows "\<exists>nps rest. mset nps = mset (l_plugins l) \<and> before = map (\<lambda>np. CInit (snd np) True) nps @ rest
    \<and> list_all (\<lambda>c. \<not> init_call c) (rest @ after)"
proof -
  have "inits_first l"
    using phases_ok_reach [OF assms(1)] assms(2) by (simp add: phases_ok_def)
  then obtain nps rest where *: "mset nps = mset (l_plugins l)" "list_all (\<lambda>c. \<not> init_call c) rest"
      "before @ CStart p ok # after = map (\<lambda>np. CInit (snd np) True) nps @ rest"
    unfolding inits_first_def assms(2) by blast
  from *(3) consider us where "before = map (\<lambda>np. CInit (snd np) True) nps @ us" "us @ CStart p ok # after = rest"
    | us where "before @ us = map (\<lambda>np. CInit (snd np) True) nps" "CStart p ok # after = us @ rest" "us \<noteq> []"
    by (auto simp: append_eq_append_conv2) (metis append_Nil append_Nil2 append_self_conv)
  then show ?thesis
  proof cases
    case 1
    then show ?thesis
      using * by (intro exI [where x = nps] exI [where x = us]) auto
  next
    case 2
    then have "CStart p ok \<in> set (map (\<lambda>np. CInit (snd np) True) nps)"
      by (cases us) (auto simp flip: 2(1))
    then show ?thesis by auto
  qed
qed

theorem plugins_initialized_first_witness:
  "\<exists>nps rest. mset nps = mset [(''one'', 1), (''two'', 2 :: nat)]
    \<and> [CInit 1 True, CInit 2 True] = map (\<lambda>np. CInit (snd np) True) nps @ rest
    \<and> list_all (\<lambda>c. \<not> init_call c) (rest @ [CStart 2 False, CClose 1 True])"
  by (rule plugins_initialized_first [OF ex_failed_start_reach, where p = 1 and ok = True, unfolded ex_failed_start_calls]) simp

end
