(* ===== verification/FSRepo.thy ===== *)
theory FSRepo
  imports DsConfig Keystore
begin

text \<open>
  The repository on disk: \<open>src/repo/fsrepo/fsrepo.go\<close>, its version file, \<open>src/repo/fsrepo/migrations/mfsr.go\<close>,
  and the two-part configuration, \<open>src/config/config.go\<close>.

  The state is the contents of one repository directory, with the lock file and the datastores that
  are open. The configuration file is kept as the value its JSON text stands for. Every fault of the
  file system is an argument. All operations hold the lock of the package, so they are atomic.
\<close>

section \<open>Text of the standard library\<close>

text \<open>White space of \<open>strings.TrimSpace\<close>: the ASCII characters and, in UTF-8, the others of Unicode.\<close>

definition spaces :: "string list" where
  "spaces = map (\<lambda>c. [c]) [CHR 0x09, CHR 0x0A, CHR 0x0B, CHR 0x0C, CHR 0x0D, CHR 0x20]
    @ [[CHR 0xC2, CHR 0x85], [CHR 0xC2, CHR 0xA0], [CHR 0xE1, CHR 0x9A, CHR 0x80]]
    @ map (\<lambda>c. [CHR 0xE2, CHR 0x80, c]) [CHR 0x80, CHR 0x81, CHR 0x82, CHR 0x83, CHR 0x84, CHR 0x85, CHR 0x86, CHR 0x87,
        CHR 0x88, CHR 0x89, CHR 0x8A, CHR 0xA8, CHR 0xA9, CHR 0xAF]
    @ [[CHR 0xE2, CHR 0x81, CHR 0x9F], [CHR 0xE3, CHR 0x80, CHR 0x80]]"

fun trim_left_n :: "nat \<Rightarrow> string list \<Rightarrow> string \<Rightarrow> string" where
  "trim_left_n 0 sps s = s"
| "trim_left_n (Suc n) sps s = (case find (has_prefix s) sps of
     None \<Rightarrow> s | Some sp \<Rightarrow> trim_left_n n sps (drop (length sp) s))"

definition trim_left :: "string list \<Rightarrow> string \<Rightarrow> string" where
  "trim_left sps s = trim_left_n (length s) sps s"

definition TrimSpace :: "string \<Rightarrow> string" where
  "TrimSpace s = rev (trim_left (map rev spaces) (rev (trim_left spaces s)))"

definition digit_value :: "char \<Rightarrow> int" where
  "digit_value c = int (of_char c) - 48"

definition digits_value :: "string \<Rightarrow> int" where
  "digits_value = foldl (\<lambda>n c. 10 * n + digit_value c) 0"

text \<open>\<open>strconv.Atoi\<close>: an optional sign and digits, in the range of 64 bits.\<close>

definition Atoi :: "string \<Rightarrow> int option" where
  "Atoi s = (let (neg, ds) = (case s of [] \<Rightarrow> (False, []) | c # cs \<Rightarrow>
       if c = CHR ''-'' then (True, cs) else if c = CHR ''+'' then (False, cs) else (False, s));
     v = (if neg then - digits_value ds else digits_value ds)
     in if ds = [] \<or> \<not> list_all is_digit ds \<or> v < - (2 ^ 63) \<or> v \<ge> 2 ^ 63 then None else Some v)"

text \<open>The format \<open>%d\<close>.\<close>

fun show_nat :: "nat \<Rightarrow> string" where
  "show_nat n = (if n < 10 then [char_of (48 + n)] else show_nat (n div 10) @ [char_of (48 + n mod 10)])"

declare show_nat.simps [simp del]

definition show_int :: "int \<Rightarrow> string" where
  "show_int v = (if v < 0 then CHR ''-'' # show_nat (nat (- v)) else show_nat (nat v))"

section \<open>Configuration\<close>

record LinkConfig =
  MaxAttempts :: int
  Pinning_PerSeconds :: int
  Hash_BackupSeconds :: int
  Address_BackupSeconds :: int

record 'i Config =
  IPFS :: "'i option"
  Link :: "LinkConfig option"

definition InitLinkConfig :: LinkConfig where
  "InitLinkConfig = \<lparr>MaxAttempts = 0, Pinning_PerSeconds = 30, Hash_BackupSeconds = 0, Address_BackupSeconds = 0\<rparr>"

text \<open>
  \<open>encoding/json\<close> on the two structures: the values of the fields, and reading a map into a structure.
\<close>

record 'i codec =
  enc_ipfs :: "'i \<Rightarrow> json"
  enc_link :: "LinkConfig \<Rightarrow> json"
  dec_config :: "(string \<times> json) list \<Rightarrow> (string, 'i Config) result"

definition nullable :: "('a \<Rightarrow> json) \<Rightarrow> 'a option \<Rightarrow> json" where
  "nullable enc v = (case v of None \<Rightarrow> JNull | Some x \<Rightarrow> enc x)"

definition ToMap :: "'i codec \<Rightarrow> 'i Config \<Rightarrow> (string \<times> json) list" where
  "ToMap cd c = [(''IPFS'', nullable (enc_ipfs cd) (IPFS c)), (''Link'', nullable (enc_link cd) (Link c))]"

definition FromMap :: "'i codec \<Rightarrow> (string \<times> json) list \<Rightarrow> (string, 'i Config) result" where
  "FromMap cd m = (case dec_config cd m of Inl e \<Rightarrow> Inl (''failure to decode config: '' @ e) | Inr c \<Rightarrow> Inr c)"

definition Clone :: "'i codec \<Rightarrow> 'i Config \<Rightarrow> (string, 'i Config) result" where
  "Clone cd c = (case dec_config cd (ToMap cd c) of Inl e \<Rightarrow> Inl (''failure to decode config: '' @ e) | Inr c' \<Rightarrow> Inr c')"

section \<open>The directory\<close>

definition RepoVersion :: int where
  "RepoVersion = 10"

datatype repo_error = RErr string | RPanic | ENoRepo string | EOldRepo | ENoVersion | EBadVersion string | ENeedMigration
  | EProgramTooLow int int | ELocked | EOldDatastore | ENoSpec | EDatastore ds_error | ESpecMismatch string string
  | ENotInitialized | EKeystore ks_error | EClosedRepo | EApiNotRunning | EApiTooLarge | ERenameRemove string string

record 'd repo_dir =
  d_config :: "json option"
  d_spec :: "string option"
  d_version :: "string option"
  d_api :: "string option"
  d_api_tmp :: "string option"
  d_keystore :: "fs_dir option"
  d_lock :: bool
  d_open :: "'d list"

text \<open>
  The faults of the file system. A failed write gives the error with what is left in the file; the
  other faults are just errors.
\<close>

record io =
  io_filename :: "string option"
  io_read_config :: "string option"
  io_write_config :: "(string \<times> json option) option"
  io_write_spec :: "(string \<times> string option) option"
  io_read_spec :: "string option"
  io_write_version :: "(string \<times> string option) option"
  io_version :: "string option"
  io_lock :: "string option"
  io_unlock :: "string option"
  io_writable :: "string option"
  io_mkkeys :: "string option"
  io_close_ds :: "string option"
  io_remove_api :: "string option"

definition no_faults_io :: io where
  "no_faults_io = \<lparr>io_filename = None, io_read_config = None, io_write_config = None, io_write_spec = None, io_read_spec = None,
     io_write_version = None, io_version = None, io_lock = None, io_unlock = None, io_writable = None, io_mkkeys = None,
     io_close_ds = None, io_remove_api = None\<rparr>"

text \<open>
  What the repository takes from other packages: the codec, the datastore packages with the registry,
  the JSON text of a specification, the fields of the IPFS configuration, and expanding a path.
\<close>

record ('i, 'x, 'd) repo_env =
  re_codec :: "'i codec"
  re_ds :: "'x ds_env"
  re_reg :: "'x datastores"
  re_create :: "('x, 'd) create_env"
  re_pspec :: "'x \<Rightarrow> (string \<times> json) list option"
  re_marshal :: "(string \<times> json) list option \<Rightarrow> string"
  re_dsType :: "'i \<Rightarrow> string"
  re_dsPath :: "'i \<Rightarrow> string"
  re_dsSpec :: "'i \<Rightarrow> (string \<times> json) list option"
  re_filestore :: "'i \<Rightarrow> bool"
  re_urlstore :: "'i \<Rightarrow> bool"
  re_expand :: "string \<Rightarrow> (string, string) result"
  re_privKeySelector :: string

definition spec_String :: "('i, 'x, 'd) repo_env \<Rightarrow> (string \<times> json) list option \<Rightarrow> string" where
  "spec_String env spec = TrimSpace (re_marshal env spec)"

section \<open>Initialisation\<close>

definition configIsInitialized :: "io \<Rightarrow> 'd repo_dir \<Rightarrow> bool" where
  "configIsInitialized f d \<longleftrightarrow> io_filename f = None \<and> d_config d \<noteq> None"

definition write_config :: "io \<Rightarrow> json \<Rightarrow> 'd repo_dir \<Rightarrow> 'd repo_dir \<times> repo_error option" where
  "write_config f v d = (case io_write_config f of
     Some (e, left) \<Rightarrow> (d\<lparr>d_config := left\<rparr>, Some (RErr e)) | None \<Rightarrow> (d\<lparr>d_config := Some v\<rparr>, None))"

definition initConfig :: "('i, 'x, 'd) repo_env \<Rightarrow> io \<Rightarrow> 'i Config \<Rightarrow> 'd repo_dir \<Rightarrow> 'd repo_dir \<times> repo_error option" where
  "initConfig env f conf d =
    (if configIsInitialized f d then (d, None)
     else case io_filename f of
       Some e \<Rightarrow> (d, Some (RErr e)) | None \<Rightarrow> write_config f (JObj (ToMap (re_codec env) conf)) d)"

text \<open>A nil specification is an empty map to read from.\<close>

definition initSpec :: "('i, 'x, 'd) repo_env \<Rightarrow> io \<Rightarrow> (string \<times> json) list option \<Rightarrow> 'd repo_dir \<Rightarrow> 'd repo_dir \<times> repo_error option" where
  "initSpec env f conf d = (case io_filename f of
     Some e \<Rightarrow> (d, Some (RErr e))
   | None \<Rightarrow>
       if d_spec d \<noteq> None then (d, None)
       else (case AnyDatastoreConfig (re_ds env) (re_reg env) (case conf of None \<Rightarrow> [] | Some m \<Rightarrow> m) of
           Inl e \<Rightarrow> (d, Some (EDatastore e))
         | Inr dsc \<Rightarrow> (case io_write_spec f of
             Some (e, left) \<Rightarrow> (d\<lparr>d_spec := left\<rparr>, Some (RErr e))
           | None \<Rightarrow> (d\<lparr>d_spec := Some (spec_String env (DiskSpec (re_pspec env) dsc))\<rparr>, None))))"

definition WriteVersion :: "io \<Rightarrow> int \<Rightarrow> 'd repo_dir \<Rightarrow> 'd repo_dir \<times> repo_error option" where
  "WriteVersion f version d = (case io_write_version f of
     Some (e, left) \<Rightarrow> (d\<lparr>d_version := left\<rparr>, Some (RErr e))
   | None \<Rightarrow> (d\<lparr>d_version := Some (show_int version @ [CHR 0x0A])\<rparr>, None))"

text \<open>
  \<open>Init\<close> is modelled for a path at which all its files meet, not empty and without a tilde. The code asks the configuration package where the
  configuration and the datastore specification are, which has a default for the empty path, but uses the path as it is
  for the version file; and only \<open>open\<close> expands a tilde. For an empty path, or one with a tilde, these may be
  different directories.
\<close>

definition Init :: "('i, 'x, 'd) repo_env \<Rightarrow> io \<Rightarrow> 'i Config \<Rightarrow> 'd repo_dir \<Rightarrow> 'd repo_dir \<times> repo_error option" where
  "Init env f conf d =
    (if configIsInitialized f d then (d, None)
     else case initConfig env f conf d of
       (d1, Some e) \<Rightarrow> (d1, Some e)
     | (d1, None) \<Rightarrow> (case IPFS conf of
         None \<Rightarrow> (d1, Some RPanic)
       | Some ipfs \<Rightarrow> (case initSpec env f (re_dsSpec env ipfs) d1 of
           (d2, Some e) \<Rightarrow> (d2, Some e)
         | (d2, None) \<Rightarrow> WriteVersion f RepoVersion d2)))"

section \<open>Opening and closing\<close>

record ('i, 'd) FSRepo =
  r_closed :: bool
  r_path :: string
  r_config :: "'i Config"
  r_ds :: 'd
  r_leaves :: "'d list"
  r_filemgr :: "(bool \<times> bool) option"

text \<open>
  \<open>r_leaves\<close> are the datastores on disk below \<open>r_ds\<close>, which closing \<open>r_ds\<close> closes; \<open>r_filemgr\<close> is the file
  manager with what it allows, files and URLs. The key store is the directory \<open>d_keystore\<close>.
\<close>

definition Version :: "io \<Rightarrow> string \<Rightarrow> 'd repo_dir \<Rightarrow> (repo_error, int) result" where
  "Version f path d =
    (if path = [] then Inl (RErr ''invalid repo path'')
     else case io_version f of
       Some e \<Rightarrow> Inl (RErr e)
     | None \<Rightarrow> (case d_version d of
         None \<Rightarrow> Inl ENoVersion
       | Some c \<Rightarrow> (case Atoi (TrimSpace c) of None \<Rightarrow> Inl (EBadVersion c) | Some v \<Rightarrow> Inr v)))"

definition read_json :: "io \<Rightarrow> 'd repo_dir \<Rightarrow> (repo_error, json) result" where
  "read_json f d = (case io_filename f of
     Some e \<Rightarrow> Inl (RErr e)
   | None \<Rightarrow> (case io_read_config f of
       Some e \<Rightarrow> Inl (RErr e)
     | None \<Rightarrow> (case d_config d of None \<Rightarrow> Inl ENotInitialized | Some v \<Rightarrow> Inr v)))"

text \<open>Reading the file into a map or into a structure; \<open>null\<close> gives the nil map and the zero structure.\<close>

definition read_map :: "io \<Rightarrow> 'd repo_dir \<Rightarrow> (repo_error, (string \<times> json) list option) result" where
  "read_map f d = bind_ok (read_json f d) (\<lambda>v. case v of
     JObj m \<Rightarrow> Inr (Some m) | JNull \<Rightarrow> Inr None | _ \<Rightarrow> Inl (RErr ''failure to decode config''))"

definition read_struct :: "('i, 'x, 'd) repo_env \<Rightarrow> io \<Rightarrow> 'd repo_dir \<Rightarrow> (repo_error, 'i Config) result" where
  "read_struct env f d = bind_ok (read_map f d) (\<lambda>m. case m of
     None \<Rightarrow> Inr \<lparr>IPFS = None, Link = None\<rparr>
   | Some kvs \<Rightarrow> (case dec_config (re_codec env) kvs of Inl e \<Rightarrow> Inl (RErr e) | Inr c \<Rightarrow> Inr c))"

definition readSpec :: "io \<Rightarrow> 'd repo_dir \<Rightarrow> (repo_error, string) result" where
  "readSpec f d = (case io_filename f of
     Some e \<Rightarrow> Inl (RErr e)
   | None \<Rightarrow> (case io_read_spec f of
       Some e \<Rightarrow> Inl (RErr e)
     | None \<Rightarrow> (case d_spec d of None \<Rightarrow> Inl (RErr ''no such file'') | Some b \<Rightarrow> Inr (TrimSpace b))))"

definition openDatastore :: "('i, 'x, 'd) repo_env \<Rightarrow> io \<Rightarrow> string \<Rightarrow> 'i Config \<Rightarrow> 'd repo_dir \<Rightarrow> 'd repo_dir \<times> (repo_error, 'd) result" where
  "openDatastore env f path conf d = (case IPFS conf of
     None \<Rightarrow> (d, Inl RPanic)
   | Some ipfs \<Rightarrow>
       if re_dsType env ipfs \<noteq> [] \<or> re_dsPath env ipfs \<noteq> [] then (d, Inl EOldDatastore)
       else (case re_dsSpec env ipfs of
           None \<Rightarrow> (d, Inl ENoSpec)
         | Some spec \<Rightarrow> (case AnyDatastoreConfig (re_ds env) (re_reg env) spec of
             Inl e \<Rightarrow> (d, Inl (EDatastore e))
           | Inr dsc \<Rightarrow> (case readSpec f d of
               Inl e \<Rightarrow> (d, Inl e)
             | Inr oldSpec \<Rightarrow>
                 let s = spec_String env (DiskSpec (re_pspec env) dsc) in
                 if oldSpec \<noteq> s then (d, Inl (ESpecMismatch oldSpec s))
                 else (case Create_ds (re_create env) path dsc (d_open d) of
                     (st, Inl e) \<Rightarrow> (d\<lparr>d_open := st\<rparr>, Inl (RErr e))
                   | (st, Inr ds) \<Rightarrow> (d\<lparr>d_open := st\<rparr>, Inr (newMeasure (re_create env) ''ipfs.fsrepo.datastore'' ds)))))))"

definition openKeystore :: "io \<Rightarrow> 'd repo_dir \<Rightarrow> 'd repo_dir \<times> repo_error option" where
  "openKeystore f d = (case NewFSKeystore (d_keystore d) (io_mkkeys f) of
     Inl e \<Rightarrow> (d, Some (EKeystore e)) | Inr ks \<Rightarrow> (d\<lparr>d_keystore := Some ks\<rparr>, None))"

definition file_manager :: "('i, 'x, 'd) repo_env \<Rightarrow> 'i Config \<Rightarrow> (bool \<times> bool) option" where
  "file_manager env conf = (case IPFS conf of
     None \<Rightarrow> None
   | Some ipfs \<Rightarrow> if re_filestore env ipfs \<or> re_urlstore env ipfs then Some (re_filestore env ipfs, re_urlstore env ipfs) else None)"

definition checkVersion :: "int \<Rightarrow> repo_error option" where
  "checkVersion ver = (if RepoVersion > ver then Some ENeedMigration
     else if ver > RepoVersion then Some (EProgramTooLow RepoVersion ver) else None)"

text \<open>What \<open>open\<close> does while it holds the lock file.\<close>

definition open_parts :: "('i, 'x, 'd) repo_env \<Rightarrow> io \<Rightarrow> string \<Rightarrow> 'd repo_dir \<Rightarrow> 'd repo_dir \<times> (repo_error, ('i, 'd) FSRepo) result" where
  "open_parts env f path d = (case Version f path d of
     Inl e \<Rightarrow> (d, Inl e)
   | Inr ver \<Rightarrow> (case checkVersion ver of
       Some e \<Rightarrow> (d, Inl e)
     | None \<Rightarrow> (case io_writable f of
         Some e \<Rightarrow> (d, Inl (RErr e))
       | None \<Rightarrow> (case read_struct env f d of
           Inl e \<Rightarrow> (d, Inl e)
         | Inr conf \<Rightarrow> (case openDatastore env f path conf d of
             (d1, Inl e) \<Rightarrow> (d1, Inl e)
           | (d1, Inr ds) \<Rightarrow> (case openKeystore f d1 of
               (d2, Some e) \<Rightarrow> (d2, Inl e)
             | (d2, None) \<Rightarrow> (d2, Inr \<lparr>r_closed = False, r_path = path, r_config = conf, r_ds = ds,
                 r_leaves = drop (length (d_open d)) (d_open d1), r_filemgr = file_manager env conf\<rparr>)))))))"

definition unlock :: "io \<Rightarrow> 'd repo_dir \<Rightarrow> 'd repo_dir" where
  "unlock f d = (if io_unlock f = None then d\<lparr>d_lock := False\<rparr> else d)"

text \<open>\<open>old_repo\<close> tells whether a repository is found at the old location.\<close>

definition checkInitialized :: "io \<Rightarrow> bool \<Rightarrow> string \<Rightarrow> 'd repo_dir \<Rightarrow> repo_error option" where
  "checkInitialized f old_repo path d =
    (if \<not> configIsInitialized f d then (if old_repo then Some EOldRepo else Some (ENoRepo path)) else None)"

definition open_repo :: "('i, 'x, 'd) repo_env \<Rightarrow> io \<Rightarrow> bool \<Rightarrow> string \<Rightarrow> 'd repo_dir \<Rightarrow> 'd repo_dir \<times> (repo_error, ('i, 'd) FSRepo) result" where
  "open_repo env f old_repo repoPath d = (case re_expand env (Clean repoPath) of
     Inl e \<Rightarrow> (d, Inl (RErr e))
   | Inr path \<Rightarrow> (case checkInitialized f old_repo path d of
       Some e \<Rightarrow> (d, Inl e)
     | None \<Rightarrow>
         if d_lock d then (d, Inl ELocked)
         else (case io_lock f of
             Some e \<Rightarrow> (d, Inl (RErr e))
           | None \<Rightarrow> (case open_parts env f path (d\<lparr>d_lock := True\<rparr>) of
               (d1, Inl e) \<Rightarrow> (unlock f d1, Inl e) | (d1, Inr r) \<Rightarrow> (d1, Inr r)))))"

definition Close_repo :: "io \<Rightarrow> ('i, 'd) FSRepo \<Rightarrow> 'd repo_dir \<Rightarrow> ('i, 'd) FSRepo \<times> 'd repo_dir \<times> repo_error option" where
  "Close_repo f r d =
    (if r_closed r then (r, d, Some EClosedRepo)
     else let d1 = (if io_remove_api f = None then d\<lparr>d_api := None\<rparr> else d) in
       case io_close_ds f of
         Some e \<Rightarrow> (r, d1, Some (RErr e))
       | None \<Rightarrow> (r\<lparr>r_closed := True\<rparr>, unlock f (d1\<lparr>d_open := filter (\<lambda>s. s \<notin> set (r_leaves r)) (d_open d1)\<rparr>),
           map_option RErr (io_unlock f)))"

section \<open>Changing the configuration\<close>

definition Config_repo :: "('i, 'd) FSRepo \<Rightarrow> (repo_error, 'i Config) result" where
  "Config_repo r = (if r_closed r then Inl EClosedRepo else Inr (r_config r))"

definition overlay :: "(string \<times> json) list \<Rightarrow> (string \<times> json) list \<Rightarrow> (string \<times> json) list" where
  "overlay m mapconf = foldl (\<lambda>mc kv. AList.update (fst kv) (snd kv) mc) mapconf m"

text \<open>Writing to the nil map that \<open>null\<close> is read as panics.\<close>

definition setConfigUnsynced :: "('i, 'x, 'd) repo_env \<Rightarrow> io \<Rightarrow> 'i Config \<Rightarrow> ('i, 'd) FSRepo \<Rightarrow> 'd repo_dir
    \<Rightarrow> ('i, 'd) FSRepo \<times> 'd repo_dir \<times> repo_error option" where
  "setConfigUnsynced env f updated r d = (case read_map f d of
     Inl e \<Rightarrow> (r, d, Some e)
   | Inr None \<Rightarrow> (r, d, Some RPanic)
   | Inr (Some mapconf) \<Rightarrow> (case write_config f (JObj (overlay (ToMap (re_codec env) updated) mapconf)) d of
       (d1, Some e) \<Rightarrow> (r, d1, Some e)
     | (d1, None) \<Rightarrow> (r\<lparr>r_config := updated\<rparr>, d1, None)))"

definition SetIPFSConfig where
  "SetIPFSConfig env f cfg r d = (case Clone (re_codec env) (r_config r) of
     Inl e \<Rightarrow> (r, d, Some (RErr e)) | Inr clone \<Rightarrow> setConfigUnsynced env f (clone\<lparr>IPFS := cfg\<rparr>) r d)"

definition SetLinkConfig where
  "SetLinkConfig env f cfg r d = (case Clone (re_codec env) (r_config r) of
     Inl e \<Rightarrow> (r, d, Some (RErr e)) | Inr clone \<Rightarrow> setConfigUnsynced env f (clone\<lparr>Link := cfg\<rparr>) r d)"

definition SetConfig where
  "SetConfig env f updated r d = setConfigUnsynced env f updated r d"

definition nil_map :: "(string \<times> json) list option \<Rightarrow> (string \<times> json) list" where
  "nil_map m = (case m of None \<Rightarrow> [] | Some kvs \<Rightarrow> kvs)"

definition GetConfigKey :: "io \<Rightarrow> string \<Rightarrow> ('i, 'd) FSRepo \<Rightarrow> 'd repo_dir \<Rightarrow> (repo_error, json) result" where
  "GetConfigKey f key r d =
    (if r_closed r then Inl EClosedRepo
     else bind_ok (read_map f d) (\<lambda>cfg. case MapGetKV (nil_map cfg) key of Inl e \<Rightarrow> Inl (RErr e) | Inr v \<Rightarrow> Inr v))"

text \<open>The private key is read from the map before the change and put back after it.\<close>

definition set_guarded :: "string \<Rightarrow> string \<Rightarrow> json \<Rightarrow> (string \<times> json) list \<Rightarrow> (string, (string \<times> json) list) result" where
  "set_guarded selector key val mapconf =
    bind_ok (MapGetKV mapconf selector) (\<lambda>pkval.
    bind_ok (MapSetKV mapconf key val) (\<lambda>m. MapSetKV m selector pkval))"

definition SetConfigKey :: "('i, 'x, 'd) repo_env \<Rightarrow> io \<Rightarrow> io \<Rightarrow> string \<Rightarrow> json \<Rightarrow> ('i, 'd) FSRepo \<Rightarrow> 'd repo_dir
    \<Rightarrow> ('i, 'd) FSRepo \<times> 'd repo_dir \<times> repo_error option" where
  "SetConfigKey env f f' key val r d =
    (if r_closed r then (r, d, Some EClosedRepo)
     else case read_map f d of
       Inl e \<Rightarrow> (r, d, Some e)
     | Inr mapconf \<Rightarrow> (case set_guarded (re_privKeySelector env) key val (nil_map mapconf) of
         Inl e \<Rightarrow> (r, d, Some (RErr e))
       | Inr m \<Rightarrow> (case FromMap (re_codec env) m of
           Inl e \<Rightarrow> (r, d, Some (RErr e))
         | Inr conf \<Rightarrow> (case write_config f (JObj m) d of
             (d1, Some e) \<Rightarrow> (r, d1, Some e)
           | (d1, None) \<Rightarrow> setConfigUnsynced env f' conf r d1))))"

text \<open>\<open>f\<close> and \<open>f'\<close> are the faults of the first access to the configuration file and of the second one.\<close>

section \<open>The private key is guarded\<close>

lemma overlay_other: "k \<notin> fst ` set m \<Longrightarrow> map_of (overlay m mc) k = map_of mc k"
  by (induction m arbitrary: mc) (auto simp: overlay_def update_conv)

lemma get_overlay:
  "hd (key_parts sel) \<notin> {''IPFS'', ''Link''} \<Longrightarrow> MapGetKV (overlay (ToMap cd c) mc) sel = MapGetKV mc sel"
  by (cases "key_parts sel") (simp_all add: MapGetKV_def overlay_other ToMap_def)

lemma set_guarded_keeps: "set_guarded sel key val m = Inr m' \<Longrightarrow> MapGetKV m' sel = MapGetKV m sel"
  unfolding set_guarded_def bind_ok_Inr by (elim exE conjE) (simp add: MapSetKV_get)

lemma read_map_write:
  "write_config f v d = (d1, None) \<Longrightarrow> d_config d1 = Some v"
  by (auto simp: write_config_def split: option.splits)

lemma read_map_Some: "read_map f d = Inr (Some m) \<Longrightarrow> d_config d = Some (JObj m)"
  by (auto simp: read_map_def read_json_def bind_ok_Inr split: option.splits json.splits)

text \<open>A configuration key never changes the private key. If \<open>SetConfigKey\<close> succeeds, for any key, even one above
  or below the private key, the configuration file still has the private key it had before.\<close>

theorem setConfigKey_guards:
  assumes "re_privKeySelector env = ''Identity.PrivKey''" and "d_config d = Some (JObj m)"
    and "SetConfigKey env f f' key val r d = (r', d', None)"
  shows "\<exists>m' pk. d_config d' = Some (JObj m') \<and> MapGetKV m ''Identity.PrivKey'' = Inr pk \<and> MapGetKV m' ''Identity.PrivKey'' = Inr pk"
proof -
  from assms(3) obtain mapconf where rd: "read_map f d = Inr mapconf"
    by (auto simp: SetConfigKey_def split: if_splits sum.splits)
  then have mc: "nil_map mapconf = m"
    using assms(2) by (auto simp: read_map_def read_json_def nil_map_def bind_ok_Inr split: option.splits)
  from assms(3) rd obtain m1 conf d1 where m1: "set_guarded ''Identity.PrivKey'' key val m = Inr m1"
    and d1: "write_config f (JObj m1) d = (d1, None)" and up: "setConfigUnsynced env f' conf r d1 = (r', d', None)"
    by (auto simp: SetConfigKey_def assms(1) mc split: if_splits sum.splits prod.splits option.splits)
  from up obtain m2 where "read_map f' d1 = Inr (Some m2)"
    and d': "write_config f' (JObj (overlay (ToMap (re_codec env) conf) m2)) d1 = (d', None)"
    by (auto simp: setConfigUnsynced_def split: sum.splits prod.splits option.splits)
  then have "m2 = m1"
    using read_map_Some read_map_write [OF d1] by fastforce
  moreover obtain pk where "MapGetKV m ''Identity.PrivKey'' = Inr pk"
    using m1 unfolding set_guarded_def bind_ok_Inr by blast
  moreover have "hd (key_parts ''Identity.PrivKey'') \<notin> {''IPFS'', ''Link''}"
    by code_simp
  ultimately show ?thesis
    using read_map_write [OF d'] set_guarded_keeps [OF m1] get_overlay [of "''Identity.PrivKey''" "re_codec env" conf m1] by auto
qed

definition ex_create_env :: "(nat, nat) create_env" where
  "ex_create_env = \<lparr>newMap = 0, newLog = (\<lambda>d _. d), newMeasure = (\<lambda>_ d. d), newMount = (\<lambda>_. 1), openFlatfs = (\<lambda>_ _ _. Inr 2),
     openLevel = (\<lambda>_ _. Inr 3), mkdirAll = (\<lambda>_. None), openBadger = (\<lambda>_ _ _ _. Inr 4), openPlugin = (\<lambda>_ _. Inr 5)\<rparr>"

definition ex_codec :: "nat codec" where
  "ex_codec = \<lparr>enc_ipfs = (\<lambda>_. JObj []), enc_link = (\<lambda>_. JObj []), dec_config = (\<lambda>_. Inr \<lparr>IPFS = Some 0, Link = None\<rparr>)\<rparr>"

definition ex_repo_env :: "(nat, nat, nat) repo_env" where
  "ex_repo_env = \<lparr>re_codec = ex_codec, re_ds = ex_ds_env, re_reg = init_datastores(''flatfs'' \<mapsto> FlatfsH), re_create = ex_create_env,
     re_pspec = (\<lambda>_. None), re_marshal = (\<lambda>s. case s of None \<Rightarrow> ''null'' | Some _ \<Rightarrow> ''{}''), re_dsType = (\<lambda>_. []), re_dsPath = (\<lambda>_. []),
     re_dsSpec = (\<lambda>_. Some [(''type'', JStr ''flatfs''), (''path'', JStr ''blocks''), (''shardFunc'', JStr ''s''), (''sync'', JBool True)]),
     re_filestore = (\<lambda>_. False), re_urlstore = (\<lambda>_. False), re_expand = Inr, re_privKeySelector = ''Identity.PrivKey''\<rparr>"

definition empty_repo_dir :: "nat repo_dir" where
  "empty_repo_dir = \<lparr>d_config = None, d_spec = None, d_version = None, d_api = None, d_api_tmp = None, d_keystore = None,
     d_lock = False, d_open = []\<rparr>"

definition ex_conf :: "nat Config" where
  "ex_conf = \<lparr>IPFS = Some 0, Link = None\<rparr>"

definition ex_repo :: "(nat, nat) FSRepo" where
  "ex_repo = \<lparr>r_closed = False, r_path = ''r'', r_config = ex_conf, r_ds = 2, r_leaves = [2], r_filemgr = None\<rparr>"

definition ex_flat_dir :: "nat repo_dir" where
  "ex_flat_dir = empty_repo_dir\<lparr>d_config := Some (JObj [(''Identity'', JObj [(''PrivKey'', JStr ''k'')])])\<rparr>"

lemma ex_flat_set:
  "\<exists>r' d'. SetConfigKey ex_repo_env no_faults_io no_faults_io ''Identity'' (JObj []) ex_repo ex_flat_dir = (r', d', None)
    \<and> d_config d' = Some (JObj [(''Identity'', JObj [(''PrivKey'', JStr ''k'')]), (''IPFS'', JObj []), (''Link'', JNull)])"
proof -
  have g: "set_guarded ''Identity.PrivKey'' ''Identity'' (JObj []) [(''Identity'', JObj [(''PrivKey'', JStr ''k'')])]
      = Inr [(''Identity'', JObj [(''PrivKey'', JStr ''k'')])]"
    by code_simp
  show ?thesis
    by (simp add: SetConfigKey_def ex_repo_def read_map_def read_json_def no_faults_io_def ex_flat_dir_def ex_repo_env_def nil_map_def
        g FromMap_def ex_codec_def write_config_def setConfigUnsynced_def overlay_def ToMap_def nullable_def)
qed

theorem setConfigKey_guards_witness:
  "\<exists>r' d' m'. SetConfigKey ex_repo_env no_faults_io no_faults_io ''Identity'' (JObj []) ex_repo ex_flat_dir = (r', d', None)
    \<and> d_config d' = Some (JObj m') \<and> MapGetKV m' ''Identity.PrivKey'' = Inr (JStr ''k'')"
proof -
  obtain r' d' where s: "SetConfigKey ex_repo_env no_faults_io no_faults_io ''Identity'' (JObj []) ex_repo ex_flat_dir = (r', d', None)"
    using ex_flat_set by blast
  have c: "d_config ex_flat_dir = Some (JObj [(''Identity'', JObj [(''PrivKey'', JStr ''k'')])])"
    by (simp add: ex_flat_dir_def)
  have sel: "re_privKeySelector ex_repo_env = ''Identity.PrivKey''"
    by (simp add: ex_repo_env_def)
  have "MapGetKV [(''Identity'', JObj [(''PrivKey'', JStr ''k'')])] ''Identity.PrivKey'' = Inr (JStr ''k'')"
    by code_simp
  then show ?thesis
    using setConfigKey_guards [OF sel c s] s by auto
qed

section \<open>Configuration keys of a new repository\<close>

text \<open>The changes of the configuration that do not fail to write the file, by any handle on the repository.\<close>

inductive config_run :: "('i, 'x, 'd) repo_env \<Rightarrow> 'd repo_dir \<Rightarrow> 'd repo_dir \<Rightarrow> bool" for env where
  run_none: "config_run env d d"
| run_set: "config_run env d d1 \<Longrightarrow> io_write_config f = None \<Longrightarrow> config_run env d (fst (snd (SetConfig env f updated r d1)))"
| run_ipfs: "config_run env d d1 \<Longrightarrow> io_write_config f = None \<Longrightarrow> config_run env d (fst (snd (SetIPFSConfig env f i r d1)))"
| run_link: "config_run env d d1 \<Longrightarrow> io_write_config f = None \<Longrightarrow> config_run env d (fst (snd (SetLinkConfig env f l r d1)))"
| run_key: "config_run env d d1 \<Longrightarrow> io_write_config f = None \<Longrightarrow> io_write_config f' = None
    \<Longrightarrow> config_run env d (fst (snd (SetConfigKey env f f' key val r d1)))"

definition no_identity :: "'d repo_dir \<Rightarrow> bool" where
  "no_identity d \<longleftrightarrow> (\<exists>m. d_config d = Some (JObj m) \<and> map_of m ''Identity'' = None)"

lemma read_map_cases: "d_config d = Some (JObj m) \<Longrightarrow> (\<exists>e. read_map f d = Inl e) \<or> read_map f d = Inr (Some m)"
  by (cases "io_filename f"; cases "io_read_config f") (simp_all add: read_map_def read_json_def)

lemma setConfigUnsynced_no_identity:
  assumes "no_identity d" and "io_write_config f = None"
  shows "no_identity (fst (snd (setConfigUnsynced env f c r d)))"
proof -
  obtain m where m: "d_config d = Some (JObj m)" "map_of m ''Identity'' = None"
    using assms(1) by (auto simp: no_identity_def)
  have o: "map_of (overlay (ToMap (re_codec env) c) m) ''Identity'' = None"
    using m(2) by (simp add: overlay_other ToMap_def)
  consider e where "read_map f d = Inl e" | "read_map f d = Inr (Some m)"
    using read_map_cases [OF m(1)] by blast
  then show ?thesis
    using assms(1) o by cases (simp_all add: setConfigUnsynced_def write_config_def assms(2) no_identity_def)
qed

lemma setConfigKey_no_identity:
  assumes "no_identity d" and "re_privKeySelector env = ''Identity.PrivKey''"
  shows "\<exists>e. SetConfigKey env f f' key val r d = (r, d, Some e)"
proof -
  obtain m where m: "d_config d = Some (JObj m)" "map_of m ''Identity'' = None"
    using assms(1) by (auto simp: no_identity_def)
  have parts: "key_parts ''Identity.PrivKey'' = [''Identity'', ''PrivKey'']"
    by code_simp
  have g: "set_guarded ''Identity.PrivKey'' key val m = Inl (no_attributes [])"
    by (simp add: set_guarded_def MapGetKV_def parts m(2))
  consider e where "read_map f d = Inl e" | "read_map f d = Inr (Some m)"
    using read_map_cases [OF m(1)] by blast
  then show ?thesis
    by cases (simp_all add: SetConfigKey_def assms(2) nil_map_def g)
qed

lemma config_run_no_identity:
  assumes "config_run env d d'" and "no_identity d" and "re_privKeySelector env = ''Identity.PrivKey''"
  shows "no_identity d'"
  using assms
proof (induction rule: config_run.induct)
  case (run_set d d1 f updated r)
  then show ?case by (simp add: SetConfig_def setConfigUnsynced_no_identity)
next
  case (run_ipfs d d1 f i r)
  then show ?case by (auto simp: SetIPFSConfig_def setConfigUnsynced_no_identity split: sum.splits)
next
  case (run_link d d1 f l r)
  then show ?case by (auto simp: SetLinkConfig_def setConfigUnsynced_no_identity split: sum.splits)
next
  case (run_key d d1 f f' key val r)
  then have "no_identity d1" by blast
  then show ?case
    using setConfigKey_no_identity [of d1 env f f' key val r] run_key.prems(2) by auto
qed

lemma Init_writes_config:
  assumes "Init env f conf d = (d0, None)" and "\<not> configIsInitialized f d"
  shows "d_config d0 = Some (JObj (ToMap (re_codec env) conf))"
proof -
  obtain d1 where c: "initConfig env f conf d = (d1, None)"
    using assms by (auto simp: Init_def split: prod.splits option.splits)
  then have "d_config d1 = Some (JObj (ToMap (re_codec env) conf))"
    using assms(2) by (auto simp: initConfig_def write_config_def split: option.splits)
  moreover have "d_config d0 = d_config d1"
    using assms c by (auto simp: Init_def initSpec_def WriteVersion_def split: prod.splits option.splits sum.splits if_splits)
  ultimately show ?thesis
    by simp
qed

lemma Init_no_identity: "Init env f conf d = (d0, None) \<Longrightarrow> \<not> configIsInitialized f d \<Longrightarrow> no_identity d0"
  by (simp add: no_identity_def Init_writes_config ToMap_def)

text \<open>C34: no configuration key can be set in a repository made by \<open>Init\<close>. The file keeps the IPFS configuration under
  the key \<open>IPFS\<close>, but \<open>SetConfigKey\<close> looks for the private key at the top level before it does anything;
  so, whatever the configuration was changed to since, it fails for every key and changes nothing.\<close>

theorem setConfigKey_fails_after_Init:
  assumes "re_privKeySelector env = ''Identity.PrivKey''" and "\<not> configIsInitialized g d"
    and "Init env g conf d = (d0, None)" and "config_run env d0 d1"
  shows "\<exists>e. SetConfigKey env f f' key val r d1 = (r, d1, Some e)"
  using setConfigKey_no_identity config_run_no_identity [OF assms(4) Init_no_identity [OF assms(3,2)] assms(1)] assms(1)
  by blast

lemma ex_Init:
  "Init ex_repo_env no_faults_io ex_conf empty_repo_dir =
    (empty_repo_dir\<lparr>d_config := Some (JObj [(''IPFS'', JObj []), (''Link'', JNull)]), d_spec := Some ''{}'',
       d_version := Some (''10'' @ [CHR 0x0A])\<rparr>, None)"
proof -
  have any: "AnyDatastoreConfig ex_ds_env (init_datastores(''flatfs'' \<mapsto> FlatfsH))
      [(''type'', JStr ''flatfs''), (''path'', JStr ''blocks''), (''shardFunc'', JStr ''s''), (''sync'', JBool True)]
      = Inr (FlatfsC ''blocks'' ''s'' True)"
    by code_simp
  have "TrimSpace ''{}'' = ''{}''" "show_int RepoVersion = ''10''"
    by code_simp+
  then show ?thesis
    by (simp add: Init_def configIsInitialized_def initConfig_def initSpec_def WriteVersion_def write_config_def no_faults_io_def
        ex_repo_env_def ex_codec_def ex_conf_def empty_repo_dir_def ToMap_def nullable_def any spec_String_def)
qed

theorem setConfigKey_fails_after_Init_witness:
  "\<exists>e. SetConfigKey ex_repo_env no_faults_io no_faults_io ''Datastore.StorageMax'' (JStr ''10GB'') ex_repo
      (fst (Init ex_repo_env no_faults_io ex_conf empty_repo_dir))
    = (ex_repo, fst (Init ex_repo_env no_faults_io ex_conf empty_repo_dir), Some e)"
proof -
  let ?d = "fst (Init ex_repo_env no_faults_io ex_conf empty_repo_dir)"
  have sel: "re_privKeySelector ex_repo_env = ''Identity.PrivKey''"
    by (simp add: ex_repo_env_def)
  have new: "\<not> configIsInitialized no_faults_io empty_repo_dir"
    by (simp add: configIsInitialized_def empty_repo_dir_def)
  have ini: "Init ex_repo_env no_faults_io ex_conf empty_repo_dir = (?d, None)"
    by (simp add: ex_Init)
  show ?thesis
    by (rule setConfigKey_fails_after_Init [OF sel new ini run_none])
qed

section \<open>The lock file\<close>

lemma open_parts_lock: "open_parts env f path d = (d', r) \<Longrightarrow> d_lock d' = d_lock d"
  by (auto simp: open_parts_def openDatastore_def openKeystore_def Let_def
      split: sum.splits option.splits prod.splits if_splits)

text \<open>C32: the lock file is held exactly by an open repository. \<open>open\<close> fails if the lock is held and then changes nothing;
  otherwise the lock is held afterwards if and only if it succeeded. \<open>Close\<close> releases it exactly if closing
  the datastore succeeds.\<close>

theorem open_holds_lock:
  assumes "open_repo env f old p d = (d', res)" and "io_unlock f = None"
  shows "(d_lock d \<longrightarrow> \<not> is_ok res \<and> d' = d) \<and> (\<not> d_lock d \<longrightarrow> d_lock d' = is_ok res)
    \<and> (res = Inr r \<longrightarrow> \<not> r_closed r \<and> (\<forall>g. io_unlock g = None \<longrightarrow>
          (d_lock (fst (snd (Close_repo g r d'))) \<longleftrightarrow> io_close_ds g \<noteq> None)))"
proof -
  have rc: "res = Inr r \<Longrightarrow> \<not> r_closed r"
    using assms(1) by (auto simp: open_repo_def open_parts_def split: sum.splits option.splits prod.splits if_splits)
  have lock: "(d_lock d \<longrightarrow> \<not> is_ok res \<and> d' = d) \<and> (\<not> d_lock d \<longrightarrow> d_lock d' = is_ok res)"
    using assms open_parts_lock [of env f _ "d\<lparr>d_lock := True\<rparr>"]
    by (auto simp: open_repo_def unlock_def split: sum.splits option.splits prod.splits if_splits)
  have "d_lock (fst (snd (Close_repo g r d'))) \<longleftrightarrow> io_close_ds g \<noteq> None" if "res = Inr r" "io_unlock g = None" for g
  proof -
    have "d_lock d'"
      using lock that(1) by (cases "d_lock d") auto
    then show ?thesis
      using rc [OF that(1)] that(2) by (auto simp: Close_repo_def unlock_def Let_def split: option.splits)
  qed
  with rc lock show ?thesis by blast
qed

section \<open>A new repository can be opened\<close>

lemma version_text: "Atoi (TrimSpace (show_int RepoVersion @ [CHR 0x0A])) = Some RepoVersion"
  by code_simp

lemma NewFSKeystore_ok: "\<exists>ks. NewFSKeystore d None = Inr ks"
  by (cases d) (simp_all add: NewFSKeystore_def os_mkdir_def)

definition new_dir :: "('i, 'x, 'd) repo_env \<Rightarrow> 'i Config \<Rightarrow> 'x dsconfig \<Rightarrow> 'd repo_dir \<Rightarrow> 'd repo_dir" where
  "new_dir env conf dsc d = d\<lparr>d_config := Some (JObj (ToMap (re_codec env) conf)),
     d_spec := Some (spec_String env (DiskSpec (re_pspec env) dsc)), d_version := Some (show_int RepoVersion @ [CHR 0x0A])\<rparr>"

lemma Init_new:
  assumes "d_config d = None" and "d_spec d = None" and "IPFS conf = Some ipfs" and "re_dsSpec env ipfs = Some spec"
    and "AnyDatastoreConfig (re_ds env) (re_reg env) spec = Inr dsc"
  shows "Init env no_faults_io conf d = (new_dir env conf dsc d, None)"
  using assms
  by (simp add: Init_def configIsInitialized_def initConfig_def initSpec_def WriteVersion_def write_config_def no_faults_io_def new_dir_def)

lemma open_new:
  assumes "\<not> d_lock d"
    and "IPFS conf = Some ipfs" and "re_dsType env ipfs = []" and "re_dsPath env ipfs = []" and "re_dsSpec env ipfs = Some spec"
    and "AnyDatastoreConfig (re_ds env) (re_reg env) spec = Inr dsc"
    and "dec_config (re_codec env) (ToMap (re_codec env) conf) = Inr conf"
    and "TrimSpace (re_marshal env (DiskSpec (re_pspec env) dsc)) = re_marshal env (DiskSpec (re_pspec env) dsc)"
    and "re_expand env (Clean p) = Inr path" and "path \<noteq> []"
    and "Create_ds (re_create env) path dsc (d_open d) = (d_open d @ leaves, Inr ds)"
  shows "\<exists>d2 r. open_repo env no_faults_io old p (new_dir env conf dsc d) = (d2, Inr r)
    \<and> r_config r = conf \<and> r_path r = path \<and> \<not> r_closed r \<and> r_leaves r = leaves \<and> d_lock d2"
proof -
  let ?spec = "spec_String env (DiskSpec (re_pspec env) dsc)"
  define d1 where "d1 = new_dir env conf dsc d"
  have trim: "TrimSpace ?spec = ?spec"
    using assms(8) by (simp add: spec_String_def)
  have ver: "Version no_faults_io path (d1\<lparr>d_lock := True\<rparr>) = Inr RepoVersion"
    using assms(10) by (simp add: Version_def d1_def new_dir_def no_faults_io_def version_text)
  have conf: "read_struct env no_faults_io (d1\<lparr>d_lock := True\<rparr>) = Inr conf"
    using assms(7) by (simp add: read_struct_def read_map_def read_json_def d1_def new_dir_def no_faults_io_def)
  have dst: "openDatastore env no_faults_io path conf (d1\<lparr>d_lock := True\<rparr>) =
      (d1\<lparr>d_lock := True, d_open := d_open d @ leaves\<rparr>, Inr (newMeasure (re_create env) ''ipfs.fsrepo.datastore'' ds))"
    using assms(2-6,11) trim by (simp add: openDatastore_def readSpec_def d1_def new_dir_def no_faults_io_def)
  obtain ks where ks: "NewFSKeystore (d_keystore d1) None = Inr ks"
    using NewFSKeystore_ok by blast
  have keys: "openKeystore no_faults_io (d1\<lparr>d_lock := True, d_open := d_open d @ leaves\<rparr>) =
      (d1\<lparr>d_lock := True, d_open := d_open d @ leaves, d_keystore := Some ks\<rparr>, None)"
    using ks by (simp add: openKeystore_def no_faults_io_def)
  have "open_parts env no_faults_io path (d1\<lparr>d_lock := True\<rparr>) =
      (d1\<lparr>d_lock := True, d_open := d_open d @ leaves, d_keystore := Some ks\<rparr>,
       Inr \<lparr>r_closed = False, r_path = path, r_config = conf, r_ds = newMeasure (re_create env) ''ipfs.fsrepo.datastore'' ds,
         r_leaves = leaves, r_filemgr = file_manager env conf\<rparr>)"
    using ver conf dst keys by (simp add: open_parts_def checkVersion_def) (simp add: no_faults_io_def d1_def new_dir_def)
  moreover have "checkInitialized no_faults_io old path d1 = None" "\<not> d_lock d1" "io_lock no_faults_io = None"
    using assms(1) by (simp_all add: checkInitialized_def configIsInitialized_def d1_def new_dir_def no_faults_io_def)
  ultimately show ?thesis
    using assms(9) by (simp add: open_repo_def flip: d1_def)
qed

text \<open>C31: a new repository can be opened. Without faults, \<open>Init\<close> in an empty directory succeeds and \<open>open\<close> then returns a
  repository with the configuration it was given, provided that the datastore specification parses, its datastores
  can be created, the codec reads back what it wrote and the JSON text of the specification has no white
  space around it.\<close>

theorem init_then_open:
  assumes "d_config d = None" and "d_spec d = None" and "\<not> d_lock d"
    and "IPFS conf = Some ipfs" and "re_dsType env ipfs = []" and "re_dsPath env ipfs = []" and "re_dsSpec env ipfs = Some spec"
    and "AnyDatastoreConfig (re_ds env) (re_reg env) spec = Inr dsc"
    and "dec_config (re_codec env) (ToMap (re_codec env) conf) = Inr conf"
    and "TrimSpace (re_marshal env (DiskSpec (re_pspec env) dsc)) = re_marshal env (DiskSpec (re_pspec env) dsc)"
    and "re_expand env (Clean p) = Inr path" and "path \<noteq> []"
    and "Create_ds (re_create env) path dsc (d_open d) = (d_open d @ leaves, Inr ds)"
  shows "\<exists>d1 d2 r. Init env no_faults_io conf d = (d1, None) \<and> open_repo env no_faults_io old p d1 = (d2, Inr r)
    \<and> r_config r = conf \<and> r_path r = path \<and> \<not> r_closed r \<and> r_leaves r = leaves \<and> d_lock d2"
proof -
  have "Init env no_faults_io conf d = (new_dir env conf dsc d, None)"
    by (rule Init_new [OF assms(1,2,4,7,8)])
  then show ?thesis
    using open_new [OF assms(3-13), of old] by blast
qed

lemma ex_any: "AnyDatastoreConfig (re_ds ex_repo_env) (re_reg ex_repo_env)
      [(''type'', JStr ''flatfs''), (''path'', JStr ''blocks''), (''shardFunc'', JStr ''s''), (''sync'', JBool True)]
    = Inr (FlatfsC ''blocks'' ''s'' True)"
  by code_simp

theorem init_then_open_witness:
  "\<exists>d1 d2 r. Init ex_repo_env no_faults_io ex_conf empty_repo_dir = (d1, None)
    \<and> open_repo ex_repo_env no_faults_io False ''r'' d1 = (d2, Inr r) \<and> r_config r = ex_conf \<and> r_path r = ''r''
    \<and> \<not> r_closed r \<and> r_leaves r = [2] \<and> d_lock d2"
proof -
  have cl: "Clean ''r'' = ''r''" and tr: "TrimSpace ''{}'' = ''{}''"
    by code_simp+
  show ?thesis
    by (rule init_then_open [OF _ _ _ _ _ _ _ ex_any, where ipfs = 0])
      (simp_all add: ex_repo_env_def ex_codec_def ex_conf_def empty_repo_dir_def ex_create_env_def opened_def cl tr)
qed

theorem open_holds_lock_witness:
  "\<exists>d1 d2 r. open_repo ex_repo_env no_faults_io False ''r'' d1 = (d2, Inr r) \<and> d_lock d2
    \<and> \<not> d_lock (fst (snd (Close_repo no_faults_io r d2)))"
proof -
  let ?d1 = "new_dir ex_repo_env ex_conf (FlatfsC ''blocks'' ''s'' True) empty_repo_dir"
  have cl: "Clean ''r'' = ''r''" and tr: "TrimSpace ''{}'' = ''{}''"
    by code_simp+
  have "\<exists>d2 r. open_repo ex_repo_env no_faults_io False ''r'' ?d1 = (d2, Inr r)
      \<and> r_config r = ex_conf \<and> r_path r = ''r'' \<and> \<not> r_closed r \<and> r_leaves r = [2] \<and> d_lock d2"
    by (rule open_new [OF _ _ _ _ _ ex_any, where ipfs = 0])
      (simp_all add: ex_repo_env_def ex_codec_def ex_conf_def empty_repo_dir_def ex_create_env_def opened_def cl tr)
  then obtain d2 r where o: "open_repo ex_repo_env no_faults_io False ''r'' ?d1 = (d2, Inr r)"
    by blast
  have u: "io_unlock no_faults_io = None" "io_close_ds no_faults_io = None" and l: "\<not> d_lock ?d1"
    by (simp_all add: no_faults_io_def new_dir_def empty_repo_dir_def)
  from open_holds_lock [OF o u(1), of r] l have "d_lock d2" "\<not> d_lock (fst (snd (Close_repo no_faults_io r d2)))"
    using u by simp_all
  with o show ?thesis
    by blast
qed

section \<open>Slips of initialisation and opening\<close>

text \<open>\<open>Init\<close> that failed after writing the configuration is not resumed: the next one reports success at once.\<close>

lemma init_not_resumed:
  assumes "d_config d = None" and "d_spec d = None" and "IPFS conf = Some ipfs" and "re_dsSpec env ipfs = Some spec"
    and "AnyDatastoreConfig (re_ds env) (re_reg env) spec = Inl e"
  shows "\<exists>d1. Init env no_faults_io conf d = (d1, Some (EDatastore e)) \<and> Init env no_faults_io conf' d1 = (d1, None)
    \<and> d_spec d1 = None"
  using assms
  by (simp add: Init_def configIsInitialized_def initConfig_def initSpec_def write_config_def no_faults_io_def)

text \<open>When the key store cannot be opened, the datastores opened before stay open.\<close>

lemma open_leaks_datastore:
  assumes "Version f path d = Inr RepoVersion" and "io_writable f = None" and "read_struct env f d = Inr conf"
    and "openDatastore env f path conf d = (d1, Inr ds)" and "NewFSKeystore (d_keystore d1) (io_mkkeys f) = Inl e"
  shows "open_parts env f path d = (d1, Inl (EKeystore e))"
  using assms by (simp add: open_parts_def checkVersion_def openKeystore_def)

text \<open>A configuration file without the section \<open>IPFS\<close> makes \<open>open\<close> panic.\<close>

lemma open_panics_without_ipfs: "IPFS conf = None \<Longrightarrow> openDatastore env f path conf d = (d, Inl RPanic)"
  by (simp add: openDatastore_def)

section \<open>The address of the API\<close>

text \<open>The faults of writing the file: creating, writing with what is left, closing, renaming and removing.\<close>

record api_io =
  ai_create :: "string option"
  ai_write :: "(string \<times> string) option"
  ai_close :: "string option"
  ai_rename :: "string option"
  ai_remove :: "string option"

definition SetAPIAddr :: "api_io \<Rightarrow> string \<Rightarrow> 'd repo_dir \<Rightarrow> 'd repo_dir \<times> repo_error option" where
  "SetAPIAddr f addr d = (case ai_create f of
     Some e \<Rightarrow> (d, Some (RErr e))
   | None \<Rightarrow> (case ai_write f of
       Some (e, left) \<Rightarrow> (d\<lparr>d_api_tmp := Some left\<rparr>, Some (RErr e))
     | None \<Rightarrow>
         let d1 = d\<lparr>d_api_tmp := Some addr\<rparr> in
         (case ai_close f of
             Some e \<Rightarrow> (d1, Some (RErr e))
           | None \<Rightarrow> (case ai_rename f of
               None \<Rightarrow> (d1\<lparr>d_api := d_api_tmp d1, d_api_tmp := None\<rparr>, None)
             | Some e \<Rightarrow> (case ai_remove f of
                 Some e1 \<Rightarrow> (d1, Some (ERenameRemove e e1))
               | None \<Rightarrow> (d1\<lparr>d_api_tmp := None\<rparr>, Some (RErr e)))))))"

text \<open>\<open>newMultiaddr\<close> parses an address; \<open>open_err\<close> and \<open>read_err\<close> are the faults of the file.\<close>

definition APIAddr :: "(string \<Rightarrow> (string, 'a) result) \<Rightarrow> string option \<Rightarrow> string option \<Rightarrow> 'd repo_dir \<Rightarrow> (repo_error, 'a) result" where
  "APIAddr newMultiaddr open_err read_err d = (case open_err of
     Some e \<Rightarrow> Inl (RErr e)
   | None \<Rightarrow> (case d_api d of
       None \<Rightarrow> Inl EApiNotRunning
     | Some content \<Rightarrow> (case read_err of
         Some e \<Rightarrow> Inl (RErr e)
       | None \<Rightarrow>
           let buf = take 2048 content in
           if length buf = 2048 then Inl EApiTooLarge
           else (case newMultiaddr (TrimSpace buf) of Inl e \<Rightarrow> Inl (RErr e) | Inr a \<Rightarrow> Inr a))))"

text \<open>The address of the API is replaced as a whole. Whatever fails in \<open>SetAPIAddr\<close>, \<open>APIAddr\<close> afterwards gives what it
  gave before; if nothing fails, it gives the new address, provided that its text is shorter than 2048
  bytes, has no white space around it and parses back.\<close>

theorem api_addr_atomic:
  assumes "SetAPIAddr f (text_of a) d = (d', err)" and "length (text_of a) < 2048"
    and "TrimSpace (text_of a) = text_of a" and "newMultiaddr (text_of a) = Inr a"
  shows "(err \<noteq> None \<longrightarrow> APIAddr newMultiaddr oe re d' = APIAddr newMultiaddr oe re d)
    \<and> (err = None \<longrightarrow> APIAddr newMultiaddr None None d' = Inr a)"
proof (cases err)
  case None
  then have "d_api d' = Some (text_of a)"
    using assms(1) by (auto simp: SetAPIAddr_def Let_def split: option.splits)
  then show ?thesis
    using None assms(2-4) by (simp add: APIAddr_def)
next
  case (Some e)
  then have same: "d_api d' = d_api d"
    using assms(1) by (auto simp: SetAPIAddr_def Let_def split: option.splits)
  have "APIAddr newMultiaddr oe re d' = APIAddr newMultiaddr oe re d"
    unfolding APIAddr_def same ..
  then show ?thesis
    using Some by simp
qed

theorem api_addr_atomic_witness:
  "APIAddr Inr None None (fst (SetAPIAddr \<lparr>ai_create = None, ai_write = None, ai_close = None, ai_rename = None, ai_remove = None\<rparr>
      ''/ip4/127.0.0.1/tcp/5001'' empty_repo_dir)) = Inr ''/ip4/127.0.0.1/tcp/5001''"
proof -
  let ?f = "\<lparr>ai_create = None, ai_write = None, ai_close = None, ai_rename = None, ai_remove = None\<rparr>"
  let ?a = "''/ip4/127.0.0.1/tcp/5001''"
  have s: "SetAPIAddr ?f (id ?a) empty_repo_dir = (fst (SetAPIAddr ?f ?a empty_repo_dir), None)"
    by (simp add: SetAPIAddr_def)
  have "TrimSpace ?a = ?a"
    by code_simp
  then show ?thesis
    using api_addr_atomic [where text_of = id and a = ?a and newMultiaddr = Inr, OF s] by simp
qed

end
