(* ===== verification/PinVerify.thy ===== *)
theory PinVerify
  imports Prelude "HOL-Library.Multiset"
begin

text \<open>
  Verifying and listing pins: \<open>Verify\<close> and \<open>pinLsAll\<close> of \<open>src/core/coreapi/pin.go\<close> and the pin commands of
  \<open>src/core/commands/pin.go\<close>.

  Links of a block, validity of a cid, the pinner and the concurrent walk of the merkledag package are
  parameters. Verification is recursive along links without a test for cycles, so the model takes a
  number of calls it may nest and gives \<open>None\<close> when they do not suffice; links of a content-addressed
  graph descend, and then the height of the graph suffices.
\<close>

section \<open>Verification\<close>

record 'c PinStatus =
  st_Ok :: bool
  st_BadNodes :: "('c \<times> string) list"

record 'c verify_env =
  v_validate :: "'c \<Rightarrow> string option"
  v_getLinks :: "'c \<Rightarrow> (string, 'c list) result"

record pinVerifyOpts =
  explain :: bool
  includeOk :: bool

type_synonym 'c visited = "'c \<rightharpoonup> 'c PinStatus"

text \<open>The status of a node that is invalid or cannot be read.\<close>

definition broken_status :: "pinVerifyOpts \<Rightarrow> 'c \<Rightarrow> string \<Rightarrow> 'c PinStatus" where
  "broken_status opts c e = \<lparr>st_Ok = False, st_BadNodes = (if explain opts then [(c, e)] else [])\<rparr>"

text \<open>The loop over the links of a node, with the call of \<open>checkPin\<close> as an argument.\<close>

fun check_links :: "('c \<Rightarrow> 'c visited \<Rightarrow> ('c visited \<times> 'c PinStatus) option) \<Rightarrow> 'c list \<Rightarrow> 'c visited \<Rightarrow> 'c PinStatus
    \<Rightarrow> ('c visited \<times> 'c PinStatus) option" where
  "check_links chk [] v st = Some (v, st)"
| "check_links chk (l # ls) v st = (case chk l v of
     None \<Rightarrow> None
   | Some (v', res) \<Rightarrow> check_links chk ls v'
       (if st_Ok res then st else \<lparr>st_Ok = False, st_BadNodes = st_BadNodes st @ st_BadNodes res\<rparr>))"

fun checkPin :: "nat \<Rightarrow> 'c verify_env \<Rightarrow> pinVerifyOpts \<Rightarrow> 'c \<Rightarrow> 'c visited \<Rightarrow> ('c visited \<times> 'c PinStatus) option" where
  "checkPin 0 env opts root v = None"
| "checkPin (Suc n) env opts root v = (case v root of
     Some status \<Rightarrow> Some (v, status)
   | None \<Rightarrow> (case v_validate env root of
       Some e \<Rightarrow> Some (v(root \<mapsto> broken_status opts root e), broken_status opts root e)
     | None \<Rightarrow> (case v_getLinks env root of
         Inl e \<Rightarrow> Some (v(root \<mapsto> broken_status opts root e), broken_status opts root e)
       | Inr links \<Rightarrow> (case check_links (checkPin n env opts) links v \<lparr>st_Ok = True, st_BadNodes = []\<rparr> of
           None \<Rightarrow> None
         | Some (v', status) \<Rightarrow> Some (v'(root \<mapsto> status), status)))))"

text \<open>The goroutine: the results for the recursive pins in order, up to the cancellation after \<open>sends\<close> of them.\<close>

fun verify_loop :: "nat \<Rightarrow> 'c verify_env \<Rightarrow> pinVerifyOpts \<Rightarrow> nat option \<Rightarrow> 'c list \<Rightarrow> 'c visited
    \<Rightarrow> ('c \<times> 'c PinStatus) list option" where
  "verify_loop n env opts sends [] v = Some []"
| "verify_loop n env opts sends (c # cs) v = (case checkPin n env opts c v of
     None \<Rightarrow> None
   | Some (v', st) \<Rightarrow>
       if \<not> st_Ok st \<or> includeOk opts then
         (if sends = Some 0 then Some []
          else map_option (\<lambda>out. (c, st) # out) (verify_loop n env opts (map_option (\<lambda>k. k - 1) sends) cs v'))
       else verify_loop n env opts sends cs v')"

definition pinVerify :: "nat \<Rightarrow> 'c verify_env \<Rightarrow> pinVerifyOpts \<Rightarrow> nat option \<Rightarrow> (string, 'c list) result
    \<Rightarrow> (string, ('c \<times> 'c PinStatus) list option) result" where
  "pinVerify n env opts sends recPins = (case recPins of
     Inl e \<Rightarrow> Inl e | Inr cs \<Rightarrow> Inr (verify_loop n env opts sends cs Map.empty))"

text \<open>\<open>Verify\<close> of the API does not validate cids, always explains, reports every pin and cannot be cancelled.\<close>

definition Verify :: "nat \<Rightarrow> ('c \<Rightarrow> (string, 'c list) result) \<Rightarrow> (string, 'c list) result
    \<Rightarrow> (string, ('c \<times> 'c PinStatus) list option) result" where
  "Verify n getLinks recPins =
    pinVerify n \<lparr>v_validate = (\<lambda>_. None), v_getLinks = getLinks\<rparr> \<lparr>explain = True, includeOk = True\<rparr> None recPins"

definition verify_lines :: "('c \<Rightarrow> string) \<Rightarrow> 'c \<times> 'c PinStatus \<Rightarrow> string list" where
  "verify_lines enc r = (if st_Ok (snd r) then [enc (fst r) @ '' ok'']
     else (enc (fst r) @ '' broken'') # map (\<lambda>(c, e). ''  '' @ enc c @ '': '' @ e) (st_BadNodes (snd r)))"

definition verifyPinCmd :: "nat \<Rightarrow> 'c verify_env \<Rightarrow> bool \<Rightarrow> bool \<Rightarrow> nat option \<Rightarrow> (string, 'c list) result
    \<Rightarrow> (string, ('c \<times> 'c PinStatus) list option) result" where
  "verifyPinCmd n env verbose quiet sends recPins =
    (if verbose \<and> quiet then Inl ''the --verbose and --quiet options can not be used at the same time''
     else pinVerify n env \<lparr>explain = \<not> quiet, includeOk = verbose\<rparr> sends recPins)"

section \<open>What verification should find\<close>

text \<open>The error of a node itself, and the nodes below a node, through readable ones.\<close>

definition node_error :: "'c verify_env \<Rightarrow> 'c \<Rightarrow> string option" where
  "node_error env c = (case v_validate env c of
     Some e \<Rightarrow> Some e | None \<Rightarrow> (case v_getLinks env c of Inl e \<Rightarrow> Some e | Inr _ \<Rightarrow> None))"

definition node_links :: "'c verify_env \<Rightarrow> 'c \<Rightarrow> 'c list" where
  "node_links env c = (if node_error env c = None then (case v_getLinks env c of Inl _ \<Rightarrow> [] | Inr ls \<Rightarrow> ls) else [])"

inductive below :: "'c verify_env \<Rightarrow> 'c \<Rightarrow> 'c \<Rightarrow> bool" for env where
  below_refl: "below env c c"
| below_link: "l \<in> set (node_links env c) \<Longrightarrow> below env l d \<Longrightarrow> below env c d"

inductive_cases below_cases: "below env c d"

definition complete :: "'c verify_env \<Rightarrow> 'c \<Rightarrow> bool" where
  "complete env c \<longleftrightarrow> (\<forall>d. below env c d \<longrightarrow> node_error env d = None)"

definition bad_below :: "'c verify_env \<Rightarrow> 'c \<Rightarrow> ('c \<times> string) set" where
  "bad_below env c = {(d, e). below env c d \<and> node_error env d = Some e}"

definition descends :: "'c verify_env \<Rightarrow> ('c \<Rightarrow> nat) \<Rightarrow> bool" where
  "descends env height \<longleftrightarrow> (\<forall>c l. l \<in> set (node_links env c) \<longrightarrow> height l < height c)"

lemma below_iff: "below env c d \<longleftrightarrow> c = d \<or> (\<exists>l \<in> set (node_links env c). below env l d)"
  by (auto elim: below_cases intro: below.intros)

lemma complete_iff: "complete env c \<longleftrightarrow> node_error env c = None \<and> (\<forall>l \<in> set (node_links env c). complete env l)"
  unfolding complete_def by (subst below_iff) auto

lemma bad_below_iff:
  "bad_below env c = {(c, e) |e. node_error env c = Some e} \<union> (\<Union>l \<in> set (node_links env c). bad_below env l)"
  unfolding bad_below_def by (subst below_iff) auto

lemma bad_below_complete: "complete env c \<longleftrightarrow> bad_below env c = {}"
  by (auto simp: complete_def bad_below_def)

section \<open>Verification finds it\<close>

definition found :: "pinVerifyOpts \<Rightarrow> ('c \<times> string) set \<Rightarrow> ('c \<times> string) set" where
  "found opts bad = (if explain opts then bad else {})"

lemma found_simps [simp]: "found opts {} = {}" "found opts (a \<union> b) = found opts a \<union> found opts b"
  by (simp_all add: found_def)

definition verified :: "'c verify_env \<Rightarrow> pinVerifyOpts \<Rightarrow> 'c \<Rightarrow> 'c PinStatus \<Rightarrow> bool" where
  "verified env opts c st \<longleftrightarrow> (st_Ok st \<longleftrightarrow> complete env c) \<and> set (st_BadNodes st) = found opts (bad_below env c)"

definition visited_ok :: "'c verify_env \<Rightarrow> pinVerifyOpts \<Rightarrow> 'c visited \<Rightarrow> bool" where
  "visited_ok env opts v \<longleftrightarrow> (\<forall>c st. v c = Some st \<longrightarrow> verified env opts c st)"

lemma visited_ok_upd: "visited_ok env opts v \<Longrightarrow> verified env opts c st \<Longrightarrow> visited_ok env opts (v(c \<mapsto> st))"
  by (simp add: visited_ok_def)

definition finds :: "'c verify_env \<Rightarrow> pinVerifyOpts \<Rightarrow> 'c \<Rightarrow> 'c visited \<Rightarrow> ('c visited \<times> 'c PinStatus) option \<Rightarrow> bool" where
  "finds env opts c v r \<longleftrightarrow> (\<exists>v' st. r = Some (v', st) \<and> visited_ok env opts v' \<and> verified env opts c st)"

lemma check_links_finds:
  assumes "\<forall>l \<in> set ls. \<forall>v. visited_ok env opts v \<longrightarrow> finds env opts l v (chk l v)" and "visited_ok env opts v"
  shows "\<exists>v' st'. check_links chk ls v st = Some (v', st') \<and> visited_ok env opts v'
    \<and> (st_Ok st' \<longleftrightarrow> st_Ok st \<and> (\<forall>l \<in> set ls. complete env l))
    \<and> set (st_BadNodes st') = set (st_BadNodes st) \<union> found opts (\<Union>l \<in> set ls. bad_below env l)"
  using assms
proof (induction ls arbitrary: v st)
  case (Cons l ls)
  then obtain v1 res where 1: "chk l v = Some (v1, res)" "visited_ok env opts v1" "verified env opts l res"
    unfolding finds_def by force
  let ?st = "if st_Ok res then st else \<lparr>st_Ok = False, st_BadNodes = st_BadNodes st @ st_BadNodes res\<rparr>"
  obtain v' st' where 2: "check_links chk ls v1 ?st = Some (v', st')" "visited_ok env opts v'"
      "st_Ok st' \<longleftrightarrow> st_Ok ?st \<and> (\<forall>l \<in> set ls. complete env l)"
      "set (st_BadNodes st') = set (st_BadNodes ?st) \<union> found opts (\<Union>l \<in> set ls. bad_below env l)"
    using Cons.IH [of v1 ?st] Cons.prems(1) 1(2) by auto
  have "st_Ok res \<longleftrightarrow> bad_below env l = {}"
    using 1(3) by (simp add: verified_def bad_below_complete)
  then show ?case
    using 1 2 by (cases "st_Ok res") (auto simp: verified_def bad_below_complete)
qed simp

lemma broken_verified:
  assumes "node_error env c = Some e"
  shows "verified env opts c (broken_status opts c e)"
proof -
  have no: "node_links env c = []"
    using assms by (simp add: node_links_def)
  have "bad_below env c = {(c, e)}"
    by (subst bad_below_iff) (simp add: no assms)
  moreover have "\<not> complete env c"
    by (subst complete_iff) (simp add: assms)
  ultimately show ?thesis
    by (simp add: verified_def broken_status_def found_def)
qed

lemma checkPin_finds:
  assumes "descends env height" and "height c < n" and "visited_ok env opts v"
  shows "finds env opts c v (checkPin n env opts c v)"
  using assms
proof (induction n arbitrary: c v)
  case (Suc n)
  consider st where "v c = Some st" | e where "v c = None" "node_error env c = Some e"
    | "v c = None" "node_error env c = None"
    by fastforce
  then show ?case
  proof cases
    case 1
    then show ?thesis
      using Suc.prems(3) by (auto simp: finds_def visited_ok_def)
  next
    case 2
    then have "checkPin (Suc n) env opts c v = Some (v(c \<mapsto> broken_status opts c e), broken_status opts c e)"
      by (auto simp: node_error_def split: option.splits sum.splits)
    then show ?thesis
      using broken_verified [OF 2(2)] visited_ok_upd [OF Suc.prems(3)] by (simp add: finds_def)
  next
    case 3
    then have links: "v_validate env c = None" "v_getLinks env c = Inr (node_links env c)"
      by (auto simp: node_error_def node_links_def split: option.splits sum.splits)
    have "finds env opts l w (checkPin n env opts l w)" if "l \<in> set (node_links env c)" "visited_ok env opts w" for l w
    proof (rule Suc.IH [OF Suc.prems(1) _ that(2)])
      show "height l < n"
        using Suc.prems(1,2) that(1) unfolding descends_def by fastforce
    qed
    then obtain v' st' where r: "check_links (checkPin n env opts) (node_links env c) v \<lparr>st_Ok = True, st_BadNodes = []\<rparr> = Some (v', st')"
        "visited_ok env opts v'" "st_Ok st' \<longleftrightarrow> (\<forall>l \<in> set (node_links env c). complete env l)"
        "set (st_BadNodes st') = found opts (\<Union>l \<in> set (node_links env c). bad_below env l)"
      using check_links_finds [of "node_links env c" env opts "checkPin n env opts" v "\<lparr>st_Ok = True, st_BadNodes = []\<rparr>"] Suc.prems(3)
      by auto
    have "verified env opts c st'"
      unfolding verified_def using r(3,4) 3(2) by (subst complete_iff, subst bad_below_iff) simp
    then show ?thesis
      using r visited_ok_upd [OF r(2)] by (simp add: finds_def 3 links)
  qed
qed simp

lemma verify_loop_finds:
  assumes "descends env height" and "\<forall>c \<in> set cs. height c < n" and "visited_ok env opts v"
  shows "\<exists>out. verify_loop n env opts None cs v = Some out \<and> map fst out = filter (\<lambda>c. \<not> complete env c \<or> includeOk opts) cs
    \<and> list_all (\<lambda>r. verified env opts (fst r) (snd r)) out"
  using assms(2,3)
proof (induction cs arbitrary: v)
  case (Cons c cs)
  obtain v' st where 1: "checkPin n env opts c v = Some (v', st)" "visited_ok env opts v'" "verified env opts c st"
    using checkPin_finds [OF assms(1) _ Cons.prems(2), of c n] Cons.prems(1) by (auto simp: finds_def)
  then show ?case
    using Cons.IH [of v'] Cons.prems(1) by (auto simp: verified_def)
qed simp

text \<open>C2: pin verification terminates and is exact. If links descend in a height below the number of nested calls,
  verification of the recursive pins ends and, unless it is cancelled, reports exactly the pins that are
  broken (or all of them with \<open>--verbose\<close>), in order. A reported pin is ok if and only if every node below it
  can be read, and with an explanation the bad nodes named are exactly the unreadable ones below it,
  although each node is read only once.\<close>

theorem pin_verify_exact:
  assumes "descends env height" and "list_all (\<lambda>c. height c < n) pins"
  shows "\<exists>out. pinVerify n env opts None (Inr pins) = Inr (Some out)
    \<and> map fst out = filter (\<lambda>c. \<not> complete env c \<or> includeOk opts) pins
    \<and> list_all (\<lambda>(c, st). (st_Ok st \<longleftrightarrow> complete env c)
        \<and> set (st_BadNodes st) = (if explain opts then bad_below env c else {})) out"
  using verify_loop_finds [OF assms(1), of pins n opts Map.empty] assms(2)
  by (simp add: pinVerify_def visited_ok_def verified_def found_def list_all_iff case_prod_beta)

definition ex_verify_env :: "nat verify_env" where
  "ex_verify_env = \<lparr>v_validate = (\<lambda>_. None), v_getLinks = (\<lambda>c. if c = 0 then Inl ''missing'' else if c = 2 then Inr [1, 0] else Inr [])\<rparr>"

lemma ex_verify_links:
  "node_error ex_verify_env c = (if c = 0 then Some ''missing'' else None)"
  "node_links ex_verify_env c = (if c = 2 then [1, 0] else [])"
  by (simp_all add: node_links_def node_error_def ex_verify_env_def)

lemma ex_verify_descends: "descends ex_verify_env id"
  by (auto simp: descends_def ex_verify_links)

lemma ex_verify_complete: "complete ex_verify_env 1" "\<not> complete ex_verify_env 0" "\<not> complete ex_verify_env 2"
proof -
  show "complete ex_verify_env 1"
    by (subst complete_iff) (simp add: ex_verify_links)
  show no: "\<not> complete ex_verify_env 0"
    by (subst complete_iff) (simp add: ex_verify_links)
  show "\<not> complete ex_verify_env 2"
    by (subst complete_iff) (simp add: ex_verify_links no)
qed

theorem pin_verify_exact_witness:
  "\<exists>out. pinVerify 3 ex_verify_env \<lparr>explain = True, includeOk = False\<rparr> None (Inr [1, 2]) = Inr (Some out) \<and> map fst out = [2]"
proof -
  have "list_all (\<lambda>c. id c < 3) [1, 2 :: nat]"
    by simp
  from pin_verify_exact [OF ex_verify_descends this, of "\<lparr>explain = True, includeOk = False\<rparr>"] show ?thesis
    using ex_verify_complete by auto
qed

section \<open>Cycles and repetitions\<close>

lemma checkPin_finds_any:
  assumes "descends env height" and "\<forall>c \<in> set cs. height c < n" and "visited_ok env opts v"
  shows "\<exists>out. verify_loop n env opts sends cs v = Some out \<and> length out \<le> length cs"
  using assms(2,3)
proof (induction cs arbitrary: v sends)
  case (Cons c cs)
  obtain v' st where 1: "checkPin n env opts c v = Some (v', st)" "visited_ok env opts v'"
    using checkPin_finds [OF assms(1) _ Cons.prems(2), of c n] Cons.prems(1) by (auto simp: finds_def)
  have "\<exists>out. verify_loop n env opts s cs v' = Some out \<and> length out \<le> length cs" for s
    using Cons.IH [OF _ 1(2), of s] Cons.prems(1) by simp
  from this [of sends] this [of "map_option (\<lambda>k. k - 1) sends"] show ?case
    by (auto simp: 1(1))
qed simp

text \<open>Pin verification ends. If links descend, then for any options and any moment of cancellation a nesting depth
  above the heights of the pins suffices for all of them; more pins need no more depth. Without that
  there is no such depth: the test for visited nodes does not stop a cycle, because a node is only
  remembered when its links are done.\<close>

theorem pin_verify_terminates:
  assumes "descends env height" and "list_all (\<lambda>c. height c < n) pins"
  shows "\<exists>out. pinVerify n env opts sends (Inr pins) = Inr (Some out) \<and> length out \<le> length pins"
  using checkPin_finds_any [OF assms(1), of pins n opts Map.empty sends] assms(2)
  by (simp add: pinVerify_def visited_ok_def list_all_iff)

theorem pin_verify_terminates_witness:
  "\<exists>out. pinVerify 3 ex_verify_env \<lparr>explain = False, includeOk = True\<rparr> (Some 1) (Inr [2, 1, 0, 2]) = Inr (Some out)
    \<and> length out \<le> length [2, 1, 0, 2 :: nat]"
proof -
  have "list_all (\<lambda>c. id c < 3) [2, 1, 0, 2 :: nat]"
    by simp
  then show ?thesis
    by (rule pin_verify_terminates [OF ex_verify_descends])
qed

lemma cycle_never_ends:
  assumes "v_validate env c = None" and "v_getLinks env c = Inr (c # ls)" and "v c = None"
  shows "checkPin n env opts c v = None"
  by (induction n) (simp_all add: assms)

text \<open>
  A bad node is named once for every way to it. With two links from each level to the next there are
  exponentially many.
\<close>

definition ladder :: "nat verify_env" where
  "ladder = \<lparr>v_validate = (\<lambda>_. None), v_getLinks = (\<lambda>c. case c of 0 \<Rightarrow> Inl ''missing'' | Suc k \<Rightarrow> Inr [k, k])\<rparr>"

lemma ladder_links: "v_validate ladder c = None" "v_getLinks ladder 0 = Inl ''missing''" "v_getLinks ladder (Suc k) = Inr [k, k]"
  by (simp_all add: ladder_def)

lemma ladder_bad_nodes:
  assumes "explain opts" and "\<forall>c \<le> k. v c = None"
  shows "\<exists>v' st. checkPin (Suc k) ladder opts k v = Some (v', st) \<and> v' k = Some st \<and> \<not> st_Ok st
    \<and> length (st_BadNodes st) = 2 ^ k"
  using assms(2)
proof (induction k arbitrary: v)
  case 0
  then show ?case by (simp add: ladder_links broken_status_def assms(1))
next
  case (Suc k)
  have "\<forall>c \<le> k. v c = None"
    using Suc.prems by simp
  from Suc.IH [OF this] obtain v1 st where 1: "checkPin (Suc k) ladder opts k v = Some (v1, st)" "v1 k = Some st"
      "\<not> st_Ok st" "length (st_BadNodes st) = 2 ^ k"
    by blast
  have 2: "checkPin (Suc k) ladder opts k v1 = Some (v1, st)"
    using 1(2) by simp
  have "checkPin (Suc (Suc k)) ladder opts (Suc k) v =
      Some (v1(Suc k \<mapsto> \<lparr>st_Ok = False, st_BadNodes = st_BadNodes st @ st_BadNodes st\<rparr>),
        \<lparr>st_Ok = False, st_BadNodes = st_BadNodes st @ st_BadNodes st\<rparr>)"
    using Suc.prems 1(1,3) 2 by (subst checkPin.simps(2)) (simp add: ladder_links del: checkPin.simps)
  then show ?case
    using 1(4) by simp
qed

section \<open>Listing pins\<close>

text \<open>
  \<open>ls_walk visited root\<close> is the concurrent walk below a root with the set of visited keys, which it extends;
  \<open>ls_keys\<close> is the order in which the keys of a set come. \<open>RecursiveKeys\<close> is called up to two times.
\<close>

record 'c ls_env =
  ls_recursive :: "(string, 'c list) result"
  ls_recursive2 :: "(string, 'c list) result"
  ls_direct :: "(string, 'c list) result"
  ls_walk :: "'c set \<Rightarrow> 'c \<Rightarrow> (string, 'c set) result"
  ls_keys :: "'c set \<Rightarrow> 'c list"

datatype 'c pinInfo = PinOf string 'c | PinError string

text \<open>
  What the goroutine has sent, and the keys visited; \<open>cancel\<close> tells after how many pins the context is done, if it is.
\<close>

fun AddToResultKeys :: "nat option \<Rightarrow> 'c list \<Rightarrow> string \<Rightarrow> 'c set \<times> 'c pinInfo list \<Rightarrow> ('c set \<times> 'c pinInfo list) \<times> string option" where
  "AddToResultKeys cancel [] typeStr s = (s, None)"
| "AddToResultKeys cancel (c # cs) typeStr (keys, out) =
    (if c \<in> keys then AddToResultKeys cancel cs typeStr (keys, out)
     else if cancel = Some (length out) then ((insert c keys, out), Some ''context canceled'')
     else AddToResultKeys cancel cs typeStr (insert c keys, out @ [PinOf typeStr c]))"

fun walk_pins :: "'c ls_env \<Rightarrow> 'c list \<Rightarrow> 'c set \<Rightarrow> (string, 'c set) result" where
  "walk_pins env [] seen = Inr seen"
| "walk_pins env (k # ks) seen = bind_ok (ls_walk env seen k) (walk_pins env ks)"

text \<open>A stage gets the keys to send or an error; an error is sent as the last value.\<close>

definition emit_stage :: "nat option \<Rightarrow> (string, 'c list) result \<Rightarrow> string \<Rightarrow> 'c set \<times> 'c pinInfo list
    \<Rightarrow> ('c set \<times> 'c pinInfo list) \<times> bool" where
  "emit_stage cancel ks typeStr s = (case ks of
     Inl e \<Rightarrow> ((fst s, snd s @ [PinError e]), False)
   | Inr cs \<Rightarrow> (case AddToResultKeys cancel cs typeStr s of
       ((keys, out), Some e) \<Rightarrow> ((keys, out @ [PinError e]), False)
     | (s', None) \<Rightarrow> (s', True)))"

definition indirect_keys :: "'c ls_env \<Rightarrow> (string, 'c list) result \<Rightarrow> (string, 'c list) result" where
  "indirect_keys env rkeys = bind_ok rkeys (\<lambda>ks. bind_ok (walk_pins env ks {}) (\<lambda>seen. Inr (ls_keys env seen)))"

definition api_pinLsAll :: "nat option \<Rightarrow> 'c ls_env \<Rightarrow> string \<Rightarrow> 'c pinInfo list" where
  "api_pinLsAll cancel env typeStr =
    (let (s1, go1) = (if typeStr = ''recursive'' \<or> typeStr = ''all'' then emit_stage cancel (ls_recursive env) ''recursive'' ({}, [])
                      else (({}, []), True));
         (s2, go2) = (if \<not> go1 then (s1, False)
                      else if typeStr = ''direct'' \<or> typeStr = ''all'' then emit_stage cancel (ls_direct env) ''direct'' s1 else (s1, True));
         (s3, go3) = (if \<not> go2 then (s2, False)
                      else if typeStr = ''all'' then emit_stage cancel (indirect_keys env (ls_recursive2 env)) ''indirect'' s2 else (s2, True))
     in if \<not> go3 then snd s3
        else if typeStr = ''indirect'' then
          (case ls_direct env of
             Inl e \<Rightarrow> snd s3 @ [PinError e]
           | Inr dkeys \<Rightarrow> (case ls_recursive env of
               Inl e \<Rightarrow> snd s3 @ [PinError e]
             | Inr rkeys \<Rightarrow> snd (fst (emit_stage cancel (indirect_keys env (Inr rkeys)) ''indirect''
                 (fst s3 \<union> set dkeys \<union> set rkeys, snd s3)))))
        else snd s3)"

definition valid_type :: "string \<Rightarrow> bool" where
  "valid_type t \<longleftrightarrow> t \<in> {''all'', ''direct'', ''indirect'', ''recursive''}"

definition pin_Ls :: "nat option \<Rightarrow> 'c ls_env \<Rightarrow> string \<Rightarrow> (string, 'c pinInfo list) result" where
  "pin_Ls cancel env typeStr =
    (if valid_type typeStr then Inr (api_pinLsAll cancel env typeStr)
     else Inl (''invalid type '' @ [CHR 0x27] @ typeStr @ [CHR 0x27] @ '', must be one of {direct, indirect, recursive, all}''))"

text \<open>
  The command: it stops at an error among the pins, but returns the variable \<open>err\<close> of the call before, which is nil.
  \<open>emit\<close> is the error of emitting the n-th pin.
\<close>

fun ls_emit :: "(nat \<Rightarrow> string option) \<Rightarrow> 'c pinInfo list \<Rightarrow> ('c \<times> string) list \<Rightarrow> ('c \<times> string) list \<times> string option" where
  "ls_emit emit [] acc = (acc, None)"
| "ls_emit emit (PinError e # ps) acc = (acc, None)"
| "ls_emit emit (PinOf t c # ps) acc = (case emit (length acc) of
     Some e \<Rightarrow> (acc, Some e) | None \<Rightarrow> ls_emit emit ps (acc @ [(c, t)]))"

definition cmd_pinLsAll :: "nat option \<Rightarrow> (nat \<Rightarrow> string option) \<Rightarrow> 'c ls_env \<Rightarrow> string \<Rightarrow> ('c \<times> string) list \<times> string option" where
  "cmd_pinLsAll cancel emit env typeStr = (case pin_Ls cancel env typeStr of
     Inl e \<Rightarrow> ([], Some e) | Inr pins \<Rightarrow> ls_emit emit pins [])"

section \<open>What is listed\<close>

fun fresh :: "'c set \<Rightarrow> 'c list \<Rightarrow> 'c list" where
  "fresh keys [] = []"
| "fresh keys (c # cs) = (if c \<in> keys then fresh keys cs else c # fresh (insert c keys) cs)"

lemma fresh_set: "set (fresh keys cs) = set cs - keys"
  by (induction cs arbitrary: keys) auto

lemma fresh_distinct: "distinct (fresh keys cs)"
  by (induction cs arbitrary: keys) (auto simp: fresh_set)

lemma AddToResultKeys_fresh:
  "AddToResultKeys None cs t (keys, out) = ((keys \<union> set cs, out @ map (PinOf t) (fresh keys cs)), None)"
  by (induction cs arbitrary: keys out) (auto simp: insert_absorb)

text \<open>
  The walk from a root adds what is below it to a set that is closed under going down; \<open>desc c\<close> is what is below \<open>c\<close>.
\<close>

definition walk_law :: "'c ls_env \<Rightarrow> ('c \<Rightarrow> 'c set) \<Rightarrow> bool" where
  "walk_law env desc \<longleftrightarrow> (\<forall>c. \<forall>d \<in> desc c. desc d \<subseteq> desc c)
     \<and> (\<forall>seen c. (\<forall>d \<in> seen. desc d \<subseteq> seen) \<longrightarrow> ls_walk env seen c = Inr (seen \<union> desc c))
     \<and> (\<forall>c. finite (desc c)) \<and> (\<forall>s. finite s \<longrightarrow> set (ls_keys env s) = s)"

lemma walk_lawD:
  assumes "walk_law env desc"
  shows "d \<in> desc c \<Longrightarrow> desc d \<subseteq> desc c" and "\<forall>d \<in> seen. desc d \<subseteq> seen \<Longrightarrow> ls_walk env seen c = Inr (seen \<union> desc c)"
    and "finite (desc c)" and "finite s \<Longrightarrow> set (ls_keys env s) = s"
  using assms by (simp_all add: walk_law_def)

lemma walk_pins_desc:
  assumes "walk_law env desc" and "\<forall>d \<in> seen. desc d \<subseteq> seen"
  shows "walk_pins env ks seen = Inr (seen \<union> (\<Union>k \<in> set ks. desc k))"
  using assms(2)
proof (induction ks arbitrary: seen)
  case (Cons k ks)
  have "ls_walk env seen k = Inr (seen \<union> desc k)"
    by (rule walk_lawD(2) [OF assms(1) Cons.prems])
  moreover have "\<forall>d \<in> seen \<union> desc k. desc d \<subseteq> seen \<union> desc k"
  proof
    fix d assume "d \<in> seen \<union> desc k"
    then show "desc d \<subseteq> seen \<union> desc k"
      using Cons.prems walk_lawD(1) [OF assms(1), of d k] by auto
  qed
  ultimately show ?case
    using Cons.IH by (simp add: Un_assoc)
qed simp

lemma indirect_keys_desc:
  assumes "walk_law env desc"
  shows "\<exists>ks. indirect_keys env (Inr rs) = Inr ks \<and> set ks = (\<Union>r \<in> set rs. desc r)"
proof -
  have "finite (\<Union>r \<in> set rs. desc r)"
    using walk_lawD(3) [OF assms] by simp
  then show ?thesis
    using walk_pins_desc [OF assms, of "{}" rs] walk_lawD(4) [OF assms] by (simp add: indirect_keys_def)
qed

text \<open>Listing pins partitions them. Without errors, listing all pins names every pinned object once, as recursive if it
  is, else as direct if it is, else as indirect if it is below a recursive pin; and listing the indirect ones alone
  names exactly those that the full list calls indirect.\<close>

theorem pin_ls_partition:
  assumes "walk_law env desc" and "ls_recursive env = Inr rs" and "ls_recursive2 env = Inr rs" and "ls_direct env = Inr ds"
  shows "distinct (api_pinLsAll None env ''all'')
    \<and> set (api_pinLsAll None env ''all'') = PinOf ''recursive'' ` set rs \<union> PinOf ''direct'' ` (set ds - set rs)
        \<union> PinOf ''indirect'' ` ((\<Union>r \<in> set rs. desc r) - set rs - set ds)
    \<and> set (api_pinLsAll None env ''indirect'') = PinOf ''indirect'' ` ((\<Union>r \<in> set rs. desc r) - set rs - set ds)"
proof -
  obtain ks where ks: "indirect_keys env (Inr rs) = Inr ks" "set ks = (\<Union>r \<in> set rs. desc r)"
    using indirect_keys_desc [OF assms(1)] by blast
  have all: "api_pinLsAll None env ''all'' = map (PinOf ''recursive'') (fresh {} rs) @ map (PinOf ''direct'') (fresh (set rs) ds)
      @ map (PinOf ''indirect'') (fresh (set rs \<union> set ds) ks)"
    by (simp add: api_pinLsAll_def emit_stage_def AddToResultKeys_fresh assms(2-4) ks(1))
  have ind: "api_pinLsAll None env ''indirect'' = map (PinOf ''indirect'') (fresh (set ds \<union> set rs) ks)"
    by (simp add: api_pinLsAll_def emit_stage_def AddToResultKeys_fresh assms(2-4) ks(1))
  have "distinct (map (PinOf t) (fresh keys cs))" for t keys and cs :: "'a list"
    by (simp add: distinct_map fresh_distinct inj_on_def)
  then show ?thesis
    unfolding all ind by (auto simp: fresh_set ks(2))
qed

definition ex_ls_env :: "nat ls_env" where
  "ex_ls_env = \<lparr>ls_recursive = Inr [2], ls_recursive2 = Inr [2], ls_direct = Inr [1, 3],
     ls_walk = (\<lambda>seen c. Inr (seen \<union> {..< c})), ls_keys = sorted_list_of_set\<rparr>"

theorem pin_ls_partition_witness:
  "PinOf ''indirect'' 0 \<in> set (api_pinLsAll None ex_ls_env ''all'') \<and> PinOf ''direct'' 1 \<in> set (api_pinLsAll None ex_ls_env ''all'')
    \<and> PinOf ''indirect'' 1 \<notin> set (api_pinLsAll None ex_ls_env ''all'')"
proof -
  have law: "walk_law ex_ls_env (\<lambda>c. {..< c})"
    by (auto simp: walk_law_def ex_ls_env_def)
  have eq: "set (api_pinLsAll None ex_ls_env ''all'') = PinOf ''recursive'' ` set [2] \<union> PinOf ''direct'' ` (set [1, 3] - set [2])
      \<union> PinOf ''indirect'' ` ((\<Union>r \<in> set [2]. {..< r}) - set [2] - set [1, 3])"
    by (rule conjunct1 [OF conjunct2 [OF pin_ls_partition [OF law]]]) (simp_all add: ex_ls_env_def)
  show ?thesis
    unfolding eq by (simp add: image_iff) (rule exI [where x = 0], simp)
qed

text \<open>Listing hides errors. When the API fails while it lists pins, whether it cannot read the pins or cannot walk
  below one of them, the command ends without an error and with the pins listed so far.\<close>

theorem pin_ls_hides_errors:
  assumes "valid_type t" and "api_pinLsAll cancel env t = map (\<lambda>(c, ty). PinOf ty c) listed @ PinError e # rest" and "\<forall>n. emit n = None"
  shows "cmd_pinLsAll cancel emit env t = (listed, None)"
proof -
  have "ls_emit emit (map (\<lambda>(c, ty). PinOf ty c) listed @ PinError e # rest) acc = (acc @ listed, None)" for acc
    by (induction listed arbitrary: acc) (use assms(3) in auto)
  then show ?thesis
    using assms(1,2) by (simp add: cmd_pinLsAll_def pin_Ls_def)
qed

theorem pin_ls_hides_errors_witness:
  "cmd_pinLsAll None (\<lambda>_. None) (ex_ls_env\<lparr>ls_direct := Inl ''datastore closed''\<rparr>) ''all'' = ([(2, ''recursive'')], None)"
proof -
  have t: "valid_type ''all''"
    by (simp add: valid_type_def)
  have "api_pinLsAll None (ex_ls_env\<lparr>ls_direct := Inl ''datastore closed''\<rparr>) ''all''
      = map (\<lambda>(c, ty). PinOf ty c) [(2, ''recursive'')] @ PinError ''datastore closed'' # []"
    by (simp add: api_pinLsAll_def emit_stage_def ex_ls_env_def)
  from pin_ls_hides_errors [OF t this, of "\<lambda>_. None"] show ?thesis
    by simp
qed

section \<open>Adding, removing and updating pins\<close>

text \<open>
  The pinner is a parameter: each operation gives the new state or an error with the state it leaves.
  \<open>PinLock\<close> is held around the change and the flush, so an operation is atomic for the collector.
\<close>

record ('c, 's) pinner =
  pn_Pin :: "'c \<Rightarrow> bool \<Rightarrow> 's \<Rightarrow> 's \<times> string option"
  pn_Unpin :: "'c \<Rightarrow> bool \<Rightarrow> 's \<Rightarrow> 's \<times> string option"
  pn_Update :: "'c \<Rightarrow> 'c \<Rightarrow> bool \<Rightarrow> 's \<Rightarrow> 's \<times> string option"
  pn_Flush :: "'s \<Rightarrow> 's \<times> string option"
  pn_Provide :: "'c \<Rightarrow> string option"

definition then_flush :: "('c, 's) pinner \<Rightarrow> 's \<times> string option \<Rightarrow> 's \<times> string option" where
  "then_flush p r = (case r of (s, Some e) \<Rightarrow> (s, Some e) | (s, None) \<Rightarrow> pn_Flush p s)"

definition pin_Add_api :: "('c, 's) pinner \<Rightarrow> (string, 'c) result \<Rightarrow> bool \<Rightarrow> 's \<Rightarrow> 's \<times> string option" where
  "pin_Add_api p node recursive s = (case node of
     Inl e \<Rightarrow> (s, Some (''pin: '' @ e))
   | Inr c \<Rightarrow> (case pn_Pin p c recursive s of
       (s1, Some e) \<Rightarrow> (s1, Some (''pin: '' @ e))
     | (s1, None) \<Rightarrow> (case pn_Provide p c of Some e \<Rightarrow> (s1, Some e) | None \<Rightarrow> pn_Flush p s1)))"

definition pin_Rm_api :: "('c, 's) pinner \<Rightarrow> (string, 'c) result \<Rightarrow> bool \<Rightarrow> 's \<Rightarrow> 's \<times> string option" where
  "pin_Rm_api p rp recursive s = (case rp of
     Inl e \<Rightarrow> (s, Some e) | Inr c \<Rightarrow> then_flush p (pn_Unpin p c recursive s))"

definition pin_Update_api :: "('c, 's) pinner \<Rightarrow> (string, 'c) result \<Rightarrow> (string, 'c) result \<Rightarrow> bool \<Rightarrow> 's \<Rightarrow> 's \<times> string option" where
  "pin_Update_api p from to unpin s = (case from of
     Inl e \<Rightarrow> (s, Some e)
   | Inr f \<Rightarrow> (case to of Inl e \<Rightarrow> (s, Some e) | Inr t \<Rightarrow> then_flush p (pn_Update p f t unpin s)))"

text \<open>The loops of the commands over their arguments; \<open>resolve\<close> resolves a path, once here and once in the API.\<close>

fun pinAddMany :: "('c, 's) pinner \<Rightarrow> (string \<Rightarrow> (string, 'c) result) \<Rightarrow> bool \<Rightarrow> string list \<Rightarrow> 's \<Rightarrow> 's \<times> (string, 'c list) result" where
  "pinAddMany p resolve recursive [] s = (s, Inr [])"
| "pinAddMany p resolve recursive (b # bs) s = (case resolve b of
     Inl e \<Rightarrow> (s, Inl e)
   | Inr c \<Rightarrow> (case pin_Add_api p (Inr c) recursive s of
       (s1, Some e) \<Rightarrow> (s1, Inl e)
     | (s1, None) \<Rightarrow> (case pinAddMany p resolve recursive bs s1 of
         (s2, Inl e) \<Rightarrow> (s2, Inl e) | (s2, Inr cs) \<Rightarrow> (s2, Inr (c # cs)))))"

fun rmPinLoop :: "('c, 's) pinner \<Rightarrow> (string \<Rightarrow> (string, 'c) result) \<Rightarrow> bool \<Rightarrow> string list \<Rightarrow> 's \<Rightarrow> 's \<times> (string, 'c list) result" where
  "rmPinLoop p resolve recursive [] s = (s, Inr [])"
| "rmPinLoop p resolve recursive (b # bs) s = (case resolve b of
     Inl e \<Rightarrow> (s, Inl e)
   | Inr c \<Rightarrow> (case pin_Rm_api p (Inr c) recursive s of
       (s1, Some e) \<Rightarrow> (s1, Inl e)
     | (s1, None) \<Rightarrow> (case rmPinLoop p resolve recursive bs s1 of
         (s2, Inl e) \<Rightarrow> (s2, Inl e) | (s2, Inr cs) \<Rightarrow> (s2, Inr (c # cs)))))"

text \<open>
  \<open>pin ls\<close> with arguments. \<open>isPinned\<close> is the pinner's answer: the kind of pin, the word \<open>not pinned\<close>, or the cid
  through which the object is pinned.
\<close>

definition pin_type_text :: "string \<Rightarrow> string" where
  "pin_type_text t = (if t \<in> {''direct'', ''indirect'', ''recursive'', ''internal''} then t else ''indirect through '' @ t)"

fun pinLsKeys :: "('c \<Rightarrow> (string, string \<times> bool) result) \<Rightarrow> (string \<Rightarrow> (string, 'c) result) \<Rightarrow> (nat \<Rightarrow> string option) \<Rightarrow> string list
    \<Rightarrow> ('c \<times> string) list \<Rightarrow> ('c \<times> string) list \<times> string option" where
  "pinLsKeys isPinned resolve emit [] acc = (acc, None)"
| "pinLsKeys isPinned resolve emit (p # ps) acc = (case resolve p of
     Inl e \<Rightarrow> (acc, Some e)
   | Inr c \<Rightarrow> (case isPinned c of
       Inl e \<Rightarrow> (acc, Some e)
     | Inr (t, pinned) \<Rightarrow>
         if \<not> pinned then (acc, Some (''path '' @ [CHR 0x27] @ p @ [CHR 0x27] @ '' is not pinned''))
         else (case emit (length acc) of
             Some e \<Rightarrow> (acc, Some e)
           | None \<Rightarrow> pinLsKeys isPinned resolve emit ps (acc @ [(c, pin_type_text t)]))))"

text \<open>Adding many pins is not atomic: an error leaves the pins added before it in place.\<close>

lemma pinAddMany_partial:
  assumes "resolve a = Inr c" and "pin_Add_api p (Inr c) r s = (s1, None)" and "resolve b = Inl e"
  shows "pinAddMany p resolve r (a # b # bs) s = (s1, Inl e)"
  by (simp add: assms)

end
