(* ===== verification/ConfigCmd.thy ===== *)
theory ConfigCmd
  imports FSRepo
begin

text \<open>
  The configuration commands, \<open>src/core/commands/config.go\<close>, on top of the repository.

  \<open>strings.ToLower\<close> is the argument \<open>lower\<close>; only its values on ASCII texts matter. Go visits a map in any
  order, so looking for a key without regard to case gets the order as an argument. Decoding JSON from a
  request, the profiles and copying the configuration file to a backup are parameters.
\<close>

section \<open>Removing the private key\<close>

datatype scrub_error = EFindKey | ECaseMismatch string string | ENotMap string | EKeyNotFound "string list" | EScrubPanic

definition find_fold :: "(string \<Rightarrow> string) \<Rightarrow> ((string \<times> json) list \<Rightarrow> (string \<times> json) list) \<Rightarrow> (string \<times> json) list \<Rightarrow> string
    \<Rightarrow> (string \<times> json) option" where
  "find_fold lower ord m k = find (\<lambda>kv. lower k = lower (fst kv)) (ord m)"

fun scrub_at :: "(string \<Rightarrow> string) \<Rightarrow> ((string \<times> json) list \<Rightarrow> (string \<times> json) list) \<Rightarrow> string list \<Rightarrow> string list
    \<Rightarrow> (string \<times> json) list \<Rightarrow> (scrub_error, (string \<times> json) list) result" where
  "scrub_at lower ord key [] cur = Inl EScrubPanic"
| "scrub_at lower ord key [k] cur = (case find_fold lower ord cur k of
     None \<Rightarrow> Inl (EKeyNotFound key)
   | Some (todel, _) \<Rightarrow> Inr (filter (\<lambda>kv. fst kv \<noteq> todel) cur))"
| "scrub_at lower ord key (k # k2 # ks) cur = (case find_fold lower ord cur k of
     None \<Rightarrow> Inl EFindKey
   | Some (foundk, val) \<Rightarrow>
       if foundk \<noteq> k then Inl (ECaseMismatch k foundk)
       else (case val of
           JObj mval \<Rightarrow> bind_ok (scrub_at lower ord key (k2 # ks) mval) (\<lambda>m. Inr (AList.update k (JObj m) cur))
         | _ \<Rightarrow> Inl (ENotMap foundk)))"

definition scrubValue :: "(string \<Rightarrow> string) \<Rightarrow> ((string \<times> json) list \<Rightarrow> (string \<times> json) list) \<Rightarrow> (string \<times> json) list \<Rightarrow> string list
    \<Rightarrow> (scrub_error, (string \<times> json) list) result" where
  "scrubValue lower ord m key = scrub_at lower ord key key m"

definition privKeyPath :: "string list" where
  "privKeyPath = [''Identity'', ''PrivKey'']"

section \<open>Commands\<close>

datatype cmd_error = CRepo repo_error | CScrub scrub_error | CText string | CGet repo_error | CSet repo_error

definition getConfig :: "io \<Rightarrow> string \<Rightarrow> ('i, 'd) FSRepo \<Rightarrow> 'd repo_dir \<Rightarrow> (cmd_error, json) result" where
  "getConfig f key r d = (case GetConfigKey f key r d of Inl e \<Rightarrow> Inl (CGet e) | Inr v \<Rightarrow> Inr v)"

definition setConfig :: "('i, 'x, 'd) repo_env \<Rightarrow> io \<Rightarrow> string \<Rightarrow> json \<Rightarrow> ('i, 'd) FSRepo \<Rightarrow> 'd repo_dir
    \<Rightarrow> ('i, 'd) FSRepo \<times> 'd repo_dir \<times> (cmd_error, json) result" where
  "setConfig env f key val r d = (case SetConfigKey env f f key val r d of
     (r1, d1, Some e) \<Rightarrow> (r1, d1, Inl (CSet e)) | (r1, d1, None) \<Rightarrow> (r1, d1, getConfig f key r1 d1))"

text \<open>A value given on the command line: with \<open>--json\<close> what decoding gives, with \<open>--bool\<close> a comparison, else the text.\<close>

definition config_value :: "(string \<Rightarrow> (string, json) result) \<Rightarrow> bool \<Rightarrow> bool \<Rightarrow> string \<Rightarrow> (cmd_error, json) result" where
  "config_value unmarshal parseJSON isbool val =
    (if parseJSON then (case unmarshal val of Inl e \<Rightarrow> Inl (CText (''failed to unmarshal json. '' @ e)) | Inr v \<Rightarrow> Inr v)
     else if isbool then Inr (JBool (val = ''true'')) else Inr (JStr val))"

definition guarded_key :: "(string \<Rightarrow> string) \<Rightarrow> string \<Rightarrow> bool" where
  "guarded_key lower key \<longleftrightarrow> lower key = ''identity'' \<or> lower key = ''identity.privkey''"

definition ConfigCmd :: "(string \<Rightarrow> string) \<Rightarrow> (string \<Rightarrow> (string, json) result) \<Rightarrow> ('i, 'x, 'd) repo_env \<Rightarrow> io \<Rightarrow> bool \<Rightarrow> bool
    \<Rightarrow> string \<Rightarrow> string option \<Rightarrow> ('i, 'd) FSRepo \<Rightarrow> 'd repo_dir \<Rightarrow> ('i, 'd) FSRepo \<times> 'd repo_dir \<times> (cmd_error, json) result" where
  "ConfigCmd lower unmarshal env f parseJSON isbool key value r d =
    (if guarded_key lower key then (r, d, Inl (CText ''cannot show or change private key through API''))
     else case value of
       None \<Rightarrow> (r, d, getConfig f key r d)
     | Some val \<Rightarrow> (case config_value unmarshal parseJSON isbool val of
         Inl e \<Rightarrow> (r, d, Inl e) | Inr v \<Rightarrow> setConfig env f key v r d))"

definition configShowCmd :: "(string \<Rightarrow> string) \<Rightarrow> ((string \<times> json) list \<Rightarrow> (string \<times> json) list) \<Rightarrow> io \<Rightarrow> 'd repo_dir
    \<Rightarrow> (cmd_error, (string \<times> json) list) result" where
  "configShowCmd lower ord f d = (case read_map f d of
     Inl e \<Rightarrow> Inl (CRepo e)
   | Inr cfg \<Rightarrow> (case scrubValue lower ord (nil_map cfg) privKeyPath of Inl e \<Rightarrow> Inl (CScrub e) | Inr m \<Rightarrow> Inr m))"

text \<open>\<open>cfgMap\<close> is the IPFS configuration as a map, which has the identity at its top.\<close>

definition scrubPrivKey :: "(string \<Rightarrow> string) \<Rightarrow> ((string \<times> json) list \<Rightarrow> (string \<times> json) list) \<Rightarrow> ('i \<Rightarrow> (string \<times> json) list) \<Rightarrow> 'i
    \<Rightarrow> (scrub_error, (string \<times> json) list) result" where
  "scrubPrivKey lower ord cfgMap cfg = scrubValue lower ord (cfgMap cfg) privKeyPath"

text \<open>\<open>backup\<close> is the error of \<open>BackupConfig\<close>.\<close>

definition transformConfig :: "('i, 'x, 'd) repo_env \<Rightarrow> io \<Rightarrow> ('i option \<Rightarrow> (string, 'i) result) \<Rightarrow> ('i \<Rightarrow> (string, 'i) result) \<Rightarrow> string option \<Rightarrow> bool
    \<Rightarrow> ('i, 'd) FSRepo \<Rightarrow> 'd repo_dir \<Rightarrow> ('i, 'd) FSRepo \<times> 'd repo_dir \<times> (cmd_error, 'i option \<times> 'i) result" where
  "transformConfig env f clone transformer backup dryRun r d =
    (if r_closed r then (r, d, Inl (CRepo EClosedRepo))
     else let oldCfg = IPFS (r_config r) in
       (case clone oldCfg of
         Inl e \<Rightarrow> (r, d, Inl (CText e))
       | Inr c \<Rightarrow> (case transformer c of
           Inl e \<Rightarrow> (r, d, Inl (CText e))
         | Inr newCfg \<Rightarrow>
             if dryRun then (r, d, Inr (oldCfg, newCfg))
             else (case backup of
                 Some e \<Rightarrow> (r, d, Inl (CText e))
               | None \<Rightarrow> (case SetIPFSConfig env f (Some newCfg) r d of
                   (r1, d1, Some e) \<Rightarrow> (r1, d1, Inl (CRepo e)) | (r1, d1, None) \<Rightarrow> (r1, d1, Inr (oldCfg, newCfg)))))))"

text \<open>\<open>decoded\<close> is the configuration in the file; \<open>privKey\<close> and \<open>setPrivKey\<close> read and set its private key.\<close>

definition replaceConfig :: "('i, 'x, 'd) repo_env \<Rightarrow> io \<Rightarrow> (string, 'i) result \<Rightarrow> ('i \<Rightarrow> string) \<Rightarrow> (string \<Rightarrow> 'i \<Rightarrow> 'i)
    \<Rightarrow> ('i, 'd) FSRepo \<Rightarrow> 'd repo_dir \<Rightarrow> ('i, 'd) FSRepo \<times> 'd repo_dir \<times> cmd_error option" where
  "replaceConfig env f decoded privKey setPrivKey r d = (case decoded of
     Inl _ \<Rightarrow> (r, d, Some (CText ''failed to decode file as config''))
   | Inr cfg \<Rightarrow>
       if privKey cfg \<noteq> [] then (r, d, Some (CText ''setting private key with API is not supported''))
       else (case getConfig f (re_privKeySelector env) r d of
           Inl _ \<Rightarrow> (r, d, Some (CText ''failed to get PrivKey''))
         | Inr (JStr pkstr) \<Rightarrow> (case SetIPFSConfig env f (Some (setPrivKey pkstr cfg)) r d of
             (r1, d1, e) \<Rightarrow> (r1, d1, map_option CRepo e))
         | Inr _ \<Rightarrow> (r, d, Some (CText ''private key in config was not a string''))))"

section \<open>The private key is removed from a flat configuration\<close>

definition fold_distinct :: "(string \<Rightarrow> string) \<Rightarrow> (string \<times> json) list \<Rightarrow> bool" where
  "fold_distinct lower m \<longleftrightarrow> distinct (map (\<lambda>kv. lower (fst kv)) m)"

lemma find_fold_Some:
  assumes "mset (ord m) = mset m" and "find_fold lower ord m k = Some (k', v)"
  shows "(k', v) \<in> set m \<and> lower k' = lower k"
proof -
  have "(k', v) \<in> set (ord m) \<and> lower k = lower k'"
    using assms(2) unfolding find_fold_def by (auto dest: find_SomeD)
  then show ?thesis
    using mset_eq_setD [OF assms(1)] by simp
qed

lemma scrub_last:
  assumes "mset (ord m) = mset m" and "fold_distinct lower m" and "scrub_at lower ord key [k] m = Inr m'"
  shows "\<forall>kv \<in> set m'. lower (fst kv) \<noteq> lower k"
proof -
  obtain k' v where f: "find_fold lower ord m k = Some (k', v)" and m': "m' = filter (\<lambda>kv. fst kv \<noteq> k') m"
    using assms(3) by (auto split: option.splits)
  have "(k', v) \<in> set m" "lower k' = lower k"
    using find_fold_Some [OF assms(1) f] by simp_all
  then have "fst kv = k'" if "kv \<in> set m" "lower (fst kv) = lower k" for kv
    using assms(2) that unfolding fold_distinct_def distinct_map inj_on_def by fastforce
  then show ?thesis
    by (auto simp: m')
qed

lemma fold_distinct_map_of:
  assumes "fold_distinct lower m" and "(k, v) \<in> set m"
  shows "map_of m k = Some v"
proof -
  have "distinct (map fst m)"
    using assms(1) unfolding fold_distinct_def distinct_map inj_on_def by metis
  then show ?thesis
    using assms(2) by simp
qed

text \<open>Showing the configuration leaves out the private key. When the keys of the file differ even without regard to
  case, what \<open>config show\<close> prints has no field of the identity that is called like the private key in any
  case, and every other field of the file is printed as it is.\<close>

theorem config_show_scrubs:
  assumes "\<forall>xs. mset (ord xs) = mset xs" and "read_map f d = Inr (Some m)"
    and "fold_distinct lower m" and "\<forall>im. (''Identity'', JObj im) \<in> set m \<longrightarrow> fold_distinct lower im"
    and "configShowCmd lower ord f d = Inr out"
  shows "\<exists>im. map_of out ''Identity'' = Some (JObj im) \<and> (\<forall>kv \<in> set im. lower (fst kv) \<noteq> lower ''PrivKey'')
    \<and> (\<forall>k. k \<noteq> ''Identity'' \<longrightarrow> map_of out k = map_of m k)"
proof -
  have sc: "scrub_at lower ord privKeyPath [''Identity'', ''PrivKey''] m = Inr out"
    using assms(2,5) by (auto simp: configShowCmd_def scrubValue_def nil_map_def privKeyPath_def split: sum.splits)
  then obtain k' val where f: "find_fold lower ord m ''Identity'' = Some (k', val)"
    by (cases "find_fold lower ord m ''Identity''") auto
  with sc have k': "k' = ''Identity''"
    by (cases "k' = ''Identity''") simp_all
  from sc f k' obtain sub im where "val = JObj sub" and im: "scrub_at lower ord privKeyPath [''PrivKey''] sub = Inr im"
    and out: "out = AList.update ''Identity'' (JObj im) m"
    by (cases val) (auto simp: bind_ok_Inr simp del: scrub_at.simps(2))
  then have "(''Identity'', JObj sub) \<in> set m"
    using find_fold_Some [OF assms(1) [rule_format] f] k' by simp
  then have "\<forall>kv \<in> set im. lower (fst kv) \<noteq> lower ''PrivKey''"
    using scrub_last [OF assms(1) [rule_format] _ im] assms(4) by blast
  then show ?thesis
    by (simp add: out update_conv)
qed

definition ex_shown :: "nat repo_dir" where
  "ex_shown = empty_repo_dir\<lparr>d_config := Some (JObj [(''Identity'', JObj [(''PeerID'', JStr ''p''), (''PrivKey'', JStr ''k'')]), (''Link'', JNull)])\<rparr>"

theorem config_show_scrubs_witness:
  "\<exists>out im. configShowCmd to_lower (\<lambda>m. m) no_faults_io ex_shown = Inr out \<and> map_of out ''Identity'' = Some (JObj im)
    \<and> (\<forall>kv \<in> set im. to_lower (fst kv) \<noteq> to_lower ''PrivKey'')"
proof -
  let ?m = "[(''Identity'', JObj [(''PeerID'', JStr ''p''), (''PrivKey'', JStr ''k'')]), (''Link'', JNull)]"
  have rd: "read_map no_faults_io ex_shown = Inr (Some ?m)"
    by (simp add: read_map_def read_json_def no_faults_io_def ex_shown_def)
  have "scrubValue to_lower (\<lambda>m. m) ?m privKeyPath = Inr [(''Identity'', JObj [(''PeerID'', JStr ''p'')]), (''Link'', JNull)]"
    by code_simp
  then have sh: "configShowCmd to_lower (\<lambda>m. m) no_faults_io ex_shown = Inr [(''Identity'', JObj [(''PeerID'', JStr ''p'')]), (''Link'', JNull)]"
    by (simp add: configShowCmd_def rd nil_map_def)
  have fd: "fold_distinct to_lower ?m" "fold_distinct to_lower [(''PeerID'', JStr ''p''), (''PrivKey'', JStr ''k'')]"
    by code_simp+
  have "\<exists>im. map_of [(''Identity'', JObj [(''PeerID'', JStr ''p'')]), (''Link'', JNull)] ''Identity'' = Some (JObj im)
      \<and> (\<forall>kv \<in> set im. to_lower (fst kv) \<noteq> to_lower ''PrivKey'')
      \<and> (\<forall>k. k \<noteq> ''Identity'' \<longrightarrow> map_of [(''Identity'', JObj [(''PeerID'', JStr ''p'')]), (''Link'', JNull)] k = map_of ?m k)"
    by (rule config_show_scrubs [OF _ rd fd(1) _ sh]) (use fd(2) in auto)
  then show ?thesis
    using sh by blast
qed

section \<open>The private key of a nested configuration\<close>

text \<open>
  The file that \<open>Init\<close> writes has the identity under \<open>IPFS\<close>. The guards look for it at the top.
\<close>

lemma get_parts_sofar: "get_parts so ps c = Inr v \<Longrightarrow> get_parts so' ps c = Inr v"
  using get_parts_ok by blast

lemma MapGetKV_nested:
  assumes "map_of m ''IPFS'' = Some (JObj im)" and "MapGetKV im key = Inr v"
  shows "MapGetKV m (''IPFS'' @ CHR ''.'' # key) = Inr v"
proof -
  have parts: "key_parts (''IPFS'' @ CHR ''.'' # key) = ''IPFS'' # key_parts key"
    unfolding key_parts_def by (subst split_all_append) (simp add: split_all_single)
  have "get_parts [''IPFS''] (key_parts key) (JObj im) = Inr v"
    by (rule get_parts_sofar [OF assms(2) [unfolded MapGetKV_def]])
  then show ?thesis
    unfolding MapGetKV_def parts by (simp add: assms(1))
qed

text \<open>The configuration command gives away the private key. In a repository made by \<open>Init\<close> the private key is under
  \<open>IPFS.Identity.PrivKey\<close>, which the guard of the command does not know: asked for that key, it answers with it.\<close>

theorem config_reveals_private_key:
  assumes "\<not> configIsInitialized g d" and "Init env g conf d = (d0, None)"
    and "IPFS conf = Some i" and "enc_ipfs (re_codec env) i = JObj im" and "MapGetKV im ''Identity.PrivKey'' = Inr pk"
    and "\<not> r_closed r"
  shows "ConfigCmd to_lower unmarshal env no_faults_io js bl ''IPFS.Identity.PrivKey'' None r d0 = (r, d0, Inr pk)"
proof -
  have c: "d_config d0 = Some (JObj (ToMap (re_codec env) conf))"
    by (rule Init_writes_config [OF assms(2,1)])
  then have "read_map no_faults_io d0 = Inr (Some (ToMap (re_codec env) conf))"
    by (simp add: read_map_def read_json_def no_faults_io_def)
  moreover have "MapGetKV (ToMap (re_codec env) conf) (''IPFS'' @ CHR ''.'' # ''Identity.PrivKey'') = Inr pk"
    by (rule MapGetKV_nested [OF _ assms(5)]) (simp add: ToMap_def nullable_def assms(3,4))
  moreover have "\<not> guarded_key to_lower ''IPFS.Identity.PrivKey''"
    by code_simp
  ultimately show ?thesis
    using assms(6) by (simp add: ConfigCmd_def getConfig_def GetConfigKey_def nil_map_def)
qed

text \<open>A codec that encodes the identity.\<close>

definition ex_key_env :: "(nat, nat, nat) repo_env" where
  "ex_key_env = ex_repo_env\<lparr>re_codec := ex_codec\<lparr>enc_ipfs := (\<lambda>_. JObj [(''Identity'', JObj [(''PrivKey'', JStr ''k'')])])\<rparr>\<rparr>"

theorem config_reveals_private_key_witness:
  "\<exists>d0. Init ex_key_env no_faults_io ex_conf empty_repo_dir = (d0, None)
    \<and> ConfigCmd to_lower Inl ex_key_env no_faults_io False False ''IPFS.Identity.PrivKey'' None ex_repo d0 = (ex_repo, d0, Inr (JStr ''k''))"
proof -
  have any: "AnyDatastoreConfig (re_ds ex_key_env) (re_reg ex_key_env)
      [(''type'', JStr ''flatfs''), (''path'', JStr ''blocks''), (''shardFunc'', JStr ''s''), (''sync'', JBool True)]
    = Inr (FlatfsC ''blocks'' ''s'' True)"
    using ex_any by (simp add: ex_key_env_def)
  have ini: "Init ex_key_env no_faults_io ex_conf empty_repo_dir =
      (new_dir ex_key_env ex_conf (FlatfsC ''blocks'' ''s'' True) empty_repo_dir, None)"
    by (rule Init_new [OF _ _ _ _ any, where ipfs = 0])
      (simp_all add: empty_repo_dir_def ex_conf_def ex_key_env_def ex_repo_env_def)
  have new: "\<not> configIsInitialized no_faults_io empty_repo_dir"
    by (simp add: configIsInitialized_def empty_repo_dir_def)
  have pk: "MapGetKV [(''Identity'', JObj [(''PrivKey'', JStr ''k'')])] ''Identity.PrivKey'' = Inr (JStr ''k'')"
    by code_simp
  have "IPFS ex_conf = Some 0" "enc_ipfs (re_codec ex_key_env) 0 = JObj [(''Identity'', JObj [(''PrivKey'', JStr ''k'')])]" "\<not> r_closed ex_repo"
    by (simp_all add: ex_conf_def ex_key_env_def ex_repo_def)
  from config_reveals_private_key [OF new ini this(1,2) pk this(3)] show ?thesis
    using ini by blast
qed

text \<open>Showing and replacing the configuration of such a repository fail, because they find no identity at the top.\<close>

lemma no_identity_find: "map_of m ''Identity'' = None \<Longrightarrow> MapGetKV m ''Identity.PrivKey'' = Inl (no_attributes [])"
proof -
  assume no: "map_of m ''Identity'' = None"
  have "key_parts ''Identity.PrivKey'' = [''Identity'', ''PrivKey'']"
    by code_simp
  with no show ?thesis
    by (simp add: MapGetKV_def)
qed

lemma config_replace_fails:
  assumes "no_identity d" and "re_privKeySelector env = ''Identity.PrivKey''"
  shows "\<exists>e. replaceConfig env f decoded privKey setPrivKey r d = (r, d, Some e)"
proof -
  obtain m where m: "d_config d = Some (JObj m)" "map_of m ''Identity'' = None"
    using assms(1) by (auto simp: no_identity_def)
  have "\<exists>e. getConfig f ''Identity.PrivKey'' r d = Inl e"
    using read_map_cases [OF m(1), of f] no_identity_find [OF m(2)]
    by (auto simp: getConfig_def GetConfigKey_def nil_map_def)
  then show ?thesis
    by (auto simp: replaceConfig_def assms(2) split: sum.splits)
qed

lemma config_show_fails:
  assumes "\<not> configIsInitialized g d" and "Init env g conf d = (d0, None)"
  shows "configShowCmd to_lower (\<lambda>m. m) no_faults_io d0 = Inl (CScrub EFindKey)"
proof -
  have "read_map no_faults_io d0 = Inr (Some (ToMap (re_codec env) conf))"
    using Init_writes_config [OF assms(2,1)] by (simp add: read_map_def read_json_def no_faults_io_def)
  moreover have "to_lower ''Identity'' \<noteq> to_lower ''IPFS''" "to_lower ''Identity'' \<noteq> to_lower ''Link''"
    by code_simp+
  ultimately show ?thesis
    by (simp add: configShowCmd_def scrubValue_def privKeyPath_def find_fold_def nil_map_def ToMap_def)
qed

end
