(* ===== verification/BootstrapCmd.thy ===== *)
theory BootstrapCmd
  imports Prelude "HOL-Library.Multiset"
begin

text \<open>
  The bootstrap list, \<open>src/core/commands/bootstrap.go\<close>, and bootstrapping with it, \<open>src/core/bootstrap/bootstrap.go\<close>.

  Multiaddresses, peer identities and the conversions between lists of addresses and lists of peers are
  parameters. The commands change the configuration that the repository hands out, which is the one
  it keeps, before they save it; the model keeps the list in memory and the list on disk apart.
\<close>

section \<open>The list\<close>

record bootstrap_cfg =
  b_mem :: "string list"
  b_disk :: "string list"

text \<open>Saving: \<open>err\<close> is the error of \<open>SetIPFSConfig\<close>.\<close>

definition save :: "string option \<Rightarrow> bootstrap_cfg \<Rightarrow> bootstrap_cfg \<times> string option" where
  "save err c = (case err of Some e \<Rightarrow> (c, Some e) | None \<Rightarrow> (c\<lparr>b_disk := b_mem c\<rparr>, None))"

text \<open>
  What checking an address finds: it does not parse, its last part is not a peer identity, there is nothing
  before that part, or it is fine.
\<close>

datatype addr_check = AParse string | ANotPeer | ANoTransport | AOk

fun check_addrs :: "(string \<Rightarrow> addr_check) \<Rightarrow> string list \<Rightarrow> string option" where
  "check_addrs chk [] = None"
| "check_addrs chk (p # ps) = (case chk p of
     AParse e \<Rightarrow> Some e
   | ANotPeer \<Rightarrow> Some (''invalid bootstrap address: '' @ p)
   | ANoTransport \<Rightarrow> Some (''bootstrap address without a transport: '' @ p)
   | AOk \<Rightarrow> check_addrs chk ps)"

text \<open>The two loops: append what is not yet in the set of added addresses.\<close>

fun add_new :: "string list \<Rightarrow> string set \<Rightarrow> string list \<Rightarrow> string set \<times> string list" where
  "add_new [] addedMap acc = (addedMap, acc)"
| "add_new (s # ss) addedMap acc =
    (if s \<in> addedMap then add_new ss addedMap acc else add_new ss (insert s addedMap) (acc @ [s]))"

definition bootstrapAdd :: "(string \<Rightarrow> addr_check) \<Rightarrow> string option \<Rightarrow> string list \<Rightarrow> bootstrap_cfg \<Rightarrow> bootstrap_cfg \<times> (string, string list) result" where
  "bootstrapAdd chk err peers c = (case check_addrs chk peers of
     Some e \<Rightarrow> (c, Inl e)
   | None \<Rightarrow>
       let (addedMap, addedList) = add_new peers {} [];
           (_, all) = add_new (b_mem c) addedMap addedList
       in (case save err (c\<lparr>b_mem := all\<rparr>) of
             (c1, Some e) \<Rightarrow> (c1, Inl e) | (c1, None) \<Rightarrow> (c1, Inr addedList)))"

type_synonym ('p, 'a) addr_info = "'p \<times> 'a list"

record ('p, 'a) boot_env =
  parsePeers :: "string list \<Rightarrow> (string, ('p, 'a) addr_info list) result"
  peerStrings :: "('p, 'a) addr_info list \<Rightarrow> string list"

text \<open>
  The loop over the peers of the list: what to keep and what is removed. A later entry of an identity to be
  removed replaces an earlier one.
\<close>

definition split_addrs :: "'a list \<Rightarrow> 'a list \<Rightarrow> 'a list \<times> 'a list" where
  "split_addrs addrs as = (filter (\<lambda>a. a \<notin> set addrs) as, filter (\<lambda>a. a \<in> set addrs) as)"

fun remove_loop :: "('p \<rightharpoonup> 'a list) \<Rightarrow> ('p, 'a) addr_info list \<Rightarrow> ('p, 'a) addr_info list \<Rightarrow> ('p, 'a) addr_info list
    \<Rightarrow> ('p, 'a) addr_info list \<times> ('p, 'a) addr_info list" where
  "remove_loop toRemove [] keep removed = (keep, removed)"
| "remove_loop toRemove (p # ps) keep removed = (case toRemove (fst p) of
     None \<Rightarrow> remove_loop toRemove ps (keep @ [p]) removed
   | Some addrs \<Rightarrow>
       if addrs = [] then remove_loop toRemove ps keep (removed @ [p])
       else let (kept, gone) = split_addrs addrs (snd p) in
         remove_loop toRemove ps (if kept \<noteq> [] then keep @ [(fst p, kept)] else keep)
           (if gone \<noteq> [] then removed @ [(fst p, gone)] else removed))"

definition bootstrapRemove :: "('p, 'a) boot_env \<Rightarrow> string option \<Rightarrow> string list \<Rightarrow> bootstrap_cfg \<Rightarrow> bootstrap_cfg \<times> (string, string list) result" where
  "bootstrapRemove env err toRemove c = (case parsePeers env toRemove of
     Inl e \<Rightarrow> (c, Inl e)
   | Inr rm \<Rightarrow> (case parsePeers env (b_mem c) of
       Inl e \<Rightarrow> (c, Inl e)
     | Inr peers \<Rightarrow>
         let (keep, removed) = remove_loop (map_of (rev rm)) peers [] []
         in (case save err (c\<lparr>b_mem := peerStrings env keep\<rparr>) of
               (c1, Some e) \<Rightarrow> (c1, Inl e) | (c1, None) \<Rightarrow> (c1, Inr (peerStrings env removed)))))"

definition bootstrapRemoveAll :: "('p, 'a) boot_env \<Rightarrow> string option \<Rightarrow> bootstrap_cfg \<Rightarrow> bootstrap_cfg \<times> (string, string list) result" where
  "bootstrapRemoveAll env err c = (case parsePeers env (b_mem c) of
     Inl e \<Rightarrow> (c, Inl e)
   | Inr removed \<Rightarrow> (case save err (c\<lparr>b_mem := []\<rparr>) of
       (c1, Some e) \<Rightarrow> (c1, Inl e) | (c1, None) \<Rightarrow> (c1, Inr (peerStrings env removed))))"

text \<open>The command \<open>bootstrap add\<close> with its option for the default addresses, which are none.\<close>

definition DefaultBootstrapAddresses :: "string list" where
  "DefaultBootstrapAddresses = []"

definition bootstrapAddCmd :: "(string \<Rightarrow> addr_check) \<Rightarrow> string option \<Rightarrow> bool \<Rightarrow> string list \<Rightarrow> bootstrap_cfg \<Rightarrow> bootstrap_cfg \<times> (string, string list) result" where
  "bootstrapAddCmd chk err deflt args c =
    (let inputPeers = (if deflt then DefaultBootstrapAddresses else args)
     in if inputPeers = [] then (c, Inl ''no bootstrap peers to add'') else bootstrapAdd chk err inputPeers c)"

section \<open>Adding and removing\<close>

definition firsts :: "string list \<Rightarrow> string list" where
  "firsts ss = rev (remdups (rev ss))"

lemma firsts_simps: "set (firsts ss) = set ss" "distinct (firsts ss)"
  by (simp_all add: firsts_def)

lemma firsts_snoc: "firsts (ss @ [s]) = (if s \<in> set ss then firsts ss else firsts ss @ [s])"
  by (simp add: firsts_def)

lemma add_new_firsts: "add_new ss (set done') (firsts done') = (set (done' @ ss), firsts (done' @ ss))"
proof (induction ss arbitrary: done')
  case (Cons s ss)
  have "add_new (s # ss) (set done') (firsts done') = add_new ss (set (done' @ [s])) (firsts (done' @ [s]))"
    by (auto simp: firsts_snoc insert_absorb)
  then show ?case
    using Cons.IH [of "done' @ [s]"] by simp
qed simp

lemma add_new_both: "add_new ss {} [] = (set ss, firsts ss)" "add_new ts (set ss) (firsts ss) = (set (ss @ ts), firsts (ss @ ts))"
  using add_new_firsts [of ss "[]"] add_new_firsts [of ts ss] by (simp_all add: firsts_def)

lemma check_addrs_None: "check_addrs chk ps = None \<longleftrightarrow> list_all (\<lambda>p. chk p = AOk) ps"
  by (induction ps) (auto split: addr_check.splits)

lemma firsts_append: "firsts (ss @ ts) = firsts ss @ filter (\<lambda>t. t \<notin> set ss) (firsts ts)"
proof (induction ts rule: rev_induct)
  case (snoc t ts)
  then show ?case
    using firsts_snoc [of "ss @ ts" t] by (auto simp: firsts_snoc firsts_simps)
qed (simp add: firsts_def)

text \<open>Adding to the bootstrap list. If all addresses are well formed and saving succeeds, the list in memory and on
  disk has every new and every old address once, first the new ones and then the old ones that are not among
  them, both in their order. The answer names all given addresses, also those that were in the list
  before. If an address is malformed, nothing changes.\<close>

theorem bootstrap_add_exact:
  "bootstrapAdd chk None peers c =
    (if list_all (\<lambda>p. chk p = AOk) peers
     then let all = firsts peers @ filter (\<lambda>t. t \<notin> set peers) (firsts (b_mem c)) in (c\<lparr>b_mem := all, b_disk := all\<rparr>, Inr (firsts peers))
     else (c, Inl (the (check_addrs chk peers))))"
proof (cases "check_addrs chk peers")
  case None
  then have "list_all (\<lambda>p. chk p = AOk) peers"
    by (simp add: check_addrs_None)
  then show ?thesis
    by (simp add: bootstrapAdd_def None add_new_both save_def firsts_append Let_def)
next
  case (Some e)
  then have "\<not> list_all (\<lambda>p. chk p = AOk) peers"
    by (simp flip: check_addrs_None)
  then show ?thesis
    by (simp add: bootstrapAdd_def Some)
qed

text \<open>A failed save leaves the changed list in memory, where the rest of the process sees it.\<close>

lemma bootstrap_add_unsaved:
  "check_addrs chk peers = None \<Longrightarrow>
    bootstrapAdd chk (Some e) peers c = (c\<lparr>b_mem := firsts (peers @ b_mem c)\<rparr>, Inl e)"
  by (simp add: bootstrapAdd_def add_new_both save_def)

text \<open>A list of peers as the list of its single addresses.\<close>

definition single_addrs :: "('p, 'a) addr_info list \<Rightarrow> ('p \<times> 'a) list" where
  "single_addrs ps = concat (map (\<lambda>p. map (Pair (fst p)) (snd p)) ps)"

definition to_go :: "('p \<rightharpoonup> 'a list) \<Rightarrow> 'p \<times> 'a \<Rightarrow> bool" where
  "to_go toRemove pa = (case toRemove (fst pa) of None \<Rightarrow> False | Some addrs \<Rightarrow> addrs = [] \<or> snd pa \<in> set addrs)"

lemma single_addrs_simps [simp]:
  "single_addrs [] = []" "single_addrs (p # ps) = map (Pair (fst p)) (snd p) @ single_addrs ps"
  "single_addrs (ps @ qs) = single_addrs ps @ single_addrs qs"
  by (simp_all add: single_addrs_def)

lemma remove_loop_single:
  assumes "remove_loop toRemove ps keep removed = (keep', removed')"
  shows "single_addrs keep' = single_addrs keep @ filter (\<lambda>pa. \<not> to_go toRemove pa) (single_addrs ps)
    \<and> single_addrs removed' = single_addrs removed @ filter (to_go toRemove) (single_addrs ps)"
  using assms
proof (induction ps arbitrary: keep removed)
  case (Cons p ps)
  consider "toRemove (fst p) = None" | "toRemove (fst p) = Some []"
    | a addrs where "toRemove (fst p) = Some (a # addrs)"
    by (cases "toRemove (fst p)"; cases "the (toRemove (fst p))") auto
  then show ?case
  proof cases
    case 1
    then show ?thesis
      using Cons.IH [of "keep @ [p]" removed] Cons.prems by (simp add: filter_map comp_def to_go_def)
  next
    case 2
    then show ?thesis
      using Cons.IH [of keep "removed @ [p]"] Cons.prems by (simp add: filter_map comp_def to_go_def)
  next
    case 3
    let ?kept = "filter (\<lambda>x. x \<notin> set (a # addrs)) (snd p)"
    let ?gone = "filter (\<lambda>x. x \<in> set (a # addrs)) (snd p)"
    let ?keep = "if ?kept \<noteq> [] then keep @ [(fst p, ?kept)] else keep"
    let ?removed = "if ?gone \<noteq> [] then removed @ [(fst p, ?gone)] else removed"
    have go: "filter (\<lambda>pa. \<not> to_go toRemove pa) (map (Pair (fst p)) (snd p)) = map (Pair (fst p)) ?kept"
        "filter (to_go toRemove) (map (Pair (fst p)) (snd p)) = map (Pair (fst p)) ?gone"
      using 3 by (simp_all add: filter_map comp_def to_go_def)
    have acc: "single_addrs ?keep = single_addrs keep @ map (Pair (fst p)) ?kept"
        "single_addrs ?removed = single_addrs removed @ map (Pair (fst p)) ?gone"
      by (cases "?kept = []"; simp) (cases "?gone = []"; simp)
    have "remove_loop toRemove ps ?keep ?removed = (keep', removed')"
      using Cons.prems 3 by (simp add: split_addrs_def Let_def cong: if_cong split del: if_split)
    from Cons.IH [OF this] show ?thesis
      unfolding acc by (simp add: go del: filter.simps)
  qed
qed simp

text \<open>Removing from the bootstrap list. If both lists parse and saving succeeds, every single address of the list is either
  kept or reported as removed, in order: removed are those whose peer is named without an address or whose
  peer is named with that address. The list on disk is what was kept.\<close>

theorem bootstrap_remove_exact:
  assumes "parsePeers env toRemove = Inr rm" and "parsePeers env (b_mem c) = Inr peers"
  shows "\<exists>keep removed. bootstrapRemove env None toRemove c
      = (c\<lparr>b_mem := peerStrings env keep, b_disk := peerStrings env keep\<rparr>, Inr (peerStrings env removed))
    \<and> single_addrs keep = filter (\<lambda>pa. \<not> to_go (map_of (rev rm)) pa) (single_addrs peers)
    \<and> single_addrs removed = filter (to_go (map_of (rev rm))) (single_addrs peers)"
proof -
  obtain keep removed where r: "remove_loop (map_of (rev rm)) peers [] [] = (keep, removed)"
    by fastforce
  then have "bootstrapRemove env None toRemove c
      = (c\<lparr>b_mem := peerStrings env keep, b_disk := peerStrings env keep\<rparr>, Inr (peerStrings env removed))"
    by (simp add: bootstrapRemove_def assms save_def)
  with remove_loop_single [OF r] show ?thesis
    by auto
qed

text \<open>Peers written as an identity with one-letter addresses.\<close>

definition ex_boot_env :: "(char, char) boot_env" where
  "ex_boot_env = \<lparr>parsePeers = (\<lambda>ss. Inr (map (\<lambda>s. (hd s, tl s)) ss)), peerStrings = map (\<lambda>p. fst p # snd p)\<rparr>"

theorem bootstrap_remove_exact_witness:
  "\<exists>c'. bootstrapRemove ex_boot_env None [''Aa'', ''C''] \<lparr>b_mem = [''Aab'', ''Bc'', ''Cd''], b_disk = []\<rparr> = (c', Inr [''Aa'', ''Cd''])
    \<and> b_disk c' = [''Ab'', ''Bc'']"
proof -
  let ?c = "\<lparr>b_mem = [''Aab'', ''Bc'', ''Cd''], b_disk = []\<rparr>"
  have p: "parsePeers ex_boot_env [''Aa'', ''C''] = Inr [(CHR ''A'', ''a''), (CHR ''C'', [])]"
      "parsePeers ex_boot_env (b_mem ?c) = Inr [(CHR ''A'', ''ab''), (CHR ''B'', ''c''), (CHR ''C'', ''d'')]"
    by (simp_all add: ex_boot_env_def)
  have "bootstrapRemove ex_boot_env None [''Aa'', ''C''] ?c = (\<lparr>b_mem = [''Ab'', ''Bc''], b_disk = [''Ab'', ''Bc'']\<rparr>, Inr [''Aa'', ''Cd''])"
    by code_simp
  then show ?thesis
    using bootstrap_remove_exact [OF p] by simp
qed

section \<open>A round of bootstrapping\<close>

definition MinPeerThreshold :: int where
  "MinPeerThreshold = 4"

text \<open>\<open>perm n\<close> is a random permutation of the numbers below \<open>n\<close>.\<close>

definition randomSubsetOfPeers :: "(nat \<Rightarrow> nat list) \<Rightarrow> 'p list \<Rightarrow> nat \<Rightarrow> 'p list" where
  "randomSubsetOfPeers perm xs n = map (\<lambda>i. xs ! i) (take (min n (length xs)) (perm (length xs)))"

text \<open>
  What a round returns. \<open>RoundSkipped\<close> and \<open>RoundOk\<close> are both the nil error in the source; the model tells apart that
  nothing was needed and that a peer was reached.
\<close>

datatype round_result = RoundSkipped | NotEnoughPeers | AllFailed string | RoundOk

text \<open>
  \<open>dial\<close> is the error of connecting to a peer. The connections run concurrently; \<open>fin\<close> is the order in which they end, and
  the last error to arrive is the one that is reported.
\<close>

definition bootstrapConnect :: "('p \<Rightarrow> string option) \<Rightarrow> ('p list \<Rightarrow> 'p list) \<Rightarrow> 'p list \<Rightarrow> round_result" where
  "bootstrapConnect dial fin peers =
    (if peers = [] then NotEnoughPeers
     else let errs = List.map_filter dial (fin peers) in
       if length errs = length peers then AllFailed (''failed to bootstrap. '' @ last errs) else RoundOk)"

text \<open>A round: the peers it dials and its result. \<open>connected\<close> is the number of peers of the host.\<close>

definition bootstrapRound :: "(nat \<Rightarrow> nat list) \<Rightarrow> ('p \<Rightarrow> string option) \<Rightarrow> ('p list \<Rightarrow> 'p list) \<Rightarrow> int \<Rightarrow> 'p list \<Rightarrow> nat
    \<Rightarrow> ('p \<Rightarrow> bool) \<Rightarrow> 'p list \<times> round_result" where
  "bootstrapRound perm dial fin threshold peers connected isConnected =
    (if int connected \<ge> threshold then ([], RoundSkipped)
     else let numToDial = nat (threshold - int connected); notConnected = filter (\<lambda>p. \<not> isConnected p) peers in
       if notConnected = [] then ([], NotEnoughPeers)
       else let randSubset = randomSubsetOfPeers perm notConnected numToDial in
         (randSubset, bootstrapConnect dial fin randSubset))"

lemma map_nth_mset:
  assumes "mset is = mset [0 ..< length xs]"
  shows "mset (map ((!) xs) (take k is)) \<subseteq># mset xs"
proof -
  have "mset (map ((!) xs) is) = mset xs"
    using assms by (metis map_nth mset_map)
  moreover have "mset (map ((!) xs) (take k is)) \<subseteq># mset (map ((!) xs) is)"
    by (metis append_take_drop_id map_append mset_append mset_subset_eq_add_left)
  ultimately show ?thesis
    by simp
qed

text \<open>\<open>rand.Perm\<close> gives a permutation, and every connection ends.\<close>

definition perm_law :: "(nat \<Rightarrow> nat list) \<Rightarrow> bool" where
  "perm_law perm \<longleftrightarrow> (\<forall>n. mset (perm n) = mset [0 ..< n])"

definition fin_law :: "('p list \<Rightarrow> 'p list) \<Rightarrow> bool" where
  "fin_law fin \<longleftrightarrow> (\<forall>ps. mset (fin ps) = mset ps)"

lemma perm_length: "perm_law perm \<Longrightarrow> length (perm n) = n"
  by (metis perm_law_def length_upt minus_nat.diff_0 size_mset)

lemma randomSubset_length: "perm_law perm \<Longrightarrow> length (randomSubsetOfPeers perm xs n) = min n (length xs)"
  by (simp add: randomSubsetOfPeers_def perm_length)

lemma randomSubset_sub: "perm_law perm \<Longrightarrow> mset (randomSubsetOfPeers perm xs n) \<subseteq># mset xs"
  unfolding randomSubsetOfPeers_def by (rule map_nth_mset) (simp add: perm_law_def)

lemma dial_errors_all: "length (List.map_filter f xs) = length xs \<longleftrightarrow> (\<forall>x \<in> set xs. f x \<noteq> None)"
proof (induction xs)
  case (Cons x xs)
  have "length (List.map_filter f xs) \<le> length xs"
    by (simp add: List.map_filter_def)
  with Cons show ?case
    by (cases "f x") (auto simp: List.map_filter_simps)
qed (simp add: List.map_filter_simps)

lemma bootstrapConnect_ok:
  assumes "fin_law fin" and "peers \<noteq> []"
  shows "bootstrapConnect dial fin peers = RoundOk \<longleftrightarrow> (\<exists>p \<in> set peers. dial p = None)"
proof -
  have "set (fin peers) = set peers" "length (fin peers) = length peers"
    using assms(1) by (metis fin_law_def set_mset_mset, metis fin_law_def size_mset)
  then show ?thesis
    using dial_errors_all [of dial "fin peers"] assms(2) by (auto simp: bootstrapConnect_def Let_def)
qed

text \<open>C37: a round of bootstrapping. It dials only peers of the list that the host is not connected to, none more often than
  the list has it, and exactly as many as are missing for the threshold, or all of them if there are fewer. If
  there is something to dial, it succeeds exactly if one of the dialled peers accepts.\<close>

theorem bootstrap_round_exact:
  assumes "perm_law perm" and "fin_law fin"
    and "bootstrapRound perm dial fin threshold peers connected isConnected = (dialled, r)"
    and "candidates = filter (\<lambda>p. \<not> isConnected p) peers"
  shows "mset dialled \<subseteq># mset candidates
    \<and> length dialled = min (nat (threshold - int connected)) (length candidates)
    \<and> (if dialled = [] then r = (if int connected \<ge> threshold then RoundSkipped else NotEnoughPeers)
       else (r = RoundOk \<longleftrightarrow> (\<exists>p \<in> set dialled. dial p = None)))"
proof -
  let ?sub = "randomSubsetOfPeers perm candidates (nat (threshold - int connected))"
  consider "int connected \<ge> threshold" "dialled = []" "r = RoundSkipped"
    | "int connected < threshold" "candidates = []" "dialled = []" "r = NotEnoughPeers"
    | "int connected < threshold" "candidates \<noteq> []" "dialled = ?sub" "r = bootstrapConnect dial fin ?sub"
    using assms(3) unfolding bootstrapRound_def assms(4) Let_def
    by (cases "int connected \<ge> threshold"; cases "filter (\<lambda>p. \<not> isConnected p) peers = []") simp_all
  then show ?thesis
  proof cases
    case 3
    have "?sub \<noteq> []"
    proof -
      have "0 < length ?sub"
        unfolding randomSubset_length [OF assms(1)] using 3(1,2) by simp
      then show ?thesis
        by simp
    qed
    with 3 show ?thesis
      by (simp add: randomSubset_sub [OF assms(1)] randomSubset_length [OF assms(1)] bootstrapConnect_ok [OF assms(2)])
  qed simp_all
qed

definition ex_dial :: "nat \<Rightarrow> string option" where
  "ex_dial p = (if p = 10 then None else Some ''refused'')"

theorem bootstrap_round_exact_witness:
  "\<exists>r. bootstrapRound (\<lambda>n. rev [0 ..< n]) ex_dial (\<lambda>ps. ps) MinPeerThreshold [10, 20, 30] 2 (\<lambda>p. p = 20) = ([30, 10], r) \<and> r = RoundOk"
proof -
  let ?r = "bootstrapConnect ex_dial (\<lambda>ps. ps) [30, 10]"
  have laws: "perm_law (\<lambda>n. rev [0 ..< n])" "fin_law (\<lambda>ps :: nat list. ps)"
    by (simp_all add: perm_law_def fin_law_def)
  have run: "bootstrapRound (\<lambda>n. rev [0 ..< n]) ex_dial (\<lambda>ps. ps) MinPeerThreshold [10, 20, 30] 2 (\<lambda>p. p = 20) = ([30, 10], ?r)"
    by (simp add: bootstrapRound_def MinPeerThreshold_def randomSubsetOfPeers_def upt_rec Let_def)
  have "?r = RoundOk"
    using bootstrap_round_exact [OF laws run refl] by (simp add: ex_dial_def)
  with run show ?thesis
    by blast
qed

section \<open>Starting the periodic rounds\<close>

text \<open>
  \<open>Bootstrap\<close> starts a process whose workers each run a round and then wait for \<open>doneWithRound\<close>: one worker now and one per
  tick. It then bootstraps the routing system; \<open>rt\<close> is what that returns, with \<open>None\<close> as success or no routing system. On success
  it hands one value to a waiting worker and closes the channel. On an error it closes the process, which
  stops the ticks and waits until every worker has ended.
\<close>

datatype worker = InRound | WaitDone | WFinished

datatype boot_main = MRouting | MSending | MCloseChan | MClosing string | MReturned "string option"

record boot_state =
  main :: boot_main
  workers :: "worker list"
  chan_closed :: bool

definition boot_init :: boot_state where
  "boot_init = \<lparr>main = MRouting, workers = [InRound], chan_closed = False\<rparr>"

inductive boot_step :: "string option \<Rightarrow> boot_state \<Rightarrow> boot_state \<Rightarrow> bool" for rt :: "string option" where
  rt_ok: "main s = MRouting \<Longrightarrow> rt = None \<Longrightarrow> boot_step rt s (s\<lparr>main := MSending\<rparr>)"
| rt_err: "main s = MRouting \<Longrightarrow> rt = Some e \<Longrightarrow> boot_step rt s (s\<lparr>main := MClosing e\<rparr>)"
| round_end: "i < length (workers s) \<Longrightarrow> workers s ! i = InRound \<Longrightarrow> boot_step rt s (s\<lparr>workers := (workers s)[i := WaitDone]\<rparr>)"
| tick: "\<forall>e. main s \<noteq> MClosing e \<Longrightarrow> \<forall>e. main s \<noteq> MReturned (Some e) \<Longrightarrow> boot_step rt s (s\<lparr>workers := workers s @ [InRound]\<rparr>)"
| send: "main s = MSending \<Longrightarrow> i < length (workers s) \<Longrightarrow> workers s ! i = WaitDone
    \<Longrightarrow> boot_step rt s (s\<lparr>workers := (workers s)[i := WFinished], main := MCloseChan\<rparr>)"
| close_chan: "main s = MCloseChan \<Longrightarrow> boot_step rt s (s\<lparr>chan_closed := True, main := MReturned None\<rparr>)"
| recv: "chan_closed s \<Longrightarrow> i < length (workers s) \<Longrightarrow> workers s ! i = WaitDone
    \<Longrightarrow> boot_step rt s (s\<lparr>workers := (workers s)[i := WFinished]\<rparr>)"
| closed: "main s = MClosing e \<Longrightarrow> set (workers s) \<subseteq> {WFinished} \<Longrightarrow> boot_step rt s (s\<lparr>main := MReturned (Some e)\<rparr>)"

text \<open>Until the channel is used no worker ends, and the first worker is there from the beginning.\<close>

fun pending :: "boot_main \<Rightarrow> bool" where
  "pending MCloseChan = False"
| "pending (MReturned _) = False"
| "pending _ = True"

definition boot_inv :: "string option \<Rightarrow> boot_state \<Rightarrow> bool" where
  "boot_inv rt s \<longleftrightarrow> (if pending (main s) then \<not> chan_closed s \<and> workers s \<noteq> [] \<and> WFinished \<notin> set (workers s) else rt = None \<and> main s \<in> {MCloseChan, MReturned None})
    \<and> (main s = MRouting \<or> (rt = None \<longleftrightarrow> (\<forall>e. main s \<noteq> MClosing e)))"

lemma boot_inv_init: "boot_inv rt boot_init"
  by (simp add: boot_inv_def boot_init_def)

lemma set_update_not: "WFinished \<notin> set ws \<Longrightarrow> x \<noteq> WFinished \<Longrightarrow> WFinished \<notin> set (ws[i := x])"
  using set_update_subset_insert [of ws i x] by auto

lemma boot_inv_step: "boot_step rt s s' \<Longrightarrow> boot_inv rt s \<Longrightarrow> boot_inv rt s'"
proof (induction rule: boot_step.induct)
  case (closed s e)
  then show ?case
    by (cases "workers s") (auto simp: boot_inv_def)
qed (auto simp: boot_inv_def set_update_not split: if_splits)

lemma boot_inv_reach: "(boot_step rt)\<^sup>*\<^sup>* boot_init s \<Longrightarrow> boot_inv rt s"
  by (induction rule: rtranclp_induct) (auto intro: boot_inv_init boot_inv_step)

text \<open>When bootstrapping the routing system fails, \<open>Bootstrap\<close> never returns: closing the process waits for the workers, and
  the workers wait for a channel that nobody will close.\<close>

theorem bootstrap_deadlock:
  assumes "(boot_step (Some e))\<^sup>*\<^sup>* boot_init s"
  shows "\<forall>r. main s \<noteq> MReturned r"
proof -
  have "boot_inv (Some e) s"
    using assms by (rule boot_inv_reach)
  then show ?thesis
    by (cases "main s") (auto simp: boot_inv_def)
qed

theorem bootstrap_deadlock_witness:
  "\<exists>s. (boot_step (Some ''no peers''))\<^sup>*\<^sup>* boot_init s \<and> main s = MClosing ''no peers'' \<and> workers s = [WaitDone]
    \<and> (\<forall>r. main s \<noteq> MReturned r)"
proof -
  let ?s1 = "boot_init\<lparr>main := MClosing ''no peers''\<rparr>"
  let ?s2 = "?s1\<lparr>workers := (workers ?s1)[0 := WaitDone]\<rparr>"
  have 1: "boot_step (Some ''no peers'') boot_init ?s1"
    by (rule rt_err) (simp_all add: boot_init_def)
  have 2: "boot_step (Some ''no peers'') ?s1 ?s2"
    by (rule round_end) (simp_all add: boot_init_def)
  from 1 2 have reach: "(boot_step (Some ''no peers''))\<^sup>*\<^sup>* boot_init ?s2"
    by (meson converse_rtranclp_into_rtranclp rtranclp.rtrancl_refl)
  have "main ?s2 = MClosing ''no peers'' \<and> workers ?s2 = [WaitDone]"
    by (simp add: boot_init_def)
  with reach bootstrap_deadlock [OF reach] show ?thesis
    by blast
qed

text \<open>From a state where some worker has not ended, one can wait, the value can be sent and the channel closed.\<close>

lemma boot_send_return:
  assumes "main s = MSending" and "workers s ! 0 \<noteq> WFinished" and "workers s \<noteq> []"
  shows "\<exists>s'. (boot_step None)\<^sup>*\<^sup>* s s' \<and> main s' = MReturned None"
proof -
  have send: "\<exists>s'. (boot_step None)\<^sup>*\<^sup>* s s' \<and> main s' = MReturned None"
    if "main s = MSending" "workers s ! 0 = WaitDone" "workers s \<noteq> []" for s :: boot_state
  proof -
    let ?s1 = "s\<lparr>workers := (workers s)[0 := WFinished], main := MCloseChan\<rparr>"
    have "boot_step None s ?s1"
      using that by (intro boot_step.send) simp_all
    moreover have "boot_step None ?s1 (?s1\<lparr>chan_closed := True, main := MReturned None\<rparr>)"
      by (rule close_chan) simp
    ultimately show ?thesis
      by (intro exI [of _ "?s1\<lparr>chan_closed := True, main := MReturned None\<rparr>"]) (simp add: rtranclp.rtrancl_into_rtrancl)
  qed
  show ?thesis
  proof (cases "workers s ! 0")
    case InRound
    let ?s1 = "s\<lparr>workers := (workers s)[0 := WaitDone]\<rparr>"
    have "boot_step None s ?s1"
      using assms InRound by (intro round_end) simp_all
    moreover obtain s' where "(boot_step None)\<^sup>*\<^sup>* ?s1 s'" "main s' = MReturned None"
      using send [of ?s1] assms by auto
    ultimately show ?thesis
      by (meson converse_rtranclp_into_rtranclp)
  qed (use assms send in simp_all)
qed

text \<open>When routing starts, \<open>Bootstrap\<close> can always still return, and it returns no error.\<close>

theorem bootstrap_returns:
  assumes "(boot_step None)\<^sup>*\<^sup>* boot_init s"
  shows "(\<exists>s'. (boot_step None)\<^sup>*\<^sup>* s s' \<and> main s' = MReturned None) \<and> (\<forall>e. main s \<noteq> MReturned (Some e))"
proof -
  have inv: "boot_inv None s"
    using assms by (rule boot_inv_reach)
  have first: "workers s \<noteq> [] \<and> workers s ! 0 \<noteq> WFinished" if "pending (main s)"
    using inv that by (cases "workers s") (auto simp: boot_inv_def)
  have "\<exists>s'. (boot_step None)\<^sup>*\<^sup>* s s' \<and> main s' = MReturned None"
  proof (cases "main s")
    case MRouting
    have "boot_step None s (s\<lparr>main := MSending\<rparr>)"
      using MRouting by (rule rt_ok) simp
    then show ?thesis
      using boot_send_return [of "s\<lparr>main := MSending\<rparr>"] first MRouting
      by (auto intro: converse_rtranclp_into_rtranclp)
  next
    case MSending
    then show ?thesis
      using boot_send_return first by simp
  next
    case MCloseChan
    then show ?thesis
      using close_chan [of s None] by (metis boot_state.select_convs(1) boot_state.simps(1) boot_state.surjective boot_state.update_convs(1) boot_state.update_convs(3) r_into_rtranclp)
  next
    case (MClosing e)
    then show ?thesis
      using inv by (auto simp: boot_inv_def)
  next
    case (MReturned r)
    then show ?thesis
      using inv by (auto simp: boot_inv_def)
  qed
  then show ?thesis
    using inv by (auto simp: boot_inv_def)
qed

theorem bootstrap_returns_witness:
  "(boot_step None)\<^sup>*\<^sup>* boot_init boot_init \<and> (\<exists>s'. (boot_step None)\<^sup>*\<^sup>* boot_init s' \<and> main s' = MReturned None)"
  using bootstrap_returns [OF rtranclp.rtrancl_refl] by simp

end
