(* ===== verification/TarFmt.thy ===== *)
theory TarFmt
  imports Prelude
begin

text \<open>
  Tar archives as graphs, \<open>src/tar/format.go\<close>: importing an archive entry by entry, and the reader that exports it
  again, with its buffered header, its nested reader for a directory, its file reader and the padding.

  The nodes of the graph, the reader of a file and the editor that builds the graph are parameters. A
  byte is a character.
\<close>

section \<open>Paths\<close>

text \<open>\<open>strings.Trim(pth, "/")\<close>, and the list functions of the path package, which split and join at slashes.\<close>

definition trim_slashes :: "string \<Rightarrow> string" where
  "trim_slashes pth = trim_right (dropWhile (\<lambda>c. c = CHR ''/'') pth) (CHR ''/'')"

definition escapePath :: "string \<Rightarrow> string" where
  "escapePath pth = join ''/'' (map (\<lambda>e. CHR ''-'' # e) (split_all (CHR ''/'') (trim_slashes pth)))"

section \<open>Importing\<close>

text \<open>
  What the tar reader yields: an entry with its name and its size, or an error that ends the archive. \<open>build\<close> makes a
  graph of the file's content, \<open>add_link\<close> links it under a name, \<open>add\<close> stores a node.
\<close>

record 'h tar_entry =
  e_name :: string
  e_size :: int
  e_header :: 'h
  e_content :: string

datatype 'h tar_next = TEntry "'h tar_entry" | TErr string

record ('h, 'n, 'e) import_env =
  marshalHeader :: "'h \<Rightarrow> (string, string) result"
  node_of :: "string \<Rightarrow> 'n"
  build :: "string \<Rightarrow> (string, 'n) result"
  add_link :: "'n \<Rightarrow> string \<Rightarrow> 'n \<Rightarrow> (string, 'n) result"
  ds_add :: "'n \<Rightarrow> string option"
  new_editor :: "'n \<Rightarrow> 'e"
  insert_at :: "'e \<Rightarrow> string \<Rightarrow> 'n \<Rightarrow> (string, 'e) result"
  finalize :: "'e \<Rightarrow> (string, 'n) result"

definition header_node :: "('h, 'n, 'e) import_env \<Rightarrow> 'h tar_entry \<Rightarrow> (string, 'n) result" where
  "header_node env h = bind_ok (marshalHeader env (e_header h)) (\<lambda>hb.
     if e_size h > 0 then bind_ok (build env (e_content h)) (\<lambda>nd. add_link env (node_of env hb) ''data'' nd)
     else Inr (node_of env hb))"

fun import_entries :: "('h, 'n, 'e) import_env \<Rightarrow> 'h tar_next list \<Rightarrow> 'e \<Rightarrow> (string, 'e) result" where
  "import_entries env [] e = Inr e"
| "import_entries env (TErr m # _) e = Inl m"
| "import_entries env (TEntry h # hs) e = bind_ok (header_node env h) (\<lambda>header.
     case ds_add env header of
       Some m \<Rightarrow> Inl m
     | None \<Rightarrow> bind_ok (insert_at env e (escapePath (e_name h)) header) (import_entries env hs))"

definition ImportTar :: "('h, 'n, 'e) import_env \<Rightarrow> 'h tar_next list \<Rightarrow> (string, 'n) result" where
  "ImportTar env hs = bind_ok (import_entries env hs (new_editor env (node_of env ''ipfs/tar''))) (finalize env)"

section \<open>Exporting\<close>

definition blockSize :: nat where
  "blockSize = 512"

definition padding :: "nat \<Rightarrow> nat" where
  "padding n = (blockSize - n mod blockSize) mod blockSize"

abbreviation zeros :: "nat \<Rightarrow> string" where
  "zeros n \<equiv> replicate n (CHR 0x00)"

record 'c pnode =
  p_data :: string
  p_links :: "(string \<times> 'c) list"

datatype 'c dnode = ProtoNode "'c pnode" | OtherNode

datatype 'd linked = LNotFound | LErr string | LNode 'd

datatype rd_err = EOF | RErr string

text \<open>
  \<open>getNode\<close> fetches what a link points to, \<open>linked_node\<close> what the link of the given name of a node points to, \<open>open_dag\<close> opens it as a
  file, and \<open>read_dag\<close> reads from the file into a buffer of the given length.
\<close>

record ('c, 'd, 'r) tar_env =
  getNode :: "'c \<Rightarrow> (string, 'c dnode) result"
  linked_node :: "'c pnode \<Rightarrow> string \<Rightarrow> 'd linked"
  open_dag :: "'d \<Rightarrow> (string, 'r) result"
  read_dag :: "'r \<Rightarrow> nat \<Rightarrow> 'r \<times> string \<times> rd_err option"

datatype ('c, 'r) tarReader = TarReader
  (links: "(string \<times> 'c) list") (hdrBuf: "string option") (childRead: "('c, 'r) tarReader option")
  (fileRead: "('r \<times> nat) option") (pad: nat)

text \<open>A \<open>bytes.Reader\<close>: the rest of the buffer, and the end only when nothing is left.\<close>

definition bytes_read :: "string \<Rightarrow> nat \<Rightarrow> string \<times> string \<times> rd_err option" where
  "bytes_read s n = (if s = [] then ([], [], Some EOF) else (drop n s, take n s, None))"

text \<open>The reader that counts what it has read.\<close>

definition count_read :: "('c, 'd, 'r) tar_env \<Rightarrow> 'r \<times> nat \<Rightarrow> nat \<Rightarrow> ('r \<times> nat) \<times> string \<times> rd_err option" where
  "count_read env f n = (let (r, out, e) = read_dag env (fst f) n in ((r, snd f + length out), out, e))"

text \<open>The readers that the next link gives: a file if the node has data, a nested reader if it has links otherwise.\<close>

definition next_readers :: "('c, 'd, 'r) tar_env \<Rightarrow> 'c pnode \<Rightarrow> (string, ('c, 'r) tarReader option \<times> ('r \<times> nat) option) result" where
  "next_readers env p = (case linked_node env p ''data'' of
     LErr e \<Rightarrow> Inl e
   | LNode d \<Rightarrow> bind_ok (open_dag env d) (\<lambda>r. Inr (None, Some (r, 0)))
   | LNotFound \<Rightarrow> Inr (if p_links p \<noteq> [] then Some (TarReader (p_links p) None None None 0) else None, None))"

fun hdr_set :: "('c, 'r) tarReader \<Rightarrow> nat" where
  "hdr_set (TarReader ls (Some h) c f p) = 0"
| "hdr_set (TarReader ls None None f p) = 1"
| "hdr_set (TarReader ls None (Some c) f p) = 2 + hdr_set c"

function tar_Read :: "('c, 'd, 'r) tar_env \<Rightarrow> nat \<Rightarrow> ('c, 'r) tarReader \<Rightarrow> ('c, 'r) tarReader \<times> string \<times> rd_err option" where
  "tar_Read env n (TarReader ls (Some h) c f p) =
    (case bytes_read h n of (h', out, Some EOF) \<Rightarrow> (TarReader ls None c f p, out, None)
     | (h', out, e) \<Rightarrow> (TarReader ls (Some h') c f p, out, e))"
| "tar_Read env n (TarReader ls None (Some c) f p) =
    (case tar_Read env n c of (c', out, Some EOF) \<Rightarrow> (TarReader ls None None f p, out, None)
     | (c', out, e) \<Rightarrow> (TarReader ls None (Some c') f p, out, e))"
| "tar_Read env n (TarReader ls None None (Some f) p) =
    (case count_read env f n of (f', out, Some EOF) \<Rightarrow> (TarReader ls None None None (padding (snd f')), out, None)
     | (f', out, e) \<Rightarrow> (TarReader ls None None (Some f') p, out, e))"
| "tar_Read env n (TarReader ls None None None p) =
    (if p > 0 then (TarReader ls None None None (p - min n p), zeros (min n p), None)
     else case ls of
       [] \<Rightarrow> (TarReader [] None None None 0, [], Some EOF)
     | next # ls' \<Rightarrow> (case getNode env (snd next) of
           Inl e \<Rightarrow> (TarReader ls' None None None 0, [], Some (RErr e))
         | Inr OtherNode \<Rightarrow> (TarReader ls' None None None 0, [], Some (RErr ''expected protobuf dag node''))
         | Inr (ProtoNode hnd) \<Rightarrow> (case next_readers env hnd of
               Inl e \<Rightarrow> (TarReader ls' (Some (p_data hnd)) None None 0, [], Some (RErr e))
             | Inr (c, f) \<Rightarrow> tar_Read env n (TarReader ls' (Some (p_data hnd)) c f 0))))"
  by pat_completeness auto
termination
  by (relation "measure (\<lambda>(env, n, tr). hdr_set tr)") auto

definition ExportTar :: "'c pnode \<Rightarrow> (string, ('c, 'r) tarReader) result" where
  "ExportTar root = (if p_data root \<noteq> ''ipfs/tar'' then Inl ''not an IPFS tarchive'' else Inr (TarReader (p_links root) None None None 0))"

text \<open>
  A consumer: it reads with buffers of the given sizes until the end. At most \<open>fuel\<close> reads are made; \<open>None\<close> if that is
  not enough.
\<close>

fun read_all :: "nat \<Rightarrow> ('c, 'd, 'r) tar_env \<Rightarrow> (nat \<Rightarrow> nat) \<Rightarrow> ('c, 'r) tarReader \<Rightarrow> (string \<times> string option) option" where
  "read_all 0 env sz tr = None"
| "read_all (Suc k) env sz tr = (case tar_Read env (sz 0) tr of
     (tr', out, Some EOF) \<Rightarrow> Some (out, None)
   | (tr', out, Some (RErr e)) \<Rightarrow> Some (out, Some e)
   | (tr', out, None) \<Rightarrow> map_option (map_prod (append out) id) (read_all k env (\<lambda>i. sz (Suc i)) tr'))"


section \<open>What an archive is\<close>

text \<open>
  The law of the file reader: reading into a buffer delivers a part of the content that fits, something unless the
  content has ended, and ends only after all of it. Files do not fail here.
\<close>

definition reader_law :: "('c, 'd, 'r) tar_env \<Rightarrow> ('r \<Rightarrow> string) \<Rightarrow> bool" where
  "reader_law env content \<longleftrightarrow> (\<forall>r n r' out e. 0 < n \<longrightarrow> read_dag env r n = (r', out, e) \<longrightarrow>
     length out \<le> n \<and> content r = out @ content r'
     \<and> (case e of None \<Rightarrow> out \<noteq> [] | Some EOF \<Rightarrow> content r' = [] | Some (RErr _) \<Rightarrow> False))"

text \<open>
  The bytes of an archive, read off the graph: for every link the header, then either the content of the file
  padded with the fewest zeros that make it whole blocks, or the archive of the links below. The last argument bounds the number of
  reads.
\<close>

inductive archive :: "('c, 'd, 'r) tar_env \<Rightarrow> ('r \<Rightarrow> string) \<Rightarrow> (string \<times> 'c) list \<Rightarrow> string \<Rightarrow> nat \<Rightarrow> bool"
  for env :: "('c, 'd, 'r) tar_env" and content :: "'r \<Rightarrow> string" where
  archive_nil: "archive env content [] [] 0"
| archive_file: "getNode env c = Inr (ProtoNode p) \<Longrightarrow> linked_node env p ''data'' = LNode d \<Longrightarrow> open_dag env d = Inr r
    \<Longrightarrow> k < blockSize \<Longrightarrow> blockSize dvd length (content r) + k \<Longrightarrow> archive env content ls bs w
    \<Longrightarrow> archive env content ((nm, c) # ls) (p_data p @ content r @ zeros k @ bs)
          (length (p_data p) + 1 + (length (content r) + 1 + k + w))"
| archive_dir: "getNode env c = Inr (ProtoNode p) \<Longrightarrow> linked_node env p ''data'' = LNotFound
    \<Longrightarrow> archive env content (p_links p) cs wc \<Longrightarrow> archive env content ls bs w
    \<Longrightarrow> archive env content ((nm, c) # ls) (p_data p @ cs @ bs) (length (p_data p) + 1 + (wc + 1 + w))"

inductive_cases archive_NilE: "archive env content [] bs w"

text \<open>What a reader has yet to deliver.\<close>

inductive pending :: "('c, 'd, 'r) tar_env \<Rightarrow> ('r \<Rightarrow> string) \<Rightarrow> ('c, 'r) tarReader \<Rightarrow> string \<Rightarrow> nat \<Rightarrow> bool"
  for env :: "('c, 'd, 'r) tar_env" and content :: "'r \<Rightarrow> string" where
  P_hdr: "pending env content (TarReader ls None c f p) bs w
    \<Longrightarrow> pending env content (TarReader ls (Some h) c f p) (h @ bs) (length h + 1 + w)"
| P_child: "pending env content c cs wc \<Longrightarrow> archive env content ls bs w
    \<Longrightarrow> pending env content (TarReader ls None (Some c) None 0) (cs @ bs) (wc + 1 + w)"
| P_file: "archive env content ls bs w \<Longrightarrow> m' = padding (m + length (content r))
    \<Longrightarrow> pending env content (TarReader ls None None (Some (r, m)) 0) (content r @ zeros m' @ bs) (length (content r) + 1 + m' + w)"
| P_pad: "archive env content ls bs w \<Longrightarrow> pending env content (TarReader ls None None None p) (zeros p @ bs) (p + w)"

text \<open>A read is good if it delivers the next bytes and makes progress, or is the end and nothing was left.\<close>

definition good :: "('c, 'd, 'r) tar_env \<Rightarrow> ('r \<Rightarrow> string) \<Rightarrow> nat \<Rightarrow> string \<Rightarrow> nat \<Rightarrow> ('c, 'r) tarReader \<times> string \<times> rd_err option \<Rightarrow> bool" where
  "good env content n bs w res \<longleftrightarrow> (case res of (tr, out, e) \<Rightarrow>
     (e = None \<and> length out \<le> n \<and> (\<exists>bs' w'. pending env content tr bs' w' \<and> bs = out @ bs' \<and> w' < w))
   \<or> (e = Some EOF \<and> out = [] \<and> bs = []))"

lemma good_more:
  assumes "pending env content tr bs' w'" and "bs = out @ bs'" and "w' < w" and "length out \<le> n"
  shows "good env content n bs w (tr, out, None)"
  using assms unfolding good_def by auto

lemma good_mono: "good env content n bs w res \<Longrightarrow> w \<le> w' \<Longrightarrow> good env content n bs w' res"
  unfolding good_def by (cases res) (auto intro: less_le_trans)

lemma pending_pad0: "archive env content ls bs w \<Longrightarrow> pending env content (TarReader ls None None None 0) bs w"
  using P_pad [of env content ls bs w 0] by simp

lemma read_hdr:
  assumes "pending env content (TarReader ls None c f p) bs w" and "0 < n"
  shows "good env content n (h @ bs) (length h + 1 + w) (tar_Read env n (TarReader ls (Some h) c f p))"
proof (cases "h = []")
  case True
  then show ?thesis
    using assms by (auto simp: bytes_read_def intro!: good_more)
next
  case False
  have "pending env content (TarReader ls (Some (drop n h)) c f p) (drop n h @ bs) (length (drop n h) + 1 + w)"
    by (rule P_hdr [OF assms(1)])
  moreover have "length (drop n h) < length h"
    using False assms(2) by simp
  ultimately show ?thesis
    using False by (auto simp: bytes_read_def intro!: good_more)
qed

lemma padding_whole: "blockSize dvd n + padding n"
proof -
  have "(n + padding n) mod blockSize = (n mod blockSize + (blockSize - n mod blockSize)) mod blockSize"
    unfolding padding_def by (simp add: mod_add_left_eq mod_add_right_eq)
  also have "n mod blockSize + (blockSize - n mod blockSize) = blockSize"
    by (simp add: blockSize_def mod_le_divisor)
  finally show ?thesis
    by (simp add: mod_0_imp_dvd)
qed

lemma padding_eqI:
  assumes "k < blockSize" and "blockSize dvd n + k"
  shows "k = padding n"
proof -
  have p: "padding n < blockSize" "blockSize dvd n + padding n"
    using padding_whole by (simp_all add: padding_def blockSize_def)
  have "i \<le> j" if "i < blockSize" "blockSize dvd n + i" "blockSize dvd n + j" for i j
  proof (rule ccontr)
    assume "\<not> i \<le> j"
    moreover have "blockSize dvd (n + i) - (n + j)"
      using that(2,3) by (rule dvd_diff_nat)
    ultimately show False
      using that(1) by (auto dest: dvd_imp_le)
  qed
  from this [OF assms p(2)] this [OF p assms(2)] show ?thesis
    by simp
qed

lemma archive_next:
  assumes "archive env content (l # ls) bs w"
  shows "\<exists>p c f bs' w'. getNode env (snd l) = Inr (ProtoNode p) \<and> next_readers env p = Inr (c, f)
    \<and> pending env content (TarReader ls None c f 0) bs' w' \<and> bs = p_data p @ bs' \<and> length (p_data p) + 1 + w' \<le> w"
  using assms
proof (cases rule: archive.cases)
  case (archive_file c p d r k bs' w' nm)
  have k: "k = padding (length (content r))"
    using archive_file by (intro padding_eqI)
  have "next_readers env p = Inr (None, Some (r, 0))"
    using archive_file by (simp add: next_readers_def)
  moreover have "pending env content (TarReader ls None None (Some (r, 0)) 0)
      (content r @ zeros k @ bs') (length (content r) + 1 + k + w')"
    using archive_file k by (intro P_file) simp_all
  ultimately show ?thesis
    using archive_file by fastforce
next
  case (archive_dir c p cs wc bs' w' nm)
  have rest: "archive env content ls bs' w'"
    using archive_dir by simp
  show ?thesis
  proof (cases "p_links p = []")
    case True
    then have "cs = [] \<and> wc = 0"
      using archive_dir by (auto elim: archive_NilE)
    then show ?thesis
      using archive_dir True pending_pad0 [OF rest] by (force simp: next_readers_def)
  next
    case False
    have "pending env content (TarReader ls None (Some (TarReader (p_links p) None None None 0)) None 0) (cs @ bs') (wc + 1 + w')"
      using archive_dir by (intro P_child pending_pad0 rest)
    then show ?thesis
      using archive_dir False by (force simp: next_readers_def)
  qed
qed

lemma read_links:
  assumes "archive env content ls bs w" and "0 < n"
  shows "good env content n bs w (tar_Read env n (TarReader ls None None None 0))"
proof (cases ls)
  case Nil
  then show ?thesis
    using assms(1) by (auto simp: good_def elim: archive_NilE)
next
  case (Cons l ls')
  obtain p c f bs' w' where l: "getNode env (snd l) = Inr (ProtoNode p)" "next_readers env p = Inr (c, f)"
      "pending env content (TarReader ls' None c f 0) bs' w'" "bs = p_data p @ bs'" "length (p_data p) + 1 + w' \<le> w"
    using archive_next assms(1) Cons by meson
  have "good env content n bs (length (p_data p) + 1 + w') (tar_Read env n (TarReader ls' (Some (p_data p)) c f 0))"
    unfolding l(4) by (rule read_hdr [OF l(3) assms(2)])
  from good_mono [OF this l(5)] show ?thesis
    using l(1,2) Cons by (simp del: tar_Read.simps(1))
qed

lemma read_file:
  assumes "reader_law env content" and "archive env content ls bs w" and "0 < n" and "k = padding (m + length (content r))"
  shows "good env content n (content r @ zeros k @ bs) (length (content r) + 1 + k + w)
    (tar_Read env n (TarReader ls None None (Some (r, m)) 0))"
proof -
  obtain r' out e where rd: "read_dag env r n = (r', out, e)"
    by (cases "read_dag env r n")
  have law: "length out \<le> n" "content r = out @ content r'"
      "case e of None \<Rightarrow> out \<noteq> [] | Some EOF \<Rightarrow> content r' = [] | Some (RErr _) \<Rightarrow> False"
    using assms(1,3) rd unfolding reader_law_def by blast+
  consider "e = None" "out \<noteq> []" | "e = Some EOF" "content r' = []"
    using law(3) by (cases e) (auto split: rd_err.splits)
  then show ?thesis
  proof cases
    case 1
    have "pending env content (TarReader ls None None (Some (r', m + length out)) 0) (content r' @ zeros k @ bs) (length (content r') + 1 + k + w)"
      by (rule P_file [OF assms(2)]) (simp add: assms(4) law(2) add.assoc)
    then show ?thesis
      using 1 law(1,2) by (auto simp: count_read_def rd intro!: good_more)
  next
    case 2
    then show ?thesis
      using law(1,2) P_pad [OF assms(2), of k] by (auto simp: count_read_def rd assms(4) intro!: good_more)
  qed
qed

lemma tar_Read_good:
  assumes "reader_law env content" and "0 < n" and "pending env content tr bs w"
  shows "good env content n bs w (tar_Read env n tr)"
  using assms(3)
proof (induction rule: pending.induct)
  case (P_hdr ls c f p bs w h)
  then show ?case
    using read_hdr assms(2) by blast
next
  case (P_child c cs wc ls bs w)
  obtain c' out e where r: "tar_Read env n c = (c', out, e)"
    by (cases "tar_Read env n c")
  consider cs' w' where "e = None" "length out \<le> n" "pending env content c' cs' w'" "cs = out @ cs'" "w' < wc"
    | "e = Some EOF" "out = []" "cs = []"
    using P_child.IH unfolding good_def r by auto
  then show ?case
  proof cases
    case 1
    then show ?thesis
      using pending.P_child [OF 1(3) P_child.hyps(2)] by (auto simp: r intro!: good_more)
  next
    case 2
    then show ?thesis
      using pending_pad0 [OF P_child.hyps(2)] by (auto simp: r intro!: good_more)
  qed
next
  case (P_file ls bs w m' m r)
  then show ?case
    using read_file [OF assms(1) _ assms(2)] by blast
next
  case (P_pad ls bs w p)
  show ?case
  proof (cases "p = 0")
    case True
    then show ?thesis
      using read_links [OF P_pad assms(2)] by simp
  next
    case False
    have "zeros p = zeros (min n p) @ zeros (p - min n p)"
      by (simp flip: replicate_add)
    then show ?thesis
      using False assms(2) pending.P_pad [OF P_pad, of "p - min n p"] by (auto intro!: good_more)
  qed
qed

lemma read_all_pending:
  assumes "reader_law env content" and "\<forall>i. 0 < sz i" and "pending env content tr bs w" and "w < k"
  shows "read_all k env sz tr = Some (bs, None)"
  using assms(2-)
proof (induction k arbitrary: sz tr bs w)
  case (Suc k)
  obtain tr' out e where r: "tar_Read env (sz 0) tr = (tr', out, e)"
    by (cases "tar_Read env (sz 0) tr")
  have "good env content (sz 0) bs w (tr', out, e)"
    using tar_Read_good [OF assms(1) _ Suc.prems(2), of "sz 0"] Suc.prems(1) by (simp add: r)
  then consider bs' w' where "e = None" "pending env content tr' bs' w'" "bs = out @ bs'" "w' < w"
    | "e = Some EOF" "out = []" "bs = []"
    unfolding good_def by auto
  then show ?case
  proof cases
    case 1
    then have "read_all k env (\<lambda>i. sz (Suc i)) tr' = Some (bs', None)"
      using Suc.IH [of "\<lambda>i. sz (Suc i)" tr' bs' w'] Suc.prems(1,3) by simp
    then show ?thesis
      using 1 by (simp add: r)
  qed (simp add: r)
qed simp

text \<open>C3: exporting an archive. Whatever the sizes of the buffers, and however few bytes the file reader delivers at a time,
  reading the exported archive ends, without an error, and the bytes read are those of the archive:
  headers, contents padded with the fewest zeros to whole blocks, and the archives of directories, in the order of the links.\<close>

theorem tar_export_exact:
  assumes "reader_law env content" and "p_data root = ''ipfs/tar''" and "archive env content (p_links root) bs w"
    and "\<forall>i. 0 < sz i" and "w < k"
  shows "\<exists>tr. ExportTar root = Inr tr \<and> read_all k env sz tr = Some (bs, None)"
  using read_all_pending [OF assms(1,4) pending_pad0 [OF assms(3)] assms(5)] assms(2) by (simp add: ExportTar_def)

text \<open>A directory with a file of three bytes and an empty file. The file reader delivers at most two bytes at a time.\<close>

definition ex_tar_env :: "(nat, string, string) tar_env" where
  "ex_tar_env = \<lparr>getNode = (\<lambda>c. Inr (ProtoNode (if c = 0 then \<lparr>p_data = ''D'', p_links = [(''-a'', 1), (''-b'', 2)]\<rparr>
        else if c = 1 then \<lparr>p_data = ''A'', p_links = [(''data'', 9)]\<rparr> else \<lparr>p_data = ''B'', p_links = []\<rparr>))),
     linked_node = (\<lambda>p _. if p_data p = ''A'' then LNode ''abc'' else LNotFound),
     open_dag = Inr,
     read_dag = (\<lambda>r n. if r = [] then ([], [], Some EOF) else (drop (min n 2) r, take (min n 2) r, None))\<rparr>"

lemma ex_tar_law: "reader_law ex_tar_env (\<lambda>r. r)"
  by (auto simp: reader_law_def ex_tar_env_def split: if_splits)

definition ex_tar_node :: "string \<Rightarrow> (string \<times> nat) list \<Rightarrow> nat pnode" where
  "ex_tar_node d ls = \<lparr>p_data = d, p_links = ls\<rparr>"

lemma ex_tar_sel:
  "getNode ex_tar_env 0 = Inr (ProtoNode (ex_tar_node ''D'' [(''-a'', 1), (''-b'', 2)]))"
  "getNode ex_tar_env 1 = Inr (ProtoNode (ex_tar_node ''A'' [(''data'', 9)]))"
  "getNode ex_tar_env 2 = Inr (ProtoNode (ex_tar_node ''B'' []))"
  "linked_node ex_tar_env (ex_tar_node d ls) x = (if d = ''A'' then LNode ''abc'' else LNotFound)"
  "open_dag ex_tar_env s = Inr s" "p_data (ex_tar_node d ls) = d" "p_links (ex_tar_node d ls) = ls"
  by (simp_all add: ex_tar_env_def ex_tar_node_def)

lemma archive_within: "archive env content ls bs w \<Longrightarrow> bs = bs' \<Longrightarrow> w < k \<Longrightarrow> \<exists>w. archive env content ls bs' w \<and> w < k"
  by auto

lemma ex_tar_archive: "\<exists>w. archive ex_tar_env (\<lambda>r. r) [(''-d'', 0)] (''D'' @ ''A'' @ ''abc'' @ zeros 509 @ ''B'') w \<and> w < 522"
proof -
  have links: "linked_node ex_tar_env (ex_tar_node ''A'' [(''data'', 9)]) ''data'' = LNode ''abc''"
      "linked_node ex_tar_env (ex_tar_node ''B'' []) ''data'' = LNotFound"
      "linked_node ex_tar_env (ex_tar_node ''D'' [(''-a'', 1), (''-b'', 2)]) ''data'' = LNotFound"
    by (simp_all add: ex_tar_sel)
  have nil: "archive ex_tar_env (\<lambda>r. r) (p_links (ex_tar_node ''B'' [])) [] 0"
    by (simp add: ex_tar_sel archive_nil)
  note b = archive_dir [OF ex_tar_sel(3) links(2) nil archive_nil, of "''-b''"]
  have pad: "509 < blockSize" "blockSize dvd length ''abc'' + 509"
    by (simp_all add: blockSize_def)
  note a = archive_file [OF ex_tar_sel(2) links(1) ex_tar_sel(5) pad b, of "''-a''"]
  note d = archive_dir [OF ex_tar_sel(1) links(3) _ archive_nil, of "\<lambda>r. r", unfolded ex_tar_sel(7), OF a]
  show ?thesis
    by (rule archive_within [OF d]) (simp_all add: ex_tar_sel)
qed

theorem tar_export_exact_witness:
  "\<exists>tr. ExportTar \<lparr>p_data = ''ipfs/tar'', p_links = [(''-d'', 0)]\<rparr> = Inr tr
    \<and> read_all 522 ex_tar_env (\<lambda>_. 100) tr = Some (''DAabc'' @ zeros 509 @ ''B'', None)"
proof -
  obtain w where a: "archive ex_tar_env (\<lambda>r. r) (p_links \<lparr>p_data = ''ipfs/tar'', p_links = [(''-d'', 0)]\<rparr>) (''D'' @ ''A'' @ ''abc'' @ zeros 509 @ ''B'') w"
      "w < 522"
    using ex_tar_archive by auto
  show ?thesis
    using tar_export_exact [OF ex_tar_law _ a(1) _ a(2), of "\<lambda>_. 100"] by (simp del: read_all.simps)
qed

section \<open>Blocks and names\<close>

text \<open>If the headers are whole blocks, so is the archive.\<close>

lemma archive_blocks:
  assumes "archive env content ls bs w" and "\<And>c p. getNode env c = Inr (ProtoNode p) \<Longrightarrow> blockSize dvd length (p_data p)"
  shows "blockSize dvd length bs"
  using assms(1)
proof (induction rule: archive.induct)
  case (archive_file c p d r k ls bs w nm)
  have "blockSize dvd length (p_data p) + (length (content r) + k) + length bs"
    by (rule dvd_add [OF dvd_add [OF assms(2) [OF archive_file(1)] archive_file(5)] archive_file.IH])
  then show ?case
    by (simp add: add.assoc)
next
  case (archive_dir c p cs wc ls bs w nm)
  then show ?case
    using assms(2) [OF archive_dir(1)] by simp
qed simp

lemma escapePath_elems: "split_all (CHR ''/'') (escapePath pth) = map (\<lambda>e. CHR ''-'' # e) (split_all (CHR ''/'') (trim_slashes pth))"
  unfolding escapePath_def by (rule split_all_join) (auto dest: split_all_no_sep)

text \<open>Names in the graph. The elements of the path of an entry are never \<open>data\<close>, the name of the link to the content, and two
  entries get the same path only if their names agree up to slashes at the ends.\<close>

theorem tar_names_apart:
  "''data'' \<notin> set (split_all (CHR ''/'') (escapePath p))
    \<and> (escapePath p = escapePath q \<longleftrightarrow> trim_slashes p = trim_slashes q)"
proof
  show "''data'' \<notin> set (split_all (CHR ''/'') (escapePath p))"
    by (auto simp: escapePath_elems)
  have "trim_slashes p = trim_slashes q" if "escapePath p = escapePath q"
  proof -
    have "map (\<lambda>e. CHR ''-'' # e) (split_all (CHR ''/'') (trim_slashes p)) = map (\<lambda>e. CHR ''-'' # e) (split_all (CHR ''/'') (trim_slashes q))"
      using that escapePath_elems by metis
    then have "split_all (CHR ''/'') (trim_slashes p) = split_all (CHR ''/'') (trim_slashes q)"
      by (rule map_injective) (auto intro: injI)
    then show ?thesis
      by (metis join_split_all)
  qed
  then show "escapePath p = escapePath q \<longleftrightarrow> trim_slashes p = trim_slashes q"
    by (auto simp: escapePath_def)
qed

text \<open>Of an entry below a file only the file is exported: what the node of a file links to besides its content does not matter.\<close>

lemma export_drops_below_file:
  assumes "getNode env c = Inr (ProtoNode p)" and "linked_node env p ''data'' = LNode d" and "open_dag env d = Inr r"
    and "archive env content [(nm, c)] bs w"
  shows "bs = p_data p @ content r @ zeros (padding (length (content r)))"
  using assms(4) by (cases rule: archive.cases) (use assms(1-3) in \<open>auto elim: archive_NilE dest: padding_eqI\<close>)

end
