(* ===== verification/Adder.thy ===== *)
theory Adder
  imports GoPath "HOL-Library.Word"
begin

text \<open>
  Adding files, \<open>src/core/coreunix/add.go\<close>: the walk over a tree of files that puts their nodes into a mutable file
  system, the pauses it makes for the garbage collector, and the pinning of the root.

  The mutable file system, the importer, the graph service and the pinner are parameters; of the pinner the
  model keeps the set of recursive pins. Every call that another process can observe is an event of a log:
  taking and releasing the pin lock, pinning, and what is put into the file system and sent to the client.
\<close>

section \<open>State\<close>

text \<open>A file to be added. The entries of a directory end with what their iterator reports.\<close>

datatype fnode = FDir fentries | FSymlink string | FFile string | FUnknown
  and fentries = FEnd "string option" | FEntry string fnode fentries

text \<open>
  A tree of the mutable file system as it is read: a directory has the error of listing its names, its children up
  to the first that cannot be read, and its node.
\<close>

datatype 'n mtree = MFile | MDir "string option" "'n mchildren" "string + 'n" | MUnknown
  and 'n mchildren = CEnd | CErr string | CChild string "'n mtree" "'n mchildren"

datatype ('n, 'c) ev = ELock | EUnlock | EPin 'c | EUnpin 'c | EFlushPins | EMkdir string | EPut string 'n | EFree
  | EOut string 'n

record ('n, 'c, 'm) add_env =
  cid_of :: "'n \<Rightarrow> 'c"
  cid_text :: "'c \<Rightarrow> string"
  node_links :: "'n \<Rightarrow> 'c list"
  get_link :: "'c \<Rightarrow> (string, 'n) result"
  bare_node :: "'n \<Rightarrow> 'n"
  node_size :: "'n \<Rightarrow> (string, nat) result"
  layout :: "string \<Rightarrow> (string, 'n) result"
  symlink_node :: "string \<Rightarrow> (string, 'n) result"
  dag_add :: "'n \<Rightarrow> string option"
  dag_sync :: "string option"
  new_root :: "(string, 'm) result"
  root_node :: "'m \<Rightarrow> (string, 'n) result"
  mk_dir :: "'m \<Rightarrow> string \<Rightarrow> (string, 'm) result"
  put_node :: "'m \<Rightarrow> string \<Rightarrow> 'n \<Rightarrow> (string, 'm) result"
  free_mem :: "'m \<Rightarrow> (string, 'm) result"
  flush_root :: "'m \<Rightarrow> (string, 'm) result"
  close_root :: "'m \<Rightarrow> (string, 'm) result"
  root_tree :: "'m \<Rightarrow> 'n mtree"
  tree_node :: "'n mtree \<Rightarrow> (string, 'n) result"
  gc_requested :: "nat \<Rightarrow> bool"
  unpin_error :: "'c \<Rightarrow> string option"
  flush_error :: "string option"

text \<open>
  The adder. \<open>unlocker\<close> says whether the pin lock is held; \<open>gc_asked\<close> counts the questions whether a collection is
  requested, which the environment answers.
\<close>

record ('n, 'c, 'm) adder =
  mroot :: "'m option"
  unlocker :: bool
  tempRoot :: "'c option"
  liveNodes :: "64 word"
  pins :: "'c set"
  gc_asked :: nat
  events :: "('n, 'c) ev list"

record add_opts =
  Pin :: bool
  Silent :: bool
  has_out :: bool

definition liveCacheSize :: "64 word" where
  "liveCacheSize = push_bit 10 256"

abbreviation emit :: "('n, 'c) ev \<Rightarrow> ('n, 'c, 'm) adder \<Rightarrow> ('n, 'c, 'm) adder" where
  "emit e st \<equiv> st\<lparr>events := events st @ [e]\<rparr>"

text \<open>Go on if there was no error.\<close>

definition and_then :: "'s \<times> string option \<Rightarrow> ('s \<Rightarrow> 's \<times> string option) \<Rightarrow> 's \<times> string option" where
  "and_then r f = (case r of (st, Some e) \<Rightarrow> (st, Some e) | (st, None) \<Rightarrow> f st)"

section \<open>Operations\<close>

definition mfsRoot :: "('n, 'c, 'm) add_env \<Rightarrow> ('n, 'c, 'm) adder \<Rightarrow> ('n, 'c, 'm) adder \<times> (string, 'm) result" where
  "mfsRoot env st = (case mroot st of
     Some m \<Rightarrow> (st, Inr m)
   | None \<Rightarrow> (case new_root env of Inl e \<Rightarrow> (st, Inl e) | Inr m \<Rightarrow> (st\<lparr>mroot := Some m\<rparr>, Inr m)))"

text \<open>An operation on the file system: the root is created if needed and then changed.\<close>

definition on_root :: "('n, 'c, 'm) add_env \<Rightarrow> ('m \<Rightarrow> (string, 'm) result) \<Rightarrow> ('n, 'c) ev list \<Rightarrow> ('n, 'c, 'm) adder
    \<Rightarrow> ('n, 'c, 'm) adder \<times> string option" where
  "on_root env f evs st = (case mfsRoot env st of
     (st1, Inl e) \<Rightarrow> (st1, Some e)
   | (st1, Inr m) \<Rightarrow> (case f m of
         Inl e \<Rightarrow> (st1, Some e)
       | Inr m' \<Rightarrow> (st1\<lparr>mroot := Some m', events := events st1 @ evs\<rparr>, None)))"

definition curRootNode :: "('n, 'c, 'm) add_env \<Rightarrow> ('n, 'c, 'm) adder \<Rightarrow> ('n, 'c, 'm) adder \<times> (string, 'n) result" where
  "curRootNode env st = (case mfsRoot env st of
     (st1, Inl e) \<Rightarrow> (st1, Inl e)
   | (st1, Inr m) \<Rightarrow> (st1, bind_ok (root_node env m) (\<lambda>root.
       case node_links env root of [l] \<Rightarrow> get_link env l | _ \<Rightarrow> Inr root)))"

definition PinRoot :: "('n, 'c, 'm) add_env \<Rightarrow> add_opts \<Rightarrow> 'n \<Rightarrow> ('n, 'c, 'm) adder \<Rightarrow> ('n, 'c, 'm) adder \<times> string option" where
  "PinRoot env opts root st =
    (if \<not> Pin opts then (st, None)
     else let rnk = cid_of env root in
       case dag_add env root of
         Some e \<Rightarrow> (st, Some e)
       | None \<Rightarrow> and_then
           (case tempRoot st of
              None \<Rightarrow> (st, None)
            | Some t \<Rightarrow> (case unpin_error env t of
                Some e \<Rightarrow> (st, Some e)
              | None \<Rightarrow> (emit (EUnpin t) (st\<lparr>pins := pins st - {t}, tempRoot := Some rnk\<rparr>), None)))
           (\<lambda>st. let st = emit (EPin rnk) (st\<lparr>pins := insert rnk (pins st)\<rparr>) in
              case flush_error env of Some e \<Rightarrow> (st, Some e) | None \<Rightarrow> (emit EFlushPins st, None)))"

definition maybePauseForGC :: "('n, 'c, 'm) add_env \<Rightarrow> add_opts \<Rightarrow> ('n, 'c, 'm) adder \<Rightarrow> ('n, 'c, 'm) adder \<times> string option" where
  "maybePauseForGC env opts st =
    (if \<not> unlocker st then (st, None)
     else let asked = gc_requested env (gc_asked st); st = st\<lparr>gc_asked := Suc (gc_asked st)\<rparr> in
       if \<not> asked then (st, None)
       else (case curRootNode env st of
           (st, Inl e) \<Rightarrow> (st, Some e)
         | (st, Inr rn) \<Rightarrow> and_then (PinRoot env opts rn st) (\<lambda>st. (emit ELock (emit EUnlock st), None))))"

definition outputDagnode :: "('n, 'c, 'm) add_env \<Rightarrow> add_opts \<Rightarrow> string \<Rightarrow> 'n \<Rightarrow> ('n, 'c, 'm) adder \<Rightarrow> ('n, 'c, 'm) adder \<times> string option" where
  "outputDagnode env opts name dn st =
    (if \<not> has_out opts then (st, None)
     else case node_size env dn of Inl e \<Rightarrow> (st, Some e) | Inr _ \<Rightarrow> (emit (EOut name dn) st, None))"

definition addNode :: "('n, 'c, 'm) add_env \<Rightarrow> add_opts \<Rightarrow> 'n \<Rightarrow> string \<Rightarrow> ('n, 'c, 'm) adder \<Rightarrow> ('n, 'c, 'm) adder \<times> string option" where
  "addNode env opts node path0 st =
    (let path = (if path0 = [] then cid_text env (cid_of env node) else path0);
         node = bare_node env node;
         dir = Dir path
     in and_then
       (case mfsRoot env st of
          (st, Inl e) \<Rightarrow> (st, Some e)
        | (st, Inr _) \<Rightarrow> if dir \<noteq> ''.'' then on_root env (\<lambda>m. mk_dir env m dir) [EMkdir dir] st else (st, None))
       (\<lambda>st. and_then (on_root env (\<lambda>m. put_node env m path node) [EPut path node] st)
         (\<lambda>st. if \<not> Silent opts then outputDagnode env opts path node st else (st, None))))"

definition addSymlink :: "('n, 'c, 'm) add_env \<Rightarrow> add_opts \<Rightarrow> string \<Rightarrow> string \<Rightarrow> ('n, 'c, 'm) adder \<Rightarrow> ('n, 'c, 'm) adder \<times> string option" where
  "addSymlink env opts path target st = (case symlink_node env target of
     Inl e \<Rightarrow> (st, Some e)
   | Inr nd \<Rightarrow> (case dag_add env nd of Some e \<Rightarrow> (st, Some e) | None \<Rightarrow> addNode env opts nd path st))"

definition addFile :: "('n, 'c, 'm) add_env \<Rightarrow> add_opts \<Rightarrow> string \<Rightarrow> string \<Rightarrow> ('n, 'c, 'm) adder \<Rightarrow> ('n, 'c, 'm) adder \<times> string option" where
  "addFile env opts path content st = (case layout env content of
     Inl e \<Rightarrow> (st, Some e)
   | Inr nd \<Rightarrow> addNode env opts nd path st)"

text \<open>The part of \<open>addFileNode\<close> before the file is looked at: the pause and the memory of the file system.\<close>

definition before_node :: "('n, 'c, 'm) add_env \<Rightarrow> add_opts \<Rightarrow> ('n, 'c, 'm) adder \<Rightarrow> ('n, 'c, 'm) adder \<times> string option" where
  "before_node env opts st = and_then (maybePauseForGC env opts st) (\<lambda>st.
     and_then (if liveNodes st \<ge> liveCacheSize
         then and_then (on_root env (free_mem env) [EFree] st) (\<lambda>st. (st\<lparr>liveNodes := 0\<rparr>, None)) else (st, None))
       (\<lambda>st. (st\<lparr>liveNodes := liveNodes st + 1\<rparr>, None)))"

primrec addFileNode :: "('n, 'c, 'm) add_env \<Rightarrow> add_opts \<Rightarrow> string \<Rightarrow> fnode \<Rightarrow> bool \<Rightarrow> ('n, 'c, 'm) adder \<Rightarrow> ('n, 'c, 'm) adder \<times> string option"
  and addEntries :: "('n, 'c, 'm) add_env \<Rightarrow> add_opts \<Rightarrow> string \<Rightarrow> fentries \<Rightarrow> ('n, 'c, 'm) adder \<Rightarrow> ('n, 'c, 'm) adder \<times> string option" where
  "addFileNode env opts path (FDir es) toplevel st = and_then (before_node env opts st) (\<lambda>st.
     and_then (if \<not> (toplevel \<and> path = []) then on_root env (\<lambda>m. mk_dir env m path) [EMkdir path] st else (st, None))
       (addEntries env opts path es))"
| "addFileNode env opts path (FSymlink target) toplevel st = and_then (before_node env opts st) (addSymlink env opts path target)"
| "addFileNode env opts path (FFile content) toplevel st = and_then (before_node env opts st) (addFile env opts path content)"
| "addFileNode env opts path FUnknown toplevel st = and_then (before_node env opts st) (\<lambda>st. (st, Some ''unknown file type''))"
| "addEntries env opts path (FEnd err) st = (st, err)"
| "addEntries env opts path (FEntry name f es) st =
    and_then (addFileNode env opts (Join [path, name]) f False st) (addEntries env opts path es)"

text \<open>The directory events that are sent at the end.\<close>

primrec outputDirs :: "('n, 'c, 'm) add_env \<Rightarrow> add_opts \<Rightarrow> string \<Rightarrow> 'n mtree \<Rightarrow> ('n, 'c, 'm) adder \<Rightarrow> ('n, 'c, 'm) adder \<times> string option"
  and outputChildren :: "('n, 'c, 'm) add_env \<Rightarrow> add_opts \<Rightarrow> string \<Rightarrow> 'n mchildren \<Rightarrow> ('n, 'c, 'm) adder \<Rightarrow> ('n, 'c, 'm) adder \<times> string option" where
  "outputDirs env opts path MFile st = (st, None)"
| "outputDirs env opts path (MDir list_err cs nd) st = and_then (st, list_err) (\<lambda>st.
     and_then (outputChildren env opts path cs st) (\<lambda>st.
       case nd of Inl e \<Rightarrow> (st, Some e) | Inr n \<Rightarrow> outputDagnode env opts path n st))"
| "outputDirs env opts path MUnknown st = (st, Some ''unrecognized fsn type'')"
| "outputChildren env opts path CEnd st = (st, None)"
| "outputChildren env opts path (CErr e) st = (st, Some e)"
| "outputChildren env opts path (CChild name c cs) st =
    and_then (outputDirs env opts (Join [path, name]) c st) (outputChildren env opts path cs)"

text \<open>The root of the result: the directory, or the first child when a single file is added.\<close>

definition result_root :: "fnode \<Rightarrow> 'n mtree \<Rightarrow> (string, string \<times> 'n mtree) result" where
  "result_root file t = (case file of
     FDir _ \<Rightarrow> Inr ([], t)
   | _ \<Rightarrow> (case t of
       MDir (Some e) _ _ \<Rightarrow> Inl e
     | MDir None CEnd _ \<Rightarrow> Inl ''expected at least one child dir, got none''
     | MDir None (CErr e) _ \<Rightarrow> Inl e
     | MDir None (CChild name c _) _ \<Rightarrow> Inr (name, c)
     | _ \<Rightarrow> Inl ''not a directory''))"

text \<open>The part of \<open>AddAllAndPin\<close> between taking the lock and its deferred release.\<close>

definition add_locked :: "('n, 'c, 'm) add_env \<Rightarrow> add_opts \<Rightarrow> fnode \<Rightarrow> ('n, 'c, 'm) adder \<Rightarrow> ('n, 'c, 'm) adder \<times> (string, 'n) result" where
  "add_locked env opts file st = (case addFileNode env opts [] file True st of
     (st, Some e) \<Rightarrow> (st, Inl e)
   | (st, None) \<Rightarrow> (case on_root env (flush_root env) [] st of
       (st, Some e) \<Rightarrow> (st, Inl e)
     | (st, None) \<Rightarrow> (case result_root file (root_tree env (the (mroot st))) of
         Inl e \<Rightarrow> (st, Inl e)
       | Inr (name, root) \<Rightarrow> (case on_root env (close_root env) [] st of
           (st, Some e) \<Rightarrow> (st, Inl e)
         | (st, None) \<Rightarrow> (case tree_node env root of
             Inl e \<Rightarrow> (st, Inl e)
           | Inr nd \<Rightarrow> (case and_then (outputDirs env opts name root st) (\<lambda>st. (st, dag_sync env)) of
               (st, Some e) \<Rightarrow> (st, Inl e)
             | (st, None) \<Rightarrow>
                 (if \<not> Pin opts then (st, Inr nd)
                  else case PinRoot env opts nd st of (st, Some e) \<Rightarrow> (st, Inl e) | (st, None) \<Rightarrow> (st, Inr nd))))))))"

definition AddAllAndPin :: "('n, 'c, 'm) add_env \<Rightarrow> add_opts \<Rightarrow> fnode \<Rightarrow> ('n, 'c, 'm) adder \<Rightarrow> ('n, 'c, 'm) adder \<times> (string, 'n) result" where
  "AddAllAndPin env opts file st =
    (let st = (if Pin opts then emit ELock (st\<lparr>unlocker := True\<rparr>) else st);
         (st, r) = add_locked env opts file st
     in (if unlocker st then emit EUnlock st else st, r))"


section \<open>The log\<close>

text \<open>
  The log of an adder that holds the lock: the lock is given up only for a moment, after a root has been pinned and
  the pins have been written, and nothing is ever unpinned.
\<close>

inductive traced :: "('n, 'c) ev list \<Rightarrow> bool" where
  traced_nil: "traced []"
| traced_ev: "e \<noteq> ELock \<Longrightarrow> e \<noteq> EUnlock \<Longrightarrow> \<forall>c. e \<noteq> EUnpin c \<Longrightarrow> traced es \<Longrightarrow> traced (e # es)"
| traced_pause: "traced es \<Longrightarrow> traced (EPin c # EFlushPins # EUnlock # ELock # es)"

lemma traced_append: "traced xs \<Longrightarrow> traced ys \<Longrightarrow> traced (xs @ ys)"
  by (induction rule: traced.induct) (auto intro: traced.intros)

lemma traced_single: "e \<noteq> ELock \<Longrightarrow> e \<noteq> EUnlock \<Longrightarrow> \<forall>c. e \<noteq> EUnpin c \<Longrightarrow> traced [e]"
  by (simp add: traced.intros)

lemma traced_unlock:
  assumes "traced new" and "new = xs @ EUnlock # ys"
  shows "\<exists>xs' c ys'. xs = xs' @ [EPin c, EFlushPins] \<and> ys = ELock # ys'"
  using assms
proof (induction arbitrary: xs rule: traced.induct)
  case (traced_ev e es)
  then obtain xs1 where "xs = e # xs1" "es = xs1 @ EUnlock # ys"
    by (cases xs) auto
  with traced_ev.IH show ?case
    by fastforce
next
  case (traced_pause es c)
  consider "xs = [EPin c, EFlushPins]" "ys = ELock # es" | xs1 where "xs = EPin c # EFlushPins # EUnlock # ELock # xs1" "es = xs1 @ EUnlock # ys"
    using traced_pause.prems by (auto simp: Cons_eq_append_conv)
  then show ?case
  proof cases
    case 2
    then obtain xs' d ys' where "xs1 = xs' @ [EPin d, EFlushPins]" "ys = ELock # ys'"
      using traced_pause.IH by blast
    then show ?thesis
      using 2(1) by (metis append_Cons)
  qed auto
qed simp

definition pinned :: "('n, 'c) ev list \<Rightarrow> 'c set" where
  "pinned es = {c. EPin c \<in> set es}"

lemma pinned_simps [simp]:
  "pinned [] = {}" "pinned (xs @ ys) = pinned xs \<union> pinned ys" "pinned (EPin c # es) = insert c (pinned es)"
  "pinned (EFlushPins # es) = pinned es" "pinned (EUnlock # es) = pinned es" "pinned (ELock # es) = pinned es"
  "pinned (EMkdir p # es) = pinned es" "pinned (EPut p n # es) = pinned es" "pinned (EFree # es) = pinned es"
  "pinned (EOut p n # es) = pinned es"
  by (auto simp: pinned_def)

text \<open>What every operation keeps.\<close>

definition grows :: "('n, 'c, 'm) adder \<Rightarrow> ('n, 'c, 'm) adder \<Rightarrow> bool" where
  "grows st st' \<longleftrightarrow> (tempRoot st = None \<longrightarrow> tempRoot st' = None \<and> unlocker st' = unlocker st
     \<and> (liveNodes st \<le> liveCacheSize \<longrightarrow> liveNodes st' \<le> liveCacheSize)
     \<and> (\<exists>new. events st' = events st @ new \<and> traced new \<and> pins st' = pins st \<union> pinned new))"

lemma grows_refl [simp]: "grows st st"
  by (auto simp: grows_def intro: exI [of _ "[]"] traced_nil)

lemma grows_trans:
  assumes "grows a b" and "grows b c"
  shows "grows a c"
proof -
  have "\<exists>new. events c = events a @ new \<and> traced new \<and> pins c = pins a \<union> pinned new" if "tempRoot a = None"
  proof -
    obtain x y where x: "events b = events a @ x" "traced x" "pins b = pins a \<union> pinned x"
      and y: "events c = events b @ y" "traced y" "pins c = pins b \<union> pinned y"
      using assms \<open>tempRoot a = None\<close> unfolding grows_def by auto
    then have "events c = events a @ (x @ y)" "pins c = pins a \<union> pinned (x @ y)"
      by auto
    with traced_append [OF x(2) y(2)] show ?thesis
      by blast
  qed
  with assms show ?thesis
    unfolding grows_def by auto
qed

lemma growsI:
  assumes "tempRoot st' = tempRoot st" and "unlocker st' = unlocker st" and "liveNodes st' = liveNodes st"
    and "events st' = events st @ new" and "traced new" and "pins st' = pins st \<union> pinned new"
  shows "grows st st'"
  using assms unfolding grows_def by auto

lemma grows_and_then:
  assumes "grows st (fst r)" and "\<And>st1. r = (st1, None) \<Longrightarrow> grows st1 (fst (f st1))"
  shows "grows st (fst (and_then r f))"
  using assms grows_trans by (cases r; cases "snd r") (auto simp: and_then_def)

lemma grows_mfsRoot: "grows st (fst (mfsRoot env st))"
  unfolding mfsRoot_def by (auto split: option.splits sum.splits intro!: growsI [where new = "[]"] traced_nil)

lemma grows_on_root:
  assumes "traced evs" and "pinned evs = {}"
  shows "grows st (fst (on_root env f evs st))"
proof -
  obtain st1 r where m: "mfsRoot env st = (st1, r)"
    by (cases "mfsRoot env st")
  then have "grows st st1"
    using grows_mfsRoot [of st env] by simp
  moreover have "grows st1 (st1\<lparr>mroot := m', events := events st1 @ evs\<rparr>)" for m'
    using assms by (intro growsI [where new = evs]) auto
  ultimately show ?thesis
    unfolding on_root_def m by (auto split: sum.splits intro: grows_trans)
qed

lemma grows_emit:
  assumes "traced [e]" and "pinned [e] = {}"
  shows "grows st (emit e st)"
  using assms by (intro growsI [where new = "[e]"]) auto

lemma grows_PinRoot: "grows st (fst (PinRoot env opts root st))"
proof (cases "tempRoot st = None \<and> Pin opts \<and> dag_add env root = None")
  case True
  let ?c = "cid_of env root"
  have "grows st (emit (EPin ?c) (st\<lparr>pins := insert ?c (pins st)\<rparr>))"
    by (intro growsI [where new = "[EPin ?c]"] traced_single) auto
  moreover have "grows st (emit EFlushPins (emit (EPin ?c) (st\<lparr>pins := insert ?c (pins st)\<rparr>)))"
    by (intro growsI [where new = "[EPin ?c, EFlushPins]"] traced.intros) auto
  ultimately show ?thesis
    using True by (auto simp: PinRoot_def and_then_def Let_def split: option.splits)
next
  case False
  then show ?thesis
    by (auto simp: grows_def PinRoot_def Let_def split: option.splits) (auto intro!: exI [of _ "[]"] traced_nil)
qed

lemma PinRoot_ok:
  assumes "PinRoot env opts root st = (st', None)" and "Pin opts" and "tempRoot st = None"
  shows "st' = st\<lparr>pins := insert (cid_of env root) (pins st), events := events st @ [EPin (cid_of env root), EFlushPins]\<rparr>"
  using assms by (auto simp: PinRoot_def and_then_def Let_def split: option.splits)

lemma grows_pause:
  assumes "unlocker st \<longrightarrow> Pin opts"
  shows "grows st (fst (maybePauseForGC env opts st))"
proof -
  let ?st0 = "st\<lparr>gc_asked := Suc (gc_asked st)\<rparr>"
  have 0: "grows st ?st0"
    by (rule growsI [where new = "[]"]) (auto intro: traced_nil)
  obtain st1 r where c: "curRootNode env ?st0 = (st1, r)"
    by (cases "curRootNode env ?st0")
  have 1: "grows st st1"
    using grows_trans [OF 0 grows_mfsRoot [of ?st0 env]] c
    by (cases "mfsRoot env ?st0") (auto simp: curRootNode_def split: sum.splits)
  have 2: "grows st1 (fst (and_then (PinRoot env opts rn st1) (\<lambda>st. (emit ELock (emit EUnlock st), None))))" if "Pin opts" for rn
  proof (cases "tempRoot st1 = None \<and> snd (PinRoot env opts rn st1) = None")
    case True
    then obtain st2 where p: "PinRoot env opts rn st1 = (st2, None)"
      by (cases "PinRoot env opts rn st1") auto
    show ?thesis
      unfolding p PinRoot_ok [OF p \<open>Pin opts\<close> conjunct1 [OF True]]
      by (simp add: and_then_def)
        (intro growsI [where new = "[EPin (cid_of env rn), EFlushPins, EUnlock, ELock]"], auto intro: traced.intros)
  next
    case False
    then show ?thesis
      using grows_PinRoot [of st1 env opts rn]
      by (cases "PinRoot env opts rn st1"; cases "snd (PinRoot env opts rn st1)") (auto simp: and_then_def grows_def)
  qed
  show ?thesis
    using 0 1 2 assms unfolding maybePauseForGC_def
    by (auto simp: c Let_def split: sum.splits intro: grows_trans)
qed

lemma grows_outputDagnode: "grows st (fst (outputDagnode env opts name dn st))"
  by (auto simp: outputDagnode_def split: sum.splits intro!: grows_emit traced_single)

lemma grows_addNode: "grows st (fst (addNode env opts nd path st))"
proof -
  have "grows st (fst (case mfsRoot env st of (st, Inl e) \<Rightarrow> (st, Some e)
      | (st, Inr _) \<Rightarrow> if d \<noteq> ''.'' then on_root env f [EMkdir d] st else (st, None)))" for d f
  proof -
    obtain st1 r where m: "mfsRoot env st = (st1, r)"
      by (cases "mfsRoot env st")
    have "grows st st1"
      using grows_mfsRoot [of st env] by (simp add: m)
    moreover have "grows st1 (fst (on_root env f [EMkdir d] st1))"
      by (rule grows_on_root) (auto intro: traced_single)
    ultimately show ?thesis
      unfolding m by (auto split: sum.splits intro: grows_trans)
  qed
  then show ?thesis
    unfolding addNode_def Let_def
    by (intro grows_and_then) (auto intro!: grows_on_root traced_single grows_outputDagnode)
qed


lemma grows_symlink: "grows st (fst (addSymlink env opts path target st))"
  by (auto simp: addSymlink_def grows_addNode split: sum.splits option.splits)

lemma grows_file: "grows st (fst (addFile env opts path content st))"
  by (auto simp: addFile_def grows_addNode split: sum.splits)

text \<open>The number of live nodes is reset when it reaches the limit, and then grows by one.\<close>

lemma grows_live:
  assumes "grows st st1" and "liveNodes st1 < liveCacheSize"
  shows "grows st (st1\<lparr>liveNodes := liveNodes st1 + 1\<rparr>)"
proof -
  have "liveNodes st1 + 1 \<le> liveCacheSize"
    using assms(2) by (rule inc_le)
  with assms(1) show ?thesis
    unfolding grows_def by auto
qed

lemma liveCacheSize_pos: "0 < liveCacheSize" "unat liveCacheSize = 262144"
  by (simp_all add: liveCacheSize_def)

lemma grows_before:
  assumes "unlocker st \<longrightarrow> Pin opts"
  shows "grows st (fst (before_node env opts st))"
  unfolding before_node_def
proof (rule grows_and_then [OF grows_pause [OF assms]])
  fix st1
  let ?r = "if liveNodes st1 \<ge> liveCacheSize
    then and_then (on_root env (free_mem env) [EFree] st1) (\<lambda>st. (st\<lparr>liveNodes := 0\<rparr>, None)) else (st1, None)"
  have free: "grows st1 (fst (on_root env (free_mem env) [EFree] st1))"
    by (rule grows_on_root) (auto intro: traced_single)
  have r: "grows st1 (fst ?r) \<and> (snd ?r = None \<longrightarrow> liveNodes (fst ?r) < liveCacheSize)"
    using free liveCacheSize_pos(1)
    by (cases "on_root env (free_mem env) [EFree] st1"; cases "snd (on_root env (free_mem env) [EFree] st1)")
      (auto simp: and_then_def grows_def intro: traced_nil)
  then show "grows st1 (fst (and_then ?r (\<lambda>st. (st\<lparr>liveNodes := liveNodes st + 1\<rparr>, None))))"
    by (cases ?r; cases "snd ?r") (auto simp: and_then_def intro: grows_live)
qed

lemma grows_unlocker: "grows st st' \<Longrightarrow> tempRoot st = None \<Longrightarrow> unlocker st' = unlocker st \<and> tempRoot st' = None"
  by (simp add: grows_def)

text \<open>The operations keep the log when they start from a state without a temporary root.\<close>

lemma grows_add:
  "unlocker st \<longrightarrow> Pin opts \<Longrightarrow> tempRoot st = None \<Longrightarrow> grows st (fst (addFileNode env opts path f toplevel st))"
  "unlocker st \<longrightarrow> Pin opts \<Longrightarrow> tempRoot st = None \<Longrightarrow> grows st (fst (addEntries env opts path es st))"
proof (induction f and es arbitrary: path toplevel st and path st)
  case (FDir es)
  let ?dir = "\<lambda>st. if \<not> (toplevel \<and> path = []) then on_root env (\<lambda>m. mk_dir env m path) [EMkdir path] st else (st, None)"
  have dir: "grows st (fst (?dir st))" for st :: "('a, 'b, 'c) adder"
    by (auto intro!: grows_on_root traced_single)
  show ?case
    unfolding addFileNode.simps
  proof (rule grows_and_then [OF grows_before [OF FDir.prems(1)]], rule grows_and_then [OF dir])
    fix st1 st2
    assume 1: "before_node env opts st = (st1, None)" and 2: "?dir st1 = (st2, None)"
    then have "unlocker st2 = unlocker st \<and> tempRoot st2 = None"
      using grows_unlocker grows_trans [OF grows_before [OF FDir.prems(1), of env] , of st2] dir [of st1] FDir.prems(2) by fastforce
    then show "grows st2 (fst (addEntries env opts path es st2))"
      using FDir.IH FDir.prems(1) by simp
  qed
next
  case (FEntry name f es)
  have f: "grows st (fst (addFileNode env opts (Join [path, name]) f False st))"
    using FEntry.IH(1) FEntry.prems by blast
  then show ?case
    unfolding addEntries.simps
  proof (rule grows_and_then)
    fix st1
    assume "addFileNode env opts (Join [path, name]) f False st = (st1, None)"
    then show "grows st1 (fst (addEntries env opts path es st1))"
      using grows_unlocker [OF f] FEntry.IH(2) FEntry.prems by simp
  qed
qed (auto intro!: grows_and_then grows_before grows_symlink grows_file)

lemma grows_outputDirs:
  "grows st (fst (outputDirs env opts path t st))"
  "grows st (fst (outputChildren env opts path cs st))"
proof (induction t and cs arbitrary: path st and path st)
  case (MDir le cs nd)
  have "grows st (fst (and_then (st, le) f))" if "\<And>st. grows st (fst (f st))" for f :: "('a, 'b, 'c) adder \<Rightarrow> ('a, 'b, 'c) adder \<times> string option"
    using that by (cases le) (auto simp: and_then_def)
  then show ?case
    using MDir.IH by (auto intro!: grows_and_then grows_outputDagnode split: sum.splits)
qed (auto intro!: grows_and_then)

lemma grows_locked:
  assumes "unlocker st \<longrightarrow> Pin opts" and "tempRoot st = None"
  shows "grows st (fst (add_locked env opts file st))"
proof -
  have root: "grows s (fst (on_root env f [] s))" for f and s :: "('a, 'b, 'c) adder"
    by (rule grows_on_root) (auto intro: traced_nil)
  obtain st1 e1 where 1: "addFileNode env opts [] file True st = (st1, e1)"
    by (cases "addFileNode env opts [] file True st")
  obtain st2 e2 where 2: "on_root env (flush_root env) [] st1 = (st2, e2)"
    by (cases "on_root env (flush_root env) [] st1")
  obtain st3 e3 where 3: "on_root env (close_root env) [] st2 = (st3, e3)"
    by (cases "on_root env (close_root env) [] st2")
  have g1: "grows st st1"
    using grows_add(1) [OF assms, where env = env and path = "[]" and f = "file" and toplevel = True] by (simp add: 1)
  then have g2: "grows st st2"
    using root [of st1 "flush_root env"] grows_trans by (simp add: 2) blast
  then have g3: "grows st st3"
    using root [of st2 "close_root env"] grows_trans by (simp add: 3) blast
  have out: "grows st (fst (and_then (outputDirs env opts name t st3) (\<lambda>st. (st, dag_sync env))))" for name t
    by (rule grows_trans [OF g3], rule grows_and_then [OF grows_outputDirs(1)]) simp
  have pin: "grows st (fst (PinRoot env opts nd st4))" if "and_then (outputDirs env opts name t st3) (\<lambda>st. (st, dag_sync env)) = (st4, None)" for name t st4 nd
    using grows_trans [OF _ grows_PinRoot] out [of name t] by (simp add: that)
  show ?thesis
    unfolding add_locked_def 1 using g1 g2 g3 out pin
    by (auto simp: 2 3 split: option.splits sum.splits prod.splits) (metis fst_conv)+
qed


section \<open>Adding is safe for the collector\<close>

lemma AddAllAndPin_log:
  assumes "Pin opts" and "tempRoot st = None" and "AddAllAndPin env opts file st = (st', r)"
  shows "\<exists>new. events st' = events st @ ELock # new @ [EUnlock] \<and> traced new \<and> pins st' = pins st \<union> pinned new
    \<and> tempRoot st' = None \<and> (liveNodes st \<le> liveCacheSize \<longrightarrow> liveNodes st' \<le> liveCacheSize)
    \<and> (\<forall>nd. r = Inr nd \<longrightarrow> cid_of env nd \<in> pins st')"
proof -
  let ?st0 = "emit ELock (st\<lparr>unlocker := True\<rparr>)"
  obtain st1 where l: "add_locked env opts file ?st0 = (st1, r)" and st': "st' = (if unlocker st1 then emit EUnlock st1 else st1)"
    using assms(1,3) by (auto simp: AddAllAndPin_def Let_def split: prod.splits)
  have g: "grows ?st0 st1"
    using grows_locked [of ?st0 opts env "file"] assms(1,2) l by simp
  then obtain new where new: "events st1 = events ?st0 @ new" "traced new" "pins st1 = pins st \<union> pinned new" "unlocker st1" "tempRoot st1 = None"
    using assms(2) unfolding grows_def by auto
  have "cid_of env nd \<in> pins st1" if "r = Inr nd" for nd
  proof -
    have "add_locked env opts file ?st0 = (st1, Inr nd)"
      using l that by simp
    then obtain st2 where "PinRoot env opts nd st2 = (st1, None)"
      using assms(1) unfolding add_locked_def by (auto split: prod.splits option.splits sum.splits)
    then show ?thesis
      using assms(1) by (auto simp: PinRoot_def and_then_def Let_def split: option.splits)
  qed
  then show ?thesis
    using g new assms(2) by (auto simp: st' grows_def)
qed

text \<open>C4: the pin lock. An adder that pins, and that has no temporary root when it starts, as a new one has none, takes the pin lock at the beginning and releases it at the end, whatever fails.
  In between it releases the lock only for a collection, and then only right after it has pinned a root
  and written the pins, and it takes the lock again at once. If it succeeds the result is pinned.\<close>

theorem adder_lock_safe:
  assumes "Pin opts" and "tempRoot st = None" and "AddAllAndPin env opts file st = (st', r)"
  shows "\<exists>new. events st' = events st @ ELock # new @ [EUnlock]
    \<and> (\<forall>xs ys. new = xs @ EUnlock # ys \<longrightarrow> (\<exists>xs' c ys'. xs = xs' @ [EPin c, EFlushPins] \<and> ys = ELock # ys' \<and> c \<in> pins st'))
    \<and> (\<forall>nd. r = Inr nd \<longrightarrow> cid_of env nd \<in> pins st')"
proof -
  obtain new where new: "events st' = events st @ ELock # new @ [EUnlock]" "traced new" "pins st' = pins st \<union> pinned new"
      "\<forall>nd. r = Inr nd \<longrightarrow> cid_of env nd \<in> pins st'"
    using AddAllAndPin_log [OF assms] by auto
  have "\<exists>xs' c ys'. xs = xs' @ [EPin c, EFlushPins] \<and> ys = ELock # ys' \<and> c \<in> pins st'" if "new = xs @ EUnlock # ys" for xs ys
    using traced_unlock [OF new(2) that] new(3) that by auto
  with new show ?thesis
    by blast
qed

text \<open>Temporary pins stay. The temporary root that a pause pins is meant to be unpinned when the next root is pinned, but
  the field that remembers it is only set if it was set before: no run of an adder unpins anything, and
  every root pinned at a pause is still pinned at the end.\<close>

theorem adder_keeps_temporary_pins:
  assumes "Pin opts" and "tempRoot st = None" and "AddAllAndPin env opts file st = (st', r)"
  shows "tempRoot st' = None \<and> pins st' = pins st \<union> pinned (drop (length (events st)) (events st'))"
  using AddAllAndPin_log [OF assms] by auto

text \<open>The number of live nodes stays within the limit after which the file system is asked to free its memory, so the
  counter never wraps.\<close>

theorem adder_live_bounded:
  assumes "Pin opts" and "tempRoot st = None" and "unat (liveNodes st) \<le> 262144" and "AddAllAndPin env opts file st = (st', r)"
  shows "unat (liveNodes st') \<le> 262144"
  using AddAllAndPin_log [OF assms(1,2,4)] assms(3) liveCacheSize_pos(2) by (auto simp: word_le_nat_alt)


section \<open>Every file is added\<close>

text \<open>What is put into the file system, and what should be: every file and symbolic link below a path, in order.\<close>

definition put_of :: "('n, 'c) ev \<Rightarrow> (string \<times> 'n) option" where
  "put_of e = (case e of EPut p n \<Rightarrow> Some (p, n) | _ \<Rightarrow> None)"

definition puts :: "('n, 'c) ev list \<Rightarrow> (string \<times> 'n) list" where
  "puts es = List.map_filter put_of es"

lemma puts_simps [simp]:
  "puts [] = []" "puts (xs @ ys) = puts xs @ puts ys" "puts (EPut p n # es) = (p, n) # puts es"
  "puts (EPin c # es) = puts es" "puts (EUnpin c # es) = puts es" "puts (EFlushPins # es) = puts es"
  "puts (EUnlock # es) = puts es" "puts (ELock # es) = puts es"
  "puts (EMkdir d # es) = puts es" "puts (EFree # es) = puts es" "puts (EOut p n # es) = puts es"
  by (simp_all add: puts_def put_of_def List.map_filter_def)

definition placed :: "('n, 'c, 'm) add_env \<Rightarrow> string \<Rightarrow> (string, 'n) result \<Rightarrow> (string \<times> 'n) list" where
  "placed env path r = (case r of
     Inl _ \<Rightarrow> [] | Inr nd \<Rightarrow> [(if path = [] then cid_text env (cid_of env nd) else path, bare_node env nd)])"

primrec leaves :: "('n, 'c, 'm) add_env \<Rightarrow> string \<Rightarrow> fnode \<Rightarrow> (string \<times> 'n) list"
  and leaves_of :: "('n, 'c, 'm) add_env \<Rightarrow> string \<Rightarrow> fentries \<Rightarrow> (string \<times> 'n) list" where
  "leaves env path (FDir es) = leaves_of env path es"
| "leaves env path (FSymlink target) = placed env path (symlink_node env target)"
| "leaves env path (FFile content) = placed env path (layout env content)"
| "leaves env path FUnknown = []"
| "leaves_of env path (FEnd err) = []"
| "leaves_of env path (FEntry name f es) = leaves env (Join [path, name]) f @ leaves_of env path es"

definition adds :: "(string \<times> 'n) list \<Rightarrow> ('n, 'c, 'm) adder \<Rightarrow> ('n, 'c, 'm) adder \<times> string option \<Rightarrow> bool" where
  "adds xs st r \<longleftrightarrow> (snd r = None \<longrightarrow> puts (events (fst r)) = puts (events st) @ xs)"

lemma adds_and_then:
  assumes "adds xs st r" and "\<And>st1. r = (st1, None) \<Longrightarrow> adds ys st1 (f st1)"
  shows "adds (xs @ ys) st (and_then r f)"
  using assms by (cases r; cases "snd r") (auto simp: adds_def and_then_def)

lemma adds_nothing_then:
  assumes "adds [] st r" and "\<And>st1. r = (st1, None) \<Longrightarrow> adds ys st1 (f st1)"
  shows "adds ys st (and_then r f)"
  using adds_and_then [of "[]" st r ys f] assms by simp

lemma adds_then_nothing:
  assumes "adds xs st r" and "\<And>st1. r = (st1, None) \<Longrightarrow> adds [] st1 (f st1)"
  shows "adds xs st (and_then r f)"
  using adds_and_then [of xs st r "[]" f] assms by simp

lemma adds_same: "adds [] st (st, e)"
  by (simp add: adds_def)

lemma events_mfsRoot: "events (fst (mfsRoot env st)) = events st"
  by (auto simp: mfsRoot_def split: option.splits sum.splits)

lemma adds_on_root: "adds (puts evs) st (on_root env f evs st)"
  using events_mfsRoot [of env st] by (cases "mfsRoot env st") (auto simp: on_root_def adds_def split: sum.splits)

lemma adds_PinRoot: "adds [] st (PinRoot env opts root st)"
  by (auto simp: adds_def PinRoot_def and_then_def Let_def split: option.splits)

lemma adds_pause: "adds [] st (maybePauseForGC env opts st)"
proof -
  let ?st0 = "st\<lparr>gc_asked := Suc (gc_asked st)\<rparr>"
  obtain st1 r where c: "curRootNode env ?st0 = (st1, r)"
    by (cases "curRootNode env ?st0")
  have ev: "events st1 = events st"
    using events_mfsRoot [of env ?st0] c by (cases "mfsRoot env ?st0") (auto simp: curRootNode_def split: sum.splits)
  have "adds [] st1 (and_then (PinRoot env opts rn st1) (\<lambda>st. (emit ELock (emit EUnlock st), None)))" for rn
    by (rule adds_nothing_then [OF adds_PinRoot]) (simp add: adds_def)
  then show ?thesis
    using ev unfolding maybePauseForGC_def by (auto simp: c Let_def adds_def split: sum.splits)
qed

lemma adds_before: "adds [] st (before_node env opts st)"
  unfolding before_node_def
proof (rule adds_nothing_then [OF adds_pause], rule adds_nothing_then)
  show "adds [] st1 (if liveNodes st1 \<ge> liveCacheSize then and_then (on_root env (free_mem env) [EFree] st1) (\<lambda>st. (st\<lparr>liveNodes := 0\<rparr>, None)) else (st1, None))" for st1
  proof -
    have "adds [] st1 (on_root env (free_mem env) [EFree] st1)"
      using adds_on_root [of "[EFree]" st1 env "free_mem env"] by simp
    from adds_nothing_then [OF this, of "[]" "\<lambda>st. (st\<lparr>liveNodes := 0\<rparr>, None)"] show ?thesis
      by (auto simp: adds_def)
  qed
qed (simp add: adds_def)

lemma adds_outputDagnode: "adds [] st (outputDagnode env opts name dn st)"
  by (auto simp: adds_def outputDagnode_def split: sum.splits)

lemma adds_addNode: "adds (placed env path (Inr nd)) st (addNode env opts nd path st)"
proof -
  have dir: "adds [] st (case mfsRoot env st of (st, Inl e) \<Rightarrow> (st, Some e)
      | (st, Inr _) \<Rightarrow> if d \<noteq> ''.'' then on_root env f [EMkdir d] st else (st, None))" for d f
  proof -
    obtain st1 r where m: "mfsRoot env st = (st1, r)"
      by (cases "mfsRoot env st")
    then have "events st1 = events st"
      using events_mfsRoot [of env st] by simp
    then show ?thesis
      unfolding m using adds_on_root [of "[EMkdir d]" st1 env f] by (auto simp: adds_def split: sum.splits)
  qed
  show ?thesis
    unfolding addNode_def Let_def
    by (rule adds_nothing_then [OF dir], rule adds_then_nothing)
      (use adds_on_root [of "[EPut p n]" for p n] in \<open>auto simp: placed_def adds_outputDagnode adds_same\<close>)
qed

lemma adds_files:
  "adds (leaves env path f) st (addFileNode env opts path f toplevel st)"
  "adds (leaves_of env path es) st (addEntries env opts path es st)"
proof (induction f and es arbitrary: path toplevel st and path st)
  case (FDir es)
  have "adds [] st1 (if \<not> (toplevel \<and> path = []) then on_root env (\<lambda>m. mk_dir env m path) [EMkdir path] st1 else (st1, None))" for st1
    using adds_on_root [of "[EMkdir path]"] by (auto simp: adds_same)
  then show ?case
    using FDir.IH by (auto intro!: adds_nothing_then [OF adds_before] adds_nothing_then)
next
  case (FSymlink target)
  show ?case
    by (auto simp: addSymlink_def adds_addNode intro!: adds_nothing_then [OF adds_before] split: sum.splits option.splits)
      (auto simp: adds_def)
next
  case (FFile content)
  show ?case
    by (auto simp: addFile_def adds_addNode intro!: adds_nothing_then [OF adds_before] split: sum.splits)
      (auto simp: adds_def)
next
  case FUnknown
  show ?case
    by (auto intro!: adds_nothing_then [OF adds_before]) (simp add: adds_def)
next
  case (FEntry name f es)
  then show ?case
    by (auto intro!: adds_and_then)
qed (simp add: adds_def)

lemma adds_outputDirs:
  "adds [] st (outputDirs env opts path t st)"
  "adds [] st (outputChildren env opts path cs st)"
proof (induction t and cs arbitrary: path st and path st)
  case (MDir le cs nd)
  then show ?case
    by (auto intro!: adds_nothing_then simp: adds_same adds_outputDagnode split: sum.splits)
qed (auto intro!: adds_nothing_then simp: adds_same)

text \<open>C22: adding is complete. If adding a tree of files succeeds, then its files and symbolic links, and nothing else, were put into
  the file system, in order, each under its path, whatever pauses were made.\<close>

theorem adder_adds_all:
  assumes "AddAllAndPin env opts file st = (st', Inr nd)"
  shows "puts (events st') = puts (events st) @ leaves env [] file"
proof -
  let ?st0 = "if Pin opts then emit ELock (st\<lparr>unlocker := True\<rparr>) else st"
  obtain st5 where l: "add_locked env opts file ?st0 = (st5, Inr nd)" and st': "st' = (if unlocker st5 then emit EUnlock st5 else st5)"
    using assms by (auto simp: AddAllAndPin_def Let_def split: prod.splits)
  obtain st1 st2 st3 st4 name root where s:
      "addFileNode env opts [] file True ?st0 = (st1, None)" "on_root env (flush_root env) [] st1 = (st2, None)"
      "on_root env (close_root env) [] st2 = (st3, None)"
      "and_then (outputDirs env opts name root st3) (\<lambda>st. (st, dag_sync env)) = (st4, None)"
      "st5 = st4 \<or> PinRoot env opts nd st4 = (st5, None)"
    using l unfolding add_locked_def by (auto split: prod.splits option.splits sum.splits if_splits)
  have "puts (events st1) = puts (events ?st0) @ leaves env [] file"
    using adds_files(1) [of env "[]" "file" ?st0 opts True] by (simp add: s(1) adds_def)
  moreover have "puts (events st2) = puts (events st1)" "puts (events st3) = puts (events st2)"
    using adds_on_root [of "[]" st1 env "flush_root env"] adds_on_root [of "[]" st2 env "close_root env"] by (simp_all add: s(2,3) adds_def)
  moreover have "puts (events st4) = puts (events st3)"
    using adds_nothing_then [OF adds_outputDirs(1) [of st3 env opts name root], of "[]" "\<lambda>st. (st, dag_sync env)"]
    by (simp add: s(4) adds_same) (simp add: adds_def)
  moreover have "puts (events st5) = puts (events st4)"
    using s(5) adds_PinRoot [of st4 env opts nd] by (auto simp: adds_def)
  ultimately show ?thesis
    by (auto simp: st')
qed

section \<open>An example\<close>

text \<open>Nodes are texts and the file system is the list of what was put into it. The collector asks once, before the second file.\<close>

definition ex_add_env :: "(string, string, (string \<times> string) list) add_env" where
  "ex_add_env = \<lparr>cid_of = id, cid_text = id, node_links = (\<lambda>_. []), get_link = Inl, bare_node = id, node_size = (\<lambda>n. Inr (length n)),
     layout = Inr, symlink_node = Inr, dag_add = (\<lambda>_. None), dag_sync = None, new_root = Inr [],
     root_node = (\<lambda>m. Inr (concat (map fst m))), mk_dir = (\<lambda>m _. Inr m), put_node = (\<lambda>m p n. Inr (m @ [(p, n)])),
     free_mem = Inr, flush_root = Inr, close_root = Inr, root_tree = (\<lambda>m. MDir None CEnd (Inr (concat (map fst m)))),
     tree_node = (\<lambda>t. case t of MDir _ _ nd \<Rightarrow> nd | _ \<Rightarrow> Inl ''no node''),
     gc_requested = (\<lambda>k. k = 2), unpin_error = (\<lambda>_. None), flush_error = None\<rparr>"

definition ex_adder :: "(string, string, (string \<times> string) list) adder" where
  "ex_adder = \<lparr>mroot = None, unlocker = False, tempRoot = None, liveNodes = 0, pins = {}, gc_asked = 0, events = []\<rparr>"

definition ex_tree :: fnode where
  "ex_tree = FDir (FEntry ''a'' (FFile ''x'') (FEntry ''b'' (FFile ''y'') (FEnd None)))"

definition ex_add_opts :: add_opts where
  "ex_add_opts = \<lparr>Pin = True, Silent = True, has_out = False\<rparr>"

definition ex_added :: "(string, string, (string \<times> string) list) adder" where
  "ex_added = \<lparr>mroot = Some [(''a'', ''x''), (''b'', ''y'')], unlocker = True, tempRoot = None, liveNodes = 3,
     pins = {''a'', ''ab''}, gc_asked = 3,
     events = [ELock, EPut ''a'' ''x'', EPin ''a'', EFlushPins, EUnlock, ELock, EPut ''b'' ''y'', EPin ''ab'', EFlushPins, EUnlock]\<rparr>"

lemma ex_add_run: "AddAllAndPin ex_add_env ex_add_opts ex_tree ex_adder = (ex_added, Inr ''ab'')"
  by code_simp

lemma ex_add_start: "Pin ex_add_opts" "tempRoot ex_adder = None"
  by (simp_all add: ex_add_opts_def ex_adder_def)

theorem adder_lock_safe_witness:
  "\<exists>new. events ex_added = ELock # new @ [EUnlock]
    \<and> (\<forall>xs ys. new = xs @ EUnlock # ys \<longrightarrow> (\<exists>xs' c ys'. xs = xs' @ [EPin c, EFlushPins] \<and> ys = ELock # ys' \<and> c \<in> pins ex_added))
    \<and> ''ab'' \<in> pins ex_added"
  using adder_lock_safe [OF ex_add_start ex_add_run] by (simp add: ex_adder_def ex_add_env_def)

theorem adder_keeps_temporary_pins_witness:
  "AddAllAndPin ex_add_env ex_add_opts ex_tree ex_adder = (ex_added, Inr ''ab'') \<and> tempRoot ex_added = None
    \<and> pins ex_added = pinned (events ex_added) \<and> ''a'' \<in> pins ex_added"
  using adder_keeps_temporary_pins [OF ex_add_start ex_add_run] ex_add_run by (simp add: ex_adder_def ex_added_def)

theorem adder_live_bounded_witness: "unat (liveNodes ex_adder) \<le> 262144 \<and> unat (liveNodes ex_added) \<le> 262144"
  using adder_live_bounded [OF ex_add_start _ ex_add_run] by (simp add: ex_adder_def)

theorem adder_adds_all_witness:
  "puts (events ex_added) = leaves ex_add_env [] ex_tree \<and> puts (events ex_added) = [(''a'', ''x''), (''b'', ''y'')]"
  using adder_adds_all [OF ex_add_run] by (simp add: ex_adder_def ex_added_def)

section \<open>Progress\<close>

text \<open>
  The reader that reports progress: \<open>n\<close> bytes were read and \<open>eof\<close> says whether that was the end. The counters are 64-bit
  integers in the source; files stay below that.
\<close>

definition progressReaderIncrement :: nat where
  "progressReaderIncrement = 1024 * 256"

record progressReader =
  pr_bytes :: nat
  lastProgress :: nat

definition progress_Read :: "nat \<Rightarrow> bool \<Rightarrow> progressReader \<Rightarrow> progressReader \<times> nat list" where
  "progress_Read n eof i =
    (let b = pr_bytes i + n in
     if b - lastProgress i \<ge> progressReaderIncrement \<or> eof then (\<lparr>pr_bytes = b, lastProgress = b\<rparr>, [b])
     else (i\<lparr>pr_bytes := b\<rparr>, []))"

fun progress_run :: "(nat \<times> bool) list \<Rightarrow> progressReader \<Rightarrow> progressReader \<times> nat list" where
  "progress_run [] i = (i, [])"
| "progress_run ((n, eof) # rs) i =
    (let (i1, out) = progress_Read n eof i; (i2, outs) = progress_run rs i1 in (i2, out @ outs))"

definition progress_inv :: "progressReader \<Rightarrow> bool" where
  "progress_inv i \<longleftrightarrow> lastProgress i \<le> pr_bytes i \<and> pr_bytes i - lastProgress i < progressReaderIncrement"

lemma progress_Read_inv: "progress_inv i \<Longrightarrow> progress_inv (fst (progress_Read n eof i))"
  by (auto simp: progress_inv_def progress_Read_def Let_def progressReaderIncrement_def)

text \<open>
  However a file is read, at any time fewer than \<open>progressReaderIncrement\<close> bytes are unreported, the reports never
  decrease, and the last one after the end is the size of the file.
\<close>

lemma progress_run_reports:
  assumes "progress_inv i"
  shows "progress_inv (fst (progress_run rs i)) \<and> pr_bytes (fst (progress_run rs i)) = pr_bytes i + sum_list (map fst rs)
    \<and> sorted (lastProgress i # snd (progress_run rs i))
    \<and> last (lastProgress i # snd (progress_run rs i)) = lastProgress (fst (progress_run rs i))"
  using assms
proof (induction rs i rule: progress_run.induct)
  case (2 n eof rs i)
  obtain i1 out where r: "progress_Read n eof i = (i1, out)"
    by (cases "progress_Read n eof i")
  have "progress_inv i1"
    using progress_Read_inv [OF 2(2), of n eof] by (simp add: r)
  from 2(1) [OF refl r [symmetric] this] 2(2) r show ?case
    by (cases "progress_run rs i1") (auto simp: progress_Read_def progress_inv_def Let_def split: if_splits)
qed simp

lemma progress_total:
  assumes "progress_inv i"
  shows "last (snd (progress_run (rs @ [(n, True)]) i)) = pr_bytes i + sum_list (map fst rs) + n"
proof -
  have "progress_run (rs @ rs') i = (let (i1, out) = progress_run rs i; (i2, out') = progress_run rs' i1 in (i2, out @ out'))" for rs' i
    by (induction rs i rule: progress_run.induct) (auto simp: Let_def split: prod.splits)
  then show ?thesis
    using progress_run_reports [OF assms, of rs] by (auto simp: progress_Read_def Let_def split: prod.splits)
qed

end
