(* ===== verification/Gateway.thy ===== *)
theory Gateway
  imports GoPath
begin

text \<open>
  The HTTP gateway, \<open>src/core/corehttp/gateway_handler.go\<close>, with the data of its directory page
  (\<open>src/core/corehttp/gateway_indexPage.go\<close>) and its lazy seeker (\<open>src/core/corehttp/lazyseek.go\<close>).

  Resolving paths, reading files, the mutable file system that the writable gateway patches, content types and
  the text of errors are parameters. A response has its headers, the status written first, what was
  written as its body, and whether the handler panicked, which the server recovers from.
\<close>

section \<open>Requests and responses\<close>

datatype gerr = ErrOffline | ErrNoLink string | RoutingNotFound | DeadlineExceeded | OtherErr string

record gw_request =
  req_method :: string
  url_path :: string
  escaped_path :: string
  request_uri :: "(gerr, string) result"
  prefix_header :: string
  service_worker :: string
  if_none_match :: string
  accepts :: "string list"
  q_filename :: string
  q_goget :: string
  gw_hostname :: "string option"
  req_body :: string

record gw_config =
  Writable :: bool
  PathPrefixes :: "string list"
  Headers :: "(string \<times> string list) list"

record directoryItem =
  di_Size :: string
  di_Name :: string
  di_Path :: string
  di_Hash :: string
  di_ShortHash :: string

record listingTemplateData =
  GatewayURL :: string
  Listing :: "directoryItem list"
  l_Size :: string
  l_Path :: string
  Breadcrumbs :: "(string \<times> string) list"
  BackLink :: string
  l_Hash :: string

datatype 'f gw_body = ErrorText string | Redirect string | Content string 'f bool | DirPage listingTemplateData | PrettyPage 'f

text \<open>What the writable gateway does: adding the body, and the patches to the tree.\<close>

datatype gw_op = OpAdd string | OpMkdir string | OpUnlink string string | OpLink string string

record 'f response =
  r_headers :: "string \<rightharpoonup> string list"
  r_status :: "nat option"
  r_body :: "'f gw_body list"
  r_panic :: bool
  r_ops :: "gw_op list"

definition empty_response :: "'f response" where
  "empty_response = \<lparr>r_headers = Map.empty, r_status = None, r_body = [], r_panic = False, r_ops = []\<rparr>"

definition set_header :: "string \<Rightarrow> string \<Rightarrow> 'f response \<Rightarrow> 'f response" where
  "set_header k v w = w\<lparr>r_headers := (r_headers w)(k \<mapsto> [v])\<rparr>"

definition get_header :: "string \<Rightarrow> 'f response \<Rightarrow> string" where
  "get_header k w = (case r_headers w k of Some (v # _) \<Rightarrow> v | _ \<Rightarrow> [])"

text \<open>Only the first status is sent.\<close>

definition WriteHeader :: "nat \<Rightarrow> 'f response \<Rightarrow> 'f response" where
  "WriteHeader code w = (case r_status w of None \<Rightarrow> w\<lparr>r_status := Some code\<rparr> | Some _ \<Rightarrow> w)"

definition write_body :: "'f gw_body \<Rightarrow> 'f response \<Rightarrow> 'f response" where
  "write_body b w = w\<lparr>r_body := r_body w @ [b]\<rparr>"

definition panic :: "'f response \<Rightarrow> 'f response" where
  "panic w = w\<lparr>r_panic := True\<rparr>"

definition http_Error :: "string \<Rightarrow> nat \<Rightarrow> 'f response \<Rightarrow> 'f response" where
  "http_Error msg code w = write_body (ErrorText msg) (WriteHeader code
     (set_header ''X-Content-Type-Options'' ''nosniff'' (set_header ''Content-Type'' ''text/plain; charset=utf-8'' w)))"

text \<open>\<open>http.Redirect\<close>, which also cleans the path of the URL.\<close>

definition http_Redirect :: "string \<Rightarrow> nat \<Rightarrow> 'f response \<Rightarrow> 'f response" where
  "http_Redirect url code w = write_body (Redirect url) (WriteHeader code (set_header ''Location'' url w))"

text \<open>A status that accounts for a scheduled redirect.\<close>

definition status_WriteHeader :: "nat \<Rightarrow> 'f response \<Rightarrow> 'f response" where
  "status_WriteHeader code w = WriteHeader (if get_header ''Location'' w \<noteq> [] \<and> code = 200 then 301 else code) w"

definition addUserHeaders :: "gw_config \<Rightarrow> 'f response \<Rightarrow> 'f response" where
  "addUserHeaders cfg w = w\<lparr>r_headers := r_headers w ++ map_of (Headers cfg)\<rparr>"

section \<open>The environment\<close>

text \<open>What a path leads to: a file (or symbolic link), a directory with its entries, or something else.\<close>

datatype 'f gnode = GFile 'f | GDir "(string \<times> (gerr + nat)) list" "gerr option" "gerr + nat" | GOther

datatype 'm unlinked = UOk 'm | UNotExist | UErr gerr

record ('r, 'f, 'n, 'm) gw_env =
  err_text :: "gerr \<Rightarrow> string"
  valid_path :: "string \<Rightarrow> gerr option"
  ResolvePath :: "string \<Rightarrow> (gerr, 'r) result"
  resolve_at :: "'r \<Rightarrow> string \<Rightarrow> (gerr, 'r) result"
  rp_cid :: "'r \<Rightarrow> string"
  unixfs_Get :: "'r \<Rightarrow> (gerr, 'f gnode) result"
  get_at :: "'r \<Rightarrow> string \<Rightarrow> (gerr, 'f gnode) result"
  bindata_hash :: string
  file_size :: "'f \<Rightarrow> (gerr, nat) result"
  is_symlink :: "'f \<Rightarrow> bool"
  mime_type :: "string \<Rightarrow> string"
  detect_type :: "'f \<Rightarrow> (gerr, string) result"
  serve_status :: "gw_request \<Rightarrow> 'f \<Rightarrow> nat"
  copy_error :: "'f \<Rightarrow> gerr option"
  size_text :: "nat \<Rightarrow> string"
  path_escape :: "string \<Rightarrow> string"
  parse_segments :: "string \<Rightarrow> (gerr, string list) result"
  template_error :: "listingTemplateData \<Rightarrow> gerr option"
  cid_Decode :: "string \<Rightarrow> (gerr, string) result"
  unixfs_Add :: "string \<Rightarrow> (gerr, string) result"
  dag_Get :: "string \<Rightarrow> (gerr, 'n) result"
  is_proto :: "'n \<Rightarrow> bool"
  mfs_NewRoot :: "'n \<Rightarrow> (gerr, 'm) result"
  mfs_Mkdir :: "'m \<Rightarrow> string \<Rightarrow> (gerr, 'm) result"
  mfs_Lookup :: "'m \<Rightarrow> string \<Rightarrow> (gerr, bool) result"
  mfs_Unlink :: "'m \<Rightarrow> string \<Rightarrow> string \<Rightarrow> 'm unlinked"
  mfs_AddChild :: "'m \<Rightarrow> string \<Rightarrow> string \<Rightarrow> 'n \<Rightarrow> (gerr, 'm) result"
  mfs_GetNode :: "'m \<Rightarrow> (gerr, string) result"

definition webErrorWithCode :: "('r, 'f, 'n, 'm) gw_env \<Rightarrow> string \<Rightarrow> gerr \<Rightarrow> nat \<Rightarrow> 'f response \<Rightarrow> 'f response" where
  "webErrorWithCode env message err code w = http_Error (message @ '': '' @ err_text env err) code w"

definition webError :: "('r, 'f, 'n, 'm) gw_env \<Rightarrow> string \<Rightarrow> gerr \<Rightarrow> nat \<Rightarrow> 'f response \<Rightarrow> 'f response" where
  "webError env message err defaultCode w = (case err of
     ErrNoLink _ \<Rightarrow> webErrorWithCode env message err 404 w
   | RoutingNotFound \<Rightarrow> webErrorWithCode env message err 404 w
   | DeadlineExceeded \<Rightarrow> webErrorWithCode env message err 408 w
   | _ \<Rightarrow> webErrorWithCode env message err defaultCode w)"

definition internalWebError :: "('r, 'f, 'n, 'm) gw_env \<Rightarrow> gerr \<Rightarrow> 'f response \<Rightarrow> 'f response" where
  "internalWebError env err w = webErrorWithCode env ''internalWebError'' err 500 w"

section \<open>Reading\<close>

definition gw_prefix :: "gw_config \<Rightarrow> string \<Rightarrow> string" where
  "gw_prefix cfg prfx = (if prfx \<noteq> [] \<and> list_ex (\<lambda>p. prfx = p \<or> has_prefix prfx (p @ ''/'')) (PathPrefixes cfg) then prfx else [])"

text \<open>The expression \<open>^/ip[fn]s/[^/]+$\<close>.\<close>

definition namespace_root :: "string \<Rightarrow> bool" where
  "namespace_root p = list_ex (\<lambda>ns. has_prefix p ns \<and> (let rest = trim_prefix p ns in rest \<noteq> [] \<and> CHR ''/'' \<notin> set rest)) [''/ipfs/'', ''/ipns/'']"

text \<open>The preferred page: \<open>strings.SplitN(spec, ";", 1)\<close> has one element, the whole string.\<close>

definition accepts_html :: "string \<Rightarrow> bool" where
  "accepts_html spec = (hd (split_n 1 (CHR '';'') spec) \<in> {''*/*'', ''text/*'', ''text/html''})"

definition preferred404Filename :: "string list \<Rightarrow> (string \<times> string) option" where
  "preferred404Filename acceptHeaders =
    (if list_ex (\<lambda>h. list_ex accepts_html (split_all (CHR '','') h)) acceptHeaders then Some (''ipfs-404.html'', ''text/html'') else None)"

text \<open>
  The search up the tree. Appending the file name to a prefix of the components writes into the array of the
  components when the prefix is shorter than the array; \<open>comps\<close> is that array.
\<close>

fun search404 :: "('r, 'f, 'n, 'm) gw_env \<Rightarrow> string \<Rightarrow> nat \<Rightarrow> string list \<Rightarrow> 'r option" where
  "search404 env name idx comps =
    (if idx < 3 then None
     else let appended = take idx comps @ [name];
              comps' = (if idx < length comps then comps[idx := name] else comps);
              p = ''/'' @ Join appended
       in if valid_path env p \<noteq> None then None
          else case ResolvePath env p of Inr r \<Rightarrow> Some r | Inl _ \<Rightarrow> search404 env name (idx - 1) comps')"

declare search404.simps [simp del]

definition searchUpTreeFor404 :: "('r, 'f, 'n, 'm) gw_env \<Rightarrow> gw_request \<Rightarrow> ('r \<times> string) option" where
  "searchUpTreeFor404 env req = (case preferred404Filename (accepts req) of
     None \<Rightarrow> None
   | Some (name, ctype) \<Rightarrow>
       (let comps = split_all (CHR ''/'') (url_path req)
        in map_option (\<lambda>r. (r, ctype)) (search404 env name (length comps) comps)))"

text \<open>The page for a missing path: the response, and whether it was served.\<close>

definition servePretty404IfPresent :: "('r, 'f, 'n, 'm) gw_env \<Rightarrow> gw_request \<Rightarrow> 'f response \<Rightarrow> 'f response \<times> bool" where
  "servePretty404IfPresent env req w = (case searchUpTreeFor404 env req of
     None \<Rightarrow> (w, False)
   | Some (r, ctype) \<Rightarrow> (case unixfs_Get env r of
       Inr (GFile f) \<Rightarrow> (case file_size env f of
           Inl _ \<Rightarrow> (w, False)
         | Inr n \<Rightarrow> (write_body (PrettyPage f) (WriteHeader 404
             (set_header ''Content-Length'' (itoa n) (set_header ''Content-Type'' ctype w))), copy_error env f = None))
     | _ \<Rightarrow> (w, False)))"

definition getFilename :: "string \<Rightarrow> string" where
  "getFilename s =
    (if (has_prefix s ''/ipfs/'' \<or> has_prefix s ''/ipns/'') \<and> length (filter (\<lambda>c. c = CHR ''/'') (Clean s)) \<le> 2 then [] else Base s)"

text \<open>\<open>recent\<close> says whether the modification time is the present rather than long ago.\<close>

definition serveFile :: "('r, 'f, 'n, 'm) gw_env \<Rightarrow> gw_request \<Rightarrow> string \<Rightarrow> bool \<Rightarrow> 'f \<Rightarrow> 'f response \<Rightarrow> 'f response" where
  "serveFile env req name recent f w = (case file_size env f of
     Inl _ \<Rightarrow> http_Error ''cannot serve files with unknown sizes'' 502 w
   | Inr _ \<Rightarrow>
       (let ctype = (if is_symlink env f then Inr ''inode/symlink''
              else bind_ok (if mime_type env (Ext name) = [] then detect_type env f else Inr (mime_type env (Ext name)))
                (\<lambda>t. Inr (if has_prefix t ''text/html;'' then ''text/html'' else t)))
        in (case ctype of
              Inl e \<Rightarrow> http_Error (''cannot detect content-type: '' @ err_text env e) 500 w
            | Inr t \<Rightarrow> write_body (Content name f recent) (status_WriteHeader (serve_status env req f) (set_header ''Content-Type'' t w)))))"

definition response_etag :: "('r, 'f, 'n, 'm) gw_env \<Rightarrow> 'r \<Rightarrow> 'f gnode \<Rightarrow> string" where
  "response_etag env r dr =
    (case dr of
       GDir _ _ _ \<Rightarrow> if bindata_hash env \<noteq> [] then ''\"DirIndex-'' @ bindata_hash env @ ''_CID-'' @ rp_cid env r @ ''\"''
         else ''\"'' @ rp_cid env r @ ''\"''
     | _ \<Rightarrow> ''\"'' @ rp_cid env r @ ''\"'')"

text \<open>The first and the last four characters, which must exist.\<close>

definition shortHash :: "string \<Rightarrow> string option" where
  "shortHash h = (if length h < 4 then None else Some (take 4 h @ [CHR 0xE2, CHR 0x80, CHR 0xA6] @ drop (length h - 4) h))"

fun dir_items :: "('r, 'f, 'n, 'm) gw_env \<Rightarrow> 'r \<Rightarrow> string \<Rightarrow> (string \<times> (gerr + nat)) list \<Rightarrow> directoryItem list option" where
  "dir_items env r original [] = Some []"
| "dir_items env r original ((name, sz) # es) =
    (let sz_text = (case sz of Inr s \<Rightarrow> size_text env s | Inl _ \<Rightarrow> ''?'');
         h = (case resolve_at env r name of Inr rp \<Rightarrow> rp_cid env rp | Inl _ \<Rightarrow> [])
     in case shortHash h of
          None \<Rightarrow> None
        | Some sh \<Rightarrow> map_option ((#) \<lparr>di_Size = sz_text, di_Name = name, di_Path = Join [original, name], di_Hash = h, di_ShortHash = sh\<rparr>)
            (dir_items env r original es))"

fun crumbs :: "string list \<Rightarrow> string list \<Rightarrow> (string \<times> string) list" where
  "crumbs before [] = []"
| "crumbs before (s # ss) = (s, if before = [] then [] else ''/'' @ join ''/'' (before @ [s])) # crumbs (before @ [s]) ss"

definition breadcrumbs :: "('r, 'f, 'n, 'm) gw_env \<Rightarrow> string \<Rightarrow> (string \<times> string) list" where
  "breadcrumbs env p = (case parse_segments env p of Inl _ \<Rightarrow> [] | Inr segs \<Rightarrow> crumbs [] segs)"

definition back_link :: "string \<Rightarrow> string \<Rightarrow> string" where
  "back_link urlPath original =
    (let split = split_all (CHR ''/'') urlPath
     in if length split = 3 \<or> (length split = 4 \<and> split ! 3 = []) then original
        else if has_suffix original ''/'' then original @ ''./..'' else original @ ''/..'')"

definition serve_listing :: "('r, 'f, 'n, 'm) gw_env \<Rightarrow> gw_request \<Rightarrow> 'r \<Rightarrow> string \<Rightarrow> (string \<times> (gerr + nat)) list \<Rightarrow> gerr option
    \<Rightarrow> gerr + nat \<Rightarrow> 'f response \<Rightarrow> 'f response" where
  "serve_listing env req r original es it_err dir_size w =
    (if get_header ''Location'' w \<noteq> [] then WriteHeader 301 w
     else let w = set_header ''Content-Type'' ''text/html'' w in
       if req_method req = ''HEAD'' then w
       else case dir_items env r original es of
         None \<Rightarrow> panic w
       | Some items \<Rightarrow> (case it_err of
           Some e \<Rightarrow> internalWebError env e w
         | None \<Rightarrow>
             (let page = \<lparr>GatewayURL = (case gw_hostname req of Some h \<Rightarrow> ''//'' @ h | None \<Rightarrow> []), Listing = items,
                l_Size = (case dir_size of Inr s \<Rightarrow> size_text env s | Inl _ \<Rightarrow> ''?''), l_Path = url_path req,
                Breadcrumbs = breadcrumbs env (url_path req), BackLink = back_link (url_path req) original, l_Hash = rp_cid env r\<rparr>
              in case template_error env page of
                   Some e \<Rightarrow> internalWebError env e w
                 | None \<Rightarrow> write_body (DirPage page) w)))"

definition serve_dir :: "('r, 'f, 'n, 'm) gw_env \<Rightarrow> gw_request \<Rightarrow> 'r \<Rightarrow> string \<Rightarrow> (string \<times> (gerr + nat)) list \<Rightarrow> gerr option
    \<Rightarrow> gerr + nat \<Rightarrow> 'f response \<Rightarrow> 'f response" where
  "serve_dir env req r original es it_err dir_size w = (case get_at env r ''index.html'' of
     Inr idx \<Rightarrow>
       (if url_path req = [] then panic w
        else if last (url_path req) \<noteq> CHR ''/'' \<and> q_goget req \<noteq> ''1'' then http_Redirect (original @ ''/'') 302 w
        else case idx of
          GFile f \<Rightarrow> serveFile env req ''index.html'' True f w
        | _ \<Rightarrow> internalWebError env (OtherErr ''file is a directory, can't use Reader functions'') w)
   | Inl (ErrNoLink _) \<Rightarrow> serve_listing env req r original es it_err dir_size w
   | Inl e \<Rightarrow> internalWebError env e w)"

definition serve_file_path :: "('r, 'f, 'n, 'm) gw_env \<Rightarrow> gw_request \<Rightarrow> 'f \<Rightarrow> 'f response \<Rightarrow> 'f response" where
  "serve_file_path env req f w =
    (let immutable = has_prefix (url_path req) ''/ipfs/'';
         w = (if immutable then set_header ''Cache-Control'' ''public, max-age=29030400, immutable'' w else w)
     in if q_filename req \<noteq> []
        then serveFile env req (q_filename req) (\<not> immutable) f
          (set_header ''Content-Disposition'' (''inline; filename*=UTF-8'' @ [CHR 0x27, CHR 0x27] @ path_escape env (q_filename req)) w)
        else serveFile env req (getFilename (url_path req)) (\<not> immutable) f w)"

text \<open>A path that has been resolved and read.\<close>

definition serve_node :: "('r, 'f, 'n, 'm) gw_env \<Rightarrow> gw_config \<Rightarrow> gw_request \<Rightarrow> string \<Rightarrow> 'r \<Rightarrow> 'f gnode \<Rightarrow> 'f response \<Rightarrow> 'f response" where
  "serve_node env cfg req original r dr w =
    (let etag = response_etag env r dr
     in if if_none_match req = etag \<or> if_none_match req = ''W/'' @ etag then WriteHeader 304 w
        else let w = set_header ''Etag'' etag (set_header ''X-IPFS-Path'' (url_path req) (addUserHeaders cfg w))
          in case dr of
               GFile f \<Rightarrow> serve_file_path env req f w
             | GDir es it_err dir_size \<Rightarrow> serve_dir env req r original es it_err dir_size w
             | GOther \<Rightarrow> internalWebError env (OtherErr ''unsupported file type'') w)"

text \<open>A valid path: it is resolved and read, or a page for missing paths is looked for.\<close>

definition serve_path :: "('r, 'f, 'n, 'm) gw_env \<Rightarrow> gw_config \<Rightarrow> gw_request \<Rightarrow> string \<Rightarrow> 'f response \<Rightarrow> 'f response" where
  "serve_path env cfg req original w = (case ResolvePath env (url_path req) of
     Inr r \<Rightarrow> (case unixfs_Get env r of
         Inl e \<Rightarrow> webError env (''ipfs cat '' @ escaped_path req) e 404 w
       | Inr dr \<Rightarrow> serve_node env cfg req original r dr w)
   | Inl e \<Rightarrow>
       (if e = ErrOffline then webError env (''ipfs resolve -r '' @ escaped_path req) e 503 w
        else case servePretty404IfPresent env req w of
          (w1, served) \<Rightarrow> if served then w1 else webError env (''ipfs resolve -r '' @ escaped_path req) e 404 w1))"

definition getOrHeadHandler :: "('r, 'f, 'n, 'm) gw_env \<Rightarrow> gw_config \<Rightarrow> gw_request \<Rightarrow> 'f response \<Rightarrow> 'f response" where
  "getOrHeadHandler env cfg req w = (case request_uri req of
     Inl e \<Rightarrow> webError env ''failed to parse request path'' e 500 w
   | Inr uri \<Rightarrow>
       (if service_worker req = ''script'' \<and> namespace_root (url_path req)
        then webError env ''navigator.serviceWorker'' (OtherErr ''registration is not allowed for this scope'') 400 w
        else case valid_path env (url_path req) of
          Some e \<Rightarrow> webError env ''invalid ipfs path'' e 400 w
        | None \<Rightarrow> serve_path env cfg req (gw_prefix cfg (prefix_header req) @ uri) w))"

section \<open>Writing\<close>

text \<open>The root and the rest of a path; indexing the segments panics when there are not two.\<close>

datatype 'a parsed = PErr gerr | PPanic | POk 'a

definition parseIpfsPath :: "('r, 'f, 'n, 'm) gw_env \<Rightarrow> string \<Rightarrow> (string \<times> string) parsed" where
  "parseIpfsPath env p = (case parse_segments env p of
     Inl e \<Rightarrow> PErr e
   | Inr [] \<Rightarrow> PPanic
   | Inr (ns # rsegs) \<Rightarrow>
       (if ns \<noteq> ''ipfs'' then PErr (OtherErr ''WritableGateway: only ipfs paths supported'')
        else case rsegs of
          [] \<Rightarrow> PPanic
        | root # rest \<Rightarrow> (case cid_Decode env root of Inl e \<Rightarrow> PErr e | Inr c \<Rightarrow> POk (c, join ''/'' rest))))"

definition log_op :: "gw_op \<Rightarrow> 'f response \<Rightarrow> 'f response" where
  "log_op op w = w\<lparr>r_ops := r_ops w @ [op]\<rparr>"

definition postHandler :: "('r, 'f, 'n, 'm) gw_env \<Rightarrow> gw_config \<Rightarrow> gw_request \<Rightarrow> 'f response \<Rightarrow> 'f response" where
  "postHandler env cfg req w = (case unixfs_Add env (req_body req) of
     Inl e \<Rightarrow> internalWebError env e w
   | Inr c \<Rightarrow> http_Redirect (''/ipfs/'' @ c) 201
       (set_header ''IPFS-Hash'' c (addUserHeaders cfg (log_op (OpAdd (req_body req)) w))))"

definition patch_error :: "('r, 'f, 'n, 'm) gw_env \<Rightarrow> string \<Rightarrow> gerr \<Rightarrow> nat \<Rightarrow> 'f response \<Rightarrow> 'f response" where
  "patch_error env msg e code w = webError env (''WritableGateway: '' @ msg) e code w"

text \<open>The end of a patch: the new root and where to find it.\<close>

definition finish_patch :: "gw_config \<Rightarrow> string \<Rightarrow> string \<Rightarrow> 'f response \<Rightarrow> 'f response" where
  "finish_patch cfg c loc w = http_Redirect loc 201 (set_header ''IPFS-Hash'' c (addUserHeaders cfg w))"

text \<open>Linking the new file into its directory.\<close>

definition put_patch :: "('r, 'f, 'n, 'm) gw_env \<Rightarrow> gw_config \<Rightarrow> string \<Rightarrow> string \<Rightarrow> string \<Rightarrow> 'n \<Rightarrow> 'm \<Rightarrow> 'f response \<Rightarrow> 'f response" where
  "put_patch env cfg newPath dir name newFile root w = (case mfs_Lookup env root dir of
     Inl e \<Rightarrow> patch_error env ''failed to lookup directory'' e 500 w
   | Inr False \<Rightarrow> http_Error ''WritableGateway: target directory is not a directory'' 400 w
   | Inr True \<Rightarrow>
       (let un = mfs_Unlink env root dir name in
        case un of
          UErr e \<Rightarrow> patch_error env ''failed to replace existing file'' e 400 w
        | _ \<Rightarrow>
          (let (root, w) = (case un of UOk root' \<Rightarrow> (root', log_op (OpUnlink dir name) w) | _ \<Rightarrow> (root, w)) in
           case mfs_AddChild env root dir name newFile of
             Inl e \<Rightarrow> patch_error env ''failed to link file into directory'' e 500 w
           | Inr root \<Rightarrow> (let w = log_op (OpLink dir name) w in
               case mfs_GetNode env root of
                 Inl e \<Rightarrow> patch_error env ''failed to finalize'' e 500 w
               | Inr newcid \<Rightarrow> finish_patch cfg newcid (Join [''/ipfs/'', newcid, newPath]) w))))"

definition put_root :: "('r, 'f, 'n, 'm) gw_env \<Rightarrow> gw_config \<Rightarrow> string \<Rightarrow> 'n \<Rightarrow> 'n \<Rightarrow> 'f response \<Rightarrow> 'f response" where
  "put_root env cfg newPath rnode newFile w =
    (let (dir, name) = Split newPath in
     case mfs_NewRoot env rnode of
       Inl e \<Rightarrow> patch_error env ''failed to create MFS root'' e 400 w
     | Inr root \<Rightarrow>
         (if dir = [] then put_patch env cfg newPath dir name newFile root w
          else case mfs_Mkdir env root dir of
            Inl e \<Rightarrow> patch_error env ''failed to create MFS directory'' e 500 w
          | Inr root \<Rightarrow> put_patch env cfg newPath dir name newFile root (log_op (OpMkdir dir) w)))"

definition putHandler :: "('r, 'f, 'n, 'm) gw_env \<Rightarrow> gw_config \<Rightarrow> gw_request \<Rightarrow> 'f response \<Rightarrow> 'f response" where
  "putHandler env cfg req w = (case parseIpfsPath env (url_path req) of
     PErr e \<Rightarrow> patch_error env ''failed to parse the path'' e 400 w
   | PPanic \<Rightarrow> panic w
   | POk (rootCid, newPath) \<Rightarrow>
       (if newPath = [] \<or> newPath = ''/'' then http_Error ''WritableGateway: empty path'' 400 w
        else case dag_Get env rootCid of
          Inl e \<Rightarrow> patch_error env ''Could not create DAG from request'' e 500 w
        | Inr rnode \<Rightarrow>
            (if \<not> is_proto env rnode
             then webError env ''Cannot read non protobuf nodes through gateway'' (OtherErr ''expected protobuf dag node'') 400 w
             else case unixfs_Add env (req_body req) of
               Inl e \<Rightarrow> patch_error env ''could not create DAG from request'' e 500 w
             | Inr fc \<Rightarrow> (let w = log_op (OpAdd (req_body req)) w in
                 case dag_Get env fc of
                   Inl e \<Rightarrow> patch_error env ''failed to resolve new file'' e 500 w
                 | Inr newFile \<Rightarrow> put_root env cfg newPath rnode newFile w))))"

text \<open>
  Deleting. An error of \<open>Unlink\<close> is not the one that is reported, which is nil; and after an error of the last step the
  handler goes on with a nil node.
\<close>

definition delete_patch :: "('r, 'f, 'n, 'm) gw_env \<Rightarrow> gw_config \<Rightarrow> string \<Rightarrow> string \<Rightarrow> 'm \<Rightarrow> 'f response \<Rightarrow> 'f response" where
  "delete_patch env cfg dir name root w =
    (let un = mfs_Unlink env root dir name in
     case un of
       UErr _ \<Rightarrow> http_Error (''WritableGateway: failed to remove file: '' @ ''%!s(<nil>)'') 500 w
     | _ \<Rightarrow>
       (let (root, w) = (case un of UOk root' \<Rightarrow> (root', log_op (OpUnlink dir name) w) | _ \<Rightarrow> (root, w)) in
        case mfs_GetNode env root of
          Inl e \<Rightarrow> panic (patch_error env ''failed to finalize'' e 500 w)
        | Inr ncid \<Rightarrow> finish_patch cfg ncid (Join [''/ipfs/'' @ ncid, dir]) w))"

definition deleteHandler :: "('r, 'f, 'n, 'm) gw_env \<Rightarrow> gw_config \<Rightarrow> gw_request \<Rightarrow> 'f response \<Rightarrow> 'f response" where
  "deleteHandler env cfg req w = (case parseIpfsPath env (url_path req) of
     PErr e \<Rightarrow> patch_error env ''failed to parse the path'' e 400 w
   | PPanic \<Rightarrow> panic w
   | POk (rootCid, newPath) \<Rightarrow>
       (if newPath = [] \<or> newPath = ''/'' then http_Error ''WritableGateway: empty path'' 400 w
        else case dag_Get env rootCid of
          Inl e \<Rightarrow> patch_error env ''failed to resolve root CID'' e 500 w
        | Inr rnode \<Rightarrow>
            (if \<not> is_proto env rnode then http_Error ''WritableGateway: empty path'' 500 w
             else case mfs_NewRoot env rnode of
               Inl e \<Rightarrow> patch_error env ''failed to construct the MFS root'' e 400 w
             | Inr root \<Rightarrow>
                 (let (dir, name) = Split newPath in
                  case mfs_Lookup env root dir of
                    Inl e \<Rightarrow> patch_error env ''failed to look up parent'' e 500 w
                  | Inr False \<Rightarrow> http_Error ''WritableGateway: parent is not a directory'' 500 w
                  | Inr True \<Rightarrow> delete_patch env cfg dir name root w))))"

definition ServeHTTP :: "('r, 'f, 'n, 'm) gw_env \<Rightarrow> gw_config \<Rightarrow> gw_request \<Rightarrow> 'f response \<Rightarrow> 'f response" where
  "ServeHTTP env cfg req w =
    (if Writable cfg \<and> req_method req = ''POST'' then postHandler env cfg req w
     else if Writable cfg \<and> req_method req = ''PUT'' then putHandler env cfg req w
     else if Writable cfg \<and> req_method req = ''DELETE'' then deleteHandler env cfg req w
     else if req_method req = ''GET'' \<or> req_method req = ''HEAD'' then getOrHeadHandler env cfg req w
     else if req_method req = ''OPTIONS'' then addUserHeaders cfg w
     else let errmsg = ''Method '' @ req_method req @ '' not allowed: '' in
       if \<not> Writable cfg
       then http_Error (errmsg @ ''read only access'') 405
         (w\<lparr>r_headers := (r_headers w)(''Allow'' \<mapsto> (case r_headers w ''Allow'' of Some vs \<Rightarrow> vs | None \<Rightarrow> []) @ [''GET'', ''HEAD'', ''OPTIONS''])\<rparr>)
       else http_Error (errmsg @ ''bad request for '' @ url_path req) 400 w)"


section \<open>The parts of a response\<close>

lemma response_parts [simp]:
  "r_ops (set_header k v w) = r_ops w" "r_ops (WriteHeader c w) = r_ops w" "r_ops (write_body b w) = r_ops w"
  "r_ops (panic w) = r_ops w" "r_ops (addUserHeaders cfg w) = r_ops w"
  "r_headers (set_header k v w) = (r_headers w)(k \<mapsto> [v])" "r_headers (WriteHeader c w) = r_headers w"
  "r_headers (write_body b w) = r_headers w" "r_headers (panic w) = r_headers w"
  "r_headers (addUserHeaders cfg w) = r_headers w ++ map_of (Headers cfg)"
  "r_body (set_header k v w) = r_body w" "r_body (WriteHeader c w) = r_body w" "r_body (write_body b w) = r_body w @ [b]"
  "r_body (panic w) = r_body w" "r_body (addUserHeaders cfg w) = r_body w"
  "r_status (set_header k v w) = r_status w" "r_status (write_body b w) = r_status w"
  "r_status (panic w) = r_status w" "r_status (addUserHeaders cfg w) = r_status w"
  "r_status (WriteHeader c w) = (case r_status w of None \<Rightarrow> Some c | s \<Rightarrow> s)"
  by (simp_all add: set_header_def WriteHeader_def write_body_def panic_def addUserHeaders_def split: option.splits)

lemmas error_defs = http_Error_def webErrorWithCode_def webError_def internalWebError_def http_Redirect_def status_WriteHeader_def

lemma webError_parts [simp]:
  "r_ops (webError env m e c w) = r_ops w"
  "r_body (webError env m e c w) = r_body w @ [ErrorText (m @ '': '' @ err_text env e)]"
  "k \<noteq> ''Content-Type'' \<Longrightarrow> k \<noteq> ''X-Content-Type-Options'' \<Longrightarrow> r_headers (webError env m e c w) k = r_headers w k"
  by (cases e; simp add: error_defs)+

lemma http_Error_parts [simp]:
  "r_ops (http_Error m c w) = r_ops w" "r_body (http_Error m c w) = r_body w @ [ErrorText m]"
  "r_status (http_Error m c w) = (case r_status w of None \<Rightarrow> Some c | s \<Rightarrow> s)"
  "k \<noteq> ''Content-Type'' \<Longrightarrow> k \<noteq> ''X-Content-Type-Options'' \<Longrightarrow> r_headers (http_Error m c w) k = r_headers w k"
  by (simp_all add: http_Error_def)

lemma internalWebError_parts [simp]:
  "r_ops (internalWebError env e w) = r_ops w"
  "r_body (internalWebError env e w) = r_body w @ [ErrorText (''internalWebError: '' @ err_text env e)]"
  "k \<noteq> ''Content-Type'' \<Longrightarrow> k \<noteq> ''X-Content-Type-Options'' \<Longrightarrow> r_headers (internalWebError env e w) k = r_headers w k"
  by (simp_all add: internalWebError_def webErrorWithCode_def)

lemma redirect_parts [simp]:
  "r_ops (http_Redirect u c w) = r_ops w" "r_body (http_Redirect u c w) = r_body w @ [Redirect u]"
  "k \<noteq> ''Location'' \<Longrightarrow> r_headers (http_Redirect u c w) k = r_headers w k"
  "r_ops (status_WriteHeader n w) = r_ops w" "r_body (status_WriteHeader n w) = r_body w" "r_headers (status_WriteHeader n w) = r_headers w"
  by (simp_all add: http_Redirect_def status_WriteHeader_def)

lemma serveFile_parts:
  "r_ops (serveFile env req name recent f w) = r_ops w"
  "set (r_body (serveFile env req name recent f w)) \<subseteq> set (r_body w) \<union> range ErrorText \<union> {Content name f recent}"
  "k \<noteq> ''Content-Type'' \<Longrightarrow> k \<noteq> ''X-Content-Type-Options'' \<Longrightarrow> r_headers (serveFile env req name recent f w) k = r_headers w k"
  unfolding serveFile_def Let_def by (cases "file_size env f"; simp; auto split: sum.splits)+

lemma pretty404_parts:
  assumes "servePretty404IfPresent env req w = (w', b)"
  shows "r_ops w' = r_ops w \<and> set (r_body w') \<subseteq> set (r_body w) \<union> range PrettyPage
    \<and> (\<forall>k. k \<noteq> ''Content-Type'' \<longrightarrow> k \<noteq> ''Content-Length'' \<longrightarrow> r_headers w' k = r_headers w k)"
  using assms unfolding servePretty404IfPresent_def by (auto split: option.splits sum.splits gnode.splits)

lemma listing_parts:
  "r_ops (serve_listing env req r original es ie sz w) = r_ops w"
  "set (r_body (serve_listing env req r original es ie sz w)) \<subseteq> set (r_body w) \<union> range ErrorText \<union> range DirPage"
  "k \<noteq> ''Content-Type'' \<Longrightarrow> k \<noteq> ''X-Content-Type-Options'' \<Longrightarrow> r_headers (serve_listing env req r original es ie sz w) k = r_headers w k"
  unfolding serve_listing_def Let_def by (auto split: option.splits)

lemma serve_dir_cases:
  obtains (panic) "serve_dir env req r original es ie sz w = panic w"
  | (redirect) idx where "get_at env r ''index.html'' = Inr idx" "last (url_path req) \<noteq> CHR ''/''" "url_path req \<noteq> []"
      "serve_dir env req r original es ie sz w = http_Redirect (original @ ''/'') 302 w"
  | (index) f where "serve_dir env req r original es ie sz w = serveFile env req ''index.html'' True f w"
  | (listing) "serve_dir env req r original es ie sz w = serve_listing env req r original es ie sz w"
  | (error) e where "serve_dir env req r original es ie sz w = internalWebError env e w"
proof (cases "get_at env r ''index.html''")
  case (Inl e)
  then show thesis
    using that(4,5) by (cases e) (auto simp: serve_dir_def)
next
  case (Inr idx)
  consider "url_path req = []" | "url_path req \<noteq> []" "last (url_path req) \<noteq> CHR ''/''" "q_goget req \<noteq> ''1''"
    | "url_path req \<noteq> []" "\<not> (last (url_path req) \<noteq> CHR ''/'' \<and> q_goget req \<noteq> ''1'')"
    by blast
  then show thesis
  proof cases
    case 1
    then show thesis
      using that(1) Inr by (simp add: serve_dir_def)
  next
    case 2
    then show thesis
      using that(2) Inr by (simp add: serve_dir_def)
  next
    case 3
    then have "serve_dir env req r original es ie sz w = (case idx of GFile f \<Rightarrow> serveFile env req ''index.html'' True f w
        | _ \<Rightarrow> internalWebError env (OtherErr ''file is a directory, can't use Reader functions'') w)"
      using Inr unfolding serve_dir_def by auto
    then show thesis
      using that(3,5) by (cases idx) auto
  qed
qed

lemma serve_dir_parts:
  "r_ops (serve_dir env req r original es ie sz w) = r_ops w"
  "k \<notin> {''Content-Type'', ''X-Content-Type-Options'', ''Location''} \<Longrightarrow> r_headers (serve_dir env req r original es ie sz w) k = r_headers w k"
proof -
  show "r_ops (serve_dir env req r original es ie sz w) = r_ops w"
    by (rule serve_dir_cases [of env req r original es ie sz w]) (simp_all add: serveFile_parts listing_parts)
  show "r_headers (serve_dir env req r original es ie sz w) k = r_headers w k" if "k \<notin> {''Content-Type'', ''X-Content-Type-Options'', ''Location''}"
    using that by (rule_tac serve_dir_cases [of env req r original es ie sz w]) (simp_all add: serveFile_parts(3) listing_parts(3))
qed

text \<open>The ways a read request ends.\<close>

lemma getOrHead_cases:
  obtains (error) m e c where "getOrHeadHandler env cfg req w = webError env m e c w"
  | (pretty) w1 b where "servePretty404IfPresent env req w = (w1, b)"
      "getOrHeadHandler env cfg req w = w1 \<or> (\<exists>m e c. getOrHeadHandler env cfg req w = webError env m e c w1)"
  | (node) uri r dr where "request_uri req = Inr uri" "ResolvePath env (url_path req) = Inr r" "unixfs_Get env r = Inr dr"
      "getOrHeadHandler env cfg req w = serve_node env cfg req (gw_prefix cfg (prefix_header req) @ uri) r dr w"
proof -
  consider m e c where "getOrHeadHandler env cfg req w = webError env m e c w"
    | uri where "request_uri req = Inr uri" "getOrHeadHandler env cfg req w = serve_path env cfg req (gw_prefix cfg (prefix_header req) @ uri) w"
    by (cases "request_uri req"; cases "service_worker req = ''script'' \<and> namespace_root (url_path req)"; cases "valid_path env (url_path req)")
      (auto simp: getOrHeadHandler_def)
  then show thesis
  proof cases
    case (2 uri)
    obtain w1 b where p: "servePretty404IfPresent env req w = (w1, b)"
      by (cases "servePretty404IfPresent env req w")
    consider e where "ResolvePath env (url_path req) = Inl e" | r e where "ResolvePath env (url_path req) = Inr r" "unixfs_Get env r = Inl e"
      | r dr where "ResolvePath env (url_path req) = Inr r" "unixfs_Get env r = Inr dr"
      by (cases "ResolvePath env (url_path req)"; cases "unixfs_Get env (projr (ResolvePath env (url_path req)))") auto
    then show thesis
    proof cases
      case (1 e)
      then show thesis
        using error pretty [OF p] 2(2) by (cases "e = ErrOffline"; cases b) (auto simp: serve_path_def p)
    next
      case (2 r e)
      then show thesis
        using error \<open>getOrHeadHandler env cfg req w = serve_path env cfg req (gw_prefix cfg (prefix_header req) @ uri) w\<close> by (simp add: serve_path_def)
    next
      case (3 r dr)
      then show thesis
        using node [OF 2(1) 3] 2(2) by (simp add: serve_path_def)
    qed
  qed (rule error)
qed

section \<open>Read-only access\<close>

lemma getOrHead_ops: "r_ops (getOrHeadHandler env cfg req w) = r_ops w"
proof (rule getOrHead_cases [of env cfg req w])
  fix w1 b
  assume "servePretty404IfPresent env req w = (w1, b)"
    and "getOrHeadHandler env cfg req w = w1 \<or> (\<exists>m e c. getOrHeadHandler env cfg req w = webError env m e c w1)"
  then show ?thesis
    using pretty404_parts by fastforce
next
  fix uri r dr
  assume "getOrHeadHandler env cfg req w = serve_node env cfg req (gw_prefix cfg (prefix_header req) @ uri) r dr w"
  then show ?thesis
    by (cases dr) (auto simp: serve_node_def Let_def serve_file_path_def serveFile_parts serve_dir_parts)
qed simp

text \<open>C24: a gateway that is not writable changes nothing: no request, whatever its method, adds a block or patches a tree, and a
  method other than GET, HEAD and OPTIONS is answered with status 405 and the methods allowed.\<close>

theorem gateway_read_only:
  assumes "\<not> Writable cfg"
  shows "r_ops (ServeHTTP env cfg req empty_response) = []
    \<and> (req_method req \<notin> {''GET'', ''HEAD'', ''OPTIONS''} \<longrightarrow>
        r_status (ServeHTTP env cfg req empty_response) = Some 405
        \<and> r_headers (ServeHTTP env cfg req empty_response) ''Allow'' = Some [''GET'', ''HEAD'', ''OPTIONS''])"
  using assms getOrHead_ops [of env cfg req empty_response]
  by (auto simp: ServeHTTP_def Let_def empty_response_def)

section \<open>Caching\<close>

lemma getOrHead_cache_control:
  assumes "r_headers w ''Cache-Control'' = None" and "map_of (Headers cfg) ''Cache-Control'' = None"
    and "r_headers (getOrHeadHandler env cfg req w) ''Cache-Control'' \<noteq> None"
  shows "has_prefix (url_path req) ''/ipfs/'' \<and> (\<exists>r f. ResolvePath env (url_path req) = Inr r \<and> unixfs_Get env r = Inr (GFile f))"
proof (rule getOrHead_cases [of env cfg req w])
  fix m e c
  assume "getOrHeadHandler env cfg req w = webError env m e c w"
  then show ?thesis
    using assms(1,3) by simp
next
  fix w1 b
  assume p: "servePretty404IfPresent env req w = (w1, b)"
    and "getOrHeadHandler env cfg req w = w1 \<or> (\<exists>m e c. getOrHeadHandler env cfg req w = webError env m e c w1)"
  moreover have "r_headers w1 ''Cache-Control'' = None"
    using pretty404_parts [OF p] assms(1) by simp
  ultimately show ?thesis
    using assms(3) by auto
next
  fix uri r dr
  assume r: "ResolvePath env (url_path req) = Inr r" "unixfs_Get env r = Inr dr"
    and n: "getOrHeadHandler env cfg req w = serve_node env cfg req (gw_prefix cfg (prefix_header req) @ uri) r dr w"
  have "(\<exists>f. dr = GFile f) \<and> has_prefix (url_path req) ''/ipfs/''"
    using assms n by (cases dr)
      (auto simp: serve_node_def Let_def serve_file_path_def serveFile_parts(3) serve_dir_parts(2) map_add_def split: if_splits)
  with r show ?thesis
    by auto
qed

text \<open>C5: only immutable content is marked so. Unless the operator configures it, a response has a \<open>Cache-Control\<close> header only for a file
  that was resolved under \<open>/ipfs/\<close>: never for a name under \<open>/ipns/\<close>, a directory or a path that does not resolve.\<close>

theorem gateway_caches_immutable_only:
  assumes "map_of (Headers cfg) ''Cache-Control'' = None" and "req_method req = ''GET'' \<or> req_method req = ''HEAD''"
    and "r_headers (ServeHTTP env cfg req empty_response) ''Cache-Control'' \<noteq> None"
  shows "has_prefix (url_path req) ''/ipfs/'' \<and> (\<exists>r f. ResolvePath env (url_path req) = Inr r \<and> unixfs_Get env r = Inr (GFile f))"
  by (rule getOrHead_cache_control [OF _ assms(1), of empty_response])
    (use assms in \<open>auto simp: empty_response_def ServeHTTP_def\<close>)

text \<open>But the header is there also when serving the file fails, here because its size is unknown.\<close>

lemma gateway_caches_errors:
  assumes "request_uri req = Inr uri" and "service_worker req \<noteq> ''script''" and "valid_path env (url_path req) = None"
    and "ResolvePath env (url_path req) = Inr r" and "unixfs_Get env r = Inr (GFile f)" and "file_size env f = Inl e"
    and "has_prefix (url_path req) ''/ipfs/''" and "if_none_match req = []"
  shows "r_status (getOrHeadHandler env cfg req empty_response) = Some 502
    \<and> r_headers (getOrHeadHandler env cfg req empty_response) ''Cache-Control'' = Some [''public, max-age=29030400, immutable'']"
  using assms by (simp add: getOrHeadHandler_def serve_path_def Let_def serve_node_def response_etag_def serve_file_path_def serveFile_def empty_response_def)

section \<open>Missing pages\<close>

text \<open>The pages that are tried for a missing path, the nearest first, and the first that resolves.\<close>

definition pages404 :: "string \<Rightarrow> string list \<Rightarrow> string list" where
  "pages404 name comps = map (\<lambda>i. ''/'' @ Join (take i comps @ [name])) (rev [3 ..< Suc (length comps)])"

fun first_resolved :: "('r, 'f, 'n, 'm) gw_env \<Rightarrow> string list \<Rightarrow> 'r option" where
  "first_resolved env [] = None"
| "first_resolved env (p # ps) =
    (if valid_path env p \<noteq> None then None else case ResolvePath env p of Inr r \<Rightarrow> Some r | Inl _ \<Rightarrow> first_resolved env ps)"

lemma search404_pages:
  assumes "take idx comps' = take idx comps" and "idx \<le> length comps" and "length comps' = length comps"
  shows "search404 env name idx comps' = first_resolved env (map (\<lambda>i. ''/'' @ Join (take i comps @ [name])) (rev [3 ..< Suc idx]))"
  using assms
proof (induction idx arbitrary: comps')
  case 0
  then show ?case
    by (simp add: search404.simps)
next
  case (Suc idx)
  let ?next = "if Suc idx < length comps' then comps'[Suc idx := name] else comps'"
  have keep: "take idx ?next = take idx comps"
    using Suc.prems(1) by simp (metis Suc_leD le_refl min.absorb1 take_take)
  have "search404 env name idx ?next = first_resolved env (map (\<lambda>i. ''/'' @ Join (take i comps @ [name])) (rev [3 ..< Suc idx]))"
    using Suc.prems by (intro Suc.IH keep) simp_all
  then show ?case
    using Suc.prems(1) by (subst search404.simps) (auto simp: Let_def split: sum.splits)
qed

text \<open>Pages for missing paths. Although appending the file name overwrites components of the path, the search finds the nearest
  page: the one in the first of the directories, from the path upwards to the root of its namespace,
  that has one.\<close>

theorem gateway_404_nearest:
  "searchUpTreeFor404 env req = (case preferred404Filename (accepts req) of
     None \<Rightarrow> None
   | Some (name, ctype) \<Rightarrow> map_option (\<lambda>r. (r, ctype)) (first_resolved env (pages404 name (split_all (CHR ''/'') (url_path req)))))"
  unfolding searchUpTreeFor404_def pages404_def Let_def search404_pages [OF refl order.refl refl] ..

text \<open>A media range with parameters is not recognised.\<close>

lemma accept_parameters_ignored: "preferred404Filename [''text/html;q=0.9''] = None" "preferred404Filename [''application/json, text/html''] = None"
  by code_simp+

section \<open>Directories\<close>

lemma serve_node_redirect:
  assumes "Redirect u \<in> set (r_body (serve_node env cfg req original r dr empty_response))"
  shows "u = original @ ''/'' \<and> url_path req \<noteq> [] \<and> last (url_path req) \<noteq> CHR ''/''"
proof (cases dr)
  case (GFile f)
  then show ?thesis
    using assms serveFile_parts(2) [of env req _ _ f]
    by (fastforce simp: serve_node_def Let_def serve_file_path_def empty_response_def split: if_splits)
next
  case (GDir es ie sz)
  let ?w = "set_header ''Etag'' (response_etag env r dr) (set_header ''X-IPFS-Path'' (url_path req) (addUserHeaders cfg empty_response))"
  have "Redirect u \<in> set (r_body (serve_dir env req r original es ie sz ?w))"
    using assms GDir by (auto simp: serve_node_def Let_def empty_response_def split: if_splits)
  then show ?thesis
    by (rule_tac serve_dir_cases [of env req r original es ie sz ?w])
      (use serveFile_parts(2) [of env req _ _ _ ?w] listing_parts(2) [of env req r original es ie sz ?w] in \<open>auto simp: empty_response_def\<close>)
next
  case GOther
  then show ?thesis
    using assms by (auto simp: serve_node_def Let_def empty_response_def split: if_splits)
qed

lemma getOrHead_redirect:
  assumes "Redirect u \<in> set (r_body (getOrHeadHandler env cfg req empty_response))"
  shows "\<exists>uri. request_uri req = Inr uri \<and> u = gw_prefix cfg (prefix_header req) @ uri @ ''/'' \<and> url_path req \<noteq> [] \<and> last (url_path req) \<noteq> CHR ''/''"
proof (rule getOrHead_cases [of env cfg req empty_response])
  fix w1 b
  assume p: "servePretty404IfPresent env req empty_response = (w1, b)"
    and "getOrHeadHandler env cfg req empty_response = w1 \<or> (\<exists>m e c. getOrHeadHandler env cfg req empty_response = webError env m e c w1)"
  with assms pretty404_parts [OF p] show ?thesis
    by (auto simp: empty_response_def)
next
  fix uri r dr
  assume "request_uri req = Inr uri" "getOrHeadHandler env cfg req empty_response = serve_node env cfg req (gw_prefix cfg (prefix_header req) @ uri) r dr empty_response"
  then show ?thesis
    using assms serve_node_redirect [of u env cfg req "gw_prefix cfg (prefix_header req) @ uri" r dr] by auto
qed (use assms in \<open>auto simp: empty_response_def\<close>)

text \<open>A directory with an index page is redirected once. A read request is redirected only to its own address with a slash
  appended, and the request for the path with the slash is never redirected.\<close>

theorem gateway_redirects_once:
  assumes "Redirect u \<in> set (r_body (getOrHeadHandler env cfg req empty_response))"
  shows "\<exists>uri. request_uri req = Inr uri \<and> u = gw_prefix cfg (prefix_header req) @ uri @ ''/''
    \<and> (\<forall>u'. Redirect u' \<notin> set (r_body (getOrHeadHandler env cfg (req\<lparr>url_path := url_path req @ ''/'', request_uri := Inr (uri @ ''/'')\<rparr>) empty_response)))"
proof -
  obtain uri where u: "request_uri req = Inr uri" "u = gw_prefix cfg (prefix_header req) @ uri @ ''/''"
    using getOrHead_redirect [OF assms] by auto
  have "Redirect u' \<notin> set (r_body (getOrHeadHandler env cfg (req\<lparr>url_path := url_path req @ ''/'', request_uri := Inr (uri @ ''/'')\<rparr>) empty_response))" for u'
    using getOrHead_redirect [of u' env cfg "req\<lparr>url_path := url_path req @ ''/'', request_uri := Inr (uri @ ''/'')\<rparr>"] by auto
  with u show ?thesis
    by blast
qed

text \<open>
  Listing a directory with an entry that cannot be resolved panics, although the loop means to go on: there is no
  short form of the empty hash.
\<close>

lemma gateway_listing_panics:
  assumes "(name, sz) \<in> set es" and "resolve_at env r name = Inl e" and "req_method req \<noteq> ''HEAD''" and "get_header ''Location'' w = []"
  shows "r_panic (serve_listing env req r original es ie ds w)"
proof -
  have "dir_items env r original es = None"
    using assms(1,2) by (induction es) (auto simp: Let_def shortHash_def split: option.splits)
  then show ?thesis
    using assms(3,4) by (simp add: serve_listing_def Let_def panic_def)
qed

text \<open>After a failure to finalise a deletion the handler dereferences the missing node.\<close>

lemma gateway_delete_panics:
  assumes "mfs_Unlink env root dir name = UNotExist" and "mfs_GetNode env root = Inl e"
  shows "r_panic (delete_patch env cfg dir name root w)"
  using assms by (simp add: delete_patch_def Let_def panic_def)


section \<open>Examples\<close>

text \<open>Under \<open>/ipfs/\<close> there is a file \<open>f\<close>, and everything else is a directory with an index page.\<close>

definition ex_gw_env :: "(string, string, unit, unit) gw_env" where
  "ex_gw_env = \<lparr>err_text = (\<lambda>_. ''error''), valid_path = (\<lambda>_. None),
     ResolvePath = (\<lambda>p. if has_prefix p ''/ipfs/'' then Inr (trim_prefix p ''/ipfs/'') else Inl (OtherErr ''no such path'')),
     resolve_at = (\<lambda>r n. Inr (r @ n)), rp_cid = (\<lambda>r. r),
     unixfs_Get = (\<lambda>r. if r = ''f'' then Inr (GFile r) else Inr (GDir [] None (Inr 0))), get_at = (\<lambda>_ n. Inr (GFile n)),
     bindata_hash = [], file_size = (\<lambda>f. Inr (length f)), is_symlink = (\<lambda>_. False), mime_type = (\<lambda>_. ''text/plain''),
     detect_type = (\<lambda>_. Inr ''text/plain''), serve_status = (\<lambda>_ _. 200), copy_error = (\<lambda>_. None), size_text = itoa, path_escape = id,
     parse_segments = (\<lambda>p. Inr (split_all (CHR ''/'') p)), template_error = (\<lambda>_. None), cid_Decode = Inr, unixfs_Add = Inr,
     dag_Get = (\<lambda>_. Inr ()), is_proto = (\<lambda>_. True), mfs_NewRoot = Inr, mfs_Mkdir = (\<lambda>m _. Inr m), mfs_Lookup = (\<lambda>_ _. Inr True),
     mfs_Unlink = (\<lambda>m _ _. UOk m), mfs_AddChild = (\<lambda>m _ _ _. Inr m), mfs_GetNode = (\<lambda>_. Inr ''new'')\<rparr>"

definition ex_gw_req :: "string \<Rightarrow> string \<Rightarrow> gw_request" where
  "ex_gw_req m p = \<lparr>req_method = m, url_path = p, escaped_path = p, request_uri = Inr p, prefix_header = [], service_worker = [],
     if_none_match = [], accepts = [], q_filename = [], q_goget = [], gw_hostname = None, req_body = ''data''\<rparr>"

definition ex_gw_cfg :: gw_config where
  "ex_gw_cfg = \<lparr>Writable = False, PathPrefixes = [], Headers = [(''Server'', [''x''])]\<rparr>"

theorem gateway_read_only_witness:
  "r_ops (ServeHTTP ex_gw_env ex_gw_cfg (ex_gw_req ''POST'' ''/ipfs/d'') empty_response) = []
    \<and> r_status (ServeHTTP ex_gw_env ex_gw_cfg (ex_gw_req ''POST'' ''/ipfs/d'') empty_response) = Some 405"
proof -
  have "\<not> Writable ex_gw_cfg"
    by (simp add: ex_gw_cfg_def)
  from gateway_read_only [OF this, of ex_gw_env "ex_gw_req ''POST'' ''/ipfs/d''"] show ?thesis
    by (simp add: ex_gw_req_def)
qed

theorem gateway_caches_immutable_only_witness:
  "r_headers (ServeHTTP ex_gw_env ex_gw_cfg (ex_gw_req ''GET'' ''/ipfs/f'') empty_response) ''Cache-Control'' \<noteq> None
    \<and> (\<exists>r f. ResolvePath ex_gw_env ''/ipfs/f'' = Inr r \<and> unixfs_Get ex_gw_env r = Inr (GFile f))"
proof -
  have c: "map_of (Headers ex_gw_cfg) ''Cache-Control'' = None"
    by (simp add: ex_gw_cfg_def)
  have h: "r_headers (ServeHTTP ex_gw_env ex_gw_cfg (ex_gw_req ''GET'' ''/ipfs/f'') empty_response) ''Cache-Control'' \<noteq> None"
    by code_simp
  show ?thesis
    using gateway_caches_immutable_only [OF c _ h] h by (simp add: ex_gw_req_def)
qed

theorem gateway_redirects_once_witness:
  "Redirect ''/ipfs/d/'' \<in> set (r_body (getOrHeadHandler ex_gw_env ex_gw_cfg (ex_gw_req ''GET'' ''/ipfs/d'') empty_response))
    \<and> (\<exists>uri. request_uri (ex_gw_req ''GET'' ''/ipfs/d'') = Inr uri
      \<and> (\<forall>u'. Redirect u' \<notin> set (r_body (getOrHeadHandler ex_gw_env ex_gw_cfg
          ((ex_gw_req ''GET'' ''/ipfs/d'')\<lparr>url_path := ''/ipfs/d'' @ ''/'', request_uri := Inr (uri @ ''/'')\<rparr>) empty_response))))"
proof -
  have r: "Redirect ''/ipfs/d/'' \<in> set (r_body (getOrHeadHandler ex_gw_env ex_gw_cfg (ex_gw_req ''GET'' ''/ipfs/d'') empty_response))"
    by code_simp
  have p: "url_path (ex_gw_req ''GET'' ''/ipfs/d'') = ''/ipfs/d''"
    by (simp add: ex_gw_req_def)
  show ?thesis
    using gateway_redirects_once [OF r, unfolded p] r by blast
qed

section \<open>The lazy seeker\<close>

text \<open>
  A seeker that only remembers where to read and moves the underlying reader when something is read. Offsets are
  64-bit integers and their sums wrap. \<open>n\<close> bounds the rounds of the loop that moves the reader.
\<close>

datatype seek_err = SeekEOF | SeekErr string

record 'r seeker_env =
  rd_Seek :: "'r \<Rightarrow> int \<Rightarrow> 'r \<times> (string, int) result"
  rd_Read :: "'r \<Rightarrow> nat \<Rightarrow> 'r \<times> string \<times> seek_err option"

record 'r lazySeeker =
  ls_reader :: 'r
  ls_size :: int
  ls_offset :: int
  realOffset :: int

definition int64 :: "int \<Rightarrow> int" where
  "int64 x = (x + 2 ^ 63) mod 2 ^ 64 - 2 ^ 63"

definition seek_start :: "int \<Rightarrow> 'r lazySeeker \<Rightarrow> 'r lazySeeker \<times> (string, int) result" where
  "seek_start off s = (if off < 0 then (s, Inl ''invalid seek offset'') else (s\<lparr>ls_offset := off\<rparr>, Inr off))"

definition lazy_Seek :: "int \<Rightarrow> nat \<Rightarrow> 'r lazySeeker \<Rightarrow> 'r lazySeeker \<times> (string, int) result" where
  "lazy_Seek off whence s =
    (if whence = 2 then seek_start (int64 (ls_size s + off)) s
     else if whence = 1 then seek_start (int64 (ls_offset s + off)) s
     else if whence = 0 then seek_start off s
     else (s, Inl ''invalid whence''))"

fun move_reader :: "nat \<Rightarrow> 'r seeker_env \<Rightarrow> 'r lazySeeker \<Rightarrow> ('r lazySeeker \<times> string option) option" where
  "move_reader 0 env s = None"
| "move_reader (Suc n) env s =
    (if ls_offset s = realOffset s then Some (s, None)
     else case rd_Seek env (ls_reader s) (ls_offset s) of
       (r, Inl e) \<Rightarrow> Some (s\<lparr>ls_reader := r\<rparr>, Some e)
     | (r, Inr off) \<Rightarrow> move_reader n env (s\<lparr>ls_reader := r, realOffset := off\<rparr>))"

definition lazy_Read :: "nat \<Rightarrow> 'r seeker_env \<Rightarrow> nat \<Rightarrow> 'r lazySeeker \<Rightarrow> ('r lazySeeker \<times> string \<times> seek_err option) option" where
  "lazy_Read n env len s =
    (if ls_offset s \<ge> ls_size s then Some (s, [], Some SeekEOF)
     else case move_reader n env s of
       None \<Rightarrow> None
     | Some (s, Some e) \<Rightarrow> Some (s, [], Some (SeekErr e))
     | Some (s, None) \<Rightarrow>
         (case rd_Read env (ls_reader s) len of (r, out, e) \<Rightarrow>
            Some (s\<lparr>ls_reader := r, realOffset := realOffset s + int (length out), ls_offset := ls_offset s + int (length out)\<rparr>, out, e)))"

text \<open>
  The law of the underlying reader of some content: seeking goes where it is told, reading delivers what is there and
  makes progress before the end.
\<close>

definition seeker_law :: "'r seeker_env \<Rightarrow> string \<Rightarrow> ('r \<Rightarrow> int) \<Rightarrow> bool" where
  "seeker_law env content posn \<longleftrightarrow>
     (\<forall>r off. 0 \<le> off \<longrightarrow> (\<exists>r'. rd_Seek env r off = (r', Inr off) \<and> posn r' = off))
   \<and> (\<forall>r len r' out e. 0 \<le> posn r \<longrightarrow> rd_Read env r len = (r', out, e) \<longrightarrow>
        out = take (length out) (drop (nat (posn r)) content) \<and> length out \<le> len \<and> posn r' = posn r + int (length out)
        \<and> (0 < len \<longrightarrow> posn r < int (length content) \<longrightarrow> out \<noteq> []))"

text \<open>The states a lazy seeker can be in: a new one, and what seeking and reading make of it.\<close>

inductive lazy_reach :: "'r seeker_env \<Rightarrow> string \<Rightarrow> ('r \<Rightarrow> int) \<Rightarrow> 'r lazySeeker \<Rightarrow> bool"
  for env :: "'r seeker_env" and content :: string and posn :: "'r \<Rightarrow> int" where
  lazy_new: "posn r = 0 \<Longrightarrow> lazy_reach env content posn \<lparr>ls_reader = r, ls_size = int (length content), ls_offset = 0, realOffset = 0\<rparr>"
| lazy_seek: "lazy_reach env content posn s \<Longrightarrow> lazy_Seek off whence s = (s', res) \<Longrightarrow> lazy_reach env content posn s'"
| lazy_read: "lazy_reach env content posn s \<Longrightarrow> lazy_Read n env len s = Some (s', out, e) \<Longrightarrow> lazy_reach env content posn s'"

definition lazy_inv :: "string \<Rightarrow> ('r \<Rightarrow> int) \<Rightarrow> 'r lazySeeker \<Rightarrow> bool" where
  "lazy_inv content posn s \<longleftrightarrow> ls_size s = int (length content) \<and> 0 \<le> ls_offset s \<and> posn (ls_reader s) = realOffset s"

lemma move_reader_step:
  assumes "seeker_law env content posn" and "lazy_inv content posn s" and "ls_offset s \<noteq> realOffset s"
  shows "\<exists>r. move_reader (Suc n) env s = move_reader n env (s\<lparr>ls_reader := r, realOffset := ls_offset s\<rparr>)
    \<and> lazy_inv content posn (s\<lparr>ls_reader := r, realOffset := ls_offset s\<rparr>)"
proof -
  obtain r where "rd_Seek env (ls_reader s) (ls_offset s) = (r, Inr (ls_offset s))" "posn r = ls_offset s"
    using assms(1,2) unfolding seeker_law_def lazy_inv_def by blast
  then show ?thesis
    using assms(2,3) by (auto simp: lazy_inv_def)
qed

lemma move_reader_ok:
  assumes "seeker_law env content posn" and "lazy_inv content posn s" and "move_reader n env s = Some (s', e)"
  shows "e = None \<and> lazy_inv content posn s' \<and> ls_offset s' = ls_offset s \<and> realOffset s' = ls_offset s"
  using assms(2,3)
proof (induction n arbitrary: s)
  case (Suc n)
  show ?case
  proof (cases "ls_offset s = realOffset s")
    case False
    then obtain r where "move_reader (Suc n) env s = move_reader n env (s\<lparr>ls_reader := r, realOffset := ls_offset s\<rparr>)"
        "lazy_inv content posn (s\<lparr>ls_reader := r, realOffset := ls_offset s\<rparr>)"
      using move_reader_step [OF assms(1) Suc.prems(1)] by blast
    with Suc.IH Suc.prems(2) show ?thesis
      by fastforce
  qed (use Suc.prems in auto)
qed simp

lemma move_reader_enough:
  assumes "seeker_law env content posn" and "lazy_inv content posn s"
  shows "\<exists>s'. move_reader (Suc (Suc n)) env s = Some (s', None)"
proof (cases "ls_offset s = realOffset s")
  case False
  obtain r where "move_reader (Suc (Suc n)) env s = move_reader (Suc n) env (s\<lparr>ls_reader := r, realOffset := ls_offset s\<rparr>)"
    using move_reader_step [OF assms False] by blast
  then show ?thesis
    by (auto simp del: move_reader.simps(2)) (simp add: move_reader.simps(2))
qed simp

lemma lazy_Read_ok:
  assumes "seeker_law env content posn" and "lazy_inv content posn s" and "lazy_Read n env len s = Some (s', out, e)"
  shows "lazy_inv content posn s' \<and> out = take (length out) (drop (nat (ls_offset s)) content) \<and> length out \<le> len
    \<and> ls_offset s' = ls_offset s + int (length out)
    \<and> (if ls_offset s \<ge> int (length content) then out = [] \<and> e = Some SeekEOF else 0 < len \<longrightarrow> out \<noteq> [])"
proof (cases "ls_offset s \<ge> ls_size s")
  case True
  then show ?thesis
    using assms(2,3) by (simp add: lazy_Read_def lazy_inv_def)
next
  case False
  then obtain s1 e1 where m: "move_reader n env s = Some (s1, e1)"
    using assms(3) by (cases "move_reader n env s") (auto simp: lazy_Read_def)
  note ok = move_reader_ok [OF assms(1,2) m]
  obtain r' o' e' where rd: "rd_Read env (ls_reader s1) len = (r', o', e')"
    by (cases "rd_Read env (ls_reader s1) len")
  have p: "posn (ls_reader s1) = ls_offset s"
    using ok by (simp add: lazy_inv_def)
  have "0 \<le> posn (ls_reader s1)"
    using p assms(2) by (simp add: lazy_inv_def)
  then have law: "o' = take (length o') (drop (nat (ls_offset s)) content)" "length o' \<le> len" "posn r' = ls_offset s + int (length o')"
      "0 < len \<longrightarrow> ls_offset s < int (length content) \<longrightarrow> o' \<noteq> []"
    using assms(1) rd unfolding seeker_law_def p [symmetric] by blast+
  have "s' = s1\<lparr>ls_reader := r', realOffset := realOffset s1 + int (length o'), ls_offset := ls_offset s1 + int (length o')\<rparr>" "out = o'" "e = e'"
    using assms(3) False m ok rd by (auto simp: lazy_Read_def)
  then show ?thesis
    using law ok False assms(2) by (auto simp: lazy_inv_def)
qed

lemma lazy_inv_reach: "lazy_reach env content posn s \<Longrightarrow> seeker_law env content posn \<Longrightarrow> lazy_inv content posn s"
proof (induction rule: lazy_reach.induct)
  case (lazy_seek s off whence s' res)
  then show ?case
    by (auto simp: lazy_Seek_def seek_start_def lazy_inv_def split: if_splits)
next
  case (lazy_read s n len s' out e)
  then show ?case
    using lazy_Read_ok by blast
qed (simp add: lazy_inv_def)

text \<open>C23: the lazy seeker reads what a seeker would. After any seeks and reads, a read returns, after moving the reader at most once;
  what it returns is the content at the offset, at most as much as asked for, and something unless the
  offset is at the end, where it reports the end. The offset moves on by as much.\<close>

theorem lazy_seeker_refines:
  assumes "seeker_law env content posn" and "lazy_reach env content posn s"
  shows "\<exists>s' out e. lazy_Read (Suc (Suc n)) env len s = Some (s', out, e)
    \<and> out = take (length out) (drop (nat (ls_offset s)) content) \<and> length out \<le> len \<and> ls_offset s' = ls_offset s + int (length out)
    \<and> (if ls_offset s \<ge> int (length content) then out = [] \<and> e = Some SeekEOF else 0 < len \<longrightarrow> out \<noteq> [])"
proof -
  have inv: "lazy_inv content posn s"
    using assms lazy_inv_reach by blast
  obtain s1 where m: "move_reader (Suc (Suc n)) env s = Some (s1, None)"
    using move_reader_enough [OF assms(1) inv] by blast
  obtain s' out e where "lazy_Read (Suc (Suc n)) env len s = Some (s', out, e)"
    by (cases "rd_Read env (ls_reader s1) len"; cases "ls_offset s \<ge> ls_size s") (auto simp: lazy_Read_def m simp del: move_reader.simps)
  with lazy_Read_ok [OF assms(1) inv this] show ?thesis
    by auto
qed

text \<open>A reader of a text that delivers two characters at a time.\<close>

definition ex_seeker :: "string \<Rightarrow> int seeker_env" where
  "ex_seeker content = \<lparr>rd_Seek = (\<lambda>_ off. (off, Inr off)),
     rd_Read = (\<lambda>p len. let out = take (min 2 len) (drop (nat p) content) in (p + int (length out), out, None))\<rparr>"

lemma ex_seeker_law: "seeker_law (ex_seeker content) content id"
proof -
  have "take (min (length content - nat r) k) (drop (nat r) content) = take k (drop (nat r) content)" for k r
    by (simp add: min_def)
  then show ?thesis
    unfolding seeker_law_def ex_seeker_def Let_def by auto
qed

theorem lazy_seeker_refines_witness:
  "\<exists>s s' out e. lazy_reach (ex_seeker ''abcdef'') ''abcdef'' id s \<and> ls_offset s = 3
    \<and> lazy_Read 2 (ex_seeker ''abcdef'') 10 s = Some (s', out, e) \<and> out \<noteq> [] \<and> out = take (length out) ''def''"
proof -
  let ?new = "\<lparr>ls_reader = 0, ls_size = int (length ''abcdef''), ls_offset = 0, realOffset = 0\<rparr>"
  have "lazy_reach (ex_seeker ''abcdef'') ''abcdef'' id ?new"
    by (rule lazy_new) simp
  then have r: "lazy_reach (ex_seeker ''abcdef'') ''abcdef'' id (?new\<lparr>ls_offset := 3\<rparr>)"
    by (rule lazy_seek [where off = "-3" and whence = 2]) (simp add: lazy_Seek_def seek_start_def int64_def)
  obtain s' out e where x: "lazy_Read (Suc (Suc 0)) (ex_seeker ''abcdef'') 10 (?new\<lparr>ls_offset := 3\<rparr>) = Some (s', out, e)"
      "out = take (length out) ''def''" "out \<noteq> []"
    using lazy_seeker_refines [OF ex_seeker_law r, of 0 10] by (auto simp: eval_nat_numeral)
  then have "lazy_Read 2 (ex_seeker ''abcdef'') 10 (?new\<lparr>ls_offset := 3\<rparr>) = Some (s', out, e)"
    by (simp only: numeral_2_eq_2)
  moreover have "ls_offset (?new\<lparr>ls_offset := 3\<rparr>) = 3"
    by simp
  ultimately show ?thesis
    using r x(2,3) by blast
qed

end
