(* ===== verification/Migrations.thy ===== *)
theory Migrations
  imports GoPath
begin

text \<open>
  Migrating a repository, \<open>src/repo/fsrepo/migrations/migrations.go\<close> and \<open>unpack.go\<close>: finding a migration binary, downloading
  one if needed, and running it.

  What the operating system and the network answer is given by an environment. A run has the processes it started
  and the files it wrote as events.
\<close>

section \<open>The environment\<close>

datatype mig_event = RunBin string "string list" | WriteFile string string

datatype 'a go = GOk 'a | GErr string | GPanic

text \<open>
  The entries of an archive as they are read: a name with its content, or an error. A file of a zip archive that does not open has
  a name and an error. A body delivers bytes, and may end with an error.
\<close>

datatype arc_entry = AEntry string string | ABad string string

type_synonym body = "string \<times> string option"

record http_response =
  StatusCode :: nat
  Status :: string
  Body :: body

record mig_env =
  goos :: string
  goarch :: string
  DistPath :: string
  lookPath :: "string \<Rightarrow> (string, string) result"
  version_output :: "string \<Rightarrow> (string, string) result"
  atoi_error :: "string \<Rightarrow> string"
  request_error :: "string \<Rightarrow> string option"
  http_Do :: "string \<Rightarrow> (string, http_response) result"
  temp_dir :: "string \<Rightarrow> (string, string) result"
  ldd_output :: "(string, string) result"
  create_error :: "string \<Rightarrow> string option"
  copy_err :: "string \<Rightarrow> string option"
  open_error :: "string \<Rightarrow> string option"
  gzip_tar :: "string \<Rightarrow> (string, arc_entry list) result"
  zip_files :: "string \<Rightarrow> (string, arc_entry list) result"
  chmod_error :: "string \<Rightarrow> string option"
  run_error :: "string \<Rightarrow> string list \<Rightarrow> string option"

definition contains :: "string \<Rightarrow> string \<Rightarrow> bool" where
  "contains s sub = list_ex (\<lambda>i. has_prefix (drop i s) sub) [0 ..< Suc (length s)]"

text \<open>\<open>strings.Trim(s, " \n\t")\<close>, and \<open>strconv.Atoi\<close> with its range.\<close>

definition blank :: "char \<Rightarrow> bool" where
  "blank c = (c = CHR '' '' \<or> c = CHR 0x0A \<or> c = CHR 0x09)"

definition trim_blanks :: "string \<Rightarrow> string" where
  "trim_blanks s = rev (dropWhile blank (rev (dropWhile blank s)))"

fun digits_value :: "int \<Rightarrow> string \<Rightarrow> int option" where
  "digits_value acc [] = Some acc"
| "digits_value acc (c # cs) = (if is_digit c then digits_value (acc * 10 + (int (of_char c) - 48)) cs else None)"

definition atoi :: "string \<Rightarrow> int option" where
  "atoi s =
    (let (neg, ds) = (case s of c # cs \<Rightarrow> if c = CHR ''-'' then (True, cs) else if c = CHR ''+'' then (False, cs) else (False, s) | [] \<Rightarrow> (False, s))
     in if ds = [] then None
        else case digits_value 0 ds of
          None \<Rightarrow> None
        | Some n \<Rightarrow> (let v = (if neg then - n else n) in if - (2 ^ 63) \<le> v \<and> v < 2 ^ 63 then Some v else None))"

text \<open>
  The lines a \<open>bufio.Scanner\<close> delivers: without the newline and a carriage return before it, also the last one if it is not empty. It
  stops at a line that does not fit into its buffer.
\<close>

definition drop_cr :: "string \<Rightarrow> string" where
  "drop_cr l = (if l \<noteq> [] \<and> last l = CHR 0x0D then butlast l else l)"

function scan_lines :: "string \<Rightarrow> string list" where
  "scan_lines s =
    (let l = takeWhile (\<lambda>c. c \<noteq> CHR 0x0A) s; rest = dropWhile (\<lambda>c. c \<noteq> CHR 0x0A) s
     in if s = [] \<or> 65536 \<le> int (length l) then []
        else drop_cr l # scan_lines (tl rest))"
  by pat_completeness auto
termination
proof (relation "measure length", simp, goal_cases)
  case (1 s l rest)
  then have "length rest \<le> length s" "s \<noteq> []"
    using length_dropWhile_le by auto
  then have "length (tl rest) < length s"
    by (cases rest) auto
  then show ?case
    by simp
qed

declare scan_lines.simps [simp del]

section \<open>The network\<close>

definition httpGet :: "mig_env \<Rightarrow> string \<Rightarrow> (string, http_response) result" where
  "httpGet env url = (case request_error env url of
     Some e \<Rightarrow> Inl (''http.NewRequest error: '' @ e)
   | None \<Rightarrow> (case http_Do env url of Inl e \<Rightarrow> Inl (''http.DefaultClient.Do error: '' @ e) | Inr resp \<Rightarrow> Inr resp))"

definition httpFetch :: "mig_env \<Rightarrow> string \<Rightarrow> (string, body) result" where
  "httpFetch env url = (case httpGet env url of
     Inl e \<Rightarrow> Inl e
   | Inr resp \<Rightarrow>
       (if StatusCode resp \<ge> 400 then (case Body resp of
            (_, Some e) \<Rightarrow> Inl (''error reading error body: '' @ e)
          | (mes, None) \<Rightarrow> Inl (''GET '' @ url @ '' error: '' @ Status resp @ '': '' @ mes))
        else Inr (Body resp)))"

section \<open>Versions\<close>

definition migrationsBinName :: "mig_env \<Rightarrow> string" where
  "migrationsBinName env = (if goos env = ''windows'' then ''fs-repo-migrations.exe'' else ''fs-repo-migrations'')"

definition migrationsVersion :: "mig_env \<Rightarrow> string \<Rightarrow> (string, int) result" where
  "migrationsVersion env bin = (case version_output env bin of
     Inl e \<Rightarrow> Inl (''failed to check migrations version: '' @ e)
   | Inr out \<Rightarrow> (case atoi (trim_blanks out) of
       None \<Rightarrow> Inl (''migrations binary version check did not return a number: '' @ atoi_error env (trim_blanks out))
     | Some vn \<Rightarrow> Inr vn))"

definition verifyMigrationSupportsVersion :: "mig_env \<Rightarrow> string \<Rightarrow> nat \<Rightarrow> string option" where
  "verifyMigrationSupportsVersion env fsrbin vn = (case migrationsVersion env fsrbin of
     Inl e \<Rightarrow> Some e
   | Inr sn \<Rightarrow> if sn \<ge> int vn then None else Some (''migrations binary doesn't support version '' @ itoa vn @ '': '' @ fsrbin))"

text \<open>The error a body ends with is not looked at: the lines before it are the versions.\<close>

definition GetVersions :: "mig_env \<Rightarrow> string \<Rightarrow> string \<Rightarrow> (string, string list) result" where
  "GetVersions env ipfspath dist = (case httpFetch env (ipfspath @ ''/'' @ dist @ ''/versions'') of
     Inl e \<Rightarrow> Inl e
   | Inr (bytes, _) \<Rightarrow> Inr (scan_lines bytes))"

text \<open>The loop looks for the last version that is not a development version; the result is the last version all the same.\<close>

definition GetLatestVersion :: "mig_env \<Rightarrow> string \<Rightarrow> string \<Rightarrow> (string, string) result" where
  "GetLatestVersion env ipfspath dist = (case GetVersions env ipfspath dist of
     Inl e \<Rightarrow> Inl e
   | Inr vs \<Rightarrow>
       (let latest = (case find (\<lambda>v. \<not> contains v ''-dev'') (rev vs) of Some v \<Rightarrow> v | None \<Rightarrow> [])
        in if latest = [] then Inl ''couldn't find a non dev version in the list'' else Inr (last vs)))"

section \<open>Unpacking\<close>

definition tmp_error :: "string \<Rightarrow> string \<Rightarrow> string" where
  "tmp_error out e = ''error opening tmp bin path '' @ [CHR 0x27] @ out @ [CHR 0x27] @ '': '' @ e"

definition writeToPath :: "mig_env \<Rightarrow> string \<Rightarrow> string \<Rightarrow> mig_event list \<times> unit go" where
  "writeToPath env content out = (case create_error env out of
     Some e \<Rightarrow> ([], GErr (tmp_error out e))
   | None \<Rightarrow> (case copy_err env out of
       Some e \<Rightarrow> ([WriteFile out []], GErr e)
     | None \<Rightarrow> ([WriteFile out content], GOk ())))"

fun find_tgz :: "string \<Rightarrow> arc_entry list \<Rightarrow> string option go" where
  "find_tgz name [] = GOk None"
| "find_tgz name (ABad n e # es) = GErr e"
| "find_tgz name (AEntry n content # es) = (if n = name then GOk (Some content) else find_tgz name es)"

text \<open>\<open>data\<close> is what the file at \<open>path\<close> holds.\<close>

definition unpackTgz :: "mig_env \<Rightarrow> string \<Rightarrow> string \<Rightarrow> string \<Rightarrow> string \<Rightarrow> string \<Rightarrow> mig_event list \<times> unit go" where
  "unpackTgz env dist binnom path data out = (case open_error env path of
     Some e \<Rightarrow> ([], GErr e)
   | None \<Rightarrow> (case gzip_tar env data of
       Inl e \<Rightarrow> ([], GErr e)
     | Inr es \<Rightarrow> (case find_tgz (dist @ ''/'' @ binnom) es of
         GErr e \<Rightarrow> ([], GErr e)
       | GPanic \<Rightarrow> ([], GPanic)
       | GOk None \<Rightarrow> ([], GErr ''no binary found in downloaded archive'')
       | GOk (Some content) \<Rightarrow> writeToPath env content out)))"

text \<open>The loop over a zip archive keeps the last file of the name, and does not test that there was one.\<close>

fun find_zip :: "string \<Rightarrow> arc_entry list \<Rightarrow> string option \<Rightarrow> string option go" where
  "find_zip name [] bin = GOk bin"
| "find_zip name (ABad n e # es) bin =
    (if n = name then GErr (''error extracting binary from archive: '' @ e) else find_zip name es bin)"
| "find_zip name (AEntry n content # es) bin = find_zip name es (if n = name then Some content else bin)"

definition unpackZip :: "mig_env \<Rightarrow> string \<Rightarrow> string \<Rightarrow> string \<Rightarrow> string \<Rightarrow> string \<Rightarrow> mig_event list \<times> unit go" where
  "unpackZip env dist binnom path data out = (case open_error env path of
     Some e \<Rightarrow> ([], GErr (''error opening zipreader: '' @ e))
   | None \<Rightarrow> (case zip_files env data of
       Inl e \<Rightarrow> ([], GErr (''error opening zipreader: '' @ e))
     | Inr es \<Rightarrow> (case find_zip (dist @ ''/'' @ binnom) es None of
         GErr e \<Rightarrow> ([], GErr e)
       | GPanic \<Rightarrow> ([], GPanic)
       | GOk (Some content) \<Rightarrow> writeToPath env content out
       | GOk None \<Rightarrow> (case create_error env out of
           Some e \<Rightarrow> ([], GErr (tmp_error out e)) | None \<Rightarrow> ([WriteFile out []], GPanic)))))"

definition unpackArchive :: "mig_env \<Rightarrow> string \<Rightarrow> string \<Rightarrow> string \<Rightarrow> string \<Rightarrow> string \<Rightarrow> string \<Rightarrow> mig_event list \<times> unit go" where
  "unpackArchive env dist binnom path data out atype =
    (if atype = ''zip'' then unpackZip env dist binnom path data out
     else if atype = ''tar.gz'' then unpackTgz env dist binnom path data out
     else ([], GErr (''unrecognized archive type: '' @ atype)))"

section \<open>Downloading and running\<close>

definition osWithVariant :: "mig_env \<Rightarrow> (string, string) result" where
  "osWithVariant env =
    (if goos env \<noteq> ''linux'' then Inr (goos env)
     else case ldd_output env of
       Inl e \<Rightarrow> Inl e
     | Inr text \<Rightarrow> Inr (if list_ex (\<lambda>l. contains l ''musl'') (scan_lines text) then ''linux-musl'' else ''linux''))"

text \<open>The archive is stored in a temporary directory before it is unpacked; its path is the argument of \<open>create_error\<close>.\<close>

definition GetBinaryForVersion :: "mig_env \<Rightarrow> string \<Rightarrow> string \<Rightarrow> string \<Rightarrow> string \<Rightarrow> string \<Rightarrow> mig_event list \<times> unit go" where
  "GetBinaryForVersion env distname binnom root vers out = (case temp_dir env ''go-ipfs-auto-migrate'' of
     Inl e \<Rightarrow> ([], GErr e)
   | Inr dir \<Rightarrow>
       (let win = goos env = ''windows'';
            archive = (if win then ''zip'' else ''tar.gz'');
            bin = (if win then binnom @ ''.exe'' else binnom)
        in case osWithVariant env of
             Inl e \<Rightarrow> ([], GErr e)
           | Inr osv \<Rightarrow>
               (let finame = distname @ ''_'' @ vers @ ''_'' @ osv @ ''-'' @ goarch env @ ''.'' @ archive;
                    arcpath = Join [dir, finame]
                in case httpFetch env (root @ ''/'' @ distname @ ''/'' @ vers @ ''/'' @ finame) of
                     Inl e \<Rightarrow> ([], GErr e)
                   | Inr (data, derr) \<Rightarrow> (case create_error env arcpath of
                       Some e \<Rightarrow> ([], GErr e)
                     | None \<Rightarrow> (case (case copy_err env arcpath of Some e \<Rightarrow> Some e | None \<Rightarrow> derr) of
                         Some e \<Rightarrow> ([WriteFile arcpath []], GErr e)
                       | None \<Rightarrow> (case unpackArchive env distname bin arcpath data out archive of
                           (evs, r) \<Rightarrow> (WriteFile arcpath data # evs, r)))))))"

definition GetMigrations :: "mig_env \<Rightarrow> mig_event list \<times> string go" where
  "GetMigrations env = (case GetLatestVersion env (DistPath env) ''fs-repo-migrations'' of
     Inl e \<Rightarrow> ([], GErr (''failed to find latest fs-repo-migrations: '' @ e))
   | Inr latest \<Rightarrow> (case temp_dir env ''go-ipfs-migrate'' of
       Inl e \<Rightarrow> ([], GErr (''failed to create fs-repo-migrations tempdir: '' @ e))
     | Inr dir \<Rightarrow>
         (let out = Join [dir, migrationsBinName env] in
          case GetBinaryForVersion env ''fs-repo-migrations'' ''fs-repo-migrations'' (DistPath env) latest out of
            (evs, GErr e) \<Rightarrow> (evs, GErr (''failed to download latest fs-repo-migrations: '' @ e))
          | (evs, GPanic) \<Rightarrow> (evs, GPanic)
          | (evs, GOk _) \<Rightarrow> (case chmod_error env out of Some e \<Rightarrow> (evs, GErr e) | None \<Rightarrow> (evs, GOk out)))))"

text \<open>Running the binary that was found.\<close>

definition run_found :: "mig_env \<Rightarrow> nat \<Rightarrow> mig_event list \<Rightarrow> string \<Rightarrow> mig_event list \<times> unit go" where
  "run_found env newv evs bin =
    (let args = [''-to'', itoa newv, ''-y'']
     in (evs @ [RunBin bin args], case run_error env bin args of Some e \<Rightarrow> GErr (''migration failed: '' @ e) | None \<Rightarrow> GOk ()))"

definition RunMigration :: "mig_env \<Rightarrow> nat \<Rightarrow> mig_event list \<times> unit go" where
  "RunMigration env newv =
    (let found = (case lookPath env (migrationsBinName env) of
       Inl _ \<Rightarrow> None
     | Inr bin \<Rightarrow> if verifyMigrationSupportsVersion env bin newv = None then Some bin else None)
     in case found of
          Some bin \<Rightarrow> run_found env newv [] bin
        | None \<Rightarrow> (case GetMigrations env of
            (evs, GErr e) \<Rightarrow> (evs, GErr e)
          | (evs, GPanic) \<Rightarrow> (evs, GPanic)
          | (evs, GOk loc) \<Rightarrow> (case verifyMigrationSupportsVersion env loc newv of
              Some e \<Rightarrow> (evs, GErr (''no fs-repo-migration binary found for version '' @ itoa newv @ '': '' @ e))
            | None \<Rightarrow> run_found env newv evs loc)))"

section \<open>Only a suitable binary runs\<close>

lemma writeToPath_events: "RunBin b a \<notin> set (fst (writeToPath env c out))"
  by (simp add: writeToPath_def split: option.splits)

lemma unpack_events: "RunBin b a \<notin> set (fst (unpackArchive env dist bin path data out atype))"
  by (auto simp: unpackArchive_def unpackZip_def unpackTgz_def writeToPath_events split: go.splits option.splits sum.splits)

lemma GetBinary_events: "RunBin b a \<notin> set (fst (GetBinaryForVersion env d bin root v out))"
proof -
  have "RunBin b a \<notin> set evs" if "unpackArchive env dist bin path data out atype = (evs, r)" for dist bin path data atype evs r
    using unpack_events [of b a env dist bin path data out atype] that by simp
  then show ?thesis
    by (auto simp: GetBinaryForVersion_def Let_def split: sum.splits option.splits prod.splits)
qed

lemma GetMigrations_events:
  assumes "GetMigrations env = (evs, r)"
  shows "RunBin b a \<notin> set evs"
proof -
  have "RunBin b a \<notin> set (fst (GetMigrations env))"
    using GetBinary_events [of b a env]
    by (auto simp: GetMigrations_def Let_def split: sum.splits go.splits prod.splits option.splits) (metis fst_conv)+
  with assms show ?thesis
    by simp
qed

lemma run_found_events: "RunBin b a \<in> set (fst (run_found env newv evs bin)) \<longleftrightarrow> RunBin b a \<in> set evs \<or> (b = bin \<and> a = [''-to'', itoa newv, ''-y''])"
  by (auto simp: run_found_def Let_def)

lemma verify_supports: "verifyMigrationSupportsVersion env bin v = None \<longleftrightarrow> (\<exists>sn \<ge> int v. migrationsVersion env bin = Inr sn)"
  by (auto simp: verifyMigrationSupportsVersion_def split: sum.splits)

text \<open>C29: only a suitable binary is run. Whatever is found or downloaded, a migration runs at most one process, with the version asked
  for, and only a binary that has reported that it supports this version; and it succeeds only if that
  process was run.\<close>

theorem migration_runs_supported:
  assumes "RunMigration env newv = (evs, r)"
  shows "(\<forall>b a. RunBin b a \<in> set evs \<longrightarrow> a = [''-to'', itoa newv, ''-y''] \<and> (\<exists>sn \<ge> int newv. migrationsVersion env b = Inr sn))
    \<and> (r = GOk () \<longrightarrow> (\<exists>b a. RunBin b a \<in> set evs \<and> run_error env b a = None))"
proof -
  let ?found = "case lookPath env (migrationsBinName env) of
    Inl _ \<Rightarrow> None | Inr bin \<Rightarrow> if verifyMigrationSupportsVersion env bin newv = None then Some bin else None"
  consider bin where "?found = Some bin" "RunMigration env newv = run_found env newv [] bin"
    | evs1 loc where "GetMigrations env = (evs1, GOk loc)" "verifyMigrationSupportsVersion env loc newv = None"
        "RunMigration env newv = run_found env newv evs1 loc"
    | evs1 r1 where "GetMigrations env = (evs1, r1)" "fst (RunMigration env newv) = evs1" "snd (RunMigration env newv) \<noteq> GOk ()"
  proof (cases ?found)
    case (Some bin)
    then show thesis
      using that(1) by (simp add: RunMigration_def)
  next
    case None
    obtain evs1 r1 where g: "GetMigrations env = (evs1, r1)"
      by (cases "GetMigrations env")
    show thesis
    proof (cases r1)
      case (GOk loc)
      then show thesis
        using that(2,3) None g by (cases "verifyMigrationSupportsVersion env loc newv") (simp_all add: RunMigration_def)
    qed (use that(3) None g in \<open>simp_all add: RunMigration_def\<close>)
  qed
  then show ?thesis
  proof cases
    case (1 bin)
    then have "verifyMigrationSupportsVersion env bin newv = None"
      by (auto split: sum.splits if_splits)
    with 1(2) assms show ?thesis
      by (auto simp: run_found_def Let_def verify_supports split: option.splits)
  next
    case (2 evs1 loc)
    with assms GetMigrations_events [OF 2(1)] show ?thesis
      by (auto simp: run_found_def Let_def verify_supports split: option.splits)
  next
    case (3 evs1 r1)
    with assms GetMigrations_events [OF 3(1)] show ?thesis
      by auto
  qed
qed

definition ex_mig_env :: mig_env where
  "ex_mig_env = \<lparr>goos = ''linux'', goarch = ''amd64'', DistPath = ''d'', lookPath = (\<lambda>_. Inr ''/bin/old''),
     version_output = (\<lambda>b. if b = ''/bin/old'' then Inr ''9'' else Inr '' 11 ''), atoi_error = (\<lambda>_. ''syntax''), request_error = (\<lambda>_. None),
     http_Do = (\<lambda>u. Inr \<lparr>StatusCode = 200, Status = ''200 OK'',
       Body = (if has_suffix u ''/versions'' then ''v1'' @ [CHR 0x0A] @ ''v2'' @ [CHR 0x0A] @ ''v3-dev'' else ''tgz'', None)\<rparr>),
     temp_dir = (\<lambda>n. Inr (''/tmp/'' @ n)), ldd_output = Inr ''glibc'', create_error = (\<lambda>_. None), copy_err = (\<lambda>_. None), open_error = (\<lambda>_. None),
     gzip_tar = (\<lambda>_. Inr [AEntry ''README'' ''r'', AEntry ''fs-repo-migrations/fs-repo-migrations'' ''elf'']), zip_files = (\<lambda>_. Inr []),
     chmod_error = (\<lambda>_. None), run_error = (\<lambda>_ _. None)\<rparr>"

theorem migration_runs_supported_witness:
  "\<exists>evs. RunMigration ex_mig_env 11 = (evs, GOk ()) \<and> (\<exists>b a. RunBin b a \<in> set evs \<and> a = [''-to'', itoa 11, ''-y'']
    \<and> (\<exists>sn \<ge> 11. migrationsVersion ex_mig_env b = Inr sn))"
proof -
  have r: "snd (RunMigration ex_mig_env 11) = GOk ()"
    by code_simp
  then obtain evs where e: "RunMigration ex_mig_env 11 = (evs, GOk ())"
    by (cases "RunMigration ex_mig_env 11") auto
  with migration_runs_supported [OF e] show ?thesis
    by auto
qed

section \<open>What goes wrong\<close>

text \<open>
  The version that is downloaded is the last of the list, whether or not it is a development version; the search only
  decides whether there is a result.
\<close>

lemma GetLatestVersion_last:
  assumes "GetVersions env p d = Inr vs" and "[] \<notin> set vs"
  shows "GetLatestVersion env p d =
    (if \<exists>v \<in> set vs. \<not> contains v ''-dev'' then Inr (last vs) else Inl ''couldn't find a non dev version in the list'')"
proof (cases "find (\<lambda>v. \<not> contains v ''-dev'') (rev vs)")
  case None
  then have "\<forall>v \<in> set vs. contains v ''-dev''"
    by (simp add: find_None_iff)
  then show ?thesis
    using None by (simp add: GetLatestVersion_def assms(1))
next
  case (Some v)
  then have v: "v \<in> set vs" "\<not> contains v ''-dev''"
    using find_SomeD [OF Some] by simp_all
  then have "v \<noteq> []"
    using assms(2) by auto
  then show ?thesis
    using Some v by (auto simp: GetLatestVersion_def assms(1))
qed

lemma latest_is_dev: "GetLatestVersion ex_mig_env ''d'' ''fs-repo-migrations'' = Inr ''v3-dev''"
  by code_simp

text \<open>A zip archive without the binary makes the copy panic; a compressed tar archive gives an error.\<close>

lemma unpackZip_panics:
  assumes "\<forall>e \<in> set es. \<exists>n c. e = AEntry n c \<and> n \<noteq> dist @ ''/'' @ bin" and "create_error env out = None" and "open_error env path = None"
    and "zip_files env data = Inr es" and "gzip_tar env data = Inr es"
  shows "snd (unpackZip env dist bin path data out) = GPanic"
    "snd (unpackTgz env dist bin path data out) = GErr ''no binary found in downloaded archive''"
proof -
  have "find_zip (dist @ ''/'' @ bin) es None = GOk None \<and> find_tgz (dist @ ''/'' @ bin) es = GOk None"
    using assms(1) by (induction es) auto
  then show "snd (unpackZip env dist bin path data out) = GPanic"
    "snd (unpackTgz env dist bin path data out) = GErr ''no binary found in downloaded archive''"
    using assms(2-5) by (simp_all add: unpackZip_def unpackTgz_def)
qed

text \<open>A list of versions that breaks off is taken for the whole list.\<close>

lemma versions_truncated:
  assumes "httpFetch env (p @ ''/'' @ d @ ''/versions'') = Inr (bytes, Some e)"
  shows "GetVersions env p d = Inr (scan_lines bytes)"
  using assms by (simp add: GetVersions_def)

end
