(* ===== verification/FilesCmd.thy ===== *)
theory FilesCmd
  imports GoPath "HOL-Library.Word" "HOL-Library.List_Lexorder" "HOL-Library.Char_ord"
begin

text \<open>
  The commands on the mutable file system, \<open>src/core/commands/files.go\<close>: checking paths, copying, moving, removing, making
  directories, reading, writing, flushing, and measuring how much of a file is local.

  The file system is a state with operations, which is a parameter, as are the resolution of other paths and the builders of
  content identifiers. A directory is named by its path. A file descriptor is the content it works on: opening
  gives it, closing stores it back.
\<close>

section \<open>Paths\<close>

definition checkPath :: "string \<Rightarrow> (string, string) result" where
  "checkPath p =
    (if p = [] then Inl ''paths must not be empty''
     else if hd p \<noteq> CHR ''/'' then Inl ''paths must start with a leading slash''
     else Inr (if last p = CHR ''/'' \<and> p \<noteq> ''/'' then Clean p @ ''/'' else Clean p))"

section \<open>The environment\<close>

datatype ferr = NotExist | FErr string

datatype fkind = KDir | KFile | KOther

record ('m, 'n, 'c, 'b) files_env =
  err_msg :: "ferr \<Rightarrow> string"
  f_Lookup :: "'m \<Rightarrow> string \<Rightarrow> (ferr, fkind) result"
  f_Child :: "'m \<Rightarrow> string \<Rightarrow> string \<Rightarrow> (ferr, fkind) result"
  f_Unlink :: "'m \<Rightarrow> string \<Rightarrow> string \<Rightarrow> (ferr, 'm) result"
  f_FlushDir :: "'m \<Rightarrow> string \<Rightarrow> (ferr, 'm) result"
  f_GetNode :: "'m \<Rightarrow> string \<Rightarrow> (ferr, 'n) result"
  f_ResolveNode :: "string \<Rightarrow> (ferr, 'n) result"
  f_PutNode :: "'m \<Rightarrow> string \<Rightarrow> 'n \<Rightarrow> (ferr, 'm) result"
  f_FlushPath :: "'m \<Rightarrow> string \<Rightarrow> (ferr, 'm \<times> 'c) result"
  f_Mv :: "'m \<Rightarrow> string \<Rightarrow> string \<Rightarrow> (ferr, 'm) result"
  f_Mkdir :: "'m \<Rightarrow> string \<Rightarrow> bool \<Rightarrow> bool \<Rightarrow> 'b option \<Rightarrow> (ferr, 'm) result"
  f_SetBuilder :: "'m \<Rightarrow> string \<Rightarrow> 'b \<Rightarrow> 'm"
  f_DirBuilder :: "'m \<Rightarrow> string \<Rightarrow> 'b"
  f_AddEmpty :: "'m \<Rightarrow> string \<Rightarrow> string \<Rightarrow> 'b \<Rightarrow> (ferr, 'm) result"
  f_Open :: "'m \<Rightarrow> string \<Rightarrow> (ferr, string) result"
  f_Store :: "'m \<Rightarrow> string \<Rightarrow> bool \<Rightarrow> string \<Rightarrow> (ferr, 'm) result"
  f_SetRaw :: "'m \<Rightarrow> string \<Rightarrow> bool \<Rightarrow> 'm"
  f_Truncate :: "string \<Rightarrow> (ferr, string) result"
  f_Seek :: "string \<Rightarrow> nat \<Rightarrow> (ferr, string) result"
  f_WriteAt :: "string \<Rightarrow> nat \<Rightarrow> string \<Rightarrow> string \<times> ferr option"
  prefix_for :: "int \<Rightarrow> (ferr, 'b) result"
  hash_code :: "string \<Rightarrow> nat option"
  with_hash :: "'b \<Rightarrow> nat \<Rightarrow> 'b"

definition getParentDir :: "('m, 'n, 'c, 'b) files_env \<Rightarrow> 'm \<Rightarrow> string \<Rightarrow> ferr option" where
  "getParentDir env m dir = (case f_Lookup env m dir of
     Inl e \<Rightarrow> Some e
   | Inr KDir \<Rightarrow> None
   | Inr _ \<Rightarrow> Some (FErr ''expected *mfs.Directory, didn't get it. This is likely a race condition''))"

definition getNodeFromPath :: "('m, 'n, 'c, 'b) files_env \<Rightarrow> 'm \<Rightarrow> string \<Rightarrow> (ferr, 'n) result" where
  "getNodeFromPath env m p =
    (if has_prefix p ''/ipfs/'' then f_ResolveNode env p
     else case f_Lookup env m p of Inl e \<Rightarrow> Inl e | Inr _ \<Rightarrow> f_GetNode env m p)"

text \<open>The identifier options: a version, and a hash function, which implies version 1.\<close>

definition getPrefix :: "('m, 'n, 'c, 'b) files_env \<Rightarrow> int option \<Rightarrow> string option \<Rightarrow> (ferr, 'b option) result" where
  "getPrefix env cidVer hashFun =
    (if cidVer = None \<and> hashFun = None then Inr None
     else let v = (case cidVer of Some n \<Rightarrow> n | None \<Rightarrow> 0); v = (if hashFun \<noteq> None \<and> v = 0 then 1 else v) in
       bind_ok (prefix_for env v) (\<lambda>b. case hashFun of
           None \<Rightarrow> Inr (Some b)
         | Some h \<Rightarrow> (case hash_code env (to_lower h) of
             None \<Rightarrow> Inl (FErr (''unrecognized hash function: '' @ to_lower h))
           | Some code \<Rightarrow> Inr (Some (with_hash env b code)))))"

section \<open>Commands\<close>

text \<open>A command changes the file system and may fail.\<close>

type_synonym 'm ran = "'m \<times> ferr option"

definition filesCp :: "('m, 'n, 'c, 'b) files_env \<Rightarrow> bool \<Rightarrow> string \<Rightarrow> string \<Rightarrow> 'm \<Rightarrow> 'm ran" where
  "filesCp env fl a0 a1 m = (case checkPath a0 of
     Inl e \<Rightarrow> (m, Some (FErr e))
   | Inr src0 \<Rightarrow> (case checkPath a1 of
       Inl e \<Rightarrow> (m, Some (FErr e))
     | Inr dst0 \<Rightarrow>
         (let src = trim_right src0 (CHR ''/'');
              dst = (if last dst0 = CHR ''/'' then dst0 @ Base src else dst0)
          in case getNodeFromPath env m src of
               Inl e \<Rightarrow> (m, Some (FErr (''cp: cannot get node from path '' @ src @ '': '' @ err_msg env e)))
             | Inr nd \<Rightarrow> (case f_PutNode env m dst nd of
                 Inl e \<Rightarrow> (m, Some (FErr (''cp: cannot put node in path '' @ dst @ '': '' @ err_msg env e)))
               | Inr m1 \<Rightarrow>
                   (if \<not> fl then (m1, None)
                    else case f_FlushPath env m1 dst of
                      Inl e \<Rightarrow> (m1, Some (FErr (''cp: cannot flush the created file '' @ dst @ '': '' @ err_msg env e)))
                    | Inr (m2, _) \<Rightarrow> (m2, None))))))"

definition filesMv :: "('m, 'n, 'c, 'b) files_env \<Rightarrow> bool \<Rightarrow> string \<Rightarrow> string \<Rightarrow> 'm \<Rightarrow> 'm ran" where
  "filesMv env fl a0 a1 m = (case checkPath a0 of
     Inl e \<Rightarrow> (m, Some (FErr e))
   | Inr src \<Rightarrow> (case checkPath a1 of
       Inl e \<Rightarrow> (m, Some (FErr e))
     | Inr dst \<Rightarrow> (case f_Mv env m src dst of
         Inl e \<Rightarrow> (m, Some e)
       | Inr m1 \<Rightarrow>
           (if \<not> fl then (m1, None)
            else case f_FlushPath env m1 ''/'' of Inl e \<Rightarrow> (m1, Some e) | Inr (m2, _) \<Rightarrow> (m2, None)))))"

definition filesMkdir :: "('m, 'n, 'c, 'b) files_env \<Rightarrow> bool \<Rightarrow> bool \<Rightarrow> int option \<Rightarrow> string option \<Rightarrow> string \<Rightarrow> 'm \<Rightarrow> 'm ran" where
  "filesMkdir env dashp fl cidVer hashFun a0 m = (case checkPath a0 of
     Inl e \<Rightarrow> (m, Some (FErr e))
   | Inr d \<Rightarrow> (case getPrefix env cidVer hashFun of
       Inl e \<Rightarrow> (m, Some e)
     | Inr b \<Rightarrow> (case f_Mkdir env m d dashp fl b of Inl e \<Rightarrow> (m, Some e) | Inr m1 \<Rightarrow> (m1, None))))"

definition updatePath :: "('m, 'n, 'c, 'b) files_env \<Rightarrow> string \<Rightarrow> 'b option \<Rightarrow> 'm \<Rightarrow> 'm ran" where
  "updatePath env pth builder m = (case builder of
     None \<Rightarrow> (m, None)
   | Some b \<Rightarrow> (case f_Lookup env m pth of
       Inl e \<Rightarrow> (m, Some e)
     | Inr KDir \<Rightarrow> (f_SetBuilder env m pth b, None)
     | Inr _ \<Rightarrow> (m, Some (FErr ''can only update directories''))))"

definition filesChcid :: "('m, 'n, 'c, 'b) files_env \<Rightarrow> bool \<Rightarrow> int option \<Rightarrow> string option \<Rightarrow> string list \<Rightarrow> 'm \<Rightarrow> 'm ran" where
  "filesChcid env fl cidVer hashFun args m =
    (let path = (case args of [] \<Rightarrow> ''/'' | a # _ \<Rightarrow> a) in
     case getPrefix env cidVer hashFun of
       Inl e \<Rightarrow> (m, Some e)
     | Inr b \<Rightarrow> (case updatePath env path b m of
         (m1, Some e) \<Rightarrow> (m1, Some e)
       | (m1, None) \<Rightarrow>
           (if \<not> fl then (m1, None)
            else case f_FlushPath env m1 path of Inl e \<Rightarrow> (m1, Some e) | Inr (m2, _) \<Rightarrow> (m2, None))))"

text \<open>Writing the directory after a name was unlinked.\<close>

definition flush_unlinked :: "('m, 'n, 'c, 'b) files_env \<Rightarrow> string \<Rightarrow> 'm \<Rightarrow> 'm ran" where
  "flush_unlinked env dir m1 = (case f_FlushDir env m1 dir of Inl e \<Rightarrow> (m1, Some e) | Inr m2 \<Rightarrow> (m2, None))"

text \<open>Removing takes many paths but looks at the first only.\<close>

definition filesRm :: "('m, 'n, 'c, 'b) files_env \<Rightarrow> bool \<Rightarrow> bool \<Rightarrow> string list \<Rightarrow> 'm \<Rightarrow> 'm ran" where
  "filesRm env force dashr args m = (case checkPath (hd args) of
     Inl e \<Rightarrow> (m, Some (FErr e))
   | Inr path0 \<Rightarrow>
       (if path0 = ''/'' then (m, Some (FErr ''cannot delete root''))
        else let path = (if last path0 = CHR ''/'' then butlast path0 else path0);
                 dir = fst (Split path); name = snd (Split path)
          in case getParentDir env m dir of
               Some e \<Rightarrow> (m, if force \<and> e = NotExist then None else Some (FErr (''parent lookup: '' @ err_msg env e)))
             | None \<Rightarrow>
                 (if force then (case f_Unlink env m dir name of
                     Inl NotExist \<Rightarrow> (m, None)
                   | Inl e \<Rightarrow> (m, Some e)
                   | Inr m1 \<Rightarrow> flush_unlinked env dir m1)
                  else case f_Child env m dir name of
                    Inl e \<Rightarrow> (m, Some e)
                  | Inr k \<Rightarrow>
                      (if k = KDir \<and> \<not> dashr then (m, Some (FErr (path @ '' is a directory, use -r to remove directories'')))
                       else case f_Unlink env m dir name of
                         Inl e \<Rightarrow> (m, Some e)
                       | Inr m1 \<Rightarrow> flush_unlinked env dir m1))))"

definition filesFlush :: "('m, 'n, 'c, 'b) files_env \<Rightarrow> string list \<Rightarrow> 'm \<Rightarrow> 'm \<times> (ferr, 'c) result" where
  "filesFlush env args m =
    (let path = (case args of [] \<Rightarrow> ''/'' | a # _ \<Rightarrow> a) in
     case f_FlushPath env m path of Inl e \<Rightarrow> (m, Inl e) | Inr (m1, c) \<Rightarrow> (m1, Inr c))"

text \<open>Reading a part of a file. \<open>count\<close> is the option, if given; a 64-bit number.\<close>

definition filesRead :: "('m, 'n, 'c, 'b) files_env \<Rightarrow> int \<Rightarrow> int option \<Rightarrow> string \<Rightarrow> 'm \<Rightarrow> (ferr, string) result" where
  "filesRead env offset count a0 m = (case checkPath a0 of
     Inl e \<Rightarrow> Inl (FErr e)
   | Inr path \<Rightarrow> (case f_Lookup env m path of
       Inl e \<Rightarrow> Inl e
     | Inr k \<Rightarrow>
         (if k \<noteq> KFile then Inl (FErr (path @ '' was not a file''))
          else case f_Open env m path of
            Inl e \<Rightarrow> Inl e
          | Inr content \<Rightarrow>
              (if offset < 0 then Inl (FErr ''cannot specify negative offset'')
               else if offset > int (length content) then Inl (FErr (''offset was past end of file ('' @ itoa (nat offset) @ '' > '' @ itoa (length content) @ '')''))
               else case count of
                 None \<Rightarrow> Inr (drop (nat offset) content)
               | Some n \<Rightarrow> if n < 0 then Inl (FErr (''cannot specify negative '' @ [CHR 0x27] @ ''count'' @ [CHR 0x27])) else Inr (take (nat n) (drop (nat offset) content))))))"

definition ensureContainingDirectoryExists :: "('m, 'n, 'c, 'b) files_env \<Rightarrow> string \<Rightarrow> 'b option \<Rightarrow> 'm \<Rightarrow> 'm ran" where
  "ensureContainingDirectoryExists env path builder m =
    (let d = Dir path in
     if d = ''/'' then (m, None)
     else case f_Mkdir env m d True False builder of Inl e \<Rightarrow> (m, Some e) | Inr m1 \<Rightarrow> (m1, None))"

definition getFileHandle :: "('m, 'n, 'c, 'b) files_env \<Rightarrow> string \<Rightarrow> bool \<Rightarrow> 'b option \<Rightarrow> 'm \<Rightarrow> 'm ran" where
  "getFileHandle env path create builder m = (case f_Lookup env m path of
     Inr k \<Rightarrow> (m, if k = KFile then None else Some (FErr (path @ '' was not a file'')))
   | Inl (FErr e) \<Rightarrow> (m, Some (FErr e))
   | Inl NotExist \<Rightarrow>
       (if \<not> create then (m, Some NotExist)
        else let (dirname, fname) = Split path in
          case getParentDir env m dirname of
            Some e \<Rightarrow> (m, Some e)
          | None \<Rightarrow>
              (let b = (case builder of Some b \<Rightarrow> b | None \<Rightarrow> f_DirBuilder env m dirname) in
               case f_AddEmpty env m dirname fname b of
                 Inl e \<Rightarrow> (m, Some e)
               | Inr m1 \<Rightarrow> (m1, case f_Child env m1 dirname fname of
                   Inl e \<Rightarrow> Some e
                 | Inr KFile \<Rightarrow> None
                 | Inr _ \<Rightarrow> Some (FErr ''expected *mfs.File, didn't get it. This is likely a race condition'')))))"

text \<open>
  The bytes. \<open>data\<close> is what the request sends: an error, or the bytes it delivers and the error it ends with, if any. A limit
  hides what comes after it.
\<close>

definition limit_data :: "int option \<Rightarrow> string \<times> ferr option \<Rightarrow> string \<times> ferr option" where
  "limit_data count d = (case count of
     Some n \<Rightarrow> (take (nat n) (fst d), if nat n \<le> length (fst d) then None else snd d)
   | None \<Rightarrow> d)"

definition write_bytes :: "('m, 'n, 'c, 'b) files_env \<Rightarrow> bool \<Rightarrow> nat \<Rightarrow> int option \<Rightarrow> (ferr, string \<times> ferr option) result \<Rightarrow> string
    \<Rightarrow> string \<times> ferr option" where
  "write_bytes env trunc offset count data content =
    (case (if trunc then f_Truncate env content else Inr content) of
       Inl e \<Rightarrow> (content, Some e)
     | Inr c0 \<Rightarrow>
         (if (case count of Some n \<Rightarrow> n < 0 | None \<Rightarrow> False) then (c0, Some (FErr ''cannot have negative byte count''))
          else case f_Seek env c0 offset of
            Inl e \<Rightarrow> (c0, Some e)
          | Inr c1 \<Rightarrow> (case data of
              Inl e \<Rightarrow> (c1, Some e)
            | Inr d \<Rightarrow> (case f_WriteAt env c1 offset (fst (limit_data count d)) of
                (c2, Some e) \<Rightarrow> (c2, Some e)
              | (c2, None) \<Rightarrow> (c2, snd (limit_data count d))))))"

record write_opts =
  wo_create :: bool
  wo_parents :: bool
  wo_trunc :: bool
  wo_flush :: bool
  wo_raw :: "bool option"
  wo_offset :: int
  wo_count :: "int option"
  wo_cidVer :: "int option"
  wo_hash :: "string option"

definition filesWrite :: "('m, 'n, 'c, 'b) files_env \<Rightarrow> write_opts \<Rightarrow> string \<Rightarrow> (ferr, string \<times> ferr option) result \<Rightarrow> 'm \<Rightarrow> 'm ran" where
  "filesWrite env opts a0 data m = (case checkPath a0 of
     Inl e \<Rightarrow> (m, Some (FErr e))
   | Inr path \<Rightarrow> (case getPrefix env (wo_cidVer opts) (wo_hash opts) of
       Inl e \<Rightarrow> (m, Some e)
     | Inr prefix \<Rightarrow>
         (if wo_offset opts < 0 then (m, Some (FErr ''cannot have negative write offset''))
          else case (if wo_parents opts then ensureContainingDirectoryExists env path prefix m else (m, None)) of
            (m1, Some e) \<Rightarrow> (m1, Some e)
          | (m1, None) \<Rightarrow> (case getFileHandle env path (wo_create opts) prefix m1 of
              (m2, Some e) \<Rightarrow> (m2, Some e)
            | (m2, None) \<Rightarrow>
                (let m3 = (case wo_raw opts of Some b \<Rightarrow> f_SetRaw env m2 path b | None \<Rightarrow> m2) in
                 case f_Open env m3 path of
                   Inl e \<Rightarrow> (m3, Some e)
                 | Inr content \<Rightarrow> (case write_bytes env (wo_trunc opts) (nat (wo_offset opts)) (wo_count opts) data content of
                     (content', werr) \<Rightarrow> (case f_Store env m3 path (wo_flush opts) content' of
                         Inl e \<Rightarrow> (m3, case werr of Some e' \<Rightarrow> Some e' | None \<Rightarrow> Some e)
                       | Inr m4 \<Rightarrow> (m4, werr))))))))"

section \<open>Statistics\<close>

definition moreThanOne :: "bool \<Rightarrow> bool \<Rightarrow> bool \<Rightarrow> bool" where
  "moreThanOne a b c = (a \<and> b \<or> b \<and> c \<or> a \<and> c)"

definition statGetFormatOptions :: "bool \<Rightarrow> bool \<Rightarrow> string \<Rightarrow> string \<Rightarrow> (string, string) result" where
  "statGetFormatOptions hash sz format defaultStatFormat =
    (if moreThanOne hash sz (format \<noteq> defaultStatFormat)
     then Inl ''format was set by multiple options. Only one format option is allowed''
     else Inr (if hash then ''<hash>'' else if sz then ''<cumulsize>'' else format))"

datatype werr = WNotFound | WErr string

record ('n, 'c) walk_env =
  raw_size :: "'n \<Rightarrow> 64 word"
  wlinks :: "'n \<Rightarrow> 'c list"
  wget :: "'c \<Rightarrow> (werr, 'n) result"

text \<open>
  How much below a node is local. \<open>n\<close> bounds the nesting of the calls, and \<open>None\<close> means that it was not enough.
\<close>

fun walk_links :: "('n \<Rightarrow> (bool \<times> 64 word \<times> string option) option) \<Rightarrow> ('n, 'c) walk_env \<Rightarrow> 'c list \<Rightarrow> bool \<Rightarrow> 64 word
    \<Rightarrow> (bool \<times> 64 word \<times> string option) option" where
  "walk_links f env [] loc sz = Some (loc, sz, None)"
| "walk_links f env (l # ls) loc sz = (case wget env l of
     Inl WNotFound \<Rightarrow> walk_links f env ls False sz
   | Inl (WErr e) \<Rightarrow> Some (loc, sz, Some e)
   | Inr child \<Rightarrow> (case f child of
       None \<Rightarrow> None
     | Some (_, _, Some e) \<Rightarrow> Some (loc, sz, Some e)
     | Some (cl, cs, None) \<Rightarrow> walk_links f env ls (loc \<and> cl) (sz + cs)))"

fun walkBlock :: "nat \<Rightarrow> ('n, 'c) walk_env \<Rightarrow> 'n \<Rightarrow> (bool \<times> 64 word \<times> string option) option" where
  "walkBlock 0 env nd = None"
| "walkBlock (Suc n) env nd = walk_links (walkBlock n env) env (wlinks env nd) True (raw_size env nd)"

text \<open>What is said of a node: its identifier as text, its size, its links, and what kind of node it is.\<close>

datatype fttype = TRaw | TDirectory | TFile | TMetadata | TSymlink | THAMTShard

datatype nodekind = ProtoNode "(ferr, fttype \<times> 64 word) result" | RawNode | OtherNode

record 'n stat_env =
  sn_Cid :: "'n \<Rightarrow> string"
  sn_Size :: "'n \<Rightarrow> (ferr, 64 word) result"
  sn_Links :: "'n \<Rightarrow> nat"
  sn_kind :: "'n \<Rightarrow> nodekind"

record statOutput =
  so_Hash :: string
  so_Size :: "64 word"
  so_CumulativeSize :: "64 word"
  so_Blocks :: nat
  so_Type :: string
  so_WithLocality :: bool
  so_Local :: bool
  so_SizeLocal :: "64 word"

definition statNode :: "'n stat_env \<Rightarrow> 'n \<Rightarrow> (ferr, statOutput) result" where
  "statNode env nd = bind_ok (sn_Size env nd) (\<lambda>cumulsize. case sn_kind env nd of
     ProtoNode d \<Rightarrow> bind_ok d (\<lambda>(t, sz).
       if t = TSymlink then Inl (FErr ''unrecognized node type: Symlink'')
       else Inr \<lparr>so_Hash = sn_Cid env nd, so_Size = sz, so_CumulativeSize = cumulsize, so_Blocks = sn_Links env nd,
         so_Type = (if t \<in> {TDirectory, THAMTShard} then ''directory'' else ''file''),
         so_WithLocality = False, so_Local = False, so_SizeLocal = 0\<rparr>)
   | RawNode \<Rightarrow> Inr \<lparr>so_Hash = sn_Cid env nd, so_Size = cumulsize, so_CumulativeSize = cumulsize, so_Blocks = 0,
       so_Type = ''file'', so_WithLocality = False, so_Local = False, so_SizeLocal = 0\<rparr>
   | OtherNode \<Rightarrow> Inl (FErr ''not unixfs node (proto or raw)''))"

text \<open>The command. \<open>n\<close> bounds the nesting of the walk, and \<open>None\<close> means that it was not enough.\<close>

definition filesStat :: "nat \<Rightarrow> ('m, 'n, 'c, 'b) files_env \<Rightarrow> 'n stat_env \<Rightarrow> ('n, 'l) walk_env \<Rightarrow> (string, string) result \<Rightarrow> bool
    \<Rightarrow> string \<Rightarrow> 'm \<Rightarrow> (ferr, statOutput) result option" where
  "filesStat n env senv wenv format withLocal a0 m =
    (case format of
       Inl e \<Rightarrow> Some (Inl (FErr e))
     | Inr _ \<Rightarrow> (case checkPath a0 of
         Inl e \<Rightarrow> Some (Inl (FErr e))
       | Inr path \<Rightarrow> (case bind_ok (getNodeFromPath env m path) (\<lambda>nd. bind_ok (statNode senv nd) (\<lambda>st. Inr (nd, st))) of
           Inl e \<Rightarrow> Some (Inl e)
         | Inr (nd, st) \<Rightarrow>
             (if \<not> withLocal then Some (Inr st)
              else case walkBlock n wenv nd of
                None \<Rightarrow> None
              | Some (_, _, Some e) \<Rightarrow> Some (Inl (FErr e))
              | Some (loc, sz, None) \<Rightarrow> Some (Inr (st\<lparr>so_WithLocality := True, so_Local := loc, so_SizeLocal := sz\<rparr>))))))"

section \<open>Listing\<close>

record listing =
  nl_Name :: string
  nl_Type :: nat
  nl_Size :: int
  nl_Hash :: string

record 'm ls_env =
  mfs_TFile :: nat
  mfs_TDir :: nat
  d_ListNames :: "'m \<Rightarrow> string \<Rightarrow> (ferr, string list) result"
  d_List :: "'m \<Rightarrow> string \<Rightarrow> (ferr, listing list) result"
  fl_Size :: "'m \<Rightarrow> string \<Rightarrow> (ferr, int) result"
  fl_Hash :: "'m \<Rightarrow> string \<Rightarrow> (ferr, string) result"

definition filesLs :: "('m, 'n, 'c, 'b) files_env \<Rightarrow> 'm ls_env \<Rightarrow> bool \<Rightarrow> string list \<Rightarrow> 'm \<Rightarrow> (ferr, listing list) result" where
  "filesLs env lenv long args m =
    (let arg = (case args of [] \<Rightarrow> ''/'' | a # _ \<Rightarrow> a) in
     case checkPath arg of
       Inl e \<Rightarrow> Inl (FErr e)
     | Inr path \<Rightarrow> bind_ok (f_Lookup env m path) (\<lambda>k. case k of
         KDir \<Rightarrow>
           (if \<not> long then bind_ok (d_ListNames lenv m path) (\<lambda>names.
              Inr (map (\<lambda>n. \<lparr>nl_Name = n, nl_Type = 0, nl_Size = 0, nl_Hash = []\<rparr>) names))
            else d_List lenv m path)
       | KFile \<Rightarrow>
           (let name = snd (Split path) in
            if \<not> long then Inr [\<lparr>nl_Name = name, nl_Type = 0, nl_Size = 0, nl_Hash = []\<rparr>]
            else bind_ok (fl_Size lenv m path) (\<lambda>sz. bind_ok (fl_Hash lenv m path) (\<lambda>h.
              Inr [\<lparr>nl_Name = name, nl_Type = mfs_TFile lenv, nl_Size = sz, nl_Hash = h\<rparr>])))
       | KOther \<Rightarrow> Inl (FErr ''unrecognized type'')))"

text \<open>
  The text. The names of a directory are distinct, so the order of the sort is determined.
\<close>

definition ls_lines :: "'m ls_env \<Rightarrow> bool \<Rightarrow> bool \<Rightarrow> listing list \<Rightarrow> string list" where
  "ls_lines lenv noSort long es = map (\<lambda>e. if long
      then (nl_Name e @ (if nl_Type e = mfs_TDir lenv then ''/'' else [])) @ [CHR 0x09] @ nl_Hash e @ [CHR 0x09] @ (if nl_Size e < 0 then ''-'' else []) @ itoa (nat \<bar>nl_Size e\<bar>)
      else nl_Name e)
    (if noSort then es else sort_key nl_Name es)"

section \<open>Checked paths\<close>

text \<open>
  Where a path leads: from the root, element by element. An empty element and a dot stay, two dots go up, which at the root
  stays there, and every other element goes down.
\<close>

definition step_elem :: "string list \<Rightarrow> string \<Rightarrow> string list" where
  "step_elem loc e = (if e = [] \<or> e = ''.'' then loc else if e = ''..'' then butlast loc else loc @ [e])"

definition leads_to :: "string \<Rightarrow> string list" where
  "leads_to p = foldl step_elem [] (split_all (CHR ''/'') p)"

lemma push_step: "list_all clean_elem loc \<Longrightarrow> CHR ''/'' \<notin> set e \<Longrightarrow> rev (push_elem True (rev loc) e) = step_elem loc e \<and> list_all clean_elem (step_elem loc e)"
  by (cases loc rule: rev_cases) (auto simp: push_elem_def step_elem_def clean_elem_def)

lemma foldl_push_step:
  assumes "list_all clean_elem loc" and "\<forall>e \<in> set es. CHR ''/'' \<notin> set e"
  shows "rev (foldl (push_elem True) (rev loc) es) = foldl step_elem loc es \<and> list_all clean_elem (foldl step_elem loc es)"
  using assms
proof (induction es arbitrary: loc)
  case (Cons e es)
  have "push_elem True (rev loc) e = rev (step_elem loc e)" "list_all clean_elem (step_elem loc e)"
    using push_step [OF Cons.prems(1), of e] Cons.prems(2) by (auto simp: rev_swap)
  then show ?case
    using Cons.IH [of "step_elem loc e"] Cons.prems(2) by simp
qed simp

lemma Clean_leads_to:
  assumes "IsAbs p"
  shows "list_all clean_elem (leads_to p)" "Clean p = ''/'' @ join ''/'' (leads_to p)"
  using assms foldl_push_step [of "[]" "split_all (CHR ''/'') p"] split_all_no_sep
  by (auto simp: leads_to_def Clean_def Let_def)

lemma checkPath_shape:
  assumes "checkPath p = Inr q"
  shows "list_all clean_elem (leads_to p)" "q = ''/'' @ join ''/'' (leads_to p) @ (if last p = CHR ''/'' \<and> p \<noteq> ''/'' then ''/'' else [])"
proof -
  have p: "p \<noteq> []" "hd p = CHR ''/''"
    using assms by (auto simp: checkPath_def split: if_splits)
  then have a: "IsAbs p"
    by (cases p) (auto simp: IsAbs_def has_prefix_def)
  show "list_all clean_elem (leads_to p)"
    by (rule Clean_leads_to(1) [OF a])
  show "q = ''/'' @ join ''/'' (leads_to p) @ (if last p = CHR ''/'' \<and> p \<noteq> ''/'' then ''/'' else [])"
    using assms Clean_leads_to(2) [OF a] p by (auto simp: checkPath_def split: if_splits)
qed

text \<open>C30: what checking a path returns. It is an absolute path whose elements are those of the place that the argument leads to, where
  empty elements and dots are dropped and two dots undo the element before them, joined by slashes; a slash is appended exactly if
  the argument ends in one and is not the root itself, so two slashes, not one, stand for the root given with several slashes.
  Checking the result again changes nothing.\<close>

theorem checkPath_canonical:
  assumes "checkPath p = Inr q"
  shows "checkPath q = Inr q \<and> list_all clean_elem (leads_to p)
    \<and> q = ''/'' @ join ''/'' (leads_to p) @ (if last p = CHR ''/'' \<and> p \<noteq> ''/'' then ''/'' else [])"
proof -
  note es = checkPath_shape(1) [OF assms] and q = checkPath_shape(2) [OF assms]
  have "checkPath q = Inr q"
  proof (cases "last p = CHR ''/'' \<and> p \<noteq> ''/''")
    case True
    then have "q = ''/'' @ join ''/'' (leads_to p) @ ''/''"
      using q by simp
    then show ?thesis
      using Clean_elems(2) [OF es] by (simp add: checkPath_def)
  next
    case False
    then have "q = ''/'' @ join ''/'' (leads_to p)"
      using q by auto
    then show ?thesis
      using Clean_elems(1) [OF es] last_join [OF es] by (cases "leads_to p = []") (auto simp: checkPath_def)
  qed
  with es q show ?thesis
    by blast
qed

theorem checkPath_canonical_witness:
  "checkPath ''/a/./b/../c//'' = Inr ''/a/c/'' \<and> checkPath ''/a/c/'' = Inr ''/a/c/'' \<and> list_all clean_elem (leads_to ''/a/./b/../c//'')
    \<and> ''/a/c/'' = ''/'' @ join ''/'' (leads_to ''/a/./b/../c//'') @ ''/''"
proof -
  have c: "checkPath ''/a/./b/../c//'' = Inr ''/a/c/''"
    by code_simp
  from checkPath_canonical [OF this] c show ?thesis
    by simp
qed

section \<open>Removing\<close>

text \<open>The directory that holds the last of some elements, and that element; for no elements, the root and the empty name.\<close>

definition dir_of :: "string list \<Rightarrow> string" where
  "dir_of es = ''/'' @ concat (map (\<lambda>e. e @ ''/'') (butlast es))"

definition name_of :: "string list \<Rightarrow> string" where
  "name_of es = (if es = [] then [] else last es)"

lemma join_dir_of:
  assumes "es \<noteq> []"
  shows "''/'' @ join ''/'' es = dir_of es @ name_of es"
proof -
  have "join ''/'' (xs @ [e]) = concat (map (\<lambda>e. e @ ''/'') xs) @ e" for xs and e :: string
  proof (induction xs)
    case (Cons x xs)
    then show ?case
      using join_append [of "[x]" "xs @ [e]" "CHR ''/''"] by simp
  qed simp
  from this [of "butlast es" "last es"] show ?thesis
    using assms by (simp add: dir_of_def name_of_def)
qed

lemma Split_at:
  assumes "CHR ''/'' \<notin> set n" and "d \<noteq> []" and "last d = CHR ''/''"
  shows "Split (d @ n) = (d, n)"
proof -
  have "takeWhile (\<lambda>c. c \<noteq> CHR ''/'') (rev n @ rev d) = rev n @ takeWhile (\<lambda>c. c \<noteq> CHR ''/'') (rev d)"
    using assms(1) by (intro takeWhile_append2) auto
  moreover have "takeWhile (\<lambda>c. c \<noteq> CHR ''/'') (rev d) = []"
    using assms(2,3) by (cases d rule: rev_cases) auto
  ultimately show ?thesis
    by (simp add: Split_def Let_def)
qed

text \<open>What a removal looks up: the path without the slash at its end splits into directory and name.\<close>

lemma removed_split:
  assumes "checkPath p = Inr q" and "q \<noteq> ''/''"
  shows "Split (if last q = CHR ''/'' then butlast q else q) = (dir_of (leads_to p), name_of (leads_to p))"
proof -
  let ?es = "leads_to p" and ?q = "if last q = CHR ''/'' then butlast q else q"
  note es = checkPath_shape(1) [OF assms(1)] and q = checkPath_shape(2) [OF assms(1)]
  have "?q = ''/'' @ join ''/'' ?es"
  proof (cases "?es = []")
    case False
    then show ?thesis
      using q last_join [OF es] by (auto simp: butlast_append split: if_splits)
  qed (use q assms(2) in \<open>auto split: if_splits\<close>)
  then have "?q = dir_of ?es @ name_of ?es"
    using join_dir_of [of ?es] by (cases "?es = []") (simp_all add: dir_of_def name_of_def)
  moreover have "CHR ''/'' \<notin> set (name_of ?es)"
    using es by (cases ?es rule: rev_cases) (auto simp: name_of_def clean_elem_def)
  moreover have "dir_of ?es \<noteq> []" "last (dir_of ?es) = CHR ''/''"
    by (simp_all add: dir_of_def, cases "butlast ?es" rule: rev_cases) simp_all
  ultimately show ?thesis
    using Split_at by simp
qed

text \<open>C28: what removing changes. Without force a removal changes the file system only by unlinking one name: the last element of the place the
  path leads to, from the directory of the elements before it, with or without a slash at the end of the path; a name that stands for a
  directory only with the option for that; and with a path that does not pass the checks nothing
  changes. The root is refused as a single slash; given with more slashes it is the empty name in the root.\<close>

theorem files_rm_guards:
  assumes "filesRm env False dashr args m = (m', r)" and "m' \<noteq> m"
  shows "\<exists>path k m1. checkPath (hd args) = Inr path \<and> path \<noteq> ''/'' \<and> (leads_to (hd args) = [] \<longrightarrow> path = ''//'')
    \<and> f_Lookup env m (dir_of (leads_to (hd args))) = Inr KDir
    \<and> f_Child env m (dir_of (leads_to (hd args))) (name_of (leads_to (hd args))) = Inr k \<and> (k = KDir \<longrightarrow> dashr)
    \<and> f_Unlink env m (dir_of (leads_to (hd args))) (name_of (leads_to (hd args))) = Inr m1
    \<and> (m', r) = flush_unlinked env (dir_of (leads_to (hd args))) m1"
proof (cases "checkPath (hd args)")
  case (Inl e)
  then show ?thesis
    using assms by (simp add: filesRm_def)
next
  case (Inr path0)
  let ?path = "if last path0 = CHR ''/'' then butlast path0 else path0"
  let ?dir = "fst (Split ?path)" and ?name = "snd (Split ?path)"
  have ne: "path0 \<noteq> ''/''"
    using assms Inr by (auto simp: filesRm_def)
  have parent: "getParentDir env m ?dir = None"
    using assms Inr ne by (cases "getParentDir env m ?dir") (auto simp: filesRm_def Let_def)
  then have lk: "f_Lookup env m ?dir = Inr KDir"
    by (auto simp: getParentDir_def split: sum.splits fkind.splits)
  obtain k where k: "f_Child env m ?dir ?name = Inr k"
    using assms Inr ne parent by (cases "f_Child env m ?dir ?name") (auto simp: filesRm_def Let_def)
  have dr: "k = KDir \<longrightarrow> dashr"
    using assms Inr ne parent k by (auto simp: filesRm_def Let_def split: if_splits)
  obtain m1 where m1: "f_Unlink env m ?dir ?name = Inr m1"
    using assms Inr ne parent k dr by (cases "f_Unlink env m ?dir ?name") (auto simp: filesRm_def Let_def split: if_splits)
  have fl: "(m', r) = flush_unlinked env ?dir m1"
    using assms Inr ne parent k dr m1 by (auto simp: filesRm_def Let_def split: if_splits)
  have sp: "?dir = dir_of (leads_to (hd args))" "?name = name_of (leads_to (hd args))"
    using removed_split [OF Inr ne] by simp_all
  have "leads_to (hd args) = [] \<longrightarrow> path0 = ''//''"
    using checkPath_shape(2) [OF Inr] ne by (auto split: if_splits)
  then show ?thesis
    using Inr ne lk k dr m1 fl unfolding sp by blast
qed

text \<open>A file system with one directory, the root, and the files given; what was unlinked is gone.\<close>

definition ex_files_env :: "((string \<times> string) list, string, string, unit) files_env" where
  "ex_files_env = \<lparr>err_msg = (\<lambda>_. ''error''),
     f_Lookup = (\<lambda>m p. if p = ''/'' then Inr KDir else if map_of m p = None then Inl NotExist else Inr KFile),
     f_Child = (\<lambda>m d n. if map_of m (d @ n) = None then Inl NotExist else Inr KFile),
     f_Unlink = (\<lambda>m d n. if map_of m (d @ n) = None then Inl NotExist else Inr (filter (\<lambda>e. fst e \<noteq> d @ n) m)),
     f_FlushDir = (\<lambda>m _. Inr m), f_GetNode = (\<lambda>m p. Inr p), f_ResolveNode = Inr,
     f_PutNode = (\<lambda>m p n. Inr ((p, n) # m)), f_FlushPath = (\<lambda>m p. Inr (m, p)), f_Mv = (\<lambda>m _ _. Inr m),
     f_Mkdir = (\<lambda>m _ _ _ _. Inr m), f_SetBuilder = (\<lambda>m _ _. m), f_DirBuilder = (\<lambda>_ _. ()),
     f_AddEmpty = (\<lambda>m d n _. Inr ((d @ n, []) # m)),
     f_Open = (\<lambda>m p. case map_of m p of Some c \<Rightarrow> Inr c | None \<Rightarrow> Inl NotExist),
     f_Store = (\<lambda>m p _ c. if p = ''/'' then Inl (FErr ''not a file'') else Inr ((p, c) # m)),
     f_SetRaw = (\<lambda>m _ _. m), f_Truncate = (\<lambda>_. Inr []), f_Seek = (\<lambda>c off. Inr (c @ replicate (off - length c) (CHR 0x00))),
     f_WriteAt = (\<lambda>c off s. (take off c @ s @ drop (off + length s) c, None)),
     prefix_for = (\<lambda>_. Inr ()), hash_code = (\<lambda>_. None), with_hash = (\<lambda>_ _. ())\<rparr>"

theorem files_rm_guards_witness:
  "filesRm ex_files_env False False [''/x/../a/'', ''/b''] [(''/a'', ''x''), (''/b'', ''y'')] = ([(''/b'', ''y'')], None)
    \<and> f_Lookup ex_files_env [(''/a'', ''x''), (''/b'', ''y'')] ''/'' = Inr KDir
    \<and> (\<exists>k. f_Child ex_files_env [(''/a'', ''x''), (''/b'', ''y'')] ''/'' ''a'' = Inr k \<and> k \<noteq> KDir)"
proof -
  have r: "filesRm ex_files_env False False [''/x/../a/'', ''/b''] [(''/a'', ''x''), (''/b'', ''y'')] = ([(''/b'', ''y'')], None)"
    by code_simp
  have c: "dir_of (leads_to ''/x/../a/'') = ''/''" "name_of (leads_to ''/x/../a/'') = ''a''"
    by code_simp+
  show ?thesis
    using files_rm_guards [OF r] r c by auto
qed

text \<open>The other paths of a removal are ignored.\<close>

lemma files_rm_first_only: "filesRm env force dashr (p # ps) m = filesRm env force dashr [p] m"
  by (simp add: filesRm_def)

text \<open>The guard for the root does not recognise it with two slashes: an empty name is unlinked from the root.\<close>

lemma files_rm_root_unguarded:
  assumes "f_Lookup env m ''/'' = Inr KDir" and "f_Unlink env m ''/'' [] = Inr m1"
  shows "filesRm env True dashr [''//''] m = flush_unlinked env ''/'' m1"
proof -
  have "checkPath ''//'' = Inr ''//''" "Split ''/'' = (''/'', [])"
    by code_simp+
  then show ?thesis
    using assms by (simp add: filesRm_def getParentDir_def)
qed

section \<open>Writing and reading\<close>

text \<open>
  The laws of the file system: what is stored is a file and is what is read; the choice of raw leaves changes no content; truncating
  leaves nothing; seeking past the end fills with zeros; and writing replaces the bytes at the offset.
\<close>

definition splice :: "string \<Rightarrow> nat \<Rightarrow> string \<Rightarrow> string" where
  "splice c off s = take off (c @ replicate (off - length c) (CHR 0x00)) @ s @ drop (off + length s) c"

definition files_law :: "('m, 'n, 'c, 'b) files_env \<Rightarrow> bool" where
  "files_law env \<longleftrightarrow> (\<forall>m p fl c m'. f_Store env m p fl c = Inr m' \<longrightarrow> f_Lookup env m' p = Inr KFile \<and> f_Open env m' p = Inr c)
     \<and> (\<forall>m p b. f_Open env (f_SetRaw env m p b) p = f_Open env m p)
     \<and> (\<forall>c c'. f_Truncate env c = Inr c' \<longrightarrow> c' = [])
     \<and> (\<forall>c off c'. f_Seek env c off = Inr c' \<longrightarrow> c' = c @ replicate (off - length c) (CHR 0x00))
     \<and> (\<forall>c off s c'. off \<le> length c \<longrightarrow> f_WriteAt env c off s = (c', None) \<longrightarrow> c' = take off c @ s @ drop (off + length s) c)"

lemma write_bytes_ok:
  assumes "files_law env" and "write_bytes env trunc off count data content = (c, None)"
  shows "\<exists>d. data = Inr d \<and> snd (limit_data count d) = None
    \<and> c = splice (if trunc then [] else content) off (fst (limit_data count d))"
proof -
  obtain c0 where c0: "(if trunc then f_Truncate env content else Inr content) = Inr c0"
    using assms(2) by (cases "if trunc then f_Truncate env content else Inr content") (auto simp: write_bytes_def)
  then have e0: "c0 = (if trunc then [] else content)"
    using assms(1) by (auto simp: files_law_def split: if_splits)
  note w = assms(2) [unfolded write_bytes_def c0 sum.case]
  obtain c1 where c1: "f_Seek env c0 off = Inr c1"
    using w by (cases "f_Seek env c0 off") (auto split: if_splits)
  then have e1: "c1 = c0 @ replicate (off - length c0) (CHR 0x00)"
    using assms(1) by (auto simp: files_law_def)
  obtain d where d: "data = Inr d"
    using w c1 by (cases data) (auto split: if_splits)
  have wr: "f_WriteAt env c1 off (fst (limit_data count d)) = (c, None)" and "snd (limit_data count d) = None"
    using w c1 d by (auto split: if_splits prod.splits option.splits)
  moreover have "off \<le> length c1"
    by (simp add: e1)
  then have "c = take off c1 @ fst (limit_data count d) @ drop (off + length (fst (limit_data count d))) c1"
    using assms(1) wr unfolding files_law_def by blast
  ultimately show ?thesis
    using d by (simp add: splice_def e1 e0)
qed

text \<open>C10: writing and reading back. After a successful write to an existing file, reading it from any offset within it gives the old
  content, or nothing if it was to be truncated, with the data, cut to the count, in place of the bytes at the
  offset of the write.\<close>

theorem files_write_read:
  assumes "files_law env" and "checkPath a0 = Inr path" and "f_Lookup env m path = Inr KFile" and "f_Open env m path = Inr old"
    and "\<not> wo_parents opts" and "filesWrite env opts a0 data m = (m', None)"
  shows "\<exists>s rerr new. data = Inr (s, rerr)
    \<and> new = splice (if wo_trunc opts then [] else old) (nat (wo_offset opts)) (case wo_count opts of Some n \<Rightarrow> take (nat n) s | None \<Rightarrow> s)
    \<and> (\<forall>off \<le> length new. filesRead env (int off) None a0 m' = Inr (drop off new))"
proof -
  have handle: "getFileHandle env path (wo_create opts) prefix m = (m, None)" for prefix
    using assms(3) by (simp add: getFileHandle_def)
  obtain prefix where pre: "getPrefix env (wo_cidVer opts) (wo_hash opts) = Inr prefix"
    using assms(2,6) by (cases "getPrefix env (wo_cidVer opts) (wo_hash opts)") (auto simp: filesWrite_def)
  define m3 where "m3 = (case wo_raw opts of Some b \<Rightarrow> f_SetRaw env m path b | None \<Rightarrow> m)"
  have op: "f_Open env m3 path = Inr old"
    using assms(1,4) by (auto simp: m3_def files_law_def split: option.splits)
  obtain new werr where w: "write_bytes env (wo_trunc opts) (nat (wo_offset opts)) (wo_count opts) data old = (new, werr)"
    by (cases "write_bytes env (wo_trunc opts) (nat (wo_offset opts)) (wo_count opts) data old")
  have st: "werr = None \<and> f_Store env m3 path (wo_flush opts) new = Inr m'"
    using assms(2,5,6) pre handle op w
    by (auto simp: filesWrite_def m3_def [symmetric] Let_def split: if_splits sum.splits option.splits)
  then have rd: "f_Lookup env m' path = Inr KFile" "f_Open env m' path = Inr new"
    using assms(1) unfolding files_law_def by blast+
  obtain s rerr where s: "data = Inr (s, rerr)"
      "new = splice (if wo_trunc opts then [] else old) (nat (wo_offset opts)) (fst (limit_data (wo_count opts) (s, rerr)))"
    using write_bytes_ok [OF assms(1)] w st by fastforce
  have "filesRead env (int off) None a0 m' = Inr (drop off new)" if "off \<le> length new" for off
    using that rd by (simp add: filesRead_def assms(2))
  with s show ?thesis
    by (intro exI [of _ s] exI [of _ rerr] exI [of _ new]) (auto simp: limit_data_def split: option.splits)
qed

lemma ex_files_law: "files_law ex_files_env"
  by (auto simp: files_law_def ex_files_env_def splice_def split: if_splits)

definition ex_write_opts :: write_opts where
  "ex_write_opts = \<lparr>wo_create = False, wo_parents = False, wo_trunc = False, wo_flush = True, wo_raw = Some True, wo_offset = 1, wo_count = Some 2,
     wo_cidVer = None, wo_hash = None\<rparr>"

theorem files_write_read_witness:
  "\<exists>m'. filesWrite ex_files_env ex_write_opts ''/a'' (Inr (''XYZ'', None)) [(''/a'', ''abcd'')] = (m', None)
    \<and> filesRead ex_files_env (int 0) None ''/a'' m' = Inr ''aXYd''"
proof -
  let ?m = "[(''/a'', ''abcd'')]"
  have w: "filesWrite ex_files_env ex_write_opts ''/a'' (Inr (''XYZ'', None)) ?m = ([(''/a'', ''aXYd''), (''/a'', ''abcd'')], None)"
    by code_simp
  have c: "checkPath ''/a'' = Inr ''/a''"
    by code_simp
  have f: "f_Lookup ex_files_env ?m ''/a'' = Inr KFile" "f_Open ex_files_env ?m ''/a'' = Inr ''abcd''" "\<not> wo_parents ex_write_opts"
    by code_simp+
  obtain new where n: "new = splice ''abcd'' 1 ''XY''" "\<forall>off \<le> length new. filesRead ex_files_env (int off) None ''/a'' [(''/a'', ''aXYd''), (''/a'', ''abcd'')] = Inr (drop off new)"
    using files_write_read [OF ex_files_law c f w] by (auto simp: ex_write_opts_def)
  have "splice ''abcd'' 1 ''XY'' = ''aXYd''"
    by code_simp
  then show ?thesis
    using w n(2) [rule_format, of 0] by (simp add: n(1))
qed

text \<open>Truncation comes before the count is checked: a write that fails for its count has emptied the file.\<close>

lemma files_write_truncates:
  assumes "checkPath a0 = Inr path" and "f_Lookup env m path = Inr KFile" and "f_Open env m path = Inr old"
    and "f_Truncate env old = Inr []" and "wo_raw opts = None" and "f_Store env m path (wo_flush opts) [] = Inr m'" and "\<not> wo_parents opts" and "wo_trunc opts" and "wo_count opts = Some n" and "n < 0"
    and "wo_cidVer opts = None" and "wo_hash opts = None" and "0 \<le> wo_offset opts"
  shows "filesWrite env opts a0 data m = (m', Some (FErr ''cannot have negative byte count''))"
  using assms by (simp add: filesWrite_def getPrefix_def getFileHandle_def write_bytes_def Let_def)

section \<open>What is local\<close>

inductive wreach :: "('n, 'c) walk_env \<Rightarrow> 'n \<Rightarrow> 'c \<Rightarrow> bool" for env :: "('n, 'c) walk_env" where
  wreach_link: "l \<in> set (wlinks env nd) \<Longrightarrow> wreach env nd l"
| wreach_step: "l \<in> set (wlinks env nd) \<Longrightarrow> wget env l = Inr child \<Longrightarrow> wreach env child c \<Longrightarrow> wreach env nd c"

definition all_local :: "('n, 'c) walk_env \<Rightarrow> 'n \<Rightarrow> bool" where
  "all_local env nd \<longleftrightarrow> (\<forall>c. wreach env nd c \<longrightarrow> (\<exists>child. wget env c = Inr child))"

lemma all_local_iff: "all_local env nd \<longleftrightarrow> (\<forall>l \<in> set (wlinks env nd). \<exists>child. wget env l = Inr child \<and> all_local env child)"
proof
  assume a: "all_local env nd"
  show "\<forall>l \<in> set (wlinks env nd). \<exists>child. wget env l = Inr child \<and> all_local env child"
  proof
    fix l
    assume l: "l \<in> set (wlinks env nd)"
    then obtain child where child: "wget env l = Inr child"
      using a [unfolded all_local_def, rule_format, OF wreach_link [OF l]] by blast
    have "all_local env child"
      unfolding all_local_def
      by (intro allI impI) (rule a [unfolded all_local_def, rule_format, OF wreach_step [OF l child]])
    with child show "\<exists>child. wget env l = Inr child \<and> all_local env child"
      by blast
  qed
next
  assume a: "\<forall>l \<in> set (wlinks env nd). \<exists>child. wget env l = Inr child \<and> all_local env child"
  show "all_local env nd"
    unfolding all_local_def
  proof (intro allI impI)
    fix c
    assume "wreach env nd c"
    then show "\<exists>child. wget env c = Inr child"
    proof cases
      case wreach_link
      with a show ?thesis
        by blast
    next
      case (wreach_step l child)
      then have "all_local env child"
        using a by force
      with wreach_step(3) show ?thesis
        unfolding all_local_def by simp
    qed
  qed
qed

definition walk_law :: "('n, 'c) walk_env \<Rightarrow> ('n \<Rightarrow> nat) \<Rightarrow> bool" where
  "walk_law env height \<longleftrightarrow> (\<forall>c e. wget env c \<noteq> Inl (WErr e))
     \<and> (\<forall>nd l child. l \<in> set (wlinks env nd) \<longrightarrow> wget env l = Inr child \<longrightarrow> height child < height nd)"

lemma walk_links_local:
  assumes "\<And>c e. wget env c \<noteq> Inl (WErr e)"
    and "\<And>l child. l \<in> set ls \<Longrightarrow> wget env l = Inr child \<Longrightarrow> \<exists>sz. f child = Some (all_local env child, sz, None)"
  shows "\<exists>sz'. walk_links f env ls loc sz
    = Some (loc \<and> (\<forall>l \<in> set ls. \<exists>child. wget env l = Inr child \<and> all_local env child), sz', None)"
  using assms(2)
proof (induction ls arbitrary: loc sz)
  case (Cons l ls)
  consider "wget env l = Inl WNotFound" | child where "wget env l = Inr child"
    using assms(1) [of l] by (cases "wget env l") (auto intro: werr.exhaust)
  then show ?case
  proof cases
    case 1
    have "\<exists>sz'. walk_links f env ls False sz = Some (False \<and> (\<forall>l \<in> set ls. \<exists>child. wget env l = Inr child \<and> all_local env child), sz', None)"
      by (rule Cons.IH) (rule Cons.prems, simp_all)
    then show ?thesis
      using 1 by simp
  next
    case (2 child)
    obtain cs where c: "f child = Some (all_local env child, cs, None)"
      using Cons.prems [OF _ 2] by auto
    have "\<exists>sz'. walk_links f env ls (loc \<and> all_local env child) (sz + cs)
        = Some ((loc \<and> all_local env child) \<and> (\<forall>l \<in> set ls. \<exists>child. wget env l = Inr child \<and> all_local env child), sz', None)"
      by (rule Cons.IH) (rule Cons.prems, simp_all)
    then show ?thesis
      using 2 c by auto
  qed
qed simp

text \<open>C11: how much is local. On a graph where the only errors are missing blocks, the walk ends when its nesting may be as deep as
  the graph is high, and says that a node is local exactly if every block below it that can be reached through local
  blocks is there.\<close>

theorem walk_block_exact:
  assumes "walk_law env height" and "height nd < n"
  shows "\<exists>sz. walkBlock n env nd = Some (all_local env nd, sz, None)"
  using assms(2)
proof (induction n arbitrary: nd)
  case (Suc n)
  have "\<exists>sz. walkBlock n env child = Some (all_local env child, sz, None)" if "l \<in> set (wlinks env nd)" "wget env l = Inr child" for l child
    using assms(1) that Suc.prems by (intro Suc.IH) (fastforce simp: walk_law_def)
  then show ?case
    using walk_links_local [of env "wlinks env nd" "walkBlock n env" True "raw_size env nd"] assms(1) all_local_iff [of env nd]
    by (simp add: walk_law_def)
qed simp

definition ex_walk_env :: "(nat, nat) walk_env" where
  "ex_walk_env = \<lparr>raw_size = (\<lambda>_. 1), wlinks = (\<lambda>n. if n = 2 then [1, 0] else []), wget = (\<lambda>c. if c = 0 then Inl WNotFound else Inr c)\<rparr>"

theorem walk_block_exact_witness:
  "\<exists>sz. walkBlock 3 ex_walk_env 2 = Some (all_local ex_walk_env 2, sz, None) \<and> \<not> all_local ex_walk_env 2"
proof -
  have "walk_law ex_walk_env id"
    by (auto simp: walk_law_def ex_walk_env_def)
  then have "\<exists>sz. walkBlock 3 ex_walk_env 2 = Some (all_local ex_walk_env 2, sz, None)"
    by (rule walk_block_exact) simp
  moreover have "\<not> all_local ex_walk_env 2"
    unfolding all_local_iff [of ex_walk_env 2] by (simp add: ex_walk_env_def)
  ultimately show ?thesis
    by auto
qed

end
