(* ===== verification/DagCmd.thy ===== *)
theory DagCmd
  imports Prelude "HOL-Library.Word"
begin

text \<open>
  The commands that put, import and measure graphs, \<open>src/core/commands/dag/dag.go\<close>.

  The block store with its batch and its pinner is a state with operations, which are parameters, as are the decoders and the
  reader of archives. A run leaves a log of the calls it made. The batch may write in the background: \<open>EvAdd\<close> is the call that hands
  it a node, not the write, and when a call fails the writes it has begun may end later; \<open>EvCommit\<close> waits for them.
\<close>

section \<open>Importing archives\<close>

datatype ('n, 'c) dag_event = EvLock | EvUnlock | EvAdd 'n | EvCommit | EvPin 'n | EvFlush | EvEmit 'c string

text \<open>
  What reading an archive gives: an error, or the version and the roots of its header and then blocks, of which the last may
  be an error.
\<close>

datatype 'b car_next = CBlock 'b | CErr string

datatype ('b, 'c) car_file = NotFile | CarBad string | Car int "'c list" "'b car_next list"

record ('s, 'b, 'n, 'c) dag_env =
  dec :: "'b \<Rightarrow> (string, 'n) result"
  batch_Add :: "'s \<Rightarrow> 'n \<Rightarrow> 's \<times> string option"
  batch_Commit :: "'s \<Rightarrow> 's \<times> string option"
  bs_Get :: "'s \<Rightarrow> 'c \<Rightarrow> (string, 'b) result"
  pn_Pin :: "'s \<Rightarrow> 'n \<Rightarrow> 's \<times> string option"
  pn_Flush :: "'s \<Rightarrow> 's \<times> string option"
  root_order :: "'c list \<Rightarrow> 'c list"
  emit_error :: "nat \<Rightarrow> string option"

fun add_blocks :: "('s, 'b, 'n, 'c) dag_env \<Rightarrow> 'b car_next list \<Rightarrow> 's \<Rightarrow> 's \<times> 'n list \<times> string option" where
  "add_blocks env [] s = (s, [], None)"
| "add_blocks env (CErr e # xs) s = (s, [], Some e)"
| "add_blocks env (CBlock b # xs) s = (case dec env b of
     Inl e \<Rightarrow> (s, [], Some e)
   | Inr nd \<Rightarrow> (case batch_Add env s nd of
       (s1, Some e) \<Rightarrow> (s1, [nd], Some e)
     | (s1, None) \<Rightarrow> (case add_blocks env xs s1 of (s2, nds, r) \<Rightarrow> (s2, nd # nds, r))))"

text \<open>The set of roots is a map whose keys are listed in the order in which they were first seen.\<close>

abbreviation add_root :: "'c list \<Rightarrow> 'c \<Rightarrow> 'c list" where
  "add_root rs c \<equiv> if c \<in> set rs then rs else rs @ [c]"

definition import_file :: "('s, 'b, 'n, 'c) dag_env \<Rightarrow> ('b, 'c) car_file \<Rightarrow> 'c list \<Rightarrow> 's \<Rightarrow> 's \<times> 'n list \<times> (string, 'c list) result" where
  "import_file env f roots s = (case f of
     NotFile \<Rightarrow> (s, [], Inl ''expected a file handle'')
   | CarBad e \<Rightarrow> (s, [], Inl e)
   | Car v rs xs \<Rightarrow>
       (if v \<noteq> 1 then (s, [], Inl ''only car files version 1 supported at present'')
        else case add_blocks env xs s of
          (s1, nds, Some e) \<Rightarrow> (s1, nds, Inl e)
        | (s1, nds, None) \<Rightarrow> (s1, nds, Inr (foldl add_root roots rs))))"

fun import_files :: "('s, 'b, 'n, 'c) dag_env \<Rightarrow> ('b, 'c) car_file list \<Rightarrow> 'c list \<Rightarrow> 's \<Rightarrow> 's \<times> 'n list \<times> (string, 'c list) result" where
  "import_files env [] roots s = (s, [], Inr roots)"
| "import_files env (f # fs) roots s = (case import_file env f roots s of
     (s1, nds, Inl e) \<Rightarrow> (s1, nds, Inl e)
   | (s1, nds, Inr roots1) \<Rightarrow> (case import_files env fs roots1 s1 of (s2, nds2, r) \<Rightarrow> (s2, nds @ nds2, r)))"

text \<open>\<open>iterr\<close> is the error the iterator over the files ends with, if any.\<close>

definition importWorker :: "('s, 'b, 'n, 'c) dag_env \<Rightarrow> ('b, 'c) car_file list \<Rightarrow> string option \<Rightarrow> 's
    \<Rightarrow> 's \<times> ('n, 'c) dag_event list \<times> (string, 'c list) result" where
  "importWorker env fs iterr s = (case import_files env fs [] s of
     (s1, nds, Inl e) \<Rightarrow> (s1, map EvAdd nds, Inl e)
   | (s1, nds, Inr roots) \<Rightarrow> (case iterr of
       Some e \<Rightarrow> (s1, map EvAdd nds, Inl e)
     | None \<Rightarrow> (case batch_Commit env s1 of
         (s2, Some e) \<Rightarrow> (s2, map EvAdd nds @ [EvCommit], Inl e)
       | (s2, None) \<Rightarrow> (s2, map EvAdd nds @ [EvCommit], Inr roots))))"

text \<open>Pinning one root; the message is empty if nothing failed.\<close>

definition pin_one :: "('s, 'b, 'n, 'c) dag_env \<Rightarrow> 'c \<Rightarrow> 's \<Rightarrow> 's \<times> ('n, 'c) dag_event list \<times> string" where
  "pin_one env c s = (case bs_Get env s c of
     Inl e \<Rightarrow> (s, [], e)
   | Inr b \<Rightarrow> (case dec env b of
       Inl e \<Rightarrow> (s, [], e)
     | Inr nd \<Rightarrow> (case pn_Pin env s nd of
         (s1, Some e) \<Rightarrow> (s1, [EvPin nd], e)
       | (s1, None) \<Rightarrow> (case pn_Flush env s1 of
           (s2, r) \<Rightarrow> (s2, [EvPin nd, EvFlush], case r of Some e \<Rightarrow> e | None \<Rightarrow> [])))))"

text \<open>
  The loop over the roots, with the number of emissions so far. The result is the error of an emission, or the number of
  pins that failed.
\<close>

fun pin_roots :: "('s, 'b, 'n, 'c) dag_env \<Rightarrow> 'c list \<Rightarrow> nat \<Rightarrow> nat \<Rightarrow> 's \<Rightarrow> 's \<times> ('n, 'c) dag_event list \<times> (string, nat) result" where
  "pin_roots env [] k failed s = (s, [], Inr failed)"
| "pin_roots env (c # cs) k failed s = (case pin_one env c s of
     (s1, evs, msg) \<Rightarrow> (case emit_error env k of
       Some e \<Rightarrow> (s1, evs, Inl e)
     | None \<Rightarrow> (case pin_roots env cs (Suc k) (if msg \<noteq> [] then Suc failed else failed) s1 of
         (s2, evs2, r) \<Rightarrow> (s2, evs @ EvEmit c msg # evs2, r))))"

definition DagImport :: "('s, 'b, 'n, 'c) dag_env \<Rightarrow> bool \<Rightarrow> ('b, 'c) car_file list \<Rightarrow> string option \<Rightarrow> 's
    \<Rightarrow> 's \<times> ('n, 'c) dag_event list \<times> string option" where
  "DagImport env doPinRoots fs iterr s = (case importWorker env fs iterr s of
     (s1, evs, Inl e) \<Rightarrow> (s1, EvLock # evs @ [EvUnlock], Some e)
   | (s1, evs, Inr roots) \<Rightarrow>
       (if \<not> doPinRoots then (s1, EvLock # evs @ [EvUnlock], None)
        else case pin_roots env (root_order env roots) 0 0 s1 of
          (s2, evs2, r) \<Rightarrow> (s2, EvLock # evs @ evs2 @ [EvUnlock], case r of
             Inl e \<Rightarrow> Some e
           | Inr failed \<Rightarrow>
               if failed > 0 then Some (''unable to pin all roots: '' @ itoa failed @ '' out of '' @ itoa (length roots) @ '' failed'')
               else None)))"

text \<open>The line printed for a root.\<close>

definition import_line :: "('c \<Rightarrow> string) \<Rightarrow> bool \<Rightarrow> 'c \<Rightarrow> string \<Rightarrow> string" where
  "import_line enc silent c msg =
    (if silent then []
     else ''Pinned root'' @ [CHR 0x09] @ enc c @ [CHR 0x09] @ (if msg \<noteq> [] then ''FAILED: '' @ msg else ''success'') @ [CHR 0x0A])"

section \<open>Putting nodes\<close>

text \<open>What one file gives: it is not a regular file, or what the parser makes of it.\<close>

datatype 'n put_file = PutBad | PutNodes "(string, 'n list) result"

fun put_nodes :: "('s, 'b, 'n, 'c) dag_env \<Rightarrow> 'n list \<Rightarrow> 's \<Rightarrow> 's \<times> string option" where
  "put_nodes env [] s = (s, None)"
| "put_nodes env (nd # nds) s = (case batch_Add env s nd of (s1, Some e) \<Rightarrow> (s1, Some e) | (s1, None) \<Rightarrow> put_nodes env nds s1)"

fun put_files :: "('s, 'b, 'n, 'c) dag_env \<Rightarrow> 'n put_file list \<Rightarrow> nat \<Rightarrow> 's \<Rightarrow> 's \<times> 'n list \<times> string option" where
  "put_files env [] k s = (s, [], None)"
| "put_files env (PutBad # fs) k s = (s, [], Some ''expected a regular file'')"
| "put_files env (PutNodes (Inl e) # fs) k s = (s, [], Some e)"
| "put_files env (PutNodes (Inr nds) # fs) k s =
    (if nds = [] then (s, [], Some ''no node returned from ParseInputs'')
     else case put_nodes env nds s of
       (s1, Some e) \<Rightarrow> (s1, [], Some e)
     | (s1, None) \<Rightarrow> (case emit_error env k of
         Some e \<Rightarrow> (s1, [], Some e)
       | None \<Rightarrow> (case put_files env fs (Suc k) s1 of (s2, out, r) \<Rightarrow> (s2, hd nds # out, r))))"

text \<open>
  The command. The adder behind the batch of \<open>env\<close> pins if that was asked for. \<open>hash_ok\<close> says whether the name is that of a hash
  function.
\<close>

definition DagPut :: "('s, 'b, 'n, 'c) dag_env \<Rightarrow> (string \<Rightarrow> bool) \<Rightarrow> string \<Rightarrow> 'n put_file list \<Rightarrow> string option \<Rightarrow> 's \<Rightarrow> 's \<times> 'n list \<times> string option" where
  "DagPut env hash_ok hash fs iterr s =
    (if hash \<noteq> [] \<and> \<not> hash_ok hash then (s, [], Some (hash @ '' in not a valid multihash name''))
     else case put_files env fs 0 s of
       (s1, out, Some e) \<Rightarrow> (s1, out, Some e)
     | (s1, out, None) \<Rightarrow> (case iterr of
         Some e \<Rightarrow> (s1, out, Some e)
       | None \<Rightarrow> (case batch_Commit env s1 of (s2, r) \<Rightarrow> (s2, out, r))))"

section \<open>Statistics\<close>

record DagStat =
  ds_Size :: "64 word"
  ds_NumBlocks :: "64 word"

text \<open>\<open>visits\<close> are the sizes of the nodes in the order of the traversal, which ends with an error if \<open>terr\<close> says so.\<close>

fun stat_walk :: "(nat \<Rightarrow> string option) \<Rightarrow> bool \<Rightarrow> nat list \<Rightarrow> string option \<Rightarrow> nat \<Rightarrow> DagStat \<Rightarrow> DagStat \<times> DagStat list \<times> string option" where
  "stat_walk em progressive [] terr k st = (st, [], terr)"
| "stat_walk em progressive (n # ns) terr k st =
    (let st1 = \<lparr>ds_Size = ds_Size st + of_nat n, ds_NumBlocks = ds_NumBlocks st + 1\<rparr>
     in if \<not> progressive then stat_walk em progressive ns terr k st1
        else case em k of
          Some e \<Rightarrow> (st1, [], Some e)
        | None \<Rightarrow> (case stat_walk em progressive ns terr (Suc k) st1 of (st2, out, r) \<Rightarrow> (st2, st1 # out, r)))"

definition DagStatCmd :: "(nat \<Rightarrow> string option) \<Rightarrow> bool \<Rightarrow> (string, string) result \<Rightarrow> (string, nat list \<times> string option) result
    \<Rightarrow> DagStat list \<times> string option" where
  "DagStatCmd em progressive resolved root = (case resolved of
     Inl e \<Rightarrow> ([], Some e)
   | Inr remainder \<Rightarrow>
       (if remainder \<noteq> [] then ([], Some ''cannot return size for anything other than a DAG with a root CID'')
        else case root of
          Inl e \<Rightarrow> ([], Some e)
        | Inr (visits, terr) \<Rightarrow> (case stat_walk em progressive visits terr 0 \<lparr>ds_Size = 0, ds_NumBlocks = 0\<rparr> of
            (st, out, Some e) \<Rightarrow> (out, Some (''error traversing DAG: '' @ e))
          | (st, out, None) \<Rightarrow>
              (if progressive then (out, None)
               else case em 0 of Some e \<Rightarrow> ([], Some e) | None \<Rightarrow> ([st], None)))))"


section \<open>What an import reports\<close>

definition emits :: "('n, 'c) dag_event list \<Rightarrow> ('c \<times> string) list" where
  "emits evs = concat (map (\<lambda>e. case e of EvEmit c m \<Rightarrow> [(c, m)] | _ \<Rightarrow> []) evs)"

lemma emits_simps [simp]:
  "emits [] = []" "emits (EvLock # evs) = emits evs" "emits (EvUnlock # evs) = emits evs" "emits (EvAdd n # evs) = emits evs"
  "emits (EvCommit # evs) = emits evs" "emits (EvPin n # evs) = emits evs" "emits (EvFlush # evs) = emits evs"
  "emits (EvEmit c m # evs) = (c, m) # emits evs" "emits (evs @ evs') = emits evs @ emits evs'"
  by (simp_all add: emits_def)

lemma emits_adds [simp]: "emits (map EvAdd nds) = []"
  by (induction nds) simp_all

definition header_roots :: "('b, 'c) car_file \<Rightarrow> 'c set" where
  "header_roots f = (case f of Car v rs xs \<Rightarrow> set rs | _ \<Rightarrow> {})"

lemma foldl_add_root: "distinct roots \<Longrightarrow> distinct (foldl add_root roots rs) \<and> set (foldl add_root roots rs) = set roots \<union> set rs"
  by (induction rs arbitrary: roots) auto

lemma import_file_roots:
  assumes "import_file env f roots s = (s1, nds, Inr roots1)" and "distinct roots"
  shows "distinct roots1 \<and> set roots1 = set roots \<union> header_roots f"
  using assms foldl_add_root [OF assms(2)]
  by (auto simp: import_file_def header_roots_def split: car_file.splits if_splits prod.splits option.splits)

lemma import_files_roots:
  assumes "import_files env fs roots s = (s1, nds, Inr roots1)" and "distinct roots"
  shows "distinct roots1 \<and> set roots1 = set roots \<union> (\<Union>f \<in> set fs. header_roots f)"
  using assms
proof (induction fs arbitrary: roots s nds)
  case (Cons f fs)
  obtain s2 nds2 roots2 where f: "import_file env f roots s = (s2, nds2, Inr roots2)"
    using Cons.prems(1) by (auto split: prod.splits sum.splits)
  obtain nds3 where fs: "import_files env fs roots2 s2 = (s1, nds3, Inr roots1)"
    using Cons.prems(1) f by (auto split: prod.splits)
  note r2 = import_file_roots [OF f Cons.prems(2)]
  show ?case
    using Cons.IH [OF fs] r2 by auto
qed auto

lemma importWorker_ok:
  assumes "importWorker env fs iterr s = (s1, evs, Inr roots)"
  shows "iterr = None \<and> (\<exists>nds. evs = map EvAdd nds @ [EvCommit]) \<and> distinct roots \<and> set roots = (\<Union>f \<in> set fs. header_roots f)"
proof -
  obtain s2 nds roots2 where f: "import_files env fs [] s = (s2, nds, Inr roots2)"
    using assms by (auto simp: importWorker_def split: prod.splits sum.splits)
  show ?thesis
    using assms f import_files_roots [OF f] by (auto simp: importWorker_def split: option.splits prod.splits)
qed

text \<open>
  Reading an archive completely: its version is 1, every block was read without an error up to the end, and all of them decode, to
  the nodes given.
\<close>

definition read_completely :: "('s, 'b, 'n, 'c) dag_env \<Rightarrow> ('b, 'c) car_file \<Rightarrow> 'n list \<Rightarrow> bool" where
  "read_completely env f nds \<longleftrightarrow> (\<exists>rs bs. f = Car 1 rs (map CBlock bs) \<and> list_all2 (\<lambda>b nd. dec env b = Inr nd) bs nds)"

lemma add_blocks_complete:
  assumes "add_blocks env xs s = (s1, nds, None)"
  shows "\<exists>bs. xs = map CBlock bs \<and> list_all2 (\<lambda>b nd. dec env b = Inr nd) bs nds"
  using assms
proof (induction env xs s arbitrary: nds rule: add_blocks.induct)
  case (3 env b xs s)
  obtain nd s2 nds2 where d: "dec env b = Inr nd" "batch_Add env s nd = (s2, None)" "add_blocks env xs s2 = (s1, nds2, None)" "nds = nd # nds2"
    using "3.prems" by (auto split: sum.splits prod.splits option.splits)
  obtain bs where "xs = map CBlock bs" "list_all2 (\<lambda>b nd. dec env b = Inr nd) bs nds2"
    using "3.IH" [OF d(1) d(2) [symmetric] refl d(3)] by blast
  then show ?case
    using d(1,4) by (intro exI [of _ "b # bs"]) simp
qed auto

lemma import_file_complete: "import_file env f roots s = (s1, nds, Inr roots1) \<Longrightarrow> read_completely env f nds"
  by (auto simp: import_file_def read_completely_def dest: add_blocks_complete
      split: car_file.splits if_splits prod.splits option.splits)

lemma import_files_complete:
  assumes "import_files env fs roots s = (s1, nds, Inr roots1)"
  shows "\<exists>ndss. list_all2 (read_completely env) fs ndss \<and> nds = concat ndss"
  using assms
proof (induction fs arbitrary: roots s nds)
  case (Cons f fs)
  obtain s2 nds2 roots2 where f: "import_file env f roots s = (s2, nds2, Inr roots2)"
    using Cons.prems by (auto split: prod.splits sum.splits)
  obtain nds3 where fs: "import_files env fs roots2 s2 = (s1, nds3, Inr roots1)" "nds = nds2 @ nds3"
    using Cons.prems f by (auto split: prod.splits)
  obtain ndss where "list_all2 (read_completely env) fs ndss" "nds3 = concat ndss"
    using Cons.IH [OF fs(1)] by blast
  then show ?case
    using import_file_complete [OF f] fs(2) by (intro exI [of _ "nds2 # ndss"]) simp
qed auto

lemma importWorker_complete:
  assumes "importWorker env fs iterr s = (s1, evs, Inr roots)"
  shows "\<exists>ndss s0. import_files env fs [] s = (s0, concat ndss, Inr roots) \<and> list_all2 (read_completely env) fs ndss
    \<and> evs = map EvAdd (concat ndss) @ [EvCommit] \<and> batch_Commit env s0 = (s1, None) \<and> iterr = None"
proof -
  obtain s2 nds roots2 where f: "import_files env fs [] s = (s2, nds, Inr roots2)"
    using assms by (auto simp: importWorker_def split: prod.splits sum.splits)
  obtain ndss where n: "list_all2 (read_completely env) fs ndss" "nds = concat ndss"
    using import_files_complete [OF f] by blast
  have "evs = map EvAdd nds @ [EvCommit] \<and> batch_Commit env s2 = (s1, None) \<and> iterr = None \<and> roots2 = roots"
    using assms f by (auto simp: importWorker_def split: option.splits prod.splits)
  with f n show ?thesis
    by blast
qed

lemma importWorker_bad:
  assumes "importWorker env fs iterr s = (s1, evs, Inl e)"
  shows "\<exists>nds. evs = map EvAdd nds \<or> evs = map EvAdd nds @ [EvCommit]"
  using assms by (auto simp: importWorker_def split: option.splits prod.splits sum.splits)

definition pin_event :: "('n, 'c) dag_event \<Rightarrow> bool" where
  "pin_event ev = (case ev of EvPin _ \<Rightarrow> True | EvFlush \<Rightarrow> True | EvEmit _ _ \<Rightarrow> True | _ \<Rightarrow> False)"

lemma pin_event_simps [simp]:
  "pin_event (EvPin n)" "pin_event EvFlush" "pin_event (EvEmit c m)" "\<not> pin_event EvLock" "\<not> pin_event EvUnlock"
  "\<not> pin_event (EvAdd n)" "\<not> pin_event EvCommit"
  by (simp_all add: pin_event_def)

lemma pin_one_events: "pin_one env c s = (s1, evs, msg) \<Longrightarrow> list_all pin_event evs \<and> emits evs = []"
  by (auto simp: pin_one_def split: sum.splits prod.splits option.splits)

lemma pin_roots_events: "pin_roots env cs k failed s = (s1, evs, r) \<Longrightarrow> list_all pin_event evs"
proof (induction cs arbitrary: k failed s evs)
  case (Cons c cs)
  obtain s2 evs2 msg where p: "pin_one env c s = (s2, evs2, msg)"
    by (cases "pin_one env c s")
  show ?case
    using Cons.prems Cons.IH pin_one_events [OF p] by (fastforce simp: p split: option.splits prod.splits)
qed simp

lemma pin_roots_reports:
  assumes "\<And>k. emit_error env k = None" and "pin_roots env cs k failed s = (s1, evs, r)"
  shows "map fst (emits evs) = cs \<and> r = Inr (failed + length (filter (\<lambda>x. snd x \<noteq> []) (emits evs)))"
  using assms(2)
proof (induction cs arbitrary: k failed s evs)
  case (Cons c cs)
  obtain s2 evs2 msg where p: "pin_one env c s = (s2, evs2, msg)"
    by (cases "pin_one env c s")
  obtain evs3 where q: "pin_roots env cs (Suc k) (if msg \<noteq> [] then Suc failed else failed) s2 = (s1, evs3, r)"
      "evs = evs2 @ EvEmit c msg # evs3"
    using Cons.prems assms(1) by (auto simp: p split: prod.splits)
  show ?case
    using Cons.IH [OF q(1)] q(2) pin_one_events [OF p] by auto
qed simp

text \<open>C13: what an import reports. If the output does not fail, an import that pins its roots fails without a report when an archive cannot
  be read or stored; else it reports every root that a header names exactly once, and it succeeds exactly if all
  reports are successes.\<close>

theorem dag_import_reports:
  assumes "\<And>k. emit_error env k = None" and "\<And>rs. set (root_order env rs) = set rs" and "\<And>rs. distinct rs \<Longrightarrow> distinct (root_order env rs)"
    and "DagImport env True fs iterr s = (s', log, r)"
  shows "(\<exists>e. snd (snd (importWorker env fs iterr s)) = Inl e \<and> r = Some e \<and> emits log = [])
    \<or> (distinct (map fst (emits log)) \<and> fst ` set (emits log) = (\<Union>f \<in> set fs. header_roots f)
        \<and> (r = None \<longleftrightarrow> (\<forall>x \<in> set (emits log). snd x = [])))"
proof -
  obtain s1 evs w where w: "importWorker env fs iterr s = (s1, evs, w)"
    by (cases "importWorker env fs iterr s")
  show ?thesis
  proof (cases w)
    case (Inl e)
    obtain nds where "evs = map EvAdd nds \<or> evs = map EvAdd nds @ [EvCommit]"
      using importWorker_bad w Inl by metis
    then have "emits log = []" "r = Some e"
      using assms(4) w Inl by (auto simp: DagImport_def)
    then show ?thesis
      using w Inl by simp
  next
    case (Inr roots)
    then obtain nds where ok: "evs = map EvAdd nds @ [EvCommit]" "distinct roots" "set roots = (\<Union>f \<in> set fs. header_roots f)"
      using importWorker_ok w by metis
    obtain s2 evs2 pr where p: "pin_roots env (root_order env roots) 0 0 s1 = (s2, evs2, pr)"
      by (cases "pin_roots env (root_order env roots) 0 0 s1")
    note pr = pin_roots_reports [OF assms(1) p]
    have log: "emits log = emits evs2"
      using assms(4) w Inr p ok(1) by (auto simp: DagImport_def)
    have "r = None \<longleftrightarrow> filter (\<lambda>x. snd x \<noteq> []) (emits evs2) = []"
      using assms(4) w Inr p pr by (auto simp: DagImport_def split: if_splits)
    then have "r = None \<longleftrightarrow> (\<forall>x \<in> set (emits log). snd x = [])"
      by (simp add: log filter_empty_conv)
    moreover have "map fst (emits log) = root_order env roots"
      using pr log by simp
    ultimately show ?thesis
      using ok(2,3) assms(2,3) by (metis list.set_map)
  qed
qed

text \<open>C12: when an import pins. Whatever fails, the calls to the batch and to the pinner lie between taking and releasing the pin lock, and the pinner
  is called only if pinning was asked for and only after every archive was read to its end without an error, every block
  of every archive was decoded and handed to the batch, in order, the list of files ended without an
  error, and the batch was committed successfully.\<close>

theorem dag_import_ordered:
  assumes "DagImport env p fs iterr s = (s', log, r)"
  shows "\<exists>nds commit pins. log = EvLock # map EvAdd nds @ commit @ pins @ [EvUnlock] \<and> commit \<in> {[], [EvCommit]} \<and> list_all pin_event pins
    \<and> (pins \<noteq> [] \<longrightarrow> p \<and> iterr = None \<and> commit = [EvCommit]
         \<and> (\<exists>s0 s1 roots. import_files env fs [] s = (s0, nds, Inr roots) \<and> batch_Commit env s0 = (s1, None))
         \<and> (\<exists>ndss. list_all2 (read_completely env) fs ndss \<and> nds = concat ndss))"
proof -
  obtain s1 evs w where w: "importWorker env fs iterr s = (s1, evs, w)"
    by (cases "importWorker env fs iterr s")
  show ?thesis
  proof (cases w)
    case (Inl e)
    then obtain nds commit where n: "evs = map EvAdd nds @ commit" "commit \<in> {[], [EvCommit]}"
      using importWorker_bad [of env fs iterr s s1 evs e] w by (metis append_Nil2 insertI1 insertI2)
    have "log = EvLock # evs @ [EvUnlock]"
      using assms w Inl by (simp add: DagImport_def)
    with n show ?thesis
      by (intro exI [of _ nds] exI [of _ commit] exI [of _ "[]"]) simp
  next
    case (Inr roots)
    then obtain ndss s0 where n: "import_files env fs [] s = (s0, concat ndss, Inr roots)" "list_all2 (read_completely env) fs ndss" "evs = map EvAdd (concat ndss) @ [EvCommit]"
        "batch_Commit env s0 = (s1, None)" "iterr = None"
      using importWorker_complete [of env fs iterr s s1 evs roots] w by blast
    obtain s2 evs2 pr where pp: "pin_roots env (root_order env roots) 0 0 s1 = (s2, evs2, pr)"
      by (cases "pin_roots env (root_order env roots) 0 0 s1")
    have "log = EvLock # map EvAdd (concat ndss) @ [EvCommit] @ (if p then evs2 else []) @ [EvUnlock]"
      using assms w Inr pp n(3) by (cases p) (auto simp: DagImport_def)
    moreover have "list_all pin_event (if p then evs2 else [])"
      using pin_roots_events [OF pp] by simp
    moreover have "(if p then evs2 else []) \<noteq> [] \<longrightarrow> p"
      by simp
    ultimately show ?thesis
      using n by (intro exI [of _ "concat ndss"] exI [of _ "[EvCommit]"] exI [of _ "if p then evs2 else []"]) blast
  qed
qed

definition ex_dag_env :: "(nat list, nat, nat, nat) dag_env" where
  "ex_dag_env = \<lparr>dec = Inr, batch_Add = (\<lambda>s n. (n # s, None)), batch_Commit = (\<lambda>s. (s, None)),
     bs_Get = (\<lambda>s c. if c \<in> set s then Inr c else Inl ''not found''), pn_Pin = (\<lambda>s n. (s, None)), pn_Flush = (\<lambda>s. (s, None)),
     root_order = rev, emit_error = (\<lambda>_. None)\<rparr>"

theorem dag_import_reports_witness:
  "\<exists>s log r. DagImport ex_dag_env True [Car 1 [1, 2] [CBlock 1], Car 1 [2, 3] [CBlock 3]] None [] = (s, log, r)
    \<and> r = Some ''unable to pin all roots: 1 out of 3 failed'' \<and> distinct (map fst (emits log)) \<and> fst ` set (emits log) = {1, 2, 3}"
proof -
  let ?run = "DagImport ex_dag_env True [Car 1 [1, 2] [CBlock 1], Car 1 [2, 3] [CBlock 3]] None []"
  obtain s log r where run: "?run = (s, log, r)"
    by (cases ?run)
  have w: "snd (snd (importWorker ex_dag_env [Car 1 [1, 2] [CBlock 1], Car 1 [2, 3] [CBlock 3]] None [])) = Inr [1, 2, 3]"
    by code_simp
  have "snd (snd ?run) = Some ''unable to pin all roots: 1 out of 3 failed''"
    by code_simp
  then have r: "r = Some ''unable to pin all roots: 1 out of 3 failed''"
    unfolding run by simp
  have u: "(\<Union>f \<in> set [Car 1 [1, 2] [CBlock 1], Car 1 [2, 3] [CBlock (3::nat)]]. header_roots f) = {1, 2, 3::nat}"
    by (auto simp: header_roots_def)
  have "distinct (map fst (emits log)) \<and> fst ` set (emits log) = {1, 2, 3}"
    using dag_import_reports [of ex_dag_env, OF _ _ _ run] w u by (simp add: ex_dag_env_def)
  with run r show ?thesis
    by blast
qed

theorem dag_import_ordered_witness:
  "\<exists>s' log r. DagImport ex_dag_env True [Car 1 [1] [CBlock 1, CBlock 2]] None [] = (s', log, r) \<and> EvPin 1 \<in> set log
    \<and> (\<exists>nds pins. log = EvLock # map EvAdd nds @ EvCommit # pins @ [EvUnlock] \<and> list_all pin_event pins
         \<and> (\<exists>ndss. list_all2 (read_completely ex_dag_env) [Car 1 [1] [CBlock 1, CBlock 2]] ndss \<and> nds = concat ndss))"
proof -
  let ?log = "[EvLock, EvAdd 1, EvAdd 2, EvCommit, EvPin 1, EvFlush, EvEmit 1 [], EvUnlock] :: (nat, nat) dag_event list"
  have run: "DagImport ex_dag_env True [Car 1 [1] [CBlock 1, CBlock 2]] None [] = ([2, 1], ?log, None)"
    by code_simp
  obtain nds commit pins where l: "?log = EvLock # map EvAdd nds @ commit @ pins @ [EvUnlock]" "commit \<in> {[], [EvCommit]}" "list_all pin_event pins"
      "pins \<noteq> [] \<longrightarrow> commit = [EvCommit] \<and> (\<exists>ndss. list_all2 (read_completely ex_dag_env) [Car 1 [1] [CBlock 1, CBlock 2]] ndss \<and> nds = concat ndss)"
    using dag_import_ordered [OF run] by blast
  have "EvPin 1 \<in> set ?log"
    by simp
  then have "EvPin 1 \<in> set (EvLock # map EvAdd nds @ commit @ pins @ [EvUnlock])"
    unfolding l(1) [symmetric] .
  then have "pins \<noteq> []"
    using l(2) by auto
  then show ?thesis
    using run l by (intro exI [of _ "[2, 1]"] exI [of _ ?log] exI [of _ None]) auto
qed

section \<open>What statistics add up to\<close>

text \<open>Without an error the last statistics sent are the totals, modulo the width of the counters.\<close>

lemma stat_walk_total:
  assumes "stat_walk em progressive ns terr k st = (st', out, None)"
  shows "ds_Size st' = ds_Size st + of_nat (sum_list ns)" "ds_NumBlocks st' = ds_NumBlocks st + of_nat (length ns)"
    "progressive \<Longrightarrow> ns \<noteq> [] \<Longrightarrow> out \<noteq> [] \<and> last out = st'"
proof -
  have "ds_Size st' = ds_Size st + of_nat (sum_list ns) \<and> ds_NumBlocks st' = ds_NumBlocks st + of_nat (length ns)
      \<and> (progressive \<longrightarrow> (if ns = [] then out = [] \<and> st' = st else out \<noteq> [] \<and> last out = st'))"
    using assms
  proof (induction ns arbitrary: k st out)
    case (Cons n ns)
    let ?st = "\<lparr>ds_Size = ds_Size st + of_nat n, ds_NumBlocks = ds_NumBlocks st + 1\<rparr>"
    show ?case
    proof (cases progressive)
      case False
      then show ?thesis
        using Cons.IH [of k ?st out] Cons.prems by (simp add: algebra_simps Let_def)
    next
      case True
      obtain out1 where o: "stat_walk em progressive ns terr (Suc k) ?st = (st', out1, None)" "out = ?st # out1"
        using Cons.prems True by (auto simp: Let_def split: option.splits prod.splits)
      show ?thesis
        using Cons.IH [OF o(1)] o(2) True by (auto simp: algebra_simps split: if_splits)
    qed
  qed auto
  then show "ds_Size st' = ds_Size st + of_nat (sum_list ns)" "ds_NumBlocks st' = ds_NumBlocks st + of_nat (length ns)"
    "progressive \<Longrightarrow> ns \<noteq> [] \<Longrightarrow> out \<noteq> [] \<and> last out = st'"
    by (auto split: if_splits)
qed

end
