(* ===== verification/SwarmCmd.thy ===== *)
theory SwarmCmd
  imports BootstrapCmd
begin

text \<open>
  The swarm commands with logic of their own, \<open>src/core/commands/swarm.go\<close>: the address filters, which live in the running node, in
  the configuration the repository keeps and on disk; connecting and disconnecting; and the parallel
  resolution of addresses. Multiaddresses, masks and the resolver are parameters.
\<close>

section \<open>Address filters\<close>

text \<open>\<open>sw_deny\<close> are the filters of the node with the action to deny.\<close>

record 'm swarm =
  sw_deny :: "'m list"
  sw_mem :: "string list"
  sw_disk :: "string list"

text \<open>Saving: \<open>err\<close> is the error of \<open>SetIPFSConfig\<close>.\<close>

definition save_filters :: "string option \<Rightarrow> 'm swarm \<Rightarrow> 'm swarm \<times> string option" where
  "save_filters err c = (case err of Some e \<Rightarrow> (c, Some e) | None \<Rightarrow> (c\<lparr>sw_disk := sw_mem c\<rparr>, None))"

definition filtersAdd :: "string option \<Rightarrow> string list \<Rightarrow> 'm swarm \<Rightarrow> 'm swarm \<times> (string, string list) result" where
  "filtersAdd err filters c =
    (let (addedMap, addedList) = add_new filters {} [];
         (_, all) = add_new (sw_mem c) addedMap addedList
     in case save_filters err (c\<lparr>sw_mem := all\<rparr>) of
          (c1, Some e) \<Rightarrow> (c1, Inl e)
        | (c1, None) \<Rightarrow> (c1, Inr addedList))"

definition filtersRemoveAll :: "string option \<Rightarrow> 'm swarm \<Rightarrow> 'm swarm \<times> (string, string list) result" where
  "filtersRemoveAll err c = (case save_filters err (c\<lparr>sw_mem := []\<rparr>) of
     (c1, Some e) \<Rightarrow> (c1, Inl e)
   | (c1, None) \<Rightarrow> (c1, Inr (sw_mem c)))"

text \<open>The loop over the old filters: what is removed and what is kept.\<close>

fun remove_loop_filters :: "string list \<Rightarrow> string list \<Rightarrow> string list \<times> string list" where
  "remove_loop_filters rm [] = ([], [])"
| "remove_loop_filters rm (f # fs) = (case remove_loop_filters rm fs of
     (removed, keep) \<Rightarrow> if list_ex (\<lambda>r. f = r) rm then (f # removed, keep) else (removed, f # keep))"

definition filtersRemove :: "string option \<Rightarrow> string list \<Rightarrow> 'm swarm \<Rightarrow> 'm swarm \<times> (string, string list) result" where
  "filtersRemove err rm c =
    (let (removed, keep) = remove_loop_filters rm (sw_mem c)
     in case save_filters err (c\<lparr>sw_mem := keep\<rparr>) of
          (c1, Some e) \<Rightarrow> (c1, Inl e)
        | (c1, None) \<Rightarrow> (c1, Inr removed))"

text \<open>Masks are parsed one by one, and each is put into or taken from the node at once.\<close>

fun apply_masks :: "(string \<Rightarrow> (string, 'm) result) \<Rightarrow> ('m \<Rightarrow> 'm list \<Rightarrow> 'm list) \<Rightarrow> string list \<Rightarrow> 'm list \<Rightarrow> 'm list \<times> string option" where
  "apply_masks newMask upd [] ms = (ms, None)"
| "apply_masks newMask upd (a # as) ms = (case newMask a of
     Inl e \<Rightarrow> (ms, Some e)
   | Inr m \<Rightarrow> apply_masks newMask upd as (upd m ms))"

text \<open>\<open>repo_error\<close> and \<open>cfg_error\<close> are the errors of opening the repository and of reading its configuration.\<close>

record 'm swarm_env =
  online :: bool
  repo_error :: "string option"
  cfg_error :: "string option"
  newMask :: "string \<Rightarrow> (string, 'm) result"
  AddFilter :: "'m \<Rightarrow> 'm list \<Rightarrow> 'm list"
  RemoveLiteral :: "'m \<Rightarrow> 'm list \<Rightarrow> 'm list"

abbreviation opened :: "'m swarm_env \<Rightarrow> string option" where
  "opened env \<equiv> (case repo_error env of Some e \<Rightarrow> Some e | None \<Rightarrow> cfg_error env)"

abbreviation not_online :: string where
  "not_online \<equiv> ''this command must be run in online mode. Try running 'ipfs daemon' first''"

definition swarmFiltersAdd :: "'m swarm_env \<Rightarrow> string option \<Rightarrow> string list \<Rightarrow> 'm swarm \<Rightarrow> 'm swarm \<times> (string, string list) result" where
  "swarmFiltersAdd env err args c =
    (if \<not> online env then (c, Inl not_online)
     else if args = [] then (c, Inl ''no filters to add'')
     else case opened env of
       Some e \<Rightarrow> (c, Inl e)
     | None \<Rightarrow> (case apply_masks (newMask env) (AddFilter env) args (sw_deny c) of
         (ms, Some e) \<Rightarrow> (c\<lparr>sw_deny := ms\<rparr>, Inl e)
       | (ms, None) \<Rightarrow> filtersAdd err args (c\<lparr>sw_deny := ms\<rparr>)))"

text \<open>The arguments are not empty: the command has one that is required.\<close>

definition swarmFiltersRm :: "'m swarm_env \<Rightarrow> string option \<Rightarrow> string list \<Rightarrow> 'm swarm \<Rightarrow> 'm swarm \<times> (string, string list) result" where
  "swarmFiltersRm env err args c =
    (if \<not> online env then (c, Inl not_online)
     else case opened env of
       Some e \<Rightarrow> (c, Inl e)
     | None \<Rightarrow>
         (if hd args = ''all'' \<or> hd args = ''*'' then filtersRemoveAll err (c\<lparr>sw_deny := fold (RemoveLiteral env) (sw_deny c) (sw_deny c)\<rparr>)
          else case apply_masks (newMask env) (RemoveLiteral env) args (sw_deny c) of
            (ms, Some e) \<Rightarrow> (c\<lparr>sw_deny := ms\<rparr>, Inl e)
          | (ms, None) \<Rightarrow> filtersRemove err args (c\<lparr>sw_deny := ms\<rparr>)))"

section \<open>Connecting\<close>

text \<open>The first failure ends the command; without one there is a line for each peer.\<close>

fun connect_all :: "('p \<Rightarrow> string) \<Rightarrow> ('p \<Rightarrow> string option) \<Rightarrow> 'p list \<Rightarrow> 'p list \<times> (string, string list) result" where
  "connect_all pretty conn [] = ([], Inr [])"
| "connect_all pretty conn (p # ps) = (case conn p of
     Some e \<Rightarrow> ([p], Inl (''connect '' @ pretty p @ '' failure: '' @ e))
   | None \<Rightarrow> (case connect_all pretty conn ps of
       (tried, Inl e) \<Rightarrow> (p # tried, Inl e)
     | (tried, Inr out) \<Rightarrow> (p # tried, Inr ((''connect '' @ pretty p @ '' success'') # out))))"

text \<open>A failure to disconnect is a line of the output.\<close>

fun disconnect_all :: "('p \<Rightarrow> string) \<Rightarrow> ('p \<Rightarrow> (string, 'a list) result) \<Rightarrow> ('a \<Rightarrow> string option) \<Rightarrow> 'p list
    \<Rightarrow> 'a list \<times> (string, string list) result" where
  "disconnect_all pretty p2p disc [] = ([], Inr [])"
| "disconnect_all pretty p2p disc (p # ps) = (case p2p p of
     Inl e \<Rightarrow> ([], Inl e)
   | Inr as \<Rightarrow> (case disconnect_all pretty p2p disc ps of
       (tried, Inl e) \<Rightarrow> (as @ tried, Inl e)
     | (tried, Inr out) \<Rightarrow> (as @ tried, Inr (map (\<lambda>a. ''disconnect '' @ pretty p
         @ (case disc a of Some e \<Rightarrow> '' failure: '' @ e | None \<Rightarrow> '' success'')) as @ out))))"

section \<open>Resolving addresses\<close>

text \<open>
  One goroutine per address that does not end in a peer identity; each sends the addresses it finds over an unbuffered channel, which
  the caller receives from once it has parsed all arguments. Errors go to a channel with room for one per argument: the capacity is
  \<open>errCap\<close>, and a goroutine that has an error waits in \<open>Failing\<close> until there is room.
\<close>

datatype 'a job = Resolving 'a | Failing string | Sending "'a list" | Finished

datatype 'a ra_main = Parsing "string list" | Receiving | Returned "(string, 'a list) result"

record 'a ra =
  main :: "'a ra_main"
  maddrs :: "'a list"
  jobs :: "'a job list"
  errCap :: nat
  errC :: "string list"

record 'a ra_env =
  NewMultiaddr :: "string \<Rightarrow> (string, 'a) result"
  ends_ipfs :: "'a \<Rightarrow> bool"
  dns_Resolve :: "'a \<Rightarrow> (string, 'a list) result"
  addr_text :: "'a \<Rightarrow> string"

definition found_addrs :: "'a ra_env \<Rightarrow> 'a \<Rightarrow> (string, 'a list) result" where
  "found_addrs env m = (case dns_Resolve env m of
     Inl e \<Rightarrow> Inl e
   | Inr rs \<Rightarrow> (case filter (ends_ipfs env) rs of
       [] \<Rightarrow> Inl (''found no ipfs peers at '' @ addr_text env m)
     | fs \<Rightarrow> Inr fs))"

inductive ra_step :: "'a ra_env \<Rightarrow> 'a ra \<Rightarrow> 'a ra \<Rightarrow> bool" for env :: "'a ra_env" where
  ra_bad: "main s = Parsing (a # as) \<Longrightarrow> NewMultiaddr env a = Inl e \<Longrightarrow> ra_step env s (s\<lparr>main := Returned (Inl e)\<rparr>)"
| ra_direct: "main s = Parsing (a # as) \<Longrightarrow> NewMultiaddr env a = Inr m \<Longrightarrow> ends_ipfs env m
    \<Longrightarrow> ra_step env s (s\<lparr>main := Parsing as, maddrs := maddrs s @ [m]\<rparr>)"
| ra_spawn: "main s = Parsing (a # as) \<Longrightarrow> NewMultiaddr env a = Inr m \<Longrightarrow> \<not> ends_ipfs env m
    \<Longrightarrow> ra_step env s (s\<lparr>main := Parsing as, jobs := jobs s @ [Resolving m]\<rparr>)"
| ra_parsed: "main s = Parsing [] \<Longrightarrow> ra_step env s (s\<lparr>main := Receiving\<rparr>)"
| ra_failed: "i < length (jobs s) \<Longrightarrow> jobs s ! i = Resolving m \<Longrightarrow> found_addrs env m = Inl e
    \<Longrightarrow> ra_step env s (s\<lparr>jobs := (jobs s)[i := Failing e]\<rparr>)"
| ra_error: "i < length (jobs s) \<Longrightarrow> jobs s ! i = Failing e \<Longrightarrow> length (errC s) < errCap s
    \<Longrightarrow> ra_step env s (s\<lparr>jobs := (jobs s)[i := Finished], errC := errC s @ [e]\<rparr>)"
| ra_found: "i < length (jobs s) \<Longrightarrow> jobs s ! i = Resolving m \<Longrightarrow> found_addrs env m = Inr rs
    \<Longrightarrow> ra_step env s (s\<lparr>jobs := (jobs s)[i := Sending rs]\<rparr>)"
| ra_send: "main s = Receiving \<Longrightarrow> i < length (jobs s) \<Longrightarrow> jobs s ! i = Sending (r # rs)
    \<Longrightarrow> ra_step env s (s\<lparr>maddrs := maddrs s @ [r], jobs := (jobs s)[i := if rs = [] then Finished else Sending rs]\<rparr>)"
| ra_return: "main s = Receiving \<Longrightarrow> list_all (\<lambda>j. j = Finished) (jobs s)
    \<Longrightarrow> ra_step env s (s\<lparr>main := Returned (case errC s of e # _ \<Rightarrow> Inl e | [] \<Rightarrow> Inr (maddrs s))\<rparr>)"

definition resolveAddresses_start :: "string list \<Rightarrow> 'a ra" where
  "resolveAddresses_start addrs = \<lparr>main = Parsing addrs, maddrs = [], jobs = [], errCap = length addrs, errC = []\<rparr>"


section \<open>Filters are kept without duplicates\<close>

text \<open>Adding and removing filters. A successful addition puts the new filters in front of the others, without duplicates, in memory
  and on disk, and reports exactly the new ones, each once; removing what was just added gives the filters
  that were there before, except for those named, and reports them.\<close>

theorem swarm_filters_exact:
  assumes "filtersAdd None fs c = (c1, r)"
  shows "r = Inr (firsts fs) \<and> sw_mem c1 = firsts fs @ filter (\<lambda>f. f \<notin> set fs) (firsts (sw_mem c)) \<and> sw_disk c1 = sw_mem c1
    \<and> filtersRemove None fs c1 = (c1\<lparr>sw_mem := filter (\<lambda>f. f \<notin> set fs) (firsts (sw_mem c)),
         sw_disk := filter (\<lambda>f. f \<notin> set fs) (firsts (sw_mem c))\<rparr>, Inr (firsts fs))"
proof -
  have loop: "remove_loop_filters rm gs = (filter (\<lambda>f. f \<in> set rm) gs, filter (\<lambda>f. f \<notin> set rm) gs)" for rm gs
    by (induction gs) (auto simp: list_ex_iff)
  have c1: "c1 = c\<lparr>sw_mem := firsts (fs @ sw_mem c), sw_disk := firsts (fs @ sw_mem c)\<rparr>" and r: "r = Inr (firsts fs)"
    using assms by (auto simp: filtersAdd_def save_filters_def add_new_both)
  have "filter (\<lambda>f. f \<in> set fs) (firsts fs) = firsts fs" "filter (\<lambda>f. f \<notin> set fs) (firsts fs) = []"
    using firsts_simps(1) [of fs] by (auto simp: filter_id_conv filter_empty_conv)
  then show ?thesis
    by (simp add: c1 r firsts_append filtersRemove_def save_filters_def loop)
qed

theorem swarm_filters_exact_witness:
  "\<exists>c1. filtersAdd None [''b'', ''b''] \<lparr>sw_deny = [] :: nat list, sw_mem = [''a'', ''b''], sw_disk = []\<rparr> = (c1, Inr [''b''])
    \<and> sw_disk c1 = [''b'', ''a'']"
proof -
  let ?c = "\<lparr>sw_deny = [] :: nat list, sw_mem = [''a'', ''b''], sw_disk = []\<rparr>"
  obtain c1 r where a: "filtersAdd None [''b'', ''b''] ?c = (c1, r)"
    by (cases "filtersAdd None [''b'', ''b''] ?c")
  from swarm_filters_exact [OF a] a show ?thesis
    by (simp add: firsts_def)
qed

text \<open>An argument that is not a mask ends the command with an error, but the masks before it already apply to the node.\<close>

lemma filters_partly_added:
  assumes "online env" and "opened env = None" and "newMask env a = Inr m" and "newMask env b = Inl e"
  shows "swarmFiltersAdd env err [a, b] c = (c\<lparr>sw_deny := AddFilter env m (sw_deny c)\<rparr>, Inl e)"
  using assms by (simp add: swarmFiltersAdd_def)

section \<open>Resolution ends with what was asked for\<close>

lemma sum_map_update:
  fixes f :: "'j \<Rightarrow> 'b :: comm_monoid_add"
  assumes "i < length js"
  shows "sum_list (map f (js[i := x])) + f (js ! i) = sum_list (map f js) + f x"
  using assms
proof (induction js arbitrary: i)
  case (Cons j js)
  then show ?case
    by (cases i) (auto simp: ac_simps)
qed simp

lemma sum_map_shift:
  fixes f :: "'j \<Rightarrow> 'b multiset"
  assumes "i < length js" and "n + f x = f (js ! i)"
  shows "n + sum_list (map f (js[i := x])) = sum_list (map f js)"
proof -
  have "(n + sum_list (map f (js[i := x]))) + f x = sum_list (map f (js[i := x])) + (n + f x)"
    by (simp add: ac_simps)
  also have "\<dots> = sum_list (map f js) + f x"
    using sum_map_update [OF assms(1), of f x] by (simp add: assms(2))
  finally show ?thesis
    by simp
qed

text \<open>What an argument contributes to the result, and the errors it may cause.\<close>

definition wanted :: "'a ra_env \<Rightarrow> string \<Rightarrow> 'a list" where
  "wanted env a = (case NewMultiaddr env a of
     Inl _ \<Rightarrow> []
   | Inr m \<Rightarrow> if ends_ipfs env m then [m] else (case found_addrs env m of Inl _ \<Rightarrow> [] | Inr rs \<Rightarrow> rs))"

definition arg_error :: "'a ra_env \<Rightarrow> string \<Rightarrow> string option" where
  "arg_error env a = (case NewMultiaddr env a of
     Inl e \<Rightarrow> Some e
   | Inr m \<Rightarrow> if ends_ipfs env m then None else (case found_addrs env m of Inl e \<Rightarrow> Some e | Inr _ \<Rightarrow> None))"

abbreviation mset_of_error :: "string option \<Rightarrow> string multiset" where
  "mset_of_error x \<equiv> (case x of Some e \<Rightarrow> {#e#} | None \<Rightarrow> {#})"

definition unsent :: "'a ra_env \<Rightarrow> 'a job \<Rightarrow> 'a list" where
  "unsent env j = (case j of Resolving m \<Rightarrow> (case found_addrs env m of Inl _ \<Rightarrow> [] | Inr rs \<Rightarrow> rs) | Sending rs \<Rightarrow> rs | _ \<Rightarrow> [])"

text \<open>The error a goroutine is going to send or has to send.\<close>

definition job_error :: "'a ra_env \<Rightarrow> 'a job \<Rightarrow> string option" where
  "job_error env j = (case j of
     Resolving m \<Rightarrow> (case found_addrs env m of Inl e \<Rightarrow> Some e | Inr _ \<Rightarrow> None)
   | Failing e \<Rightarrow> Some e
   | _ \<Rightarrow> None)"

definition may_fail :: "'a job \<Rightarrow> nat" where
  "may_fail j = (case j of Resolving _ \<Rightarrow> 1 | Failing _ \<Rightarrow> 1 | _ \<Rightarrow> 0)"

text \<open>
  The invariant for the arguments \<open>ds\<close> parsed so far, with \<open>n\<close> still to come: nothing is lost, every error is that of an argument,
  no error is lost, and there is room for the errors that may still arrive.
\<close>

definition ra_done :: "'a ra_env \<Rightarrow> string list \<Rightarrow> nat \<Rightarrow> 'a ra \<Rightarrow> bool" where
  "ra_done env ds n s \<longleftrightarrow> mset (maddrs s) + sum_list (map (\<lambda>j. mset (unsent env j)) (jobs s)) = mset (concat (map (wanted env) ds))
     \<and> mset (errC s) + sum_list (map (\<lambda>j. mset_of_error (job_error env j)) (jobs s)) = sum_list (map (\<lambda>a. mset_of_error (arg_error env a)) ds)
     \<and> length (errC s) + sum_list (map may_fail (jobs s)) + n \<le> errCap s
     \<and> Sending [] \<notin> set (jobs s)"

definition ra_result :: "'a ra_env \<Rightarrow> string list \<Rightarrow> (string, 'a list) result \<Rightarrow> bool" where
  "ra_result env addrs r = (case r of
     Inl e \<Rightarrow> \<exists>a \<in> set addrs. arg_error env a = Some e
   | Inr ms \<Rightarrow> mset ms = mset (concat (map (wanted env) addrs)) \<and> (\<forall>a \<in> set addrs. arg_error env a = None))"

definition ra_inv :: "'a ra_env \<Rightarrow> string list \<Rightarrow> 'a ra \<Rightarrow> bool" where
  "ra_inv env addrs s = (case main s of
     Parsing as \<Rightarrow> \<exists>ds. addrs = ds @ as \<and> ra_done env ds (length as) s
   | Receiving \<Rightarrow> ra_done env addrs 0 s
   | Returned r \<Rightarrow> ra_result env addrs r)"

lemma found_nonempty: "found_addrs env m \<noteq> Inr []"
  by (auto simp: found_addrs_def split: sum.splits list.splits)

text \<open>The steps of the goroutines: the sums do not change, and no goroutine has an empty list to send.\<close>

lemma ra_done_job:
  assumes "ra_done env ds n s" and "i < length (jobs s)" and "x \<noteq> Sending []"
    and "mset new + mset (unsent env x) = mset (unsent env (jobs s ! i))"
    and "mset errs + mset_of_error (job_error env x) = mset_of_error (job_error env (jobs s ! i))"
    and "length errs + may_fail x \<le> may_fail (jobs s ! i)"
  shows "ra_done env ds n (s\<lparr>maddrs := maddrs s @ new, jobs := (jobs s)[i := x], errC := errC s @ errs\<rparr>)"
proof -
  let ?sum = "\<lambda>f js. sum_list (map f js)"
  have "Sending [] \<notin> set ((jobs s)[i := x])"
    using assms(1,3) set_update_subset_insert [of "jobs s" i x] by (auto simp: ra_done_def)
  moreover have "mset new + ?sum (\<lambda>j. mset (unsent env j)) ((jobs s)[i := x]) = ?sum (\<lambda>j. mset (unsent env j)) (jobs s)"
    using assms(2,4) by (rule sum_map_shift)
  moreover have "mset errs + ?sum (\<lambda>j. mset_of_error (job_error env j)) ((jobs s)[i := x]) = ?sum (\<lambda>j. mset_of_error (job_error env j)) (jobs s)"
    using assms(2,5) by (rule sum_map_shift)
  moreover have "length errs + ?sum may_fail ((jobs s)[i := x]) \<le> ?sum may_fail (jobs s)"
    using sum_map_update [OF assms(2), of may_fail x] assms(6) by linarith
  ultimately show ?thesis
    using assms(1) by (simp add: ra_done_def add.assoc)
qed

text \<open>The steps of the caller.\<close>

lemma ra_done_snoc:
  assumes "ra_done env ds (Suc n) s" and "NewMultiaddr env a = Inr m"
  shows "ends_ipfs env m \<Longrightarrow> ra_done env (ds @ [a]) n (s\<lparr>main := x, maddrs := maddrs s @ [m]\<rparr>)"
    "\<not> ends_ipfs env m \<Longrightarrow> ra_done env (ds @ [a]) n (s\<lparr>main := x, jobs := jobs s @ [Resolving m]\<rparr>)"
  using assms unfolding ra_done_def wanted_def arg_error_def unsent_def job_error_def may_fail_def by (auto simp: add.assoc [symmetric])

lemma ra_done_main [simp]: "ra_done env ds n (s\<lparr>main := x\<rparr>) = ra_done env ds n s"
  by (simp add: ra_done_def)

lemma arg_errors_in: "e \<in># sum_list (map (\<lambda>a. mset_of_error (arg_error env a)) as) \<longleftrightarrow> (\<exists>a \<in> set as. arg_error env a = Some e)"
  by (induction as) (auto split: option.splits)

lemma ra_done_returns:
  assumes "ra_done env addrs 0 s" and "list_all (\<lambda>j. j = Finished) (jobs s)"
  shows "ra_result env addrs (case errC s of e # _ \<Rightarrow> Inl e | [] \<Rightarrow> Inr (maddrs s))"
proof -
  have "sum_list (map (\<lambda>j. mset (unsent env j)) js) = {#} \<and> sum_list (map (\<lambda>j. mset_of_error (job_error env j)) js) = {#}"
    if "list_all (\<lambda>j. j = Finished) js" for js
    using that by (induction js) (auto simp: unsent_def job_error_def)
  then have "mset (maddrs s) = mset (concat (map (wanted env) addrs))"
      "mset (errC s) = sum_list (map (\<lambda>a. mset_of_error (arg_error env a)) addrs)"
    using assms by (simp_all add: ra_done_def)
  moreover from this(2) have "e \<in> set (errC s) \<longleftrightarrow> (\<exists>a \<in> set addrs. arg_error env a = Some e)" for e
    by (metis arg_errors_in set_mset_mset)
  ultimately show ?thesis
    unfolding ra_result_def by (cases "errC s") (auto, metis not_None_eq)
qed

lemma ra_inv_step: "ra_step env s s' \<Longrightarrow> ra_inv env addrs s \<Longrightarrow> ra_inv env addrs s'"
proof (induction rule: ra_step.induct)
  case (ra_bad s a as e)
  then show ?case
    by (auto simp: ra_inv_def ra_result_def arg_error_def)
next
  case (ra_direct s a as m)
  then show ?case
    using ra_done_snoc(1) by (fastforce simp: ra_inv_def)
next
  case (ra_spawn s a as m)
  then show ?case
    using ra_done_snoc(2) by (fastforce simp: ra_inv_def)
next
  case (ra_failed i s m e)
  then show ?case
    using ra_done_job [of env _ _ s i "Failing e" "[]" "[]"]
    by (auto simp: ra_inv_def unsent_def job_error_def may_fail_def split: ra_main.splits)
next
  case (ra_error i s e)
  then show ?case
    using ra_done_job [of env _ _ s i Finished "[]" "[e]"]
    by (auto simp: ra_inv_def unsent_def job_error_def may_fail_def split: ra_main.splits)
next
  case (ra_found i s m rs)
  then have "rs \<noteq> []"
    using found_nonempty by metis
  with ra_found show ?case
    using ra_done_job [of env _ _ s i "Sending rs" "[]" "[]"]
    by (auto simp: ra_inv_def unsent_def job_error_def may_fail_def split: ra_main.splits)
next
  case (ra_send s i r rs)
  then show ?case
    using ra_done_job [of env addrs 0 s i "if rs = [] then Finished else Sending rs" "[r]" "[]"]
    by (auto simp: ra_inv_def unsent_def job_error_def may_fail_def)
next
  case (ra_return s)
  then show ?case
    using ra_done_returns [of env addrs s] by (simp add: ra_inv_def)
qed (simp add: ra_inv_def)

lemma ra_inv_reach:
  assumes "(ra_step env)\<^sup>*\<^sup>* (resolveAddresses_start addrs) s"
  shows "ra_inv env addrs s"
  using assms
proof (induction rule: rtranclp_induct)
  case base
  show ?case
    by (auto simp: ra_inv_def resolveAddresses_start_def ra_done_def)
qed (use ra_inv_step in blast)

text \<open>A goroutine never waits for room in the error channel.\<close>

lemma ra_room:
  assumes "ra_inv env addrs s" and "\<And>r. main s \<noteq> Returned r" and "i < length (jobs s)" and "jobs s ! i = Failing e"
  shows "length (errC s) < errCap s"
proof -
  have "may_fail (jobs s ! i) \<le> sum_list (map may_fail (jobs s))"
    using nth_mem [OF assms(3)] by (intro member_le_sum_list) simp_all
  then have "1 \<le> sum_list (map may_fail (jobs s))"
    using assms(4) by (simp add: may_fail_def)
  then show ?thesis
    using assms(1,2) by (auto simp: ra_inv_def ra_done_def split: ra_main.splits)
qed

lemma ra_progress:
  assumes "ra_inv env addrs s" and "\<And>r. main s \<noteq> Returned r"
  shows "\<exists>s'. ra_step env s s'"
proof (cases "main s")
  case (Parsing as)
  show ?thesis
  proof (cases as)
    case Nil
    then show ?thesis
      using Parsing ra_parsed by blast
  next
    case (Cons a as')
    then show ?thesis
      using Parsing ra_bad [of s a as' env] ra_direct [of s a as' env] ra_spawn [of s a as' env]
      by (cases "NewMultiaddr env a") blast+
  qed
next
  case Receiving
  show ?thesis
  proof (cases "list_all (\<lambda>j. j = Finished) (jobs s)")
    case True
    then show ?thesis
      using ra_return Receiving by blast
  next
    case False
    then obtain i where i: "i < length (jobs s)" "jobs s ! i \<noteq> Finished"
      by (auto simp: list_all_length)
    have "Sending [] \<notin> set (jobs s)"
      using assms(1) Receiving by (simp add: ra_inv_def ra_done_def)
    then have "jobs s ! i \<noteq> Sending []"
      using nth_mem [OF i(1)] by auto
    show ?thesis
    proof (cases "jobs s ! i")
      case (Resolving m)
      then show ?thesis
        using ra_failed [OF i(1) Resolving] ra_found [OF i(1) Resolving] by (cases "found_addrs env m") blast+
    next
      case (Failing e)
      then show ?thesis
        using ra_error [OF i(1) Failing ra_room [OF assms i(1) Failing]] by blast
    next
      case (Sending rs)
      then obtain r rs' where "jobs s ! i = Sending (r # rs')"
        using \<open>jobs s ! i \<noteq> Sending []\<close> by (cases rs) auto
      then show ?thesis
        using ra_send [OF Receiving i(1)] by blast
    qed (use i(2) in simp)
  qed
qed (use assms(2) in blast)

text \<open>How many steps are left at most.\<close>

definition job_left :: "'a ra_env \<Rightarrow> 'a job \<Rightarrow> nat" where
  "job_left env j = (case j of Resolving m \<Rightarrow> 2 + length (unsent env j) | Failing _ \<Rightarrow> 1 | Sending rs \<Rightarrow> 1 + length rs | Finished \<Rightarrow> 0)"

definition ra_left :: "'a ra_env \<Rightarrow> 'a ra \<Rightarrow> nat" where
  "ra_left env s = (case main s of
     Parsing as \<Rightarrow> 2 + sum_list (map (\<lambda>a. 3 + length (wanted env a)) as) | Receiving \<Rightarrow> 1 | Returned _ \<Rightarrow> 0)
     + sum_list (map (job_left env) (jobs s))"

lemma ra_left_job:
  assumes "i < length js" and "job_left env x < job_left env (js ! i)"
  shows "sum_list (map (job_left env) (js[i := x])) < sum_list (map (job_left env) js)"
  using sum_map_update [OF assms(1), of "job_left env" x] assms(2) by simp

lemma ra_left_step: "ra_step env s s' \<Longrightarrow> ra_left env s' < ra_left env s"
proof (induction rule: ra_step.induct)
  case (ra_failed i s m e)
  then show ?case
    using ra_left_job [of i "jobs s" env "Failing e"] by (simp add: ra_left_def job_left_def)
next
  case (ra_error i s e)
  then show ?case
    using ra_left_job [of i "jobs s" env Finished] by (simp add: ra_left_def job_left_def)
next
  case (ra_found i s m rs)
  then show ?case
    using ra_left_job [of i "jobs s" env "Sending rs"] by (simp add: ra_left_def job_left_def unsent_def)
next
  case (ra_send s i r rs)
  then show ?case
    using ra_left_job [of i "jobs s" env "if rs = [] then Finished else Sending rs"]
    by (simp add: ra_left_def job_left_def split del: if_split) (simp add: job_left_def)
qed (auto simp: ra_left_def job_left_def wanted_def unsent_def)

text \<open>C14: resolving addresses in parallel. However the goroutines interleave, until the call has returned some step is possible and no goroutine waits for
  room in the error channel, which holds as many errors as there are arguments; and every step brings the call closer to its end. It returns without an error only if no argument fails, with exactly the addresses the arguments
  stand for; and an error it returns is one of an argument.\<close>

theorem resolve_addresses_ends:
  assumes "(ra_step env)\<^sup>*\<^sup>* (resolveAddresses_start addrs) s"
  shows "(\<forall>s'. ra_step env s s' \<longrightarrow> ra_left env s' < ra_left env s)
    \<and> (case main s of
         Returned (Inr ms) \<Rightarrow> mset ms = mset (concat (map (wanted env) addrs)) \<and> (\<forall>a \<in> set addrs. arg_error env a = None)
       | Returned (Inl e) \<Rightarrow> \<exists>a \<in> set addrs. arg_error env a = Some e
       | _ \<Rightarrow> (\<exists>s'. ra_step env s s') \<and> (\<forall>i < length (jobs s). \<forall>e. jobs s ! i = Failing e \<longrightarrow> length (errC s) < errCap s))"
proof -
  note inv = ra_inv_reach [OF assms]
  show ?thesis
    using ra_left_step [of env s] ra_progress [OF inv] ra_room [OF inv] inv
    by (auto simp: ra_inv_def ra_result_def split: ra_main.splits sum.splits)
qed

definition ex_ra_env :: "string ra_env" where
  "ex_ra_env = \<lparr>NewMultiaddr = (\<lambda>a. if a = [] then Inl ''empty multiaddr'' else Inr a), ends_ipfs = (\<lambda>m. last m = CHR ''p''),
     dns_Resolve = (\<lambda>m. Inr [m @ ''p'', m]), addr_text = id\<rparr>"

lemma ex_ra_run:
  "(ra_step ex_ra_env)\<^sup>*\<^sup>* (resolveAddresses_start [''d'', ''p'']) \<lparr>main = Returned (Inr [''p'', ''dp'']), maddrs = [''p'', ''dp''], jobs = [Finished], errCap = 2, errC = []\<rparr>"
proof -
  let ?e = ex_ra_env
  have n: "NewMultiaddr ?e ''d'' = Inr ''d''" "\<not> ends_ipfs ?e ''d''" "NewMultiaddr ?e ''p'' = Inr ''p''" "ends_ipfs ?e ''p''"
      "found_addrs ?e ''d'' = Inr [''dp'']"
    by (simp_all add: ex_ra_env_def found_addrs_def)
  have 1: "ra_step ?e (resolveAddresses_start [''d'', ''p'']) \<lparr>main = Parsing [''p''], maddrs = [], jobs = [Resolving ''d''], errCap = 2, errC = []\<rparr>"
    using ra_spawn [of "resolveAddresses_start [''d'', ''p'']" "''d''" "[''p'']" ?e "''d''"] n by (simp add: resolveAddresses_start_def numeral_2_eq_2)
  have 2: "ra_step ?e \<lparr>main = Parsing [''p''], maddrs = [], jobs = [Resolving ''d''], errCap = 2, errC = []\<rparr> \<lparr>main = Parsing [], maddrs = [''p''], jobs = [Resolving ''d''], errCap = 2, errC = []\<rparr>"
    using ra_direct [of "\<lparr>main = Parsing [''p''], maddrs = [], jobs = [Resolving ''d''], errCap = 2, errC = []\<rparr>" "''p''" "[]" ?e "''p''"] n by simp
  have 3: "ra_step ?e \<lparr>main = Parsing [], maddrs = [''p''], jobs = [Resolving ''d''], errCap = 2, errC = []\<rparr> \<lparr>main = Receiving, maddrs = [''p''], jobs = [Resolving ''d''], errCap = 2, errC = []\<rparr>"
    using ra_parsed [of "\<lparr>main = Parsing [], maddrs = [''p''], jobs = [Resolving ''d''], errCap = 2, errC = []\<rparr>" ?e] by simp
  have 4: "ra_step ?e \<lparr>main = Receiving, maddrs = [''p''], jobs = [Resolving ''d''], errCap = 2, errC = []\<rparr> \<lparr>main = Receiving, maddrs = [''p''], jobs = [Sending [''dp'']], errCap = 2, errC = []\<rparr>"
    using ra_found [of 0 "\<lparr>main = Receiving, maddrs = [''p''], jobs = [Resolving ''d''], errCap = 2, errC = []\<rparr>" "''d''" ?e "[''dp'']"] n by simp
  have 5: "ra_step ?e \<lparr>main = Receiving, maddrs = [''p''], jobs = [Sending [''dp'']], errCap = 2, errC = []\<rparr> \<lparr>main = Receiving, maddrs = [''p'', ''dp''], jobs = [Finished], errCap = 2, errC = []\<rparr>"
    using ra_send [of "\<lparr>main = Receiving, maddrs = [''p''], jobs = [Sending [''dp'']], errCap = 2, errC = []\<rparr>" 0 "''dp''" "[]" ?e] by simp
  have 6: "ra_step ?e \<lparr>main = Receiving, maddrs = [''p'', ''dp''], jobs = [Finished], errCap = 2, errC = []\<rparr>
      \<lparr>main = Returned (Inr [''p'', ''dp'']), maddrs = [''p'', ''dp''], jobs = [Finished], errCap = 2, errC = []\<rparr>"
    using ra_return [of "\<lparr>main = Receiving, maddrs = [''p'', ''dp''], jobs = [Finished], errCap = 2, errC = []\<rparr>" ?e] by simp
  show ?thesis
    using 1 2 3 4 5 6 by (meson converse_rtranclp_into_rtranclp rtranclp.rtrancl_refl)
qed

theorem resolve_addresses_ends_witness:
  "mset [''p'', ''dp''] = mset (concat (map (wanted ex_ra_env) [''d'', ''p''])) \<and> arg_error ex_ra_env ''d'' = None"
  using resolve_addresses_ends [OF ex_ra_run] by simp

text \<open>
  An argument that does not parse ends the call while goroutines are still resolving: nobody receives what they find, and they
  wait forever.
\<close>

lemma ra_leak:
  assumes "ra_step env s s'" and "main s = Returned r" and "i < length (jobs s)" and "jobs s ! i = Sending rs"
  shows "main s' = Returned r \<and> i < length (jobs s') \<and> jobs s' ! i = Sending rs"
  using assms by (induction rule: ra_step.induct) (auto simp: nth_list_update)

lemma ra_leak_forever:
  assumes "(ra_step env)\<^sup>*\<^sup>* s s'" and "main s = Returned r" and "i < length (jobs s)" and "jobs s ! i = Sending rs"
  shows "i < length (jobs s') \<and> jobs s' ! i = Sending rs"
proof -
  have "main s' = Returned r \<and> i < length (jobs s') \<and> jobs s' ! i = Sending rs"
    using assms by (induction rule: rtranclp_induct) (use ra_leak in blast)+
  then show ?thesis
    by simp
qed


lemma ra_leak_reachable:
  "\<exists>s. (ra_step ex_ra_env)\<^sup>*\<^sup>* (resolveAddresses_start [''d'', []]) s \<and> main s = Returned (Inl ''empty multiaddr'') \<and> jobs s = [Sending [''dp'']]"
proof -
  let ?e = ex_ra_env and ?s1 = "\<lparr>main = Parsing [[]], maddrs = [], jobs = [Resolving ''d''], errCap = 2, errC = []\<rparr>"
    and ?s2 = "\<lparr>main = Returned (Inl ''empty multiaddr''), maddrs = [], jobs = [Resolving ''d''], errCap = 2, errC = []\<rparr>"
  have n: "NewMultiaddr ?e ''d'' = Inr ''d''" "\<not> ends_ipfs ?e ''d''" "NewMultiaddr ?e [] = Inl ''empty multiaddr''"
      "found_addrs ?e ''d'' = Inr [''dp'']"
    by (simp_all add: ex_ra_env_def found_addrs_def)
  have 1: "ra_step ?e (resolveAddresses_start [''d'', []]) ?s1"
    using ra_spawn [of "resolveAddresses_start [''d'', []]" "''d''" "[[]]" ?e "''d''"] n by (simp add: resolveAddresses_start_def numeral_2_eq_2)
  have 2: "ra_step ?e ?s1 ?s2"
    using ra_bad [of ?s1 "[]" "[]" ?e] n by simp
  have 3: "ra_step ?e ?s2 (?s2\<lparr>jobs := [Sending [''dp'']]\<rparr>)"
    using ra_found [of 0 ?s2 "''d''" ?e "[''dp'']"] n by simp
  have "(ra_step ?e)\<^sup>*\<^sup>* (resolveAddresses_start [''d'', []]) (?s2\<lparr>jobs := [Sending [''dp'']]\<rparr>)"
    using 1 2 3 by (meson converse_rtranclp_into_rtranclp rtranclp.rtrancl_refl)
  then show ?thesis
    by fastforce
qed

end
