(* ===== verification/Spec2Isabelle.thy ===== *)
theory Spec2Isabelle
  imports Keystore OnlyOne CoreRepo Blockstores ReqLog CmdContext Peering P2P Linker NamePublisher Hostname KeyAPI Refs PluginLoader FSRepo PinVerify ConfigCmd BootstrapCmd TarFmt Adder Gateway Migrations FilesCmd DagCmd SwarmCmd
begin

text \<open>
  This development verifies parts of bustlinker, a node of the InterPlanetary File System with an added
  \<^emph>\<open>linker\<close> that exchanges addresses and pins between nodes. Paths like \<open>gc/gc.go\<close> are below \<open>src\<close>.

  \<^bold>\<open>How the program is modelled.\<close> A Go function is an Isabelle function of the same name on the state it changes; a
  struct is a record, an interface value or tagged union a datatype, and a result with an error is a sum
  with the error on the left (\<open>result\<close> of the theory Prelude). Every early return and panic is a branch. Code
  that is not part of the repository (libp2p, the graph, pinning and mutable file system packages, the
  operating system) is a parameter: a field of an environment record, or an argument that says what a call
  returns. Where a theorem needs more than the type of a parameter, a predicate whose name ends in \<open>law\<close>
  or \<open>laws\<close> states the documented behaviour, and a witness instantiates it. The order of a map, the
  result of a random choice, a cancellation and the moment of a fault are parameters too, so theorems hold
  for all of them. Goroutines are steps of inductive relations where they share state. Integers are words
  where the code can overflow, and natural numbers or integers elsewhere.

  \<^bold>\<open>Parts and theories.\<close>

  \<^item> Storage. The theory GC has the collector of \<open>gc/gc.go\<close>: marking from the pins, then sweeping; CoreRepo has its limits
    and schedule (\<open>core/corerepo\<close>); Blockstores the wrappers of blockstores (\<open>thirdparty/cidv0v1\<close>, \<open>thirdparty/verifbs\<close>) and the
    removal of blocks (\<open>blocks/blockstoreutil\<close>); PinVerify the pin commands and API (\<open>core/commands/pin.go\<close>,
    \<open>core/coreapi/pin.go\<close>); Adder the adding of files (\<open>core/coreunix/add.go\<close>), which must not lose what it
    has added to a collection that runs meanwhile; Refs the listing of references (\<open>core/commands/refs.go\<close>);
    TarFmt tar archives as graphs (\<open>tar/format.go\<close>). The theorems say what a collection deletes and what it never
    deletes, that a pin is reported as valid exactly if everything below it can be read, that the lock
    between adding and collecting is only given up when the data is pinned, that \<open>refs --unique\<close> lists what is within the
    depth limit exactly once, and that reading an archive yields exactly its bytes.
  \<^item> Keys and names. Keystore has the two keystores (\<open>keystore\<close>) on top of the file name encoding (Base32); KeyAPI the
    API above them (\<open>core/coreapi/key.go\<close>, \<open>name.go\<close>); Namesys resolution with its cache, DNS and routing
    (\<open>namesys\<close>); NamePublisher publication and republication (\<open>namesys/publisher.go\<close>, \<open>namesys/republisher\<close>). The store in a
    directory refines the one in memory, but for the result of deleting what is not there; resolution follows chains exactly up to the depth limit;
    sequence numbers grow exactly when a value changes; republication renews every record and
    changes none.
  \<^item> Repository. OnlyOne shares open repositories (\<open>repo/onlyone.go\<close>); GoJson and GoPath hold the parts of the standard
    library and \<open>repo/common\<close> for nested maps and paths; DsConfig the datastore configurations
    (\<open>repo/fsrepo/datastores.go\<close> and the three datastore plugins); FSRepo the repository on disk (\<open>repo/fsrepo\<close>, \<open>config\<close>);
    ConfigCmd the config command; PluginLoader the plugin loader (\<open>plugin/loader\<close>); Migrations the choice and
    execution of the migration binary (\<open>repo/fsrepo/migrations\<close>). Theorems: a repository is closed exactly
    once, the lock is held exactly while open, the private key survives every change of a configuration key (and
    in a repository made by \<open>Init\<close> no such change succeeds),
    plugins are closed exactly once and only after they were started, and only a binary that supports the
    version is run.
  \<^item> Network. Peering keeps connections (\<open>peering\<close>); P2P forwards streams (\<open>p2p\<close>); BootstrapCmd has the bootstrap list and the
    rounds of dialling (\<open>core/commands/bootstrap.go\<close>, \<open>core/bootstrap\<close>); SwarmCmd the address filters and the parallel
    resolution of addresses (\<open>core/commands/swarm.go\<close>); LinkCache and Linker the linker (\<open>linker\<close>). Theorems: a peer that is not
    connected is going to be retried, as long as a dialled connection lasts until it is checked, the counters of streams are exact, a round dials exactly
    what is missing, and what one linker writes the other reads back and merges.
  \<^item> HTTP and commands. Hostname and Gateway are the gateway (\<open>core/corehttp\<close>); ReqLog and CmdContext the bookkeeping of
    commands (\<open>commands\<close>); FilesCmd the commands on the mutable file system (\<open>core/commands/files.go\<close>); DagCmd the import of archives of
    blocks, putting nodes and statistics (\<open>core/commands/dag\<close>). Theorems: redirects settle, only immutable content is marked as
    such, a read-only gateway changes nothing, what is written to a file is read back, a removal unlinks the name its path leads to, an import pins nothing before everything is read and committed, and the log of requests keeps the active ones.

  \<^bold>\<open>Shared structure.\<close> Prelude has the result type, Go's string functions and the collections of simplification rules.
  The interface of keystores is the locale \<open>keystore\<close>, interpreted as \<open>mem\<close> and \<open>fs\<close>, and the API in KeyAPI and the
  republisher use its facts; the fetching of links in the collector is the locale \<open>link_fetcher\<close>, interpreted
  for pins and for best-effort roots. Relations for interleavings are \<open>oo_step\<close>, \<open>ps_step\<close>, \<open>loader_step\<close>, \<open>boot_step\<close>, \<open>ra_step\<close>, \<open>rl_reach\<close>, \<open>resolveAsync\<close> and
  \<open>dns_loop\<close>, with invariants by rule induction.

  \<^bold>\<open>Bounds.\<close> The nesting of pin verification is bounded by a number; \<open>pin_verify_terminates\<close> shows that the height of the graph is
  enough, and \<open>cycle_never_ends\<close> that no number is for a cycle. The reads of an exported archive are bounded by a number that the
  relation \<open>archive\<close> computes, and \<open>tar_export_exact\<close> shows that it is enough. Two rounds are enough for the loop of the
  lazy seeker. The walk that measures what is local needs the height of the graph (\<open>walk_block_exact\<close>). Recursive resolution carries the depth limit of the code.

  \<^bold>\<open>Not modelled.\<close> The command line and the daemon (\<open>cmd\<close>), which read options and wire the parts together; the construction
  of the node by dependency injection (\<open>core/node\<close>, \<open>core/builder.go\<close>), whose effect is that of the library; the
  FUSE file systems (\<open>fuse\<close>), which forward calls of the kernel to packages outside the repository; most other
  commands and API methods (\<open>core/commands\<close>, \<open>core/coreapi\<close>), which mostly read options, make library calls and
  print the result, a few of them in loops over the events of routing and remote pinning packages; the git and peer log plugins, the IPLD formats (\<open>core/coredag\<close>), assets, tests and examples.
  Metrics and log messages are left out everywhere. Timing is not modelled: a timer may fire at any time
  after it was armed.
\<close>

end
